(* ===== verification/Prelude.thy ===== *)
theory Prelude
  imports Main "HOL-Library.Word"
begin

text \<open>
  Shared material of the development: the result type of fallible operations, its bind, the
  machine-integer type synonyms of the C code and the small generic lemmas on lists that several
  components use.

  A C function that may hit an \<^verbatim>\<open>assert\<close>, read outside an allocation or call one of the
  \<^verbatim>\<open>shd_error\<close> family is modelled as a function into \<open>error + 'a\<close>: \<open>Inl\<close> carries what went
  wrong, \<open>Inr\<close> the result. A loop whose termination rests on an invariant runs on fuel and
  answers \<open>Inl OutOfFuel\<close> when it runs out; the component then proves that it never does.
\<close>

named_theorems shady_simps "unfolding rules of the component models"

subsection \<open>Results\<close>

datatype error =
    AssertFailed          \<comment> \<open>a failed \<^verbatim>\<open>assert\<close>\<close>
  | OutOfBounds           \<comment> \<open>a read or write outside the allocation\<close>
  | OutOfFuel             \<comment> \<open>the model's loop bound was hit\<close>
  | NullDeref             \<comment> \<open>a \<^verbatim>\<open>NULL\<close> pointer is followed\<close>
  | DivisionByZero        \<comment> \<open>integer division by zero, which traps\<close>
  | BadShift              \<comment> \<open>a shift by the width of the type or more\<close>
  | ShdError string       \<comment> \<open>\<^verbatim>\<open>shd_error\<close> / \<^verbatim>\<open>shd_error_die\<close>\<close>

type_synonym 'a result = "error + 'a"

definition bind_res :: "'a result \<Rightarrow> ('a \<Rightarrow> 'b result) \<Rightarrow> 'b result" where
  "bind_res r f = (case r of Inl e \<Rightarrow> Inl e | Inr a \<Rightarrow> f a)"

lemma bind_res_simps [simp]:
  "bind_res (Inl e) f = Inl e"
  "bind_res (Inr a) f = f a"
  by (simp_all add: bind_res_def)

lemma bind_res_Inr_iff: "bind_res r f = Inr b \<longleftrightarrow> (\<exists>a. r = Inr a \<and> f a = Inr b)"
  by (cases r) auto

lemma bind_res_InrE:
  assumes "bind_res r f = Inr b"
  obtains a where "r = Inr a" and "f a = Inr b"
  using assms by (auto simp: bind_res_Inr_iff)

definition is_ok :: "'a result \<Rightarrow> bool" where
  "is_ok r = (case r of Inl _ \<Rightarrow> False | Inr _ \<Rightarrow> True)"

lemma is_ok_simps [simp]: "is_ok (Inr a)" "\<not> is_ok (Inl e)"
  by (simp_all add: is_ok_def)

lemma is_ok_iff: "is_ok r \<longleftrightarrow> (\<exists>a. r = Inr a)"
  by (cases r) auto

text \<open>An assertion followed by the rest of the code, and the loops that check or map lists.\<close>

definition require :: "bool \<Rightarrow> 'a result \<Rightarrow> 'a result" where
  "require b r = (if b then r else Inl AssertFailed)"

lemma require_Inr [simp]: "require b r = Inr a \<longleftrightarrow> b \<and> r = Inr a"
  by (simp add: require_def)

lemma require_simps [simp]: "require True r = r" "require False r = Inl AssertFailed"
  by (simp_all add: require_def)

fun map_res :: "('a \<Rightarrow> 'b result) \<Rightarrow> 'a list \<Rightarrow> 'b list result" where
  "map_res f [] = Inr []"
| "map_res f (x # xs) = bind_res (f x) (\<lambda>y. bind_res (map_res f xs) (\<lambda>ys. Inr (y # ys)))"

fun all_res :: "('a \<Rightarrow> bool result) \<Rightarrow> 'a list \<Rightarrow> bool result" where
  "all_res f [] = Inr True"
| "all_res f (x # xs) = bind_res (f x) (\<lambda>b. if b then all_res f xs else Inr False)"

lemma map_res_cong [fundef_cong]:
  "xs = ys \<Longrightarrow> (\<And>x. x \<in> set ys \<Longrightarrow> f x = g x) \<Longrightarrow> map_res f xs = map_res g ys"
  by (induction xs arbitrary: ys) auto

lemma all_res_cong [fundef_cong]:
  "xs = ys \<Longrightarrow> (\<And>x. x \<in> set ys \<Longrightarrow> f x = g x) \<Longrightarrow> all_res f xs = all_res g ys"
  by (induction xs arbitrary: ys) (auto cong: if_cong)

lemma bind_res_cong [fundef_cong]:
  "r = s \<Longrightarrow> (\<And>a. s = Inr a \<Longrightarrow> f a = g a) \<Longrightarrow> bind_res r f = bind_res s g"
  by (cases s) auto

lemma map_res_Inr: "map_res f xs = Inr ys \<longleftrightarrow> list_all2 (\<lambda>x y. f x = Inr y) xs ys"
  by (induction xs arbitrary: ys) (auto simp: bind_res_Inr_iff list_all2_Cons1)

lemma all_res_True: "all_res f xs = Inr True \<longleftrightarrow> (\<forall>x \<in> set xs. f x = Inr True)"
  by (induction xs) (auto simp: bind_res_Inr_iff)

text \<open>An assertion of the C code.\<close>

definition assert_res :: "bool \<Rightarrow> unit result" where
  "assert_res b = (if b then Inr () else Inl AssertFailed)"

lemma assert_res_simps [simp]:
  "assert_res True = Inr ()"
  "assert_res False = Inl AssertFailed"
  by (simp_all add: assert_res_def)

lemma assert_res_Inr_iff [simp]: "assert_res b = Inr u \<longleftrightarrow> b"
  by (simp add: assert_res_def)

text \<open>A loop over a list that stops at the first error.\<close>

primrec fold_res :: "('a \<Rightarrow> 's \<Rightarrow> 's result) \<Rightarrow> 'a list \<Rightarrow> 's \<Rightarrow> 's result" where
  "fold_res f [] s = Inr s"
| "fold_res f (x # xs) s = bind_res (f x s) (fold_res f xs)"

lemma fold_res_append:
  "fold_res f (xs @ ys) s = bind_res (fold_res f xs s) (fold_res f ys)"
  by (induction xs arbitrary: s) (auto simp: bind_res_def split: sum.splits)

text \<open>An invariant that every step keeps is kept by the loop.\<close>

lemma fold_res_invariant:
  assumes "fold_res f xs s = Inr t" and "P s"
    and "\<And>x s t. x \<in> set xs \<Longrightarrow> P s \<Longrightarrow> f x s = Inr t \<Longrightarrow> P t"
  shows "P t"
  using assms
proof (induction xs arbitrary: s)
  case (Cons x xs)
  then show ?case by (auto elim!: bind_res_InrE)
qed simp

text \<open>Results that do not stem from a loop bound of the model: the code returns, with a result or an error.\<close>

definition terminates :: "'a result \<Rightarrow> bool" where
  "terminates r \<longleftrightarrow> r \<noteq> Inl OutOfFuel"

lemma terminates_simps [simp]:
  "terminates (Inr a)" "terminates (Inl e) \<longleftrightarrow> e \<noteq> OutOfFuel" "terminates (require b r) \<longleftrightarrow> b \<longrightarrow> terminates r"
  by (simp_all add: terminates_def require_def)

lemma terminates_bind [intro!]: "terminates r \<Longrightarrow> (\<And>a. r = Inr a \<Longrightarrow> terminates (f a)) \<Longrightarrow> terminates (bind_res r f)"
  by (cases r) auto

lemma terminates_map_res: "(\<And>x. x \<in> set xs \<Longrightarrow> terminates (f x)) \<Longrightarrow> terminates (map_res f xs)"
  by (induction xs) auto

lemma terminates_fold_res:
  assumes "P s" and "\<And>x s. x \<in> set xs \<Longrightarrow> P s \<Longrightarrow> terminates (f x s)"
    and "\<And>x s t. x \<in> set xs \<Longrightarrow> P s \<Longrightarrow> f x s = Inr t \<Longrightarrow> P t"
  shows "terminates (fold_res f xs s)"
  using assms
proof (induction xs arbitrary: s)
  case (Cons x xs)
  have "terminates (fold_res f xs t)" if "f x s = Inr t" for t
  proof (rule Cons.IH)
    show "P t" using Cons.prems(1) Cons.prems(3) [of x s t] that by simp
    show "terminates (f y u)" if "y \<in> set xs" "P u" for y u using that Cons.prems(2) by simp
    show "P v" if "y \<in> set xs" "P u" "f y u = Inr v" for y u v using that Cons.prems(3) [of y u v] by simp
  qed
  moreover have "terminates (f x s)" using Cons.prems(1,2) by simp
  ultimately show ?case by (simp add: terminates_bind)
qed simp

subsection \<open>Machine integers\<close>

type_synonym u8 = "8 word"
type_synonym u32 = "32 word"
type_synonym u64 = "64 word"

subsection \<open>Lists\<close>

lemma length_filter_update:
  assumes "i < length xs"
  shows "length (filter P (xs[i := y])) + (if P (xs ! i) then 1 else 0)
       = length (filter P xs) + (if P y then 1 else 0)"
  using assms
proof (induction xs arbitrary: i)
  case (Cons x xs)
  then show ?case by (cases i) auto
qed simp

lemma take_Suc_update: "i < length xs \<Longrightarrow> take (Suc i) (xs[i := y]) = take i xs @ [y]"
  by (simp add: take_Suc_conv_app_nth)

lemma set_takeWhile_mono:
  assumes "\<And>x. x \<in> set xs \<Longrightarrow> P x \<Longrightarrow> Q x"
  shows "set (takeWhile P xs) \<subseteq> set (takeWhile Q xs)"
  using assms by (induction xs) auto

lemma in_takeWhile_append: "\<forall>y \<in> set ys. P y \<Longrightarrow> P x \<Longrightarrow> x \<in> set (takeWhile P (ys @ x # zs))"
  by (simp add: takeWhile_append2)

lemma takeWhile_before:
  "q \<in> set (takeWhile P xs) \<Longrightarrow> f \<in> set (takeWhile (\<lambda>x. x \<noteq> q) xs) \<Longrightarrow> f \<in> set (takeWhile P xs)"
  by (induction xs) (auto split: if_splits)

lemma find_split:
  assumes "List.find P xs = Some x"
  obtains ys zs where "xs = ys @ x # zs" "P x" "\<forall>y \<in> set ys. \<not> P y"
proof -
  from assms obtain i where i: "i < length xs" "P (xs ! i)" "x = xs ! i" "\<forall>j < i. \<not> P (xs ! j)"
    by (auto simp: find_Some_iff)
  then have "xs = take i xs @ x # drop (Suc i) xs" by (simp add: id_take_nth_drop)
  moreover have "\<forall>y \<in> set (take i xs). \<not> P y"
    using i by (auto simp: in_set_conv_nth)
  ultimately show thesis using that i by blast
qed

lemma filter_less_length:
  assumes "x \<in> set xs" and "\<not> P x"
  shows "length (filter P xs) < length xs"
  using assms by (rule length_filter_less)

lemma length_filter_pos: "0 < length (filter P xs) \<longleftrightarrow> (\<exists>x \<in> set xs. P x)"
  by (induction xs) auto

lemma length_filter_all: "length (filter P xs) = length xs \<longleftrightarrow> (\<forall>x \<in> set xs. P x)"
proof
  assume "length (filter P xs) = length xs"
  then show "\<forall>x \<in> set xs. P x" using length_filter_less [of _ xs P] by force
qed (simp add: filter_id_conv)

end
