(* ===== verification/ListC.thy ===== *)
theory ListC
  imports Prelude
begin

text \<open>
  The growable array of \<^verbatim>\<open>src/common/list.c\<close>. A list is the count of live elements, the
  capacity and the allocation. The allocation is modelled cell by cell: \<open>None\<close> is memory that
  \<^verbatim>\<open>malloc\<close> or \<^verbatim>\<open>realloc\<close> left uninitialised, \<open>Some x\<close> a stored element; the element size
  scales every offset by the same factor, so cells stand for \<^verbatim>\<open>element_size\<close> bytes each. Reads
  and writes outside the allocation are \<open>Inl OutOfBounds\<close>. The theory proves that each operation
  refines the list operation it stands for, and that \<^verbatim>\<open>shd_list_remove_impl\<close> reads one cell too
  far, which leaves the allocation when the list is full.
\<close>

subsection \<open>State and operations\<close>

record 'a clist =
  elements_count :: nat
  space :: nat
  cells :: "'a option list"

definition shd_new_list :: "'a clist" where
  "shd_new_list = \<lparr>elements_count = 0, space = 8, cells = replicate 8 None\<rparr>"

definition shd_list_count :: "'a clist \<Rightarrow> nat" where
  "shd_list_count l = elements_count l"

text \<open>\<^verbatim>\<open>realloc\<close> keeps the old cells and adds uninitialised ones.\<close>

definition grow_list :: "'a clist \<Rightarrow> 'a clist" where
  "grow_list l =
     l\<lparr>space := space l * 2,
       cells := cells l @ replicate (space l * 2 - length (cells l)) None\<rparr>"

text \<open>\<^verbatim>\<open>memmove\<close> and \<^verbatim>\<open>memcpy\<close> of one element, on cells.\<close>

definition memmove :: "nat \<Rightarrow> nat \<Rightarrow> nat \<Rightarrow> 'c list \<Rightarrow> 'c list result" where
  "memmove dst src n cs =
     (if n = 0 then Inr cs
      else if dst + n \<le> length cs \<and> src + n \<le> length cs
      then Inr (take dst cs @ take n (drop src cs) @ drop (dst + n) cs)
      else Inl OutOfBounds)"

definition write_cell :: "nat \<Rightarrow> 'c \<Rightarrow> 'c list \<Rightarrow> 'c list result" where
  "write_cell i c cs = (if i < length cs then Inr (cs[i := c]) else Inl OutOfBounds)"

definition read_cell :: "nat \<Rightarrow> 'c list \<Rightarrow> 'c result" where
  "read_cell i cs = (if i < length cs then Inr (cs ! i) else Inl OutOfBounds)"

definition shd_list_append_impl :: "'a clist \<Rightarrow> 'a \<Rightarrow> 'a clist result" where
  "shd_list_append_impl l x =
     (let l = (if elements_count l = space l then grow_list l else l)
      in bind_res (write_cell (elements_count l) (Some x) (cells l))
           (\<lambda>cs. Inr (l\<lparr>cells := cs, elements_count := elements_count l + 1\<rparr>)))"

definition shd_list_pop_impl :: "'a clist \<Rightarrow> ('a option \<times> 'a clist) result" where
  "shd_list_pop_impl l =
     bind_res (assert_res (elements_count l > 0)) (\<lambda>_.
       let l = l\<lparr>elements_count := elements_count l - 1\<rparr>
       in bind_res (read_cell (elements_count l) (cells l)) (\<lambda>c. Inr (c, l)))"

text \<open>
  \<^verbatim>\<open>amount\<close> is an unsigned difference: an index past the count wraps to a huge move, outside
  any allocation.
\<close>

definition shd_list_insert_impl :: "'a clist \<Rightarrow> nat \<Rightarrow> 'a \<Rightarrow> 'a clist result" where
  "shd_list_insert_impl l index x =
     (let old_elements_count = elements_count l;
          l = (if elements_count l = space l then grow_list l else l)
      in if index > old_elements_count then Inl OutOfBounds
         else let amount = old_elements_count - index
              in bind_res (memmove (index + 1) index amount (cells l)) (\<lambda>cs.
                 bind_res (write_cell index (Some x) cs) (\<lambda>cs.
                   Inr (l\<lparr>cells := cs, elements_count := elements_count l + 1\<rparr>))))"

definition shd_list_remove_impl ::
  "'a clist \<Rightarrow> nat \<Rightarrow> bool \<Rightarrow> ('a option option \<times> 'a clist) result" where
  "shd_list_remove_impl l index move_to_end =
     (let old_elements_count = elements_count l
      in if index > old_elements_count then Inl OutOfBounds
         else let amount = old_elements_count - index
              in bind_res (if move_to_end then read_cell index (cells l) else Inr None) (\<lambda>temp.
                 bind_res (memmove index (index + 1) amount (cells l)) (\<lambda>cs.
                   let n = elements_count l - 1
                   in if \<not> move_to_end
                      then Inr (None, l\<lparr>cells := cs, elements_count := n\<rparr>)
                      else bind_res (write_cell n temp cs) (\<lambda>cs.
                             Inr (Some temp, l\<lparr>cells := cs, elements_count := n\<rparr>)))))"

definition shd_clear_list :: "'a clist \<Rightarrow> 'a clist" where
  "shd_clear_list l = l\<lparr>elements_count := 0\<rparr>"

lemmas list_ops_defs =
  shd_list_append_impl_def shd_list_pop_impl_def shd_list_insert_impl_def
  shd_list_remove_impl_def shd_clear_list_def grow_list_def
  memmove_def write_cell_def read_cell_def

subsection \<open>Invariant and abstraction\<close>

definition list_inv :: "'a clist \<Rightarrow> bool" where
  "list_inv l \<longleftrightarrow>
     length (cells l) = space l \<and> 0 < space l \<and> elements_count l \<le> space l \<and>
     (\<forall>c \<in> set (take (elements_count l) (cells l)). c \<noteq> None)"

definition list_abs :: "'a clist \<Rightarrow> 'a list" where
  "list_abs l = map the (take (elements_count l) (cells l))"

lemma list_inv_new [simp]: "list_inv shd_new_list"
  by (simp add: list_inv_def shd_new_list_def)

lemma list_abs_new [simp]: "list_abs shd_new_list = []"
  by (simp add: list_abs_def shd_new_list_def)

lemma list_inv_clear: "list_inv l \<Longrightarrow> list_inv (shd_clear_list l)"
  by (simp add: list_inv_def shd_clear_list_def)

lemma list_abs_clear [simp]: "list_abs (shd_clear_list l) = []"
  by (simp add: list_abs_def shd_clear_list_def)

lemma length_list_abs: "list_inv l \<Longrightarrow> length (list_abs l) = elements_count l"
  by (simp add: list_inv_def list_abs_def)

lemma list_inv_grow: "list_inv l \<Longrightarrow> list_inv (grow_list l)"
  by (simp add: list_inv_def grow_list_def)

lemma list_abs_grow: "list_inv l \<Longrightarrow> list_abs (grow_list l) = list_abs l"
  by (simp add: list_inv_def list_abs_def grow_list_def)

text \<open>A list with room, from which all writing operations start.\<close>

definition make_room :: "'a clist \<Rightarrow> 'a clist" where
  "make_room l = (if elements_count l = space l then grow_list l else l)"

lemma make_room:
  assumes "list_inv l"
  shows "list_inv (make_room l)" "list_abs (make_room l) = list_abs l"
    "elements_count (make_room l) = elements_count l"
    "elements_count l < length (cells (make_room l))"
  using assms list_inv_grow [OF assms] list_abs_grow [OF assms]
  by (auto simp: make_room_def grow_list_def list_inv_def)

subsection \<open>Each operation refines its list operation\<close>

lemma append_step:
  assumes "list_inv l"
  shows "\<exists>l'. shd_list_append_impl l x = Inr l' \<and> list_inv l' \<and> list_abs l' = list_abs l @ [x]"
proof -
  define m where "m = make_room l"
  note m = make_room [OF assms, folded m_def]
  let ?l' = "m\<lparr>cells := (cells m)[elements_count l := Some x],
               elements_count := elements_count l + 1\<rparr>"
  have "shd_list_append_impl l x = Inr ?l'"
    using m by (simp add: shd_list_append_impl_def write_cell_def m_def make_room_def Let_def)
  moreover have "list_inv ?l'" and "list_abs ?l' = list_abs l @ [x]"
    using m by (auto simp: list_inv_def list_abs_def take_Suc_update)
  ultimately show ?thesis by blast
qed

lemma pop_step:
  assumes "list_inv l" and "list_abs l \<noteq> []"
  shows "\<exists>l'. shd_list_pop_impl l = Inr (Some (last (list_abs l)), l') \<and> list_inv l'
            \<and> list_abs l' = butlast (list_abs l)"
proof -
  from assms obtain n where n: "elements_count l = Suc n"
    by (cases "elements_count l") (auto simp: list_abs_def)
  with assms(1) have len: "n < length (cells l)"
    by (simp add: list_inv_def)
  have tk: "take (Suc n) (cells l) = take n (cells l) @ [cells l ! n]"
    using len by (rule take_Suc_conv_app_nth)
  with assms(1) n obtain x where x: "cells l ! n = Some x"
    by (auto simp: list_inv_def)
  have "shd_list_pop_impl l = Inr (Some x, l\<lparr>elements_count := n\<rparr>)"
    using n len x by (simp add: shd_list_pop_impl_def read_cell_def)
  moreover have "last (list_abs l) = x" "butlast (list_abs l) = list_abs (l\<lparr>elements_count := n\<rparr>)"
    using n tk x by (simp_all add: list_abs_def)
  moreover have "list_inv (l\<lparr>elements_count := n\<rparr>)"
    using assms(1) n tk by (auto simp: list_inv_def)
  ultimately show ?thesis by simp
qed

lemma pop_empty: "elements_count l = 0 \<Longrightarrow> shd_list_pop_impl l = Inl AssertFailed"
  by (simp add: shd_list_pop_impl_def)

lemma insert_step:
  assumes "list_inv l" and "i \<le> elements_count l"
  shows "\<exists>l'. shd_list_insert_impl l i x = Inr l' \<and> list_inv l'
            \<and> list_abs l' = take i (list_abs l) @ x # drop i (list_abs l)"
proof -
  define m where "m = make_room l"
  note m = make_room [OF assms(1), folded m_def]
  let ?n = "elements_count l"
  let ?cs = "take i (cells m) @ Some x # take (?n - i) (drop i (cells m)) @ drop (?n + 1) (cells m)"
  let ?l' = "m\<lparr>cells := ?cs, elements_count := ?n + 1\<rparr>"
  have len: "length ?cs = length (cells m)"
    using m assms(2) by simp
  have upd: "(take (i + 1) (cells m) @ ys)[i := Some x] = take i (cells m) @ Some x # ys"
    if "i < length (cells m)" for ys
    using that by (simp add: list_update_append take_Suc_conv_app_nth)
  have i: "i < length (cells m)" using m assms(2) by simp
  have "shd_list_insert_impl l i x = Inr ?l'"
  proof (cases "i = ?n")
    case True
    with i show ?thesis
      using m assms by (simp add: shd_list_insert_impl_def m_def [symmetric, unfolded make_room_def]
          Let_def memmove_def write_cell_def upd_conv_take_nth_drop)
  next
    case False
    with assms(2) have "memmove (i + 1) i (?n - i) (cells m)
        = Inr (take (i + 1) (cells m) @ take (?n - i) (drop i (cells m)) @ drop (?n + 1) (cells m))"
      using m by (simp add: memmove_def)
    with False show ?thesis
      using m i assms upd
      by (simp add: shd_list_insert_impl_def m_def [symmetric, unfolded make_room_def]
          Let_def write_cell_def)
  qed
  moreover have tk: "take (?n + 1) ?cs = take i (cells m) @ Some x # take (?n - i) (drop i (cells m))"
    using m assms(2) i by (auto simp: min_def Suc_diff_le)
  moreover have sub: "take i (cells m) = take i (take ?n (cells m))"
      "take (?n - i) (drop i (cells m)) = drop i (take ?n (cells m))"
    using assms(2) by (simp_all add: min_def drop_take)
  moreover have "list_inv ?l'"
    using m(1,3,4) len tk set_take_subset_set_take [OF assms(2), of "cells m"] sub(2)
      set_drop_subset [of i "take ?n (cells m)"]
    by (auto simp: list_inv_def)
  moreover have "list_abs ?l' = take i (list_abs l) @ x # drop i (list_abs l)"
  proof -
    have "map the (take ?n (cells l)) = map the (take ?n (cells m))"
      using m(2,3) by (simp add: list_abs_def)
    then show ?thesis using tk sub by (simp add: list_abs_def take_map drop_map del: take_take)
  qed
  ultimately show ?thesis by blast
qed

text \<open>
  Removal shifts \<^verbatim>\<open>old_elements_count - index\<close> cells, one more than there are elements
  behind the hole. With spare capacity the extra cell is uninitialised padding and the
  operation is right.
\<close>

definition remove_nth :: "nat \<Rightarrow> 'b list \<Rightarrow> 'b list" where
  "remove_nth i xs = take i xs @ drop (Suc i) xs"

lemma remove_cells:
  assumes "list_inv l" and "i < elements_count l" and "elements_count l < space l"
  defines "n \<equiv> elements_count l"
  defines "cs \<equiv> take i (cells l) @ take (n - i) (drop (i + 1) (cells l)) @ drop n (cells l)"
  shows "memmove i (i + 1) (n - i) (cells l) = Inr cs"
    and "length cs = space l"
    and "take (n - 1) cs = remove_nth i (take n (cells l))"
proof -
  have len: "n < length (cells l)" "i < n"
    using assms by (auto simp: list_inv_def)
  then show "memmove i (i + 1) (n - i) (cells l) = Inr cs"
    by (simp add: memmove_def cs_def)
  show "length cs = space l"
    using assms len by (simp add: list_inv_def cs_def)
  from len obtain k where k: "n = Suc k" "i \<le> k" by (cases n) auto
  have "take (n - 1) cs = take i (cells l) @ take (n - 1 - i) (drop (i + 1) (cells l))"
    using len k by (auto simp: cs_def min_def Suc_diff_le)
  also have "\<dots> = remove_nth i (take n (cells l))"
    using len by (simp add: remove_nth_def min_def drop_take)
  finally show "take (n - 1) cs = remove_nth i (take n (cells l))" .
qed

lemma set_remove_nth: "set (remove_nth i xs) \<subseteq> set xs"
  by (auto simp: remove_nth_def dest: in_set_takeD in_set_dropD)

lemma map_remove_nth: "map f (remove_nth i xs) = remove_nth i (map f xs)"
  by (simp add: remove_nth_def take_map drop_map)

lemma remove_step:
  assumes "list_inv l" and "i < elements_count l" and "elements_count l < space l"
  shows "\<exists>l'. shd_list_remove_impl l i move
              = Inr (if move then Some (Some (list_abs l ! i)) else None, l')
            \<and> list_inv l' \<and> list_abs l' = remove_nth i (list_abs l)"
proof -
  define n where "n = elements_count l"
  define cs where
    "cs = take i (cells l) @ take (n - i) (drop (i + 1) (cells l)) @ drop n (cells l)"
  note r = remove_cells [OF assms, folded n_def, folded cs_def]
  have n: "i < n" "n < length (cells l)" "n = elements_count l"
    using assms by (auto simp: n_def list_inv_def)
  have mem: "cells l ! i \<in> set (take n (cells l))"
    using n by (auto simp: in_set_conv_nth)
  with assms(1) n have ith: "cells l ! i = Some (list_abs l ! i)"
    by (auto simp: list_inv_def list_abs_def)
  define ds where "ds = (if move then cs[n - 1 := cells l ! i] else cs)"
  let ?l' = "l\<lparr>cells := ds, elements_count := n - 1\<rparr>"
  have tk: "take (n - 1) ds = remove_nth i (take n (cells l))"
    using r(3) by (simp add: ds_def)
  have "shd_list_remove_impl l i move
      = Inr (if move then Some (Some (list_abs l ! i)) else None, ?l')"
    using n r ith assms less_imp_diff_less [of n "space l" 1]
    by (simp add: shd_list_remove_impl_def Let_def read_cell_def write_cell_def ds_def list_inv_def)
  moreover have "list_inv ?l'"
    using assms(1) n r tk set_remove_nth [of i "take n (cells l)"]
    by (auto simp: list_inv_def ds_def)
  moreover have "list_abs ?l' = remove_nth i (list_abs l)"
    using n tk by (simp add: list_abs_def map_remove_nth)
  ultimately show ?thesis by blast
qed

text \<open>On a full list the extra cell is the one behind the allocation.\<close>

lemma remove_full:
  assumes "list_inv l" and "i < elements_count l" and "elements_count l = space l"
  shows "shd_list_remove_impl l i move = Inl OutOfBounds"
  using assms
  by (simp add: shd_list_remove_impl_def Let_def memmove_def read_cell_def list_inv_def)

subsection \<open>The stack interface its clients use\<close>

text \<open>
  The compiler uses lists mostly as stacks and append-only vectors (the scheduler of the loop
  tree, the work lists of the control-flow graph). The locale states that contract.
\<close>

locale vector_impl =
  fixes abs_of :: "'v \<Rightarrow> 'e list"
    and inv_of :: "'v \<Rightarrow> bool"
    and empty_v :: 'v
    and push :: "'v \<Rightarrow> 'e \<Rightarrow> 'v result"
    and pop :: "'v \<Rightarrow> ('e option \<times> 'v) result"
  assumes inv_empty: "inv_of empty_v" and abs_empty: "abs_of empty_v = []"
    and push_ok: "inv_of v \<Longrightarrow> \<exists>v'. push v x = Inr v' \<and> inv_of v' \<and> abs_of v' = abs_of v @ [x]"
    and pop_ok: "inv_of v \<Longrightarrow> abs_of v \<noteq> [] \<Longrightarrow>
      \<exists>v'. pop v = Inr (Some (last (abs_of v)), v') \<and> inv_of v' \<and> abs_of v' = butlast (abs_of v)"
begin

lemma push_all:
  assumes "inv_of v"
  shows "\<exists>v'. fold_res (\<lambda>x v. push v x) xs v = Inr v' \<and> inv_of v' \<and> abs_of v' = abs_of v @ xs"
  using assms
proof (induction xs arbitrary: v)
  case (Cons x xs)
  from push_ok [OF Cons.prems, of x] obtain w
    where w: "push v x = Inr w" "inv_of w" "abs_of w = abs_of v @ [x]" by blast
  with Cons.IH [OF w(2)] show ?case by auto
qed simp

lemma push_pop:
  assumes "inv_of v"
  shows "\<exists>v' v''. push v x = Inr v' \<and> pop v' = Inr (Some x, v'') \<and> inv_of v''
    \<and> abs_of v'' = abs_of v"
  using push_ok [OF assms, of x] pop_ok by fastforce

lemma build:
  "\<exists>v. fold_res (\<lambda>x v. push v x) xs empty_v = Inr v \<and> inv_of v \<and> abs_of v = xs"
  using push_all [OF inv_empty] abs_empty by simp

end

interpretation clist: vector_impl list_abs list_inv shd_new_list
  shd_list_append_impl shd_list_pop_impl
  by unfold_locales (simp_all add: append_step pop_step)

subsection \<open>Properties\<close>

text \<open>
  C23: appending a sequence of elements to a fresh list never fails, whatever number of
  reallocations it takes, and the list then holds exactly that sequence, in order.
\<close>

theorem list_append_all:
  "\<exists>l. fold_res (\<lambda>x l. shd_list_append_impl l x) xs shd_new_list = Inr l
     \<and> list_inv l \<and> list_abs l = xs"
  by (rule clist.build)

text \<open>
  Inserting at an index up to the count puts the element there, shifts the tail by one,
  keeps the invariant and never leaves the allocation, also when the list has to grow.
\<close>

theorem list_insert_refines:
  assumes "list_inv l" and "i \<le> elements_count l"
  shows "\<exists>l'. shd_list_insert_impl l i x = Inr l' \<and> list_inv l'
            \<and> list_abs l' = take i (list_abs l) @ x # drop i (list_abs l)"
  using assms by (rule insert_step)

theorem list_insert_refines_witness:
  "\<exists>l'. shd_list_insert_impl \<lparr>elements_count = 2, space = 2, cells = [Some 5, Some (7::nat)]\<rparr> 1 6
        = Inr l' \<and> list_inv l' \<and> list_abs l' = [5, 6, 7]"
  using list_insert_refines
    [of "\<lparr>elements_count = 2, space = 2, cells = [Some 5, Some (7::nat)]\<rparr>" 1 6]
  by (simp add: list_inv_def list_abs_def)

text \<open>
  C24: removing an element of a list that is exactly full reads behind the allocation, with and
  without \<^verbatim>\<open>move_to_end\<close>; with any spare cell the same call removes that element.
\<close>

theorem list_remove_bounds:
  assumes "list_inv l" and "i < elements_count l"
  shows "(shd_list_remove_impl l i move = Inl OutOfBounds \<longleftrightarrow> elements_count l = space l)
    \<and> (elements_count l < space l \<longrightarrow>
        (\<exists>l'. shd_list_remove_impl l i move
               = Inr (if move then Some (Some (list_abs l ! i)) else None, l')
             \<and> list_inv l' \<and> list_abs l' = take i (list_abs l) @ drop (Suc i) (list_abs l)))"
proof (cases "elements_count l = space l")
  case True
  then show ?thesis using remove_full [OF assms] by simp
next
  case False
  with assms(1) have "elements_count l < space l" by (simp add: list_inv_def)
  then show ?thesis using remove_step [OF assms, of move] by (auto simp: remove_nth_def)
qed

theorem list_remove_bounds_witness:
  "shd_list_remove_impl \<lparr>elements_count = 2, space = 2, cells = [Some 5, Some (7::nat)]\<rparr> 0 True
     = Inl OutOfBounds"
  using list_remove_bounds
    [of "\<lparr>elements_count = 2, space = 2, cells = [Some 5, Some (7::nat)]\<rparr>" 0 True]
  by (simp add: list_inv_def)

end
