(* ===== verification/DictC.thy ===== *)
theory DictC
  imports Prelude
begin

unbundle bit_operations_syntax

text \<open>
  The open-addressing hash table of \<^verbatim>\<open>src/common/dict.c\<close>: linear probing, tombstones, growth by
  doubling. A bucket is its tag (\<^verbatim>\<open>is_present\<close>, \<^verbatim>\<open>is_thombstone\<close>) and the bytes of its key and
  value, \<open>None\<close> when they are still the zeros of \<^verbatim>\<open>memset\<close>. The counters are the 64-bit
  \<^verbatim>\<open>size_t\<close> of the code, with its wrap-around; the table is the list of its buckets. The hash and
  comparison functions are parameters, as they are in the code; a locale states what a table needs
  of them. The offsets inside a bucket and the debug-only integrity checks are not modelled.
\<close>

subsection \<open>State\<close>

record ('k, 'v) bucket =
  is_present :: bool
  is_thombstone :: bool
  entry :: "('k \<times> 'v) option"

record ('k, 'v) dict =
  entries_count :: u64
  thombstones_count :: u64
  buckets :: "('k, 'v) bucket list"

definition dict_size :: "('k, 'v) dict \<Rightarrow> nat" where
  "dict_size d = length (buckets d)"

definition zero_bucket :: "('k, 'v) bucket" where
  "zero_bucket = \<lparr>is_present = False, is_thombstone = False, entry = None\<rparr>"

definition init_size :: nat where
  "init_size = 32"

definition shd_new_dict :: "('k, 'v) dict" where
  "shd_new_dict = \<lparr>entries_count = 0, thombstones_count = 0,
                   buckets = replicate init_size zero_bucket\<rparr>"

definition shd_clone_dict :: "('k, 'v) dict \<Rightarrow> ('k, 'v) dict" where
  "shd_clone_dict d = \<lparr>entries_count = entries_count d, thombstones_count = thombstones_count d,
                       buckets = buckets d\<rparr>"

definition shd_dict_clear :: "('k, 'v) dict \<Rightarrow> ('k, 'v) dict" where
  "shd_dict_clear d = d\<lparr>entries_count := 0, thombstones_count := 0,
                         buckets := replicate (dict_size d) zero_bucket\<rparr>"

definition shd_dict_count :: "('k, 'v) dict \<Rightarrow> u64" where
  "shd_dict_count d = entries_count d"

subsection \<open>Lookup\<close>

text \<open>The bucket's key compares equal to the one searched.\<close>

definition key_matches :: "('k \<Rightarrow> 'k \<Rightarrow> bool) \<Rightarrow> ('k, 'v) bucket \<Rightarrow> 'k \<Rightarrow> bool" where
  "key_matches cmp b k = (case entry b of None \<Rightarrow> False | Some (k', _) \<Rightarrow> cmp k' k)"

definition next_pos :: "nat \<Rightarrow> nat \<Rightarrow> nat" where
  "next_pos n pos = (if pos + 1 = n then 0 else pos + 1)"

text \<open>
  The probe loops start at \<open>init\<close>, wrap at the end of the table and stop when they are back:
  \<open>probe_left\<close> counts the positions still to visit.
\<close>

definition probe_left :: "nat \<Rightarrow> nat \<Rightarrow> nat \<Rightarrow> nat" where
  "probe_left n init pos = (if init \<le> pos then n - pos + init else init - pos)"

lemma probe_left_next:
  "pos < n \<Longrightarrow> init < n \<Longrightarrow> next_pos n pos \<noteq> init \<Longrightarrow>
     probe_left n init pos = Suc (probe_left n init (next_pos n pos))"
  by (auto simp: probe_left_def next_pos_def)

function find_loop ::
  "('k \<Rightarrow> 'k \<Rightarrow> bool) \<Rightarrow> ('k, 'v) bucket list \<Rightarrow> 'k \<Rightarrow> nat \<Rightarrow> nat \<Rightarrow> nat option result" where
  "find_loop cmp bs k init pos =
     (if \<not> (pos < length bs \<and> init < length bs) then Inl OutOfBounds
      else let b = bs ! pos
           in if is_present b \<or> is_thombstone b
              then if is_present b \<and> key_matches cmp b k then Inr (Some pos)
                   else if next_pos (length bs) pos = init then Inr None
                   else find_loop cmp bs k init (next_pos (length bs) pos)
              else Inr None)"
  by pat_completeness auto
termination
  by (relation "measure (\<lambda>(cmp, bs, k, init, pos). probe_left (length bs) init pos)")
    (auto simp: probe_left_next)

declare find_loop.simps [simp del]

definition hash_pos :: "('k \<Rightarrow> u32) \<Rightarrow> nat \<Rightarrow> 'k \<Rightarrow> nat" where
  "hash_pos hash n k = unat (hash k) mod n"

definition shd_dict_find_impl ::
  "('k \<Rightarrow> u32) \<Rightarrow> ('k \<Rightarrow> 'k \<Rightarrow> bool) \<Rightarrow> ('k, 'v) dict \<Rightarrow> 'k \<Rightarrow> nat option result" where
  "shd_dict_find_impl hash cmp d k =
     (let pos = hash_pos hash (dict_size d) k in find_loop cmp (buckets d) k pos pos)"

definition shd_dict_find_value_impl ::
  "('k \<Rightarrow> u32) \<Rightarrow> ('k \<Rightarrow> 'k \<Rightarrow> bool) \<Rightarrow> ('k, 'v) dict \<Rightarrow> 'k \<Rightarrow> 'v option result" where
  "shd_dict_find_value_impl hash cmp d k =
     bind_res (shd_dict_find_impl hash cmp d k) (\<lambda>found.
       case found of None \<Rightarrow> Inr None
       | Some p \<Rightarrow> Inr (map_option snd (entry (buckets d ! p))))"

subsection \<open>Removal\<close>

definition shd_dict_remove_impl ::
  "('k \<Rightarrow> u32) \<Rightarrow> ('k \<Rightarrow> 'k \<Rightarrow> bool) \<Rightarrow> ('k, 'v) dict \<Rightarrow> 'k \<Rightarrow> (bool \<times> ('k, 'v) dict) result" where
  "shd_dict_remove_impl hash cmp d k =
     bind_res (shd_dict_find_impl hash cmp d k) (\<lambda>found.
       case found of None \<Rightarrow> Inr (False, d)
       | Some p \<Rightarrow>
           let b = buckets d ! p
           in bind_res (assert_res (is_present b \<and> \<not> is_thombstone b)) (\<lambda>_.
                Inr (True, d\<lparr>buckets := (buckets d)[p := b\<lparr>is_present := False, is_thombstone := True\<rparr>],
                             thombstones_count := thombstones_count d + 1,
                             entries_count := entries_count d - 1\<rparr>)))"

subsection \<open>The load factor\<close>

text \<open>
  \<^verbatim>\<open>load_factor = (float) n / (float) size\<close> is compared with the double \<open>0.6\<close>, which is
  \<open>5404319552844595 / 2 ^ 53\<close>. Conversion to \<^verbatim>\<open>float\<close> rounds to 24 significant bits, ties to
  even. The table size is always 32 doubled some number of times (\<open>dict_size_pow2\<close>), so its
  conversion and the division are exact and the comparison is one of integers.
\<close>

fun nbits :: "nat \<Rightarrow> nat" where
  "nbits n = (if n = 0 then 0 else Suc (nbits (n div 2)))"

declare nbits.simps [simp del]

definition float_of_nat :: "nat \<Rightarrow> nat" where
  "float_of_nat n =
     (if n < 2 ^ 24 then n
      else let e = nbits n - 24; q = n div 2 ^ e; r = n mod 2 ^ e
           in (if 2 * r > 2 ^ e \<or> (2 * r = 2 ^ e \<and> odd q) then q + 1 else q) * 2 ^ e)"

definition load_exceeds :: "u64 \<Rightarrow> nat \<Rightarrow> bool" where
  "load_exceeds n sz = (float_of_nat (unat n) * 2 ^ 53 > 5404319552844595 * float_of_nat sz)"

subsection \<open>Insertion\<close>

datatype insert_mode = Inserting | Overwriting | Moving

text \<open>The loop that looks for a place; \<open>fa\<close> is \<^verbatim>\<open>first_available_pos\<close>, \<open>None\<close> its \<^verbatim>\<open>SIZE_MAX\<close>.\<close>

function insert_scan ::
  "('k \<Rightarrow> 'k \<Rightarrow> bool) \<Rightarrow> ('k, 'v) bucket list \<Rightarrow> 'k \<Rightarrow> nat \<Rightarrow> nat \<Rightarrow> nat option
     \<Rightarrow> (insert_mode \<times> nat \<times> nat) result" where
  "insert_scan cmp bs k init pos fa =
     (if \<not> (pos < length bs \<and> init < length bs) then Inl OutOfBounds
      else let tag = bs ! pos;
               fa' = (if fa = None then Some pos else fa);
               continue = (\<lambda>fa. if next_pos (length bs) pos = init
                                 then (case fa of None \<Rightarrow> Inl AssertFailed
                                       | Some f \<Rightarrow> Inr (Inserting, f, init))
                                 else insert_scan cmp bs k init (next_pos (length bs) pos) fa)
           in if \<not> is_present tag
              then if \<not> is_thombstone tag then Inr (Inserting, the fa', pos)
                   else continue fa'
              else if key_matches cmp tag k
                   then Inr (if fa' = Some pos then Overwriting else Moving, the fa', pos)
                   else continue fa)"
  by pat_completeness auto
termination
  by (relation "measure (\<lambda>(cmp, bs, k, init, pos, fa). probe_left (length bs) init pos)")
    (auto simp: probe_left_next)

declare insert_scan.simps [simp del]

text \<open>The second half of \<^verbatim>\<open>dict_insert\<close>: tags, counters and the copy of key and value.\<close>

definition dict_place ::
  "('k, 'v) dict \<Rightarrow> insert_mode \<Rightarrow> nat \<Rightarrow> nat \<Rightarrow> 'k \<Rightarrow> 'v
     \<Rightarrow> (bool \<times> nat \<times> ('k, 'v) dict) result" where
  "dict_place d mode first_available pos k v =
     bind_res (assert_res (first_available < dict_size d \<and> pos < dict_size d)) (\<lambda>_.
       let dst = buckets d ! first_available;
           src = buckets d ! pos;
           tc = (if is_thombstone dst then thombstones_count d - 1 else thombstones_count d);
           new = \<lparr>is_present = True, is_thombstone = False, entry = Some (k, v)\<rparr>
       in case mode of
            Moving \<Rightarrow>
              bind_res (assert_res (is_present src \<and> is_thombstone dst)) (\<lambda>_.
                Inr (False, first_available,
                  d\<lparr>thombstones_count := tc,
                    buckets := ((buckets d)[pos := src\<lparr>is_thombstone := True, is_present := False\<rparr>])
                                 [first_available := new]\<rparr>))
          | Overwriting \<Rightarrow>
              bind_res (assert_res (is_present dst)) (\<lambda>_.
                Inr (False, first_available,
                  d\<lparr>thombstones_count := tc, buckets := (buckets d)[first_available := new]\<rparr>))
          | Inserting \<Rightarrow>
              Inr (True, first_available,
                d\<lparr>thombstones_count := tc, entries_count := entries_count d + 1,
                  buckets := (buckets d)[first_available := new]\<rparr>))"

definition insert_here ::
  "('k \<Rightarrow> u32) \<Rightarrow> ('k \<Rightarrow> 'k \<Rightarrow> bool) \<Rightarrow> ('k, 'v) dict \<Rightarrow> 'k \<Rightarrow> 'v
     \<Rightarrow> (bool \<times> nat \<times> ('k, 'v) dict) result" where
  "insert_here hash cmp d k v =
     (let pos = hash_pos hash (dict_size d) k
      in bind_res (insert_scan cmp (buckets d) k pos pos None)
           (\<lambda>(mode, fa, pos). dict_place d mode fa pos k v))"

text \<open>
  \<^verbatim>\<open>rehash\<close> inserts every present entry of the old table, and asserts that each is fresh. It calls
  the insertion it is called from, which might grow again: the insertion function is an argument.
\<close>

definition rehash ::
  "(('k, 'v) dict \<Rightarrow> 'k \<Rightarrow> 'v \<Rightarrow> (bool \<times> nat \<times> ('k, 'v) dict) result)
     \<Rightarrow> ('k, 'v) bucket list \<Rightarrow> ('k, 'v) dict \<Rightarrow> ('k, 'v) dict result" where
  "rehash ins old d =
     fold_res (\<lambda>b d.
       if is_present b then
         (case entry b of
            None \<Rightarrow> Inl OutOfBounds
          | Some (k, v) \<Rightarrow>
              bind_res (ins d k v) (\<lambda>(fresh, _, d). bind_res (assert_res fresh) (\<lambda>_. Inr d)))
       else Inr d) old d"

definition grow_and_rehash ::
  "(('k, 'v) dict \<Rightarrow> 'k \<Rightarrow> 'v \<Rightarrow> (bool \<times> nat \<times> ('k, 'v) dict) result)
     \<Rightarrow> ('k, 'v) dict \<Rightarrow> ('k, 'v) dict result" where
  "grow_and_rehash ins d =
     (let old_entries_count = shd_dict_count d;
          d' = d\<lparr>entries_count := 0, thombstones_count := 0,
                 buckets := replicate (dict_size d * 2) zero_bucket\<rparr>
      in bind_res (rehash ins (buckets d) d') (\<lambda>d'.
           bind_res (assert_res (old_entries_count = shd_dict_count d')) (\<lambda>_. Inr d')))"

primrec dict_insert_fuel ::
  "nat \<Rightarrow> ('k \<Rightarrow> u32) \<Rightarrow> ('k \<Rightarrow> 'k \<Rightarrow> bool) \<Rightarrow> ('k, 'v) dict \<Rightarrow> 'k \<Rightarrow> 'v
     \<Rightarrow> (bool \<times> nat \<times> ('k, 'v) dict) result" where
  "dict_insert_fuel 0 hash cmp d k v = Inl OutOfFuel"
| "dict_insert_fuel (Suc fuel) hash cmp d k v =
     bind_res (if load_exceeds (entries_count d + thombstones_count d) (dict_size d)
               then grow_and_rehash (dict_insert_fuel fuel hash cmp) d
               else Inr d)
       (\<lambda>d. insert_here hash cmp d k v)"

declare dict_insert_fuel.simps(2) [simp del]

definition dict_insert ::
  "('k \<Rightarrow> u32) \<Rightarrow> ('k \<Rightarrow> 'k \<Rightarrow> bool) \<Rightarrow> ('k, 'v) dict \<Rightarrow> 'k \<Rightarrow> 'v
     \<Rightarrow> (bool \<times> nat \<times> ('k, 'v) dict) result" where
  "dict_insert hash cmp d k v = dict_insert_fuel 2 hash cmp d k v"

definition shd_dict_insert_impl ::
  "('k \<Rightarrow> u32) \<Rightarrow> ('k \<Rightarrow> 'k \<Rightarrow> bool) \<Rightarrow> ('k, 'v) dict \<Rightarrow> 'k \<Rightarrow> 'v
     \<Rightarrow> (bool \<times> ('k, 'v) dict) result" where
  "shd_dict_insert_impl hash cmp d k v =
     bind_res (dict_insert hash cmp d k v) (\<lambda>(fresh, _, d). Inr (fresh, d))"

subsection \<open>Iteration\<close>

text \<open>
  \<^verbatim>\<open>shd_dict_iter\<close> advances its cursor to just behind the next present bucket; the result is
  its return value, the new cursor and what it copied out.
\<close>

function shd_dict_iter :: "('k, 'v) dict \<Rightarrow> nat \<Rightarrow> bool \<times> nat \<times> ('k \<times> 'v) option" where
  "shd_dict_iter d i =
     (if i \<ge> dict_size d then (False, i, None)
      else if is_present (buckets d ! i) then (True, i + 1, entry (buckets d ! i))
      else shd_dict_iter d (i + 1))"
  by pat_completeness auto
termination
  by (relation "measure (\<lambda>(d, i). dict_size d - i)") auto

declare shd_dict_iter.simps [simp del]

lemma shd_dict_iter_cursor: "shd_dict_iter d i = (True, i', e) \<Longrightarrow> i < i' \<and> i' \<le> dict_size d"
proof (induction d i rule: shd_dict_iter.induct)
  case (1 d i)
  then show ?case by (subst (asm) shd_dict_iter.simps) (auto split: if_splits)
qed

text \<open>The loop \<^verbatim>\<open>while (shd_dict_iter(d, &i, &k, &v)) ...\<close>: the entries it sees, in order.\<close>

function iterate_from :: "('k, 'v) dict \<Rightarrow> nat \<Rightarrow> ('k \<times> 'v) option list" where
  "iterate_from d i =
     (case shd_dict_iter d i of (again, i', e) \<Rightarrow> if again then e # iterate_from d i' else [])"
  by pat_completeness auto
termination
proof (relation "measure (\<lambda>(d, i). dict_size d - i)")
  fix d :: "('k, 'v) dict" and i i' :: nat and again p and e :: "('k \<times> 'v) option"
  assume "(again, p) = shd_dict_iter d i" "(i', e) = p" "again"
  then have "shd_dict_iter d i = (True, i', e)" by simp
  from shd_dict_iter_cursor [OF this] show "((d, i'), d, i) \<in> measure (\<lambda>(d, i). dict_size d - i)"
    by auto
qed simp

declare iterate_from.simps [simp del]

subsection \<open>Hashing\<close>

text \<open>
  The bytes are read as (signed) \<^verbatim>\<open>char\<close>, so those above 127 are sign-extended before the
  exclusive or.
\<close>

definition fnv_prime :: u32 where
  "fnv_prime = 0x811C9DC5"

definition shd_hash :: "u8 list \<Rightarrow> u32" where
  "shd_hash data = fold (\<lambda>c h. (h * fnv_prime) XOR scast c) data 0"

text \<open>Pointers are hashed by the eight bytes of their (little-endian) representation.\<close>

definition ptr_bytes :: "u64 \<Rightarrow> u8 list" where
  "ptr_bytes p = map (\<lambda>i. ucast (drop_bit (8 * i) p)) [0..<8]"

definition shd_hash_ptr :: "u64 \<Rightarrow> u32" where
  "shd_hash_ptr p = shd_hash (ptr_bytes p)"

definition shd_compare_ptrs :: "u64 \<Rightarrow> u64 \<Rightarrow> bool" where
  "shd_compare_ptrs a b = (a = b)"

end
