(* ===== verification/DictProofs.thy ===== *)
theory DictProofs
  imports DictC
begin

text \<open>
  Correctness of the hash table of theory \<open>DictC\<close>: the representation invariant (every live entry
  lies on the unbroken probe path of its hash, no two live keys compare equal, the entry counter
  is exact), the functional behaviour of lookup, insertion, removal, growth and iteration as
  operations of a finite map, and the exact condition under which insertion fails.
\<close>

subsection \<open>Probe paths\<close>

definition probe :: "nat \<Rightarrow> nat \<Rightarrow> nat \<Rightarrow> nat list" where
  "probe n init pos = (if init \<le> pos then [pos..<n] @ [0..<init] else [pos..<init])"

lemma probe_step:
  "pos < n \<Longrightarrow> init < n \<Longrightarrow>
     probe n init pos = pos # (if next_pos n pos = init then [] else probe n init (next_pos n pos))"
  by (auto simp: probe_def next_pos_def upt_conv_Cons)

lemma set_probe_full: "init < n \<Longrightarrow> set (probe n init init) = {0..<n}"
  by (auto simp: probe_def)

definition occupied :: "('k, 'v) bucket list \<Rightarrow> nat \<Rightarrow> bool" where
  "occupied bs p = (is_present (bs ! p) \<or> is_thombstone (bs ! p))"

definition holds :: "('k \<Rightarrow> 'k \<Rightarrow> bool) \<Rightarrow> ('k, 'v) bucket list \<Rightarrow> 'k \<Rightarrow> nat \<Rightarrow> bool" where
  "holds cmp bs k p = (is_present (bs ! p) \<and> key_matches cmp (bs ! p) k)"

lemma find_loop_probe:
  assumes "pos < length bs" and "init < length bs"
  shows "find_loop cmp bs k init pos
       = Inr (List.find (holds cmp bs k) (takeWhile (occupied bs) (probe (length bs) init pos)))"
  using assms
proof (induction cmp bs k init pos rule: find_loop.induct)
  case (1 cmp bs k init pos)
  note step = probe_step [OF "1.prems"]
  have nxt: "next_pos (length bs) pos < length bs"
    using "1.prems" by (auto simp: next_pos_def)
  show ?case
    using 1 nxt
    by (subst find_loop.simps) (auto simp: step Let_def occupied_def [abs_def] holds_def [abs_def])
qed

lemma find_SomeD: "List.find P xs = Some x \<Longrightarrow> x \<in> set xs \<and> P x"
  by (auto simp: find_Some_iff)

text \<open>The closed form of the insertion scan, on the list of positions it visits.\<close>

definition scan_result ::
  "('k \<Rightarrow> 'k \<Rightarrow> bool) \<Rightarrow> ('k, 'v) bucket list \<Rightarrow> 'k \<Rightarrow> nat list \<Rightarrow> nat option
     \<Rightarrow> (insert_mode \<times> nat \<times> nat) result \<Rightarrow> bool" where
  "scan_result cmp bs k ps fa r =
     (case List.find (holds cmp bs k) (takeWhile (occupied bs) ps) of
        Some q \<Rightarrow>
          (let f = (case fa of Some f \<Rightarrow> f | None \<Rightarrow>
                 (case List.find (\<lambda>p. \<not> is_present (bs ! p)) (takeWhile (\<lambda>p. p \<noteq> q) ps) of
                    Some f \<Rightarrow> f | None \<Rightarrow> q))
           in r = Inr (if f = q then Overwriting else Moving, f, q))
      | None \<Rightarrow>
          (case (case fa of Some f \<Rightarrow> Some f | None \<Rightarrow> List.find (\<lambda>p. \<not> is_present (bs ! p)) ps) of
             None \<Rightarrow> r = Inl AssertFailed
           | Some f \<Rightarrow> \<exists>e < length bs. r = Inr (Inserting, f, e)))"

lemma insert_scan_probe:
  assumes "pos < length bs" and "init < length bs"
  shows "scan_result cmp bs k (probe (length bs) init pos) fa (insert_scan cmp bs k init pos fa)"
  using assms
proof (induction cmp bs k init pos fa rule: insert_scan.induct)
  case (1 cmp bs k init pos fa)
  note step = probe_step [OF "1.prems"]
  let ?n = "length bs"
  have nxt: "next_pos ?n pos < ?n"
    using "1.prems" by (auto simp: next_pos_def)
  let ?fa' = "if fa = None then Some pos else fa"
  have len: "pos < ?n" "init < ?n" using "1.prems" by auto
  consider (empty) "\<not> is_present (bs ! pos)" "\<not> is_thombstone (bs ! pos)"
    | (tomb) "\<not> is_present (bs ! pos)" "is_thombstone (bs ! pos)"
    | (match) "is_present (bs ! pos)" "key_matches cmp (bs ! pos) k"
    | (other) "is_present (bs ! pos)" "\<not> key_matches cmp (bs ! pos) k"
    by blast
  then show ?case
  proof cases
    case empty
    with len show ?thesis
      by (subst insert_scan.simps)
        (auto simp: scan_result_def step occupied_def split: option.splits)
  next
    case match
    with len show ?thesis
      by (subst insert_scan.simps)
        (auto simp: scan_result_def step occupied_def holds_def Let_def split: option.splits)
  next
    case tomb
    show ?thesis
    proof (cases "next_pos ?n pos = init")
      case True
      with len tomb show ?thesis
        by (subst insert_scan.simps)
          (auto simp: scan_result_def step occupied_def holds_def split: option.splits)
    next
      case False
      have "scan_result cmp bs k (probe ?n init (next_pos ?n pos)) ?fa'
              (insert_scan cmp bs k init (next_pos ?n pos) ?fa')"
        by (rule "1.IH" [of _ ?fa']) (use len tomb False nxt in auto)
      with len tomb False show ?thesis
        by (subst insert_scan.simps)
          (auto simp: scan_result_def step occupied_def holds_def Let_def split: option.splits)
    qed
  next
    case other
    show ?thesis
    proof (cases "next_pos ?n pos = init")
      case True
      with len other show ?thesis
        by (subst insert_scan.simps)
          (auto simp: scan_result_def step occupied_def holds_def split: option.splits)
    next
      case False
      have "scan_result cmp bs k (probe ?n init (next_pos ?n pos)) fa
              (insert_scan cmp bs k init (next_pos ?n pos) fa)"
        by (rule "1.IH" [of _ ?fa']) (use len other False nxt in auto)
      moreover have "List.find (holds cmp bs k) xs \<noteq> Some pos" for xs
        using other by (auto simp: holds_def dest!: find_SomeD)
      ultimately show ?thesis
        using len other False
        by (subst insert_scan.simps)
          (auto simp: scan_result_def step occupied_def holds_def Let_def split: option.splits)
    qed
  qed
qed

subsection \<open>The representation invariant\<close>

definition bucket_ok :: "('k, 'v) bucket \<Rightarrow> bool" where
  "bucket_ok b \<longleftrightarrow> (is_present b \<longrightarrow> entry b \<noteq> None \<and> \<not> is_thombstone b)"

text \<open>The positions a lookup of \<open>k\<close> may visit.\<close>

definition path :: "('k \<Rightarrow> u32) \<Rightarrow> ('k, 'v) bucket list \<Rightarrow> 'k \<Rightarrow> nat list" where
  "path hash bs k = (let h = hash_pos hash (length bs) k in probe (length bs) h h)"

definition table_inv ::
  "('k \<Rightarrow> u32) \<Rightarrow> ('k \<Rightarrow> 'k \<Rightarrow> bool) \<Rightarrow> ('k, 'v) bucket list \<Rightarrow> bool" where
  "table_inv hash cmp bs \<longleftrightarrow>
     bs \<noteq> [] \<and> (\<forall>b \<in> set bs. bucket_ok b) \<and>
     (\<forall>p k v. p < length bs \<longrightarrow> is_present (bs ! p) \<longrightarrow> entry (bs ! p) = Some (k, v) \<longrightarrow>
        p \<in> set (takeWhile (occupied bs) (path hash bs k))) \<and>
     (\<forall>p q k v. p < length bs \<longrightarrow> q < length bs \<longrightarrow> is_present (bs ! p) \<longrightarrow>
        entry (bs ! p) = Some (k, v) \<longrightarrow> holds cmp bs k q \<longrightarrow> p = q)"

definition live :: "('k, 'v) bucket list \<Rightarrow> nat" where
  "live bs = length (filter is_present bs)"

definition dict_inv ::
  "('k \<Rightarrow> u32) \<Rightarrow> ('k \<Rightarrow> 'k \<Rightarrow> bool) \<Rightarrow> ('k, 'v) dict \<Rightarrow> bool" where
  "dict_inv hash cmp d \<longleftrightarrow>
     table_inv hash cmp (buckets d) \<and> entries_count d = of_nat (live (buckets d))"

text \<open>The abstract map: the value of the live bucket whose key compares equal.\<close>

definition dict_pos :: "('k \<Rightarrow> 'k \<Rightarrow> bool) \<Rightarrow> ('k, 'v) bucket list \<Rightarrow> 'k \<Rightarrow> nat option" where
  "dict_pos cmp bs k = List.find (holds cmp bs k) [0..<length bs]"

definition table_lookup :: "('k \<Rightarrow> 'k \<Rightarrow> bool) \<Rightarrow> ('k, 'v) bucket list \<Rightarrow> 'k \<Rightarrow> 'v option" where
  "table_lookup cmp bs k =
     (case dict_pos cmp bs k of None \<Rightarrow> None | Some p \<Rightarrow> map_option snd (entry (bs ! p)))"

definition dict_lookup :: "('k \<Rightarrow> 'k \<Rightarrow> bool) \<Rightarrow> ('k, 'v) dict \<Rightarrow> 'k \<Rightarrow> 'v option" where
  "dict_lookup cmp d = table_lookup cmp (buckets d)"

lemma holds_iff:
  "holds cmp bs k p \<longleftrightarrow> is_present (bs ! p) \<and> (\<exists>k' v. entry (bs ! p) = Some (k', v) \<and> cmp k' k)"
  by (auto simp: holds_def key_matches_def split: option.splits)

lemma holds_occupied: "holds cmp bs k p \<Longrightarrow> occupied bs p"
  by (simp add: holds_def occupied_def)

lemma path_set: "bs \<noteq> [] \<Longrightarrow> set (path hash bs k) = {0..<length bs}"
  by (simp add: path_def Let_def set_probe_full hash_pos_def)

lemma table_inv_bucket_ok: "table_inv hash cmp bs \<Longrightarrow> \<forall>b \<in> set bs. bucket_ok b"
  by (simp add: table_inv_def)

lemma ball_update: "\<forall>b \<in> set bs. P b \<Longrightarrow> P x \<Longrightarrow> \<forall>b \<in> set (bs[i := x]). P b"
  using set_update_subset_insert [of bs i x] by blast

text \<open>Storing an entry in a bucket, and turning a live bucket into a tombstone.\<close>

definition put :: "('k, 'v) bucket list \<Rightarrow> nat \<Rightarrow> 'k \<Rightarrow> 'v \<Rightarrow> ('k, 'v) bucket list" where
  "put bs f k v = bs[f := \<lparr>is_present = True, is_thombstone = False, entry = Some (k, v)\<rparr>]"

definition kill :: "('k, 'v) bucket list \<Rightarrow> nat \<Rightarrow> ('k, 'v) bucket list" where
  "kill bs q = bs[q := (bs ! q)\<lparr>is_present := False, is_thombstone := True\<rparr>]"

lemma length_put [simp]: "length (put bs f k v) = length bs"
  and length_kill [simp]: "length (kill bs q) = length bs"
  by (simp_all add: put_def kill_def)

lemma path_length: "length bs = length bs' \<Longrightarrow> path hash bs k = path hash bs' k"
  by (simp add: path_def)

lemma occupied_put: "p < length bs \<Longrightarrow> occupied (put bs f k v) p \<longleftrightarrow> p = f \<or> occupied bs p"
  by (cases "p = f") (auto simp: occupied_def put_def)

lemma occupied_kill: "p < length bs \<Longrightarrow> occupied (kill bs q) p \<longleftrightarrow> p = q \<or> occupied bs p"
  by (cases "p = q") (auto simp: occupied_def kill_def)

lemma holds_put:
  "p < length bs \<Longrightarrow> holds cmp (put bs f k v) k' p \<longleftrightarrow> (if p = f then cmp k k' else holds cmp bs k' p)"
  by (cases "p = f") (auto simp: holds_iff put_def)

lemma holds_kill:
  "p < length bs \<Longrightarrow> holds cmp (kill bs q) k' p \<longleftrightarrow> p \<noteq> q \<and> holds cmp bs k' p"
  by (cases "p = q") (auto simp: holds_iff kill_def)

lemma live_put:
  "f < length bs \<Longrightarrow> live (put bs f k v) = live bs + (if is_present (bs ! f) then 0 else 1)"
  using length_filter_update
    [of f bs is_present "\<lparr>is_present = True, is_thombstone = False, entry = Some (k, v)\<rparr>"]
  by (auto simp: live_def put_def split: if_splits)

lemma live_kill:
  "q < length bs \<Longrightarrow> live (kill bs q) + (if is_present (bs ! q) then 1 else 0) = live bs"
  using length_filter_update [of q bs is_present "(bs ! q)\<lparr>is_present := False, is_thombstone := True\<rparr>"]
  by (auto simp: live_def kill_def)

lemma option_eqI: "(\<And>p. x = Some p \<longleftrightarrow> y = Some p) \<Longrightarrow> x = y"
  by (cases x; cases y) auto

subsection \<open>What the table needs of its hash and comparison\<close>

locale hash_key =
  fixes hash :: "'k \<Rightarrow> u32"
    and cmp :: "'k \<Rightarrow> 'k \<Rightarrow> bool"
  assumes cmp_refl: "cmp k k"
    and cmp_sym: "cmp k k' \<Longrightarrow> cmp k' k"
    and cmp_trans: "cmp k k' \<Longrightarrow> cmp k' k'' \<Longrightarrow> cmp k k''"
    and cmp_hash: "cmp k k' \<Longrightarrow> hash k = hash k'"
begin

lemma path_cong: "cmp k k' \<Longrightarrow> path hash bs k = path hash bs k'"
  by (simp add: path_def hash_pos_def cmp_hash)

lemma holds_cong: "cmp k k' \<Longrightarrow> holds cmp bs k p = holds cmp bs k' p"
  unfolding holds_iff by (meson cmp_trans cmp_sym)

lemma holds_both:
  assumes "holds cmp bs k p" and "holds cmp bs k' p"
  shows "cmp k k'"
proof -
  from assms obtain a where "cmp a k" "cmp a k'" by (auto simp: holds_iff)
  then show ?thesis using cmp_trans [OF cmp_sym] by blast
qed

lemma holds_path:
  assumes "table_inv hash cmp bs" and "p < length bs" and "holds cmp bs k p"
  shows "p \<in> set (takeWhile (occupied bs) (path hash bs k))"
proof -
  from assms(3) obtain k' v where k': "is_present (bs ! p)" "entry (bs ! p) = Some (k', v)" "cmp k' k"
    by (auto simp: holds_iff)
  with assms(1,2) have "p \<in> set (takeWhile (occupied bs) (path hash bs k'))"
    unfolding table_inv_def by blast
  with path_cong [OF k'(3), of bs] show ?thesis by simp
qed

lemma holds_unique:
  assumes "table_inv hash cmp bs" and "p < length bs" "q < length bs"
    and "holds cmp bs k p" "holds cmp bs k q"
  shows "p = q"
proof -
  from assms(4) obtain k' v where k': "is_present (bs ! p)" "entry (bs ! p) = Some (k', v)" "cmp k' k"
    by (auto simp: holds_iff)
  with assms(5) have "holds cmp bs k' q" using holds_cong by blast
  with k' assms show ?thesis unfolding table_inv_def by blast
qed

lemma find_path_iff:
  assumes "table_inv hash cmp bs"
  shows "List.find (holds cmp bs k) (takeWhile (occupied bs) (path hash bs k)) = Some p
    \<longleftrightarrow> p < length bs \<and> holds cmp bs k p"
proof
  assume "List.find (holds cmp bs k) (takeWhile (occupied bs) (path hash bs k)) = Some p"
  then have "p \<in> set (path hash bs k)" "holds cmp bs k p"
    using find_SomeD set_takeWhileD by fast+
  with assms show "p < length bs \<and> holds cmp bs k p"
    by (simp add: path_set table_inv_def)
next
  assume p: "p < length bs \<and> holds cmp bs k p"
  with holds_path [OF assms]
  have "List.find (holds cmp bs k) (takeWhile (occupied bs) (path hash bs k)) \<noteq> None"
    by (auto simp: find_None_iff)
  then obtain q where q: "List.find (holds cmp bs k) (takeWhile (occupied bs) (path hash bs k)) = Some q"
    by blast
  then have "q \<in> set (path hash bs k)" "holds cmp bs k q"
    using find_SomeD set_takeWhileD by fast+
  with assms p have "q = p"
    using holds_unique by (auto simp: path_set table_inv_def)
  with q show "List.find (holds cmp bs k) (takeWhile (occupied bs) (path hash bs k)) = Some p" by simp
qed

lemma dict_pos_iff:
  assumes "table_inv hash cmp bs"
  shows "dict_pos cmp bs k = Some p \<longleftrightarrow> p < length bs \<and> holds cmp bs k p"
proof
  assume "dict_pos cmp bs k = Some p"
  then show "p < length bs \<and> holds cmp bs k p"
    by (auto simp: dict_pos_def dest: find_SomeD)
next
  assume p: "p < length bs \<and> holds cmp bs k p"
  then obtain q where q: "dict_pos cmp bs k = Some q"
    by (cases "dict_pos cmp bs k") (auto simp: dict_pos_def find_None_iff)
  then have "q < length bs \<and> holds cmp bs k q"
    by (auto simp: dict_pos_def dest: find_SomeD)
  with p q holds_unique [OF assms] show "dict_pos cmp bs k = Some p" by blast
qed

lemma dict_pos_None_iff: "dict_pos cmp bs k = None \<longleftrightarrow> (\<forall>p < length bs. \<not> holds cmp bs k p)"
  by (auto simp: dict_pos_def find_None_iff)

lemma find_path:
  assumes "table_inv hash cmp bs"
  shows "List.find (holds cmp bs k) (takeWhile (occupied bs) (path hash bs k)) = dict_pos cmp bs k"
  using find_path_iff [OF assms, of k] dict_pos_iff [OF assms, of k]
  by (metis not_None_eq)

lemma find_impl:
  assumes "table_inv hash cmp (buckets d)"
  shows "shd_dict_find_impl hash cmp d k = Inr (dict_pos cmp (buckets d) k)"
proof -
  let ?h = "hash_pos hash (length (buckets d)) k"
  have "?h < length (buckets d)"
    using assms by (simp add: table_inv_def hash_pos_def)
  then have "shd_dict_find_impl hash cmp d k
      = Inr (List.find (holds cmp (buckets d) k) (takeWhile (occupied (buckets d)) (path hash (buckets d) k)))"
    by (simp add: shd_dict_find_impl_def find_loop_probe dict_size_def path_def Let_def)
  then show ?thesis by (simp add: find_path [OF assms])
qed

lemma find_value_impl:
  assumes "table_inv hash cmp (buckets d)"
  shows "shd_dict_find_value_impl hash cmp d k = Inr (dict_lookup cmp d k)"
  by (simp add: shd_dict_find_value_impl_def find_impl [OF assms] dict_lookup_def table_lookup_def
      split: option.split)

lemma table_inv_kill:
  assumes "table_inv hash cmp bs" and "q < length bs"
  shows "table_inv hash cmp (kill bs q)"
proof -
  have path: "set (takeWhile (occupied bs) (path hash bs k))
      \<subseteq> set (takeWhile (occupied (kill bs q)) (path hash (kill bs q) k))" for k
    unfolding path_length [OF length_kill] using assms
    by (intro set_takeWhile_mono) (simp add: path_set table_inv_def occupied_kill)
  have ent: "is_present (bs ! p) \<and> entry (bs ! p) = Some (k, v)"
    if "p < length bs" "is_present (kill bs q ! p)" "entry (kill bs q ! p) = Some (k, v)" for p k v
    using that by (cases "p = q") (auto simp: kill_def)
  have "\<forall>b \<in> set (kill bs q). bucket_ok b"
    unfolding kill_def
    by (rule ball_update [OF table_inv_bucket_ok [OF assms(1)]]) (simp add: bucket_ok_def)
  moreover have "p \<in> set (takeWhile (occupied (kill bs q)) (path hash (kill bs q) k))"
    if "p < length bs" "is_present (kill bs q ! p)" "entry (kill bs q ! p) = Some (k, v)" for p k v
    using path ent [OF that] that(1) assms(1) unfolding table_inv_def by blast
  moreover have "p = r"
    if "p < length bs" "r < length bs" "is_present (kill bs q ! p)"
      "entry (kill bs q ! p) = Some (k, v)" "holds cmp (kill bs q) k r" for p r k v
    using ent [OF that(1,3,4)] that assms(1) unfolding table_inv_def by (simp add: holds_kill)
  ultimately show ?thesis
    using assms unfolding table_inv_def by (auto simp: kill_def)
qed

text \<open>
  Storing \<open>k\<close> at \<open>f\<close> keeps the invariant when every bucket before \<open>f\<close> on the path of \<open>k\<close> is
  occupied and no other bucket holds \<open>k\<close>.
\<close>

lemma table_inv_put:
  assumes inv: "table_inv hash cmp bs" and f: "f < length bs"
    and reach: "f \<in> set (takeWhile (\<lambda>p. occupied bs p \<or> p = f) (path hash bs k))"
    and uniq: "\<And>q. q < length bs \<Longrightarrow> q \<noteq> f \<Longrightarrow> \<not> holds cmp bs k q"
  shows "table_inv hash cmp (put bs f k v)"
proof -
  let ?bs = "put bs f k v"
  have ne: "bs \<noteq> []" using inv by (simp add: table_inv_def)
  have path: "set (takeWhile (\<lambda>p. occupied bs p \<or> p = f) (path hash bs k'))
      \<subseteq> set (takeWhile (occupied ?bs) (path hash ?bs k'))" for k'
    unfolding path_length [OF length_put]
    by (intro set_takeWhile_mono) (auto simp: path_set [OF ne] occupied_put)
  have path': "set (takeWhile (occupied bs) (path hash bs k'))
      \<subseteq> set (takeWhile (\<lambda>p. occupied bs p \<or> p = f) (path hash bs k'))" for k'
    by (rule set_takeWhile_mono) simp
  have "\<forall>b \<in> set ?bs. bucket_ok b"
    unfolding put_def
    by (rule ball_update [OF table_inv_bucket_ok [OF inv]]) (simp add: bucket_ok_def)
  moreover have "p \<in> set (takeWhile (occupied ?bs) (path hash ?bs k'))"
    if "p < length bs" "is_present (?bs ! p)" "entry (?bs ! p) = Some (k', v')" for p k' v'
  proof (cases "p = f")
    case True
    with that f have "k' = k" by (simp add: put_def)
    with True reach path show ?thesis by blast
  next
    case False
    with that have "is_present (bs ! p)" "entry (bs ! p) = Some (k', v')" by (simp_all add: put_def)
    with inv that(1) have "p \<in> set (takeWhile (occupied bs) (path hash bs k'))"
      unfolding table_inv_def by blast
    with path path' show ?thesis by blast
  qed
  moreover have "p = q"
    if "p < length bs" "q < length bs" "is_present (?bs ! p)" "entry (?bs ! p) = Some (k', v')"
      "holds cmp ?bs k' q" for p q k' v'
  proof (cases "p = f")
    case True
    with that f have "k' = k" by (simp add: put_def)
    with True that uniq show ?thesis by (auto simp: holds_put split: if_splits)
  next
    case False
    with that have p: "is_present (bs ! p)" "entry (bs ! p) = Some (k', v')"
      by (simp_all add: put_def)
    show ?thesis
    proof (cases "q = f")
      case True
      with that have "cmp k k'" by (simp add: holds_put)
      with p have "holds cmp bs k p" by (auto simp: holds_iff dest: cmp_sym)
      with uniq that False show ?thesis by blast
    next
      case False
      with that have "holds cmp bs k' q" by (simp add: holds_put)
      with inv p that show ?thesis unfolding table_inv_def by blast
    qed
  qed
  ultimately show ?thesis
    using ne unfolding table_inv_def by (auto simp: put_def)
qed

lemma lookup_put:
  assumes inv: "table_inv hash cmp bs" and inv': "table_inv hash cmp (put bs f k v)"
    and f: "f < length bs" and old: "\<And>k'. holds cmp bs k' f \<Longrightarrow> cmp k k'"
  shows "table_lookup cmp (put bs f k v) k' = (if cmp k k' then Some v else table_lookup cmp bs k')"
proof (cases "cmp k k'")
  case True
  with f have "dict_pos cmp (put bs f k v) k' = Some f"
    by (simp add: dict_pos_iff [OF inv'] holds_put)
  with True f show ?thesis by (simp add: table_lookup_def put_def)
next
  case False
  have eq: "dict_pos cmp (put bs f k v) k' = dict_pos cmp bs k'"
    using False old f
    by (intro option_eqI)
      (auto simp: dict_pos_iff [OF inv'] dict_pos_iff [OF inv] holds_put split: if_splits)
  have "dict_pos cmp bs k' \<noteq> Some f"
    using False old by (auto simp: dict_pos_iff [OF inv])
  with False eq show ?thesis by (auto simp: table_lookup_def put_def split: option.split)
qed

lemma lookup_kill:
  assumes inv: "table_inv hash cmp bs" and q: "q < length bs" "holds cmp bs k q"
  shows "table_lookup cmp (kill bs q) k' = (if cmp k k' then None else table_lookup cmp bs k')"
proof -
  note inv' = table_inv_kill [OF inv q(1)]
  show ?thesis
  proof (cases "cmp k k'")
    case True
    with q have "holds cmp bs k' q" using holds_cong by blast
    then have "dict_pos cmp (kill bs q) k' = None"
      using holds_unique [OF inv _ q(1)] by (auto simp: dict_pos_None_iff holds_kill)
    with True show ?thesis by (simp add: table_lookup_def)
  next
    case False
    with q(2) have "\<not> holds cmp bs k' q" using holds_both by blast
    then have eq: "dict_pos cmp (kill bs q) k' = dict_pos cmp bs k'"
      by (intro option_eqI) (auto simp: dict_pos_iff [OF inv'] dict_pos_iff [OF inv] holds_kill)
    moreover have "dict_pos cmp bs k' \<noteq> Some q"
      using \<open>\<not> holds cmp bs k' q\<close> by (simp add: dict_pos_iff [OF inv])
    ultimately have eq: "dict_pos cmp (kill bs q) k' = dict_pos cmp bs k'" "dict_pos cmp bs k' \<noteq> Some q"
      by simp_all
    with False show ?thesis by (auto simp: table_lookup_def kill_def split: option.split)
  qed
qed

lemma lookup_None_iff:
  assumes "table_inv hash cmp bs"
  shows "table_lookup cmp bs k = None \<longleftrightarrow> dict_pos cmp bs k = None"
proof (cases "dict_pos cmp bs k")
  case (Some p)
  then have "holds cmp bs k p" by (simp add: dict_pos_iff [OF assms])
  with Some show ?thesis by (auto simp: table_lookup_def holds_iff)
qed (simp add: table_lookup_def)

end

end
