(* ===== verification/DictMap.thy ===== *)
theory DictMap
  imports DictProofs
begin

text \<open>
  The operations of the hash table as operations of a map: insertion (also across growth),
  removal, clearing, iteration, and the map interface that the compiler's clients of
  \<^verbatim>\<open>dict.c\<close> rely on, as a locale with its interpretation.
\<close>

subsection \<open>Insertion without growth\<close>

definition no_tombs :: "('k, 'v) bucket list \<Rightarrow> bool" where
  "no_tombs bs \<longleftrightarrow> (\<forall>b \<in> set bs. \<not> is_thombstone b)"

text \<open>What a successful insertion of \<open>k\<close>, \<open>v\<close> into \<open>d\<close> yields.\<close>

definition inserts ::
  "('k \<Rightarrow> u32) \<Rightarrow> ('k \<Rightarrow> 'k \<Rightarrow> bool) \<Rightarrow> ('k, 'v) dict \<Rightarrow> 'k \<Rightarrow> 'v \<Rightarrow> bool \<times> nat \<times> ('k, 'v) dict \<Rightarrow> bool"
  where
  "inserts hash cmp d k v r \<longleftrightarrow>
     (case r of (fresh, f, d') \<Rightarrow>
        dict_inv hash cmp d' \<and>
        (fresh \<longleftrightarrow> dict_lookup cmp d k = None) \<and>
        (\<forall>k'. dict_lookup cmp d' k' = (if cmp k k' then Some v else dict_lookup cmp d k')) \<and>
        live (buckets d') = live (buckets d) + (if fresh then 1 else 0) \<and>
        f < dict_size d' \<and> entry (buckets d' ! f) = Some (k, v))"

lemma no_tombs_put: "no_tombs bs \<Longrightarrow> no_tombs (put bs f k v)"
  using set_update_subset_insert by (fastforce simp: no_tombs_def put_def)

lemma tag_update_swap:
  "b\<lparr>is_thombstone := t, is_present := p\<rparr> = b\<lparr>is_present := p, is_thombstone := t\<rparr>"
  by simp

context hash_key
begin

lemma inserts_put:
  assumes inv: "dict_inv hash cmp d" and f: "f < dict_size d"
    and bs: "table_inv hash cmp bs" "length bs = dict_size d"
    and reach: "f \<in> set (takeWhile (\<lambda>p. occupied bs p \<or> p = f) (path hash bs k))"
    and uniq: "\<And>q. q < length bs \<Longrightarrow> q \<noteq> f \<Longrightarrow> \<not> holds cmp bs k q"
    and old: "\<And>k'. holds cmp bs k' f \<Longrightarrow> cmp k k'"
    and look: "\<And>k'. \<not> cmp k k' \<Longrightarrow> table_lookup cmp bs k' = dict_lookup cmp d k'"
    and fresh: "fresh \<longleftrightarrow> dict_lookup cmp d k = None"
    and live: "live (put bs f k v) = live (buckets d) + (if fresh then 1 else 0)"
    and d': "buckets d' = put bs f k v" "entries_count d' = entries_count d + (if fresh then 1 else 0)"
  shows "inserts hash cmp d k v (fresh, f, d')"
proof -
  have f': "f < length bs" using f bs by simp
  note inv' = table_inv_put [OF bs(1) f' reach uniq, of v]
  have "dict_lookup cmp d' k' = (if cmp k k' then Some v else dict_lookup cmp d k')" for k'
    using lookup_put [OF bs(1) inv' f' old, of k'] look
    by (simp add: dict_lookup_def d')
  moreover have "dict_inv hash cmp d'"
    using inv inv' live by (simp add: dict_inv_def d')
  ultimately show ?thesis
    using fresh live f f' bs d' by (simp add: inserts_def put_def dict_size_def)
qed

lemma place_overwrite:
  assumes inv: "dict_inv hash cmp d" and q: "q < dict_size d" "holds cmp (buckets d) k q"
  shows "\<exists>d'. dict_place d Overwriting q q k v = Inr (False, q, d')
       \<and> inserts hash cmp d k v (False, q, d') \<and> dict_size d' = dict_size d
       \<and> (no_tombs (buckets d) \<longrightarrow> no_tombs (buckets d') \<and> thombstones_count d' = thombstones_count d)"
proof -
  let ?bs = "buckets d"
  let ?d' = "d\<lparr>buckets := put ?bs q k v\<rparr>"
  have tinv: "table_inv hash cmp ?bs" using inv by (simp add: dict_inv_def)
  have q': "q < length ?bs" using q by (simp add: dict_size_def)
  have pres: "is_present (?bs ! q)" using q by (simp add: holds_def)
  then have nt: "\<not> is_thombstone (?bs ! q)"
    using tinv q' unfolding table_inv_def bucket_ok_def by simp
  have "dict_place d Overwriting q q k v = Inr (False, q, ?d')"
    using q' pres nt by (simp add: dict_place_def dict_size_def put_def)
  moreover have "inserts hash cmp d k v (False, q, ?d')"
  proof (rule inserts_put [OF inv q(1) tinv])
    show "q \<in> set (takeWhile (\<lambda>p. occupied ?bs p \<or> p = q) (path hash ?bs k))"
      using holds_path [OF tinv q' q(2)]
        set_takeWhile_mono [of "path hash ?bs k" "occupied ?bs" "\<lambda>p. occupied ?bs p \<or> p = q"] by blast
    show "\<not> holds cmp ?bs k p" if "p < length ?bs" "p \<noteq> q" for p
      using holds_unique [OF tinv _ q' _ q(2)] that by blast
    show "cmp k k'" if "holds cmp ?bs k' q" for k' using holds_both q(2) that by blast
    show "False \<longleftrightarrow> dict_lookup cmp d k = None"
      using q' q(2) by (auto simp: dict_lookup_def lookup_None_iff [OF tinv] dict_pos_None_iff)
    show "live (put ?bs q k v) = live ?bs + (if False then 1 else 0)"
      using live_put [OF q'] pres by simp
  qed (simp_all add: dict_size_def dict_lookup_def)
  ultimately show ?thesis using no_tombs_put by (auto simp: dict_size_def)
qed

lemma place_move:
  assumes inv: "dict_inv hash cmp d" and q: "q < dict_size d" "holds cmp (buckets d) k q"
    and f: "f \<in> set (takeWhile (occupied (buckets d)) (path hash (buckets d) k))"
      "\<not> is_present (buckets d ! f)"
  shows "\<exists>d'. dict_place d Moving f q k v = Inr (False, f, d')
       \<and> inserts hash cmp d k v (False, f, d') \<and> dict_size d' = dict_size d
       \<and> \<not> no_tombs (buckets d)"
proof -
  let ?bs = "buckets d"
  let ?d' = "d\<lparr>thombstones_count := thombstones_count d - 1, buckets := put (kill ?bs q) f k v\<rparr>"
  have tinv: "table_inv hash cmp ?bs" using inv by (simp add: dict_inv_def)
  have q': "q < length ?bs" using q by (simp add: dict_size_def)
  have pres: "is_present (?bs ! q)" using q by (simp add: holds_def)
  have f': "f < length ?bs" "occupied ?bs f"
    using f tinv path_set [of ?bs hash k] by (auto simp: table_inv_def dest: set_takeWhileD)
  then have tomb: "is_thombstone (?bs ! f)" "f \<noteq> q" using f pres by (auto simp: occupied_def)
  note kinv = table_inv_kill [OF tinv q']
  have "dict_place d Moving f q k v = Inr (False, f, ?d')"
    using q' f' tomb pres by (simp add: dict_place_def dict_size_def put_def kill_def Let_def
        list_update_swap tag_update_swap)
  moreover have "inserts hash cmp d k v (False, f, ?d')"
  proof (rule inserts_put [OF inv _ kinv])
    have "set (takeWhile (occupied ?bs) (path hash ?bs k))
        \<subseteq> set (takeWhile (\<lambda>p. occupied (kill ?bs q) p \<or> p = f) (path hash (kill ?bs q) k))"
      unfolding path_length [OF length_kill] using tinv
      by (intro set_takeWhile_mono) (simp add: path_set table_inv_def occupied_kill)
    with f show "f \<in> set (takeWhile (\<lambda>p. occupied (kill ?bs q) p \<or> p = f) (path hash (kill ?bs q) k))"
      by blast
    show "\<not> holds cmp (kill ?bs q) k p" if "p < length (kill ?bs q)" "p \<noteq> f" for p
      using holds_unique [OF tinv _ q' _ q(2)] that by (auto simp: holds_kill)
    show "cmp k k'" if "holds cmp (kill ?bs q) k' f" for k'
      using that f(2) by (simp only: holds_kill [OF f'(1)]) (simp add: holds_def)
    show "table_lookup cmp (kill ?bs q) k' = dict_lookup cmp d k'" if "\<not> cmp k k'" for k'
      using lookup_kill [OF tinv q' q(2)] that by (simp add: dict_lookup_def)
    show "False \<longleftrightarrow> dict_lookup cmp d k = None"
      using q' q(2) by (auto simp: dict_lookup_def lookup_None_iff [OF tinv] dict_pos_None_iff)
    show "live (put (kill ?bs q) f k v) = live ?bs + (if False then 1 else 0)"
      using live_put [of f "kill ?bs q" k v] live_kill [OF q'] pres f f' tomb
      by (simp add: kill_def)
  qed (use f' in \<open>simp_all add: dict_size_def\<close>)
  moreover have "\<not> no_tombs ?bs" using f' tomb by (auto simp: no_tombs_def)
  ultimately show ?thesis by (auto simp: dict_size_def)
qed

lemma place_insert:
  assumes inv: "dict_inv hash cmp d" and e: "e < dict_size d"
    and none: "dict_pos cmp (buckets d) k = None"
    and f: "List.find (\<lambda>p. \<not> is_present (buckets d ! p)) (path hash (buckets d) k) = Some f"
  shows "\<exists>d'. dict_place d Inserting f e k v = Inr (True, f, d')
       \<and> inserts hash cmp d k v (True, f, d') \<and> dict_size d' = dict_size d
       \<and> (no_tombs (buckets d) \<longrightarrow> no_tombs (buckets d') \<and> thombstones_count d' = thombstones_count d)"
proof -
  let ?bs = "buckets d"
  let ?tc = "if is_thombstone (?bs ! f) then thombstones_count d - 1 else thombstones_count d"
  let ?d' = "d\<lparr>thombstones_count := ?tc, entries_count := entries_count d + 1,
               buckets := put ?bs f k v\<rparr>"
  have tinv: "table_inv hash cmp ?bs" using inv by (simp add: dict_inv_def)
  from f obtain ys zs where ys: "path hash ?bs k = ys @ f # zs" "\<not> is_present (?bs ! f)"
    "\<forall>y \<in> set ys. is_present (?bs ! y)" by (auto elim: find_split)
  then have f': "f < length ?bs"
    using path_set [of ?bs hash k] tinv by (auto simp: table_inv_def)
  have "dict_place d Inserting f e k v = Inr (True, f, ?d')"
    using f' e by (simp add: dict_place_def dict_size_def put_def Let_def)
  moreover have "inserts hash cmp d k v (True, f, ?d')"
  proof (rule inserts_put [OF inv _ tinv])
    show "f \<in> set (takeWhile (\<lambda>p. occupied ?bs p \<or> p = f) (path hash ?bs k))"
      unfolding ys(1) using ys(3) by (intro in_takeWhile_append) (auto simp: occupied_def)
    show "\<not> holds cmp ?bs k p" if "p < length ?bs" "p \<noteq> f" for p
      using none that by (simp add: dict_pos_None_iff)
    show "cmp k k'" if "holds cmp ?bs k' f" for k' using that ys(2) by (simp add: holds_def)
    show "True \<longleftrightarrow> dict_lookup cmp d k = None"
      using none by (simp add: dict_lookup_def lookup_None_iff [OF tinv])
    show "live (put ?bs f k v) = live ?bs + (if True then 1 else 0)"
      using live_put [OF f'] ys(2) by simp
  qed (use f' in \<open>simp_all add: dict_size_def dict_lookup_def\<close>)
  moreover have "no_tombs ?bs \<longrightarrow> ?tc = thombstones_count d" using f' by (auto simp: no_tombs_def)
  ultimately show ?thesis using no_tombs_put by (auto simp: dict_size_def)
qed

lemma insert_here_scan:
  assumes "table_inv hash cmp (buckets d)"
  shows "scan_result cmp (buckets d) k (path hash (buckets d) k) None
     (insert_scan cmp (buckets d) k (hash_pos hash (dict_size d) k) (hash_pos hash (dict_size d) k) None)"
  using assms insert_scan_probe [of "hash_pos hash (dict_size d) k" "buckets d"
      "hash_pos hash (dict_size d) k"]
  by (simp add: path_def Let_def dict_size_def table_inv_def hash_pos_def)

definition insert_here_ok :: "('k, 'v) dict \<Rightarrow> 'k \<Rightarrow> 'v \<Rightarrow> bool" where
  "insert_here_ok d k v \<longleftrightarrow>
     (\<exists>fresh f d'. insert_here hash cmp d k v = Inr (fresh, f, d')
        \<and> inserts hash cmp d k v (fresh, f, d') \<and> dict_size d' = dict_size d
        \<and> (no_tombs (buckets d) \<longrightarrow> no_tombs (buckets d') \<and> thombstones_count d' = thombstones_count d))"

text \<open>Insertion fails exactly when the key is new and every bucket is live.\<close>

lemma insert_here_cases:
  assumes inv: "dict_inv hash cmp d"
  shows "if (\<forall>b \<in> set (buckets d). is_present b) \<and> dict_lookup cmp d k = None
         then insert_here hash cmp d k v = Inl AssertFailed else insert_here_ok d k v"
proof -
  let ?bs = "buckets d" and ?ps = "path hash (buckets d) k"
  let ?h = "hash_pos hash (dict_size d) k"
  let ?r = "insert_scan cmp ?bs k ?h ?h None"
  have tinv: "table_inv hash cmp ?bs" using inv by (simp add: dict_inv_def)
  have ps: "set ?ps = {0..<length ?bs}"
    using path_set [of ?bs hash k] tinv unfolding table_inv_def by blast
  note scan = insert_here_scan [OF tinv, of k, unfolded scan_result_def find_path [OF tinv]]
  have here: "insert_here hash cmp d k v = bind_res ?r (\<lambda>(mode, fa, pos). dict_place d mode fa pos k v)"
    by (simp add: insert_here_def Let_def)
  show ?thesis
  proof (cases "dict_pos cmp ?bs k")
    case None
    then have lk: "dict_lookup cmp d k = None" by (simp add: dict_lookup_def lookup_None_iff [OF tinv])
    show ?thesis
    proof (cases "List.find (\<lambda>p. \<not> is_present (?bs ! p)) ?ps")
      case None': None
      then have "\<forall>b \<in> set ?bs. is_present b"
        using ps by (auto simp: find_None_iff in_set_conv_nth)
      moreover have "?r = Inl AssertFailed" using scan None None' by simp
      ultimately show ?thesis using lk by (simp add: here)
    next
      case (Some f)
      then have "f < length ?bs" "\<not> is_present (?bs ! f)" using ps by (auto dest!: find_SomeD)
      then have nf: "\<not> (\<forall>b \<in> set ?bs. is_present b)" by auto
      from scan None Some obtain e where e: "e < length ?bs" "?r = Inr (Inserting, f, e)" by auto
      with place_insert [OF inv _ None Some, of e v] nf show ?thesis
        by (auto simp: here insert_here_ok_def dict_size_def)
    qed
  next
    case (Some q)
    then have q: "q < dict_size d" "holds cmp ?bs k q"
      by (simp_all add: dict_pos_iff [OF tinv] dict_size_def)
    have lk: "dict_lookup cmp d k \<noteq> None" using Some by (simp add: dict_lookup_def lookup_None_iff [OF tinv])
    have reach: "q \<in> set (takeWhile (occupied ?bs) ?ps)"
      using holds_path [OF tinv] q by (simp add: dict_size_def)
    show ?thesis
    proof (cases "List.find (\<lambda>p. \<not> is_present (?bs ! p)) (takeWhile (\<lambda>p. p \<noteq> q) ?ps)")
      case None
      with scan Some have "?r = Inr (Overwriting, q, q)" by simp
      with place_overwrite [OF inv q, of v] lk show ?thesis by (auto simp: here insert_here_ok_def)
    next
      case (Some f)
      then have f: "f \<in> set (takeWhile (\<lambda>p. p \<noteq> q) ?ps)" "\<not> is_present (?bs ! f)"
        by (auto dest!: find_SomeD)
      then have "f \<noteq> q" by (auto dest: set_takeWhileD)
      with scan Some \<open>dict_pos cmp ?bs k = Some q\<close> have r: "?r = Inr (Moving, f, q)" by simp
      have "f \<in> set (takeWhile (occupied ?bs) ?ps)"
        using takeWhile_before [OF reach f(1)] .
      with place_move [OF inv q _ f(2), of v] r lk show ?thesis
        by (auto simp: here insert_here_ok_def)
    qed
  qed
qed

subsection \<open>Removal\<close>

lemma remove_correct:
  assumes inv: "dict_inv hash cmp d"
  shows "\<exists>d'. shd_dict_remove_impl hash cmp d k = Inr (dict_lookup cmp d k \<noteq> None, d')
     \<and> dict_inv hash cmp d' \<and> dict_size d' = dict_size d
     \<and> (\<forall>k'. dict_lookup cmp d' k' = (if cmp k k' then None else dict_lookup cmp d k'))"
proof -
  have tinv: "table_inv hash cmp (buckets d)" using inv by (simp add: dict_inv_def)
  note lk = lookup_None_iff [OF tinv]
  show ?thesis
  proof (cases "dict_pos cmp (buckets d) k")
    case None
    have "dict_lookup cmp d k' = None" if "cmp k k'" for k'
      using None that holds_cong [OF that]
      by (auto simp: dict_lookup_def lk dict_pos_None_iff)
    with None inv show ?thesis
      by (simp add: shd_dict_remove_impl_def find_impl [OF tinv] dict_lookup_def lk)
  next
    case (Some q)
    then have q: "q < length (buckets d)" "holds cmp (buckets d) k q"
      by (simp_all add: dict_pos_iff [OF tinv])
    then have pres: "is_present (buckets d ! q)" by (simp add: holds_def)
    with q(1) table_inv_bucket_ok [OF tinv] have nt: "\<not> is_thombstone (buckets d ! q)"
      by (simp add: bucket_ok_def)
    let ?d' = "d\<lparr>buckets := kill (buckets d) q, thombstones_count := thombstones_count d + 1,
                 entries_count := entries_count d - 1\<rparr>"
    have "shd_dict_remove_impl hash cmp d k = Inr (True, ?d')"
      using Some pres nt by (simp add: shd_dict_remove_impl_def find_impl [OF tinv] kill_def Let_def)
    moreover have "live (buckets d) = Suc (live (kill (buckets d) q))"
      using live_kill [OF q(1)] pres by simp
    then have "dict_inv hash cmp ?d'"
      using inv table_inv_kill [OF tinv q(1)] by (simp add: dict_inv_def)
    moreover have "dict_lookup cmp d k \<noteq> None" using Some by (simp add: dict_lookup_def lk)
    ultimately show ?thesis
      using lookup_kill [OF tinv q] by (auto simp: dict_lookup_def dict_size_def)
  qed
qed

end

subsection \<open>The load factor on powers of two\<close>

lemma nbits_less: "n < 2 ^ nbits n"
proof (induction n rule: nbits.induct)
  case (1 n)
  show ?case
  proof (cases "n = 0")
    case False
    with 1 have "n div 2 < 2 ^ nbits (n div 2)" by simp
    then have "n < 2 * 2 ^ nbits (n div 2)" by linarith
    with False show ?thesis by (subst nbits.simps) simp
  qed (simp add: nbits.simps)
qed

lemma nbits_le: "n < 2 ^ j \<Longrightarrow> nbits n \<le> j"
proof (induction n arbitrary: j rule: nbits.induct)
  case (1 n)
  show ?case
  proof (cases "n = 0")
    case False
    with "1.prems" obtain i where i: "j = Suc i" by (cases j) auto
    with "1.prems" have "n div 2 < 2 ^ i" by simp
    with False "1.IH" have "nbits (n div 2) \<le> i" by simp
    with False i show ?thesis by (subst nbits.simps) simp
  qed (simp add: nbits.simps)
qed

lemma nbits_pow2: "nbits (2 ^ j) = Suc j"
  by (induction j) (simp_all add: nbits.simps)

lemma float_of_nat_pow2: "float_of_nat (2 ^ j) = 2 ^ j"
proof (cases "j < 24")
  case True
  then have "(2::nat) ^ j < 2 ^ 24" by (intro power_strict_increasing) auto
  then show ?thesis by (simp add: float_of_nat_def)
next
  case False
  then obtain i where i: "j = 24 + i" using le_Suc_ex [of 24 j] by auto
  have big: "\<not> (2::nat) ^ j < 2 ^ 24"
    using power_increasing [of 24 j "2::nat"] False by simp
  have split: "(2::nat) ^ j = 2 ^ 23 * 2 ^ Suc i" by (simp add: i power_add)
  have "nbits (2 ^ j) - 24 = Suc i" by (simp add: nbits_pow2 i)
  then show ?thesis
    unfolding float_of_nat_def Let_def using big
    by (simp only: if_False split nonzero_mult_div_cancel_right mod_mult_self2_is_0) simp
qed

lemma float_of_nat_le_pow2:
  assumes "n \<le> 2 ^ j"
  shows "float_of_nat n \<le> 2 ^ j"
proof (cases "n = 2 ^ j \<or> n < 2 ^ 24")
  case True
  with assms show ?thesis by (auto simp: float_of_nat_pow2) (simp add: float_of_nat_def)
next
  case False
  with assms have n: "n < 2 ^ j" "\<not> n < 2 ^ 24" by auto
  define e where "e = nbits n - 24"
  have "24 \<le> nbits n"
  proof (rule ccontr)
    assume "\<not> 24 \<le> nbits n"
    then have "(2::nat) ^ nbits n \<le> 2 ^ 24" by (intro power_increasing) auto
    with nbits_less [of n] n(2) show False by simp
  qed
  then have nb: "nbits n = 24 + e" by (simp add: e_def)
  have "n < 2 ^ 24 * 2 ^ e"
    using nbits_less [of n] by (simp add: nb power_add)
  then have q: "n div 2 ^ e < 2 ^ 24" by (simp add: less_mult_imp_div_less)
  have "float_of_nat n \<le> (n div 2 ^ e + 1) * 2 ^ e"
    using n(2) by (auto simp: float_of_nat_def Let_def e_def)
  also have "\<dots> \<le> 2 ^ 24 * 2 ^ e" using q by (intro mult_right_mono) auto
  also have "\<dots> = 2 ^ nbits n" by (simp add: nb power_add)
  also have "\<dots> \<le> 2 ^ j" using nbits_le [OF n(1)] by (intro power_increasing) auto
  finally show ?thesis .
qed

lemma load_half:
  assumes "i \<le> 2 ^ j"
  shows "\<not> load_exceeds (of_nat i) (2 ^ Suc j)"
proof -
  have "unat (of_nat i :: u64) \<le> 2 ^ j"
    using assms by (simp add: unat_of_nat order_trans [OF mod_less_eq_dividend])
  then have "float_of_nat (unat (of_nat i :: u64)) \<le> 2 ^ j" by (rule float_of_nat_le_pow2)
  then show ?thesis by (simp add: load_exceeds_def float_of_nat_pow2 [of "Suc j", simplified])
qed

lemma load_full: "2 ^ j < (2::nat) ^ 64 \<Longrightarrow> load_exceeds (of_nat (2 ^ j)) (2 ^ j)"
  by (simp add: load_exceeds_def float_of_nat_pow2 unat_of_nat del: of_nat_power)

subsection \<open>Growth\<close>

definition bfind :: "('k \<Rightarrow> 'k \<Rightarrow> bool) \<Rightarrow> ('k, 'v) bucket list \<Rightarrow> 'k \<Rightarrow> 'v option" where
  "bfind cmp bs k =
     (case List.find (\<lambda>b. is_present b \<and> key_matches cmp b k) bs of
        None \<Rightarrow> None | Some b \<Rightarrow> map_option snd (entry b))"

lemma bfind_simps [simp]:
  "bfind cmp [] k = None"
  "bfind cmp (b # bs) k =
     (if is_present b \<and> key_matches cmp b k then map_option snd (entry b) else bfind cmp bs k)"
  by (simp_all add: bfind_def)

lemma find_map: "List.find P (map f xs) = map_option f (List.find (\<lambda>x. P (f x)) xs)"
  by (induction xs) auto

lemma table_lookup_bfind: "table_lookup cmp bs k = bfind cmp bs k"
proof -
  have "List.find (\<lambda>b. is_present b \<and> key_matches cmp b k) (map ((!) bs) [0..<length bs])
      = map_option ((!) bs) (dict_pos cmp bs k)"
    unfolding find_map dict_pos_def by (simp add: holds_def [abs_def])
  then show ?thesis
    by (simp add: map_nth bfind_def table_lookup_def split: option.split)
qed

text \<open>No two live entries of the list compare equal.\<close>

fun fresh_keys :: "('k \<Rightarrow> 'k \<Rightarrow> bool) \<Rightarrow> ('k, 'v) bucket list \<Rightarrow> bool" where
  "fresh_keys cmp [] = True"
| "fresh_keys cmp (b # bs) =
     ((is_present b \<longrightarrow> (\<forall>k v. entry b = Some (k, v) \<longrightarrow>
         (\<forall>b' \<in> set bs. \<not> (is_present b' \<and> key_matches cmp b' k)))) \<and> fresh_keys cmp bs)"

lemma fresh_keysI:
  assumes "\<And>i j k v. i < j \<Longrightarrow> j < length bs \<Longrightarrow> is_present (bs ! i) \<Longrightarrow>
     entry (bs ! i) = Some (k, v) \<Longrightarrow> \<not> holds cmp bs k j"
  shows "fresh_keys cmp bs"
  using assms
proof (induction bs)
  case (Cons b bs)
  have "fresh_keys cmp bs"
  proof (rule Cons.IH)
    fix i j k v
    assume "i < j" "j < length bs" "is_present (bs ! i)" "entry (bs ! i) = Some (k, v)"
    then show "\<not> holds cmp bs k j" using Cons.prems [of "Suc i" "Suc j" k v] by (simp add: holds_def)
  qed
  moreover have "\<not> (is_present b' \<and> key_matches cmp b' k)"
    if "is_present b" "entry b = Some (k, v)" "b' \<in> set bs" for k v b'
  proof -
    from that(3) obtain j where "j < length bs" "bs ! j = b'" by (auto simp: in_set_conv_nth)
    with that Cons.prems [of 0 "Suc j" k v] show ?thesis by (simp add: holds_def)
  qed
  ultimately show ?case by auto
qed simp

lemma table_inv_unique:
  "table_inv hash cmp bs \<Longrightarrow> p < length bs \<Longrightarrow> q < length bs \<Longrightarrow> is_present (bs ! p) \<Longrightarrow>
     entry (bs ! p) = Some (k, v) \<Longrightarrow> holds cmp bs k q \<Longrightarrow> p = q"
  unfolding table_inv_def by blast

lemma table_inv_fresh_keys: "table_inv hash cmp bs \<Longrightarrow> fresh_keys cmp bs"
proof (rule fresh_keysI)
  fix i j k v
  assume "table_inv hash cmp bs" "i < j" "j < length bs" "is_present (bs ! i)" "entry (bs ! i) = Some (k, v)"
  then show "\<not> holds cmp bs k j" using table_inv_unique [of hash cmp bs i j k v] by auto
qed

text \<open>The table a rehash builds: no tombstones, an exact tombstone counter.\<close>

definition clean_dict ::
  "('k \<Rightarrow> u32) \<Rightarrow> ('k \<Rightarrow> 'k \<Rightarrow> bool) \<Rightarrow> ('k, 'v) dict \<Rightarrow> nat \<Rightarrow> bool" where
  "clean_dict hash cmp d n \<longleftrightarrow>
     dict_inv hash cmp d \<and> no_tombs (buckets d) \<and> thombstones_count d = 0 \<and> dict_size d = n"

lemma replicate_zero_inv:
  "n \<noteq> 0 \<Longrightarrow> table_inv hash cmp (replicate n zero_bucket)"
  "live (replicate n zero_bucket) = 0"
  "no_tombs (replicate n zero_bucket)"
  by (simp_all add: table_inv_def bucket_ok_def live_def no_tombs_def zero_bucket_def)

lemma bfind_zero: "bfind cmp (replicate n zero_bucket) k = None"
  by (induction n) (simp_all add: zero_bucket_def)

context hash_key
begin

lemma insert_clean:
  assumes d: "clean_dict hash cmp d (2 ^ Suc j)" and small: "live (buckets d) < 2 ^ j"
    and new: "dict_lookup cmp d k = None"
  shows "\<exists>f d'. dict_insert_fuel (Suc fuel) hash cmp d k v = Inr (True, f, d')
     \<and> clean_dict hash cmp d' (2 ^ Suc j) \<and> inserts hash cmp d k v (True, f, d')"
proof -
  have inv: "dict_inv hash cmp d" using d by (simp add: clean_dict_def)
  have "\<not> load_exceeds (entries_count d + thombstones_count d) (dict_size d)"
    using d load_half [of "live (buckets d)" j] small
    by (simp add: clean_dict_def dict_inv_def)
  then have "dict_insert_fuel (Suc fuel) hash cmp d k v = insert_here hash cmp d k v"
    by (simp add: dict_insert_fuel.simps(2))
  moreover have "\<not> (\<forall>b \<in> set (buckets d). is_present b)"
  proof
    assume "\<forall>b \<in> set (buckets d). is_present b"
    then have "live (buckets d) = dict_size d" by (simp add: live_def dict_size_def)
    with d small show False by (simp add: clean_dict_def)
  qed
  then have "insert_here_ok d k v" using insert_here_cases [OF inv, of k v] by auto
  ultimately show ?thesis
    using d new by (auto simp: insert_here_ok_def clean_dict_def inserts_def)
qed

lemma rehash_correct:
  assumes "clean_dict hash cmp d (2 ^ Suc j)" and "live (buckets d) + live old \<le> 2 ^ j"
    and "\<forall>b \<in> set old. bucket_ok b" and "fresh_keys cmp old"
    and "\<forall>b \<in> set old. \<forall>k v. is_present b \<longrightarrow> entry b = Some (k, v) \<longrightarrow> dict_lookup cmp d k = None"
  shows "\<exists>d'. rehash (dict_insert_fuel (Suc fuel) hash cmp) old d = Inr d'
     \<and> clean_dict hash cmp d' (2 ^ Suc j) \<and> live (buckets d') = live (buckets d) + live old
     \<and> (\<forall>k. dict_lookup cmp d' k = (case bfind cmp old k of Some v \<Rightarrow> Some v | None \<Rightarrow> dict_lookup cmp d k))"
  using assms
proof (induction old arbitrary: d)
  case Nil
  then show ?case by (simp add: rehash_def live_def)
next
  case (Cons b old)
  show ?case
  proof (cases "is_present b")
    case False
    with Cons.prems have "live (buckets d) + live old \<le> 2 ^ j" by (simp add: live_def)
    with False Cons show ?thesis by (auto simp: rehash_def live_def)
  next
    case True
    with Cons.prems(3) obtain k v where kv: "entry b = Some (k, v)" by (auto simp: bucket_ok_def)
    have sz: "live (b # old) = Suc (live old)" using True by (simp add: live_def)
    with Cons.prems(2) have small: "live (buckets d) < 2 ^ j" by simp
    have new: "dict_lookup cmp d k = None" using Cons.prems(5) True kv by simp
    from insert_clean [OF Cons.prems(1) small new, of fuel v] obtain f d1
      where d1: "dict_insert_fuel (Suc fuel) hash cmp d k v = Inr (True, f, d1)"
        "clean_dict hash cmp d1 (2 ^ Suc j)" "inserts hash cmp d k v (True, f, d1)" by blast
    have lk1: "dict_lookup cmp d1 k' = (if cmp k k' then Some v else dict_lookup cmp d k')" for k'
      using d1(3) by (simp add: inserts_def)
    have live1: "live (buckets d1) = Suc (live (buckets d))" using d1(3) by (simp add: inserts_def)
    have nomatch: "\<forall>b' \<in> set old. \<not> (is_present b' \<and> key_matches cmp b' k)"
      using Cons.prems(4) True kv by simp
    have fresh1: "dict_lookup cmp d1 k' = None"
      if "b' \<in> set old" "is_present b'" "entry b' = Some (k', v')" for b' k' v'
    proof -
      have "\<not> cmp k' k" using nomatch that by (auto simp: key_matches_def)
      then have "\<not> cmp k k'" using cmp_sym by blast
      with that Cons.prems(5) show ?thesis by (auto simp: lk1)
    qed
    from Cons.IH [OF d1(2)] live1 sz Cons.prems fresh1 obtain d'
      where d': "rehash (dict_insert_fuel (Suc fuel) hash cmp) old d1 = Inr d'"
        "clean_dict hash cmp d' (2 ^ Suc j)" "live (buckets d') = live (buckets d1) + live old"
        "\<forall>k. dict_lookup cmp d' k = (case bfind cmp old k of Some v \<Rightarrow> Some v | None \<Rightarrow> dict_lookup cmp d1 k)"
      by (auto simp del: power_Suc)
    have "rehash (dict_insert_fuel (Suc fuel) hash cmp) (b # old) d = Inr d'"
      using d'(1) True kv d1(1) by (simp add: rehash_def)
    moreover have "dict_lookup cmp d' k' =
        (case bfind cmp (b # old) k' of Some v \<Rightarrow> Some v | None \<Rightarrow> dict_lookup cmp d k')" for k'
    proof (cases "cmp k k'")
      case c: True
      have "\<forall>b' \<in> set old. \<not> (is_present b' \<and> key_matches cmp b' k')"
        using nomatch cmp_trans [OF _ cmp_sym [OF c]]
        by (auto simp: key_matches_def split: option.splits)
      then have "List.find (\<lambda>b. is_present b \<and> key_matches cmp b k') old = None"
        by (simp add: find_None_iff)
      with c True kv d'(4) show ?thesis by (simp add: lk1 bfind_def key_matches_def)
    next
      case False
      with True kv d'(4) show ?thesis by (simp add: lk1 key_matches_def split: option.split)
    qed
    ultimately show ?thesis using d' live1 sz by auto
  qed
qed

lemma grow_correct:
  assumes inv: "dict_inv hash cmp d" and size: "dict_size d = 2 ^ j"
  shows "\<exists>d'. grow_and_rehash (dict_insert_fuel (Suc fuel) hash cmp) d = Inr d'
     \<and> clean_dict hash cmp d' (2 ^ Suc j) \<and> live (buckets d') = live (buckets d)
     \<and> dict_lookup cmp d' = dict_lookup cmp d"
proof -
  define d0 where "d0 = d\<lparr>entries_count := 0, thombstones_count := 0,
    buckets := replicate (dict_size d * 2) zero_bucket\<rparr>"
  have tinv: "table_inv hash cmp (buckets d)" using inv by (simp add: dict_inv_def)
  have clean: "clean_dict hash cmp d0 (2 ^ Suc j)"
    using size by (simp add: d0_def clean_dict_def dict_inv_def dict_size_def replicate_zero_inv)
  have lk0: "dict_lookup cmp d0 k = None" for k
    by (simp add: d0_def dict_lookup_def table_lookup_bfind bfind_zero)
  have live0: "live (buckets d0) = 0" by (simp add: d0_def replicate_zero_inv)
  have "live (buckets d) \<le> 2 ^ j" using size by (simp add: live_def dict_size_def flip: size)
  then obtain d' where d': "rehash (dict_insert_fuel (Suc fuel) hash cmp) (buckets d) d0 = Inr d'"
    "clean_dict hash cmp d' (2 ^ Suc j)" "live (buckets d') = live (buckets d)"
    "\<forall>k. dict_lookup cmp d' k = (case bfind cmp (buckets d) k of Some v \<Rightarrow> Some v | None \<Rightarrow> None)"
    using rehash_correct [OF clean, of "buckets d" fuel] table_inv_bucket_ok [OF tinv]
      table_inv_fresh_keys [OF tinv] unfolding live0 lk0 by auto
  have "entries_count d = entries_count d'"
    using inv d'(2,3) by (simp add: dict_inv_def clean_dict_def)
  with d'(1) have "grow_and_rehash (dict_insert_fuel (Suc fuel) hash cmp) d = Inr d'"
    by (simp add: grow_and_rehash_def shd_dict_count_def Let_def d0_def)
  moreover have "dict_lookup cmp d' = dict_lookup cmp d"
    using d'(4) by (auto simp: fun_eq_iff dict_lookup_def table_lookup_bfind split: option.splits)
  ultimately show ?thesis using d'(2,3) by blast
qed

end

text \<open>
  A table whose size is a power of two keeps that; insertion then returns, unless every bucket
  is live, the key is new and the load test did not ask for growth.
\<close>

definition dict_wf ::
  "('k \<Rightarrow> u32) \<Rightarrow> ('k \<Rightarrow> 'k \<Rightarrow> bool) \<Rightarrow> ('k, 'v) dict \<Rightarrow> bool" where
  "dict_wf hash cmp d \<longleftrightarrow> dict_inv hash cmp d \<and> (\<exists>j. dict_size d = 2 ^ j)"

context hash_key
begin

lemma insert_cases:
  assumes wf: "dict_wf hash cmp d"
  defines "over \<equiv> load_exceeds (entries_count d + thombstones_count d) (dict_size d)"
  shows "if \<not> over \<and> (\<forall>b \<in> set (buckets d). is_present b) \<and> dict_lookup cmp d k = None
         then dict_insert hash cmp d k v = Inl AssertFailed
         else \<exists>fresh f d'. dict_insert hash cmp d k v = Inr (fresh, f, d') \<and> dict_wf hash cmp d'
            \<and> inserts hash cmp d k v (fresh, f, d')
            \<and> (no_tombs (buckets d) \<and> thombstones_count d = 0 \<longrightarrow>
                 no_tombs (buckets d') \<and> thombstones_count d' = 0)"
proof (cases over)
  case False
  then have "dict_insert hash cmp d k v = insert_here hash cmp d k v"
    by (simp add: dict_insert_def over_def numeral_2_eq_2 dict_insert_fuel.simps(2))
  with False insert_here_cases [of d k v] wf show ?thesis
    by (fastforce simp: insert_here_ok_def dict_wf_def inserts_def split: if_splits)
next
  case True
  from wf obtain j where j: "dict_inv hash cmp d" "dict_size d = 2 ^ j" by (auto simp: dict_wf_def)
  from grow_correct [OF j, of 0] obtain d1
    where d1: "grow_and_rehash (dict_insert_fuel 1 hash cmp) d = Inr d1"
      "clean_dict hash cmp d1 (2 ^ Suc j)" "live (buckets d1) = live (buckets d)"
      "dict_lookup cmp d1 = dict_lookup cmp d" by auto
  have inv1: "dict_inv hash cmp d1" using d1(2) by (simp add: clean_dict_def)
  have ins: "dict_insert hash cmp d k v = insert_here hash cmp d1 k v"
    using True d1(1) by (simp add: dict_insert_def over_def numeral_2_eq_2 dict_insert_fuel.simps(2))
  have "live (buckets d1) \<le> 2 ^ j"
    using d1(3) j(2) length_filter_le [of is_present "buckets d"] by (simp add: live_def dict_size_def)
  moreover have "length (buckets d1) = 2 * 2 ^ j" using d1(2) by (simp add: clean_dict_def dict_size_def)
  moreover have "live (buckets d1) = length (buckets d1)" if "\<forall>b \<in> set (buckets d1). is_present b"
    using that by (simp add: live_def)
  moreover have "(0::nat) < 2 ^ j" by simp
  ultimately have "\<not> (\<forall>b \<in> set (buckets d1). is_present b)" by linarith
  then have "insert_here_ok d1 k v" using insert_here_cases [OF inv1, of k v] by auto
  then obtain fresh f d' where d': "insert_here hash cmp d1 k v = Inr (fresh, f, d')"
    "inserts hash cmp d1 k v (fresh, f, d')" "dict_size d' = dict_size d1"
    "no_tombs (buckets d')" "thombstones_count d' = 0"
    using d1(2) by (auto simp: insert_here_ok_def clean_dict_def)
  moreover have "inserts hash cmp d k v (fresh, f, d')"
    using d'(2) d1(3,4) by (simp add: inserts_def)
  moreover have "dict_size d' = 2 ^ Suc j" using d'(3) d1(2) by (simp add: clean_dict_def)
  then have "dict_wf hash cmp d'" using d'(2) unfolding dict_wf_def inserts_def by blast
  ultimately show ?thesis using ins True by auto
qed

lemma insert_wf:
  assumes "dict_wf hash cmp d" and "dict_insert hash cmp d k v = Inr (fresh, f, d')"
  shows "dict_wf hash cmp d' \<and> inserts hash cmp d k v (fresh, f, d')"
  using insert_cases [OF assms(1), of k v] assms(2) by (auto split: if_splits)

end

end
