(* ===== verification/DictProps.thy ===== *)
theory DictProps
  imports DictMap
begin

text \<open>
  The contract that the compiler's passes rely on when they use \<^verbatim>\<open>dict.c\<close> as a finite map, as a
  locale over the operations they call, its interpretation on the hash table, and the properties
  of the table: histories of operations refine a function, iteration enumerates it, and insertion
  cannot fail while the tombstone counter is right. Theory \<open>DictDrift\<close> has the history on which
  that counter goes wrong.
\<close>

subsection \<open>The client's interface\<close>

datatype ('k, 'v) dict_op = Insert 'k 'v | Remove 'k | Clear

fun client_step ::
  "('d \<Rightarrow> 'k \<Rightarrow> 'v \<Rightarrow> (bool \<times> 'd) result) \<Rightarrow> ('d \<Rightarrow> 'k \<Rightarrow> (bool \<times> 'd) result) \<Rightarrow> ('d \<Rightarrow> 'd)
     \<Rightarrow> ('k, 'v) dict_op \<Rightarrow> 'd \<Rightarrow> 'd result" where
  "client_step ins rem clr (Insert k v) d = bind_res (ins d k v) (\<lambda>(_, d). Inr d)"
| "client_step ins rem clr (Remove k) d = bind_res (rem d k) (\<lambda>(_, d). Inr d)"
| "client_step ins rem clr Clear d = Inr (clr d)"

fun spec_step ::
  "('k \<Rightarrow> 'k \<Rightarrow> bool) \<Rightarrow> ('k, 'v) dict_op \<Rightarrow> ('k \<Rightarrow> 'v option) \<Rightarrow> 'k \<Rightarrow> 'v option" where
  "spec_step same (Insert k v) m = (\<lambda>k'. if same k k' then Some v else m k')"
| "spec_step same (Remove k) m = (\<lambda>k'. if same k k' then None else m k')"
| "spec_step same Clear m = (\<lambda>_. None)"

locale map_client =
  fixes invar :: "'d \<Rightarrow> bool"
    and look :: "'d \<Rightarrow> 'k \<Rightarrow> 'v option"
    and same :: "'k \<Rightarrow> 'k \<Rightarrow> bool"
    and emp :: 'd
    and ins :: "'d \<Rightarrow> 'k \<Rightarrow> 'v \<Rightarrow> (bool \<times> 'd) result"
    and rem :: "'d \<Rightarrow> 'k \<Rightarrow> (bool \<times> 'd) result"
    and clr :: "'d \<Rightarrow> 'd"
  assumes emp_ok: "invar emp \<and> look emp = (\<lambda>_. None)"
    and ins_ok: "invar d \<Longrightarrow> ins d k v = Inr (b, d') \<Longrightarrow>
      invar d' \<and> (b \<longleftrightarrow> look d k = None) \<and> look d' = spec_step same (Insert k v) (look d)"
    and rem_ok: "invar d \<Longrightarrow>
      \<exists>d'. rem d k = Inr (look d k \<noteq> None, d') \<and> invar d' \<and> look d' = spec_step same (Remove k) (look d)"
    and clr_ok: "invar d \<Longrightarrow> invar (clr d) \<and> look (clr d) = (\<lambda>_. None)"
begin

lemma step_refines:
  assumes "invar d" and "client_step ins rem clr op d = Inr d'"
  shows "invar d' \<and> look d' = spec_step same op (look d)"
proof (cases op)
  case (Insert k v)
  with assms(2) obtain b where "ins d k v = Inr (b, d')" by (auto simp: bind_res_Inr_iff)
  from ins_ok [OF assms(1) this] Insert show ?thesis by simp
next
  case (Remove k)
  from rem_ok [OF assms(1), of k] obtain d1
    where "rem d k = Inr (look d k \<noteq> None, d1)" "invar d1"
      "look d1 = spec_step same (Remove k) (look d)" by blast
  with Remove assms(2) show ?thesis by simp
next
  case Clear
  with assms clr_ok show ?thesis by auto
qed

lemma run_refines:
  assumes "invar d" and "fold_res (client_step ins rem clr) ops d = Inr d'"
  shows "invar d' \<and> look d' = fold (spec_step same) ops (look d)"
  using assms
proof (induction ops arbitrary: d)
  case (Cons op ops)
  from Cons.prems(2) obtain d1
    where d1: "client_step ins rem clr op d = Inr d1" "fold_res (client_step ins rem clr) ops d1 = Inr d'"
    by (auto elim: bind_res_InrE)
  from step_refines [OF Cons.prems(1) d1(1)] Cons.IH [OF _ d1(2)] show ?case by simp
qed simp

end

subsection \<open>The hash table provides it\<close>

lemma dict_lookup_zero: "buckets d = replicate n zero_bucket \<Longrightarrow> dict_lookup cmp d = (\<lambda>_. None)"
  by (rule ext) (simp add: dict_lookup_def table_lookup_bfind bfind_zero)

lemma dict_lookup_new: "dict_lookup cmp shd_new_dict = (\<lambda>_. None)"
  by (rule dict_lookup_zero) (simp add: shd_new_dict_def)

lemma dict_wf_zero:
  assumes "buckets d = replicate (2 ^ j) zero_bucket" and "entries_count d = 0"
  shows "dict_wf hash cmp d"
proof -
  have "dict_size d = 2 ^ j" using assms by (simp add: dict_size_def)
  then show ?thesis
    using assms by (auto simp: dict_wf_def dict_inv_def replicate_zero_inv)
qed

lemma dict_wf_new: "dict_wf hash cmp shd_new_dict"
  by (rule dict_wf_zero [where j = 5]) (simp_all add: shd_new_dict_def init_size_def)

lemma dict_wf_clear: "dict_wf hash cmp d \<Longrightarrow> dict_wf hash cmp (shd_dict_clear d)"
  by (auto simp: dict_wf_def shd_dict_clear_def intro!: dict_wf_zero [unfolded dict_wf_def])

sublocale hash_key \<subseteq> table: map_client "dict_wf hash cmp" "dict_lookup cmp" cmp shd_new_dict
  "shd_dict_insert_impl hash cmp" "shd_dict_remove_impl hash cmp" shd_dict_clear
proof unfold_locales
  show "dict_wf hash cmp shd_new_dict \<and> dict_lookup cmp shd_new_dict = (\<lambda>_. None)"
    by (simp add: dict_wf_new dict_lookup_new)
next
  fix d :: "('k, 'v) dict" and k v b d'
  assume wf: "dict_wf hash cmp d" and "shd_dict_insert_impl hash cmp d k v = Inr (b, d')"
  then obtain f where "dict_insert hash cmp d k v = Inr (b, f, d')"
    by (auto simp: shd_dict_insert_impl_def bind_res_Inr_iff)
  from insert_wf [OF wf this] show "dict_wf hash cmp d' \<and> (b \<longleftrightarrow> dict_lookup cmp d k = None)
      \<and> dict_lookup cmp d' = spec_step cmp (Insert k v) (dict_lookup cmp d)"
    by (auto simp: inserts_def)
next
  fix d :: "('k, 'v) dict" and k
  assume "dict_wf hash cmp d"
  with remove_correct [of d k] show "\<exists>d'. shd_dict_remove_impl hash cmp d k = Inr (dict_lookup cmp d k \<noteq> None, d')
      \<and> dict_wf hash cmp d' \<and> dict_lookup cmp d' = spec_step cmp (Remove k) (dict_lookup cmp d)"
    by (fastforce simp: dict_wf_def)
next
  fix d :: "('k, 'v) dict"
  assume "dict_wf hash cmp d"
  then show "dict_wf hash cmp (shd_dict_clear d) \<and> dict_lookup cmp (shd_dict_clear d) = (\<lambda>_. None)"
    using dict_wf_clear dict_lookup_zero [of "shd_dict_clear d" "dict_size d"]
    by (simp add: shd_dict_clear_def)
qed

text \<open>The keys of \<^verbatim>\<open>dict.c\<close> itself: pointers, hashed by their bytes and compared for identity.\<close>

interpretation ptr_key: hash_key shd_hash_ptr shd_compare_ptrs
  by unfold_locales (simp_all add: shd_compare_ptrs_def)

text \<open>Any hash function is admissible for keys that are compared for equality.\<close>

interpretation eq_key: hash_key hash "(=)" for hash :: "'k \<Rightarrow> u32"
  by unfold_locales simp_all

subsection \<open>Histories\<close>

definition dict_run ::
  "('k \<Rightarrow> u32) \<Rightarrow> ('k \<Rightarrow> 'k \<Rightarrow> bool) \<Rightarrow> ('k, 'v) dict_op list \<Rightarrow> ('k, 'v) dict \<Rightarrow> ('k, 'v) dict result" where
  "dict_run hash cmp =
     fold_res (client_step (shd_dict_insert_impl hash cmp) (shd_dict_remove_impl hash cmp) shd_dict_clear)"

context hash_key
begin

lemma history:
  assumes "dict_run hash cmp ops shd_new_dict = Inr d"
  shows "dict_wf hash cmp d \<and> dict_lookup cmp d = fold (spec_step cmp) ops (\<lambda>_. None)"
  using table.run_refines [OF dict_wf_new assms [unfolded dict_run_def]]
  by (simp add: dict_lookup_new)

lemma history_find:
  assumes "dict_run hash cmp ops shd_new_dict = Inr d"
  shows "shd_dict_find_value_impl hash cmp d k = Inr (fold (spec_step cmp) ops (\<lambda>_. None) k)"
  using history [OF assms] find_value_impl [of d k] by (simp add: dict_wf_def dict_inv_def)

text \<open>A full table with an exact tombstone counter has no tombstone, so the load test fires.\<close>

lemma insert_succeeds:
  assumes wf: "dict_wf hash cmp d" and size: "dict_size d < 2 ^ 64"
    and exact: "thombstones_count d = of_nat (length (filter is_thombstone (buckets d)))"
  shows "\<exists>fresh d'. shd_dict_insert_impl hash cmp d k v = Inr (fresh, d')"
proof -
  have False if full: "\<forall>b \<in> set (buckets d). is_present b"
    and low: "\<not> load_exceeds (entries_count d + thombstones_count d) (dict_size d)"
  proof -
    have inv: "dict_inv hash cmp d" using wf by (simp add: dict_wf_def)
    have "filter is_thombstone (buckets d) = []"
      using full inv table_inv_bucket_ok [of hash cmp "buckets d"]
      by (auto simp: filter_empty_conv bucket_ok_def dict_inv_def)
    with exact have "thombstones_count d = 0" by simp
    moreover have "entries_count d = of_nat (dict_size d)"
      using inv full by (simp add: dict_inv_def live_def dict_size_def)
    moreover from wf obtain j where "dict_size d = 2 ^ j" by (auto simp: dict_wf_def)
    ultimately show False using low load_full [of j] size by simp
  qed
  then show ?thesis
    using insert_cases [OF wf, of k v] by (auto simp: shd_dict_insert_impl_def split: if_splits)
qed

end

subsection \<open>Iteration\<close>

lemma iterate_skip:
  "i < dict_size d \<Longrightarrow> \<not> is_present (buckets d ! i) \<Longrightarrow> iterate_from d i = iterate_from d (i + 1)"
  by (simp add: iterate_from.simps [of d i] iterate_from.simps [of d "Suc i"] shd_dict_iter.simps [of d i])

lemma iterate_from_eq: "iterate_from d i = map entry (filter is_present (drop i (buckets d)))"
proof (induction "dict_size d - i" arbitrary: i)
  case 0
  then show ?case by (simp add: iterate_from.simps [of d i] shd_dict_iter.simps [of d i] dict_size_def)
next
  case (Suc n)
  then have i: "i < length (buckets d)" by (simp add: dict_size_def)
  have IH: "iterate_from d (i + 1) = map entry (filter is_present (drop (i + 1) (buckets d)))"
    using Suc(2) by (intro Suc(1)) simp
  have dr: "drop i (buckets d) = buckets d ! i # drop (i + 1) (buckets d)"
    using i by (simp add: Cons_nth_drop_Suc)
  show ?case
  proof (cases "is_present (buckets d ! i)")
    case True
    then have "shd_dict_iter d i = (True, i + 1, entry (buckets d ! i))"
      using i by (simp add: shd_dict_iter.simps [of d i] dict_size_def)
    with True IH show ?thesis by (simp add: iterate_from.simps [of d i] dr)
  next
    case False
    with i IH iterate_skip [of i d] show ?thesis by (simp add: dict_size_def dr)
  qed
qed

definition live_entries :: "('k, 'v) bucket list \<Rightarrow> ('k \<times> 'v) list" where
  "live_entries bs = map (\<lambda>b. the (entry b)) (filter is_present bs)"

lemma live_entries_Some:
  "\<forall>b \<in> set bs. bucket_ok b \<Longrightarrow> map entry (filter is_present bs) = map Some (live_entries bs)"
  by (induction bs) (auto simp: live_entries_def bucket_ok_def)

lemma live_entries_iff:
  "\<forall>b \<in> set bs. bucket_ok b \<Longrightarrow>
     (k, v) \<in> set (live_entries bs) \<longleftrightarrow> (\<exists>b \<in> set bs. is_present b \<and> entry b = Some (k, v))"
  by (induction bs) (auto simp: live_entries_def bucket_ok_def)

context hash_key
begin

lemma lookup_Some_iff:
  assumes tinv: "table_inv hash cmp bs"
  shows "table_lookup cmp bs k = Some v \<longleftrightarrow>
    (\<exists>b \<in> set bs. \<exists>k'. is_present b \<and> entry b = Some (k', v) \<and> cmp k' k)"
proof
  assume "table_lookup cmp bs k = Some v"
  then obtain p where p: "p < length bs" "holds cmp bs k p" "map_option snd (entry (bs ! p)) = Some v"
    by (auto simp: table_lookup_def dict_pos_iff [OF tinv] split: option.splits)
  then obtain k' where "entry (bs ! p) = Some (k', v)" "cmp k' k" "is_present (bs ! p)"
    by (auto simp: holds_iff)
  with p(1) show "\<exists>b \<in> set bs. \<exists>k'. is_present b \<and> entry b = Some (k', v) \<and> cmp k' k"
    using nth_mem by blast
next
  assume "\<exists>b \<in> set bs. \<exists>k'. is_present b \<and> entry b = Some (k', v) \<and> cmp k' k"
  then obtain p k' where p: "p < length bs" "is_present (bs ! p)" "entry (bs ! p) = Some (k', v)" "cmp k' k"
    unfolding in_set_conv_nth Bex_def by blast
  then have "dict_pos cmp bs k = Some p" by (simp add: dict_pos_iff [OF tinv] holds_iff)
  with p show "table_lookup cmp bs k = Some v" by (simp add: table_lookup_def)
qed

lemma iterate_lookup:
  assumes wf: "dict_wf hash cmp d"
  shows "\<exists>kvs. iterate_from d 0 = map Some kvs \<and> of_nat (length kvs) = shd_dict_count d
    \<and> (\<forall>k v. dict_lookup cmp d k = Some v \<longleftrightarrow> (\<exists>k'. (k', v) \<in> set kvs \<and> cmp k' k))"
proof -
  have tinv: "table_inv hash cmp (buckets d)" using wf by (simp add: dict_wf_def dict_inv_def)
  note ok = table_inv_bucket_ok [OF tinv]
  have "iterate_from d 0 = map Some (live_entries (buckets d))"
    by (simp add: iterate_from_eq live_entries_Some [OF ok])
  moreover have "of_nat (length (live_entries (buckets d))) = shd_dict_count d"
    using wf by (simp add: dict_wf_def dict_inv_def live_def live_entries_def shd_dict_count_def)
  moreover have "dict_lookup cmp d k = Some v
      \<longleftrightarrow> (\<exists>k'. (k', v) \<in> set (live_entries (buckets d)) \<and> cmp k' k)" for k v
    unfolding dict_lookup_def lookup_Some_iff [OF tinv] live_entries_iff [OF ok] by blast
  ultimately show ?thesis by blast
qed

end

text \<open>
  C2: whatever sequence of insertions, removals and clears a client performs on a fresh table,
  through any number of growths and tombstone reuses, looking a key up afterwards returns what
  the same sequence does to a plain function, and the lookup never leaves the table.
\<close>

theorem dict_history_refines_map:
  assumes "hash_key hash cmp" and "dict_run hash cmp ops shd_new_dict = Inr d"
  shows "shd_dict_find_value_impl hash cmp d k = Inr (fold (spec_step cmp) ops (\<lambda>_. None) k)"
  using assms by (rule hash_key.history_find)

theorem dict_history_refines_map_witness:
  "\<exists>d. dict_run shd_hash_ptr shd_compare_ptrs [Insert 5 (7::nat)] shd_new_dict = Inr d
     \<and> shd_dict_find_value_impl shd_hash_ptr shd_compare_ptrs d 5 = Inr (Some 7)"
proof -
  have "\<exists>fresh d. shd_dict_insert_impl shd_hash_ptr shd_compare_ptrs shd_new_dict 5 (7::nat) = Inr (fresh, d)"
    by (rule ptr_key.insert_succeeds [OF dict_wf_new])
      (simp_all add: shd_new_dict_def dict_size_def init_size_def zero_bucket_def)
  then obtain d where d: "dict_run shd_hash_ptr shd_compare_ptrs [Insert 5 (7::nat)] shd_new_dict = Inr d"
    by (auto simp: dict_run_def)
  then show ?thesis
    using dict_history_refines_map [OF ptr_key.hash_key_axioms d, of 5]
    by (auto simp: shd_compare_ptrs_def)
qed

text \<open>
  C18: while the tombstone counter is exact, insertion into a well-formed table of a size below
  \<open>2 ^ 64\<close> always returns: it finds a free bucket or grows, and none of its assertions fails.
\<close>

theorem dict_insert_total:
  assumes "hash_key hash cmp" and "dict_wf hash cmp d" and "dict_size d < 2 ^ 64"
    and "thombstones_count d = of_nat (length (filter is_thombstone (buckets d)))"
  shows "\<exists>fresh d'. shd_dict_insert_impl hash cmp d k v = Inr (fresh, d')"
  using assms by (rule hash_key.insert_succeeds)

theorem dict_insert_total_witness:
  "\<exists>fresh d'. shd_dict_insert_impl shd_hash_ptr shd_compare_ptrs shd_new_dict 5 (7::nat) = Inr (fresh, d')"
  by (rule dict_insert_total [OF ptr_key.hash_key_axioms dict_wf_new])
    (simp_all add: shd_new_dict_def dict_size_def init_size_def zero_bucket_def)

text \<open>
  C19: the iteration loop of a well-formed table terminates after visiting every live entry: it
  yields as many entries as the counter says, and a key is bound to a value exactly when an entry
  with a key that compares equal and that value was seen.
\<close>

theorem dict_iteration_complete:
  assumes "hash_key hash cmp" and "dict_wf hash cmp d"
  shows "\<exists>kvs. iterate_from d 0 = map Some kvs \<and> of_nat (length kvs) = shd_dict_count d
    \<and> (\<forall>k v. dict_lookup cmp d k = Some v \<longleftrightarrow> (\<exists>k'. (k', v) \<in> set kvs \<and> cmp k' k))"
  using assms by (rule hash_key.iterate_lookup)

theorem dict_iteration_complete_witness:
  "\<exists>kvs. iterate_from (shd_new_dict :: (u64, nat) dict) 0 = map Some kvs \<and> (of_nat (length kvs) :: u64) = 0"
  using dict_iteration_complete [OF ptr_key.hash_key_axioms dict_wf_new]
  by (auto simp: shd_dict_count_def shd_new_dict_def)

end
