(* ===== verification/DictDrift.thy ===== *)
theory DictDrift
  imports DictProps
begin

text \<open>
  A history of the hash table of \<^verbatim>\<open>src/common/dict.c\<close> on which its tombstone counter is wrong by
  so much that an insertion finds no free bucket.
\<close>

subsection \<open>The tombstone counter drifts\<close>

text \<open>
  Moving an entry into an earlier tombstone turns the bucket it leaves into a tombstone that is
  never counted. Re-inserting two colliding keys in turn drives the counter below the truth (and
  below zero, modulo \<open>2 ^ 64\<close>), after which the load test lets the table fill up.
\<close>

definition drift_swap :: "nat \<Rightarrow> nat \<Rightarrow> (nat, unit) dict_op list" where
  "drift_swap x y = [Remove x, Insert y (), Insert x ()]"

definition drift_cycle :: "(nat, unit) dict_op list" where
  "drift_cycle = drift_swap 0 32 @ drift_swap 32 0"

definition fill :: "nat list \<Rightarrow> (nat, unit) dict_op list" where
  "fill ks = map (\<lambda>k. Insert k ()) ks"

definition drift_history :: "(nat, unit) dict_op list" where
  "drift_history =
     fill [0, 32] @ fill [3..<20] @ concat (replicate 7 drift_cycle) @ fill (2 # [20..<32])"

definition demo_hash :: "nat \<Rightarrow> u32" where
  "demo_hash k = of_nat k"

lemma load_small: "unat s \<le> 19 \<Longrightarrow> \<not> load_exceeds s 32"
  by (simp add: load_exceeds_def float_of_nat_def)

lemma demo_pos: "k \<le> 32 \<Longrightarrow> hash_pos demo_hash 32 k = k mod 32"
  by (simp add: hash_pos_def demo_hash_def unat_of_nat)

abbreviation demo_run :: "(nat, unit) dict_op list \<Rightarrow> (nat, unit) dict \<Rightarrow> (nat, unit) dict result" where
  "demo_run \<equiv> dict_run demo_hash (=)"

abbreviation live_bucket :: "nat \<Rightarrow> (nat, unit) bucket" where
  "live_bucket k \<equiv> \<lparr>is_present = True, is_thombstone = False, entry = Some (k, ())\<rparr>"

abbreviation tomb_bucket :: "nat \<Rightarrow> (nat, unit) bucket" where
  "tomb_bucket k \<equiv> \<lparr>is_present = False, is_thombstone = True, entry = Some (k, ())\<rparr>"

lemma demo_run_simps [simp]:
  "demo_run [] d = Inr d"
  "demo_run (Insert k () # ops) d
     = bind_res (shd_dict_insert_impl demo_hash (=) d k ()) (\<lambda>(_, d). demo_run ops d)"
  "demo_run (Remove k # ops) d
     = bind_res (shd_dict_remove_impl demo_hash (=) d k) (\<lambda>(_, d). demo_run ops d)"
  by (auto simp: dict_run_def bind_res_def split: sum.splits)

lemma demo_run_append: "demo_run (xs @ ys) d = bind_res (demo_run xs d) (demo_run ys)"
  by (simp add: dict_run_def fold_res_append)

text \<open>Below the load limit, an insertion is its scan and its placement.\<close>

lemma demo_insert:
  assumes "unat (entries_count d + thombstones_count d) \<le> 19" and "length (buckets d) = 32" and "k \<le> 32"
  shows "shd_dict_insert_impl demo_hash (=) d k ()
    = bind_res (insert_scan (=) (buckets d) k (k mod 32) (k mod 32) None)
        (\<lambda>(mode, fa, pos). bind_res (dict_place d mode fa pos k ()) (\<lambda>(fresh, _, d). Inr (fresh, d)))"
  using assms load_small [OF assms(1)]
  by (simp add: shd_dict_insert_impl_def dict_insert_def numeral_2_eq_2 dict_insert_fuel.simps(2)
      dict_size_def insert_here_def demo_pos bind_res_def split: sum.split)

lemma demo_insert_empty:
  assumes "unat (entries_count d + thombstones_count d) \<le> 19" and "length (buckets d) = 32"
    and "k < 32" and "buckets d ! k = zero_bucket"
  shows "shd_dict_insert_impl demo_hash (=) d k () = Inr (True,
    d\<lparr>entries_count := entries_count d + 1, buckets := (buckets d)[k := live_bucket k]\<rparr>)"
  using assms
  by (simp add: demo_insert, subst insert_scan.simps)
    (simp add: zero_bucket_def dict_place_def dict_size_def Let_def)

lemma demo_fill:
  assumes "unat (entries_count d + thombstones_count d) + length ks \<le> 20" and "length (buckets d) = 32"
    and "distinct ks" and "\<forall>k \<in> set ks. k < 32 \<and> buckets d ! k = zero_bucket"
  shows "\<exists>d'. demo_run (fill ks) d = Inr d' \<and> entries_count d' = entries_count d + of_nat (length ks)
    \<and> thombstones_count d' = thombstones_count d \<and> length (buckets d') = 32
    \<and> (\<forall>k. k \<notin> set ks \<longrightarrow> buckets d' ! k = buckets d ! k)"
  using assms
proof (induction ks arbitrary: d)
  case Nil
  then show ?case by (simp add: fill_def)
next
  case (Cons k ks)
  let ?s = "entries_count d + thombstones_count d"
  let ?d = "d\<lparr>entries_count := entries_count d + 1, buckets := (buckets d)[k := live_bucket k]\<rparr>"
  have s: "unat ?s + length ks \<le> 19" using Cons.prems(1) by simp
  then have "unat (?s + 1) = unat ?s + 1" by (simp add: unat_word_ariths)
  then have "unat (entries_count ?d + thombstones_count ?d) + length ks \<le> 20"
    using s by (simp add: algebra_simps)
  moreover have "(buckets d)[k := live_bucket k] ! k' = zero_bucket" if "k' \<in> set ks" for k'
    using that Cons.prems by (cases "k' = k") auto
  ultimately obtain d'
    where "demo_run (fill ks) ?d = Inr d'" "entries_count d' = entries_count ?d + of_nat (length ks)"
      "thombstones_count d' = thombstones_count d" "length (buckets d') = 32"
      "\<forall>k'. k' \<notin> set ks \<longrightarrow> buckets d' ! k' = buckets ?d ! k'"
    using Cons.IH [of ?d] Cons.prems by auto
  then show ?case
    using demo_insert_empty [of d k] s Cons.prems by (auto simp: fill_def)
qed

lemma demo_swap:
  assumes "entries_count d + thombstones_count d = s" and "0 < unat s" "unat s \<le> 19"
    and "length (buckets d) = 32" and "x \<noteq> y" and "x mod 32 = 0" "x \<le> 32" "y mod 32 = 0" "y \<le> 32"
    and "buckets d ! 0 = live_bucket x" "buckets d ! 1 = live_bucket y" "buckets d ! 2 = zero_bucket"
  shows "demo_run (drift_swap x y) d = Inr (d\<lparr>thombstones_count := thombstones_count d - 1,
    buckets := (buckets d)[0 := live_bucket y, 1 := live_bucket x]\<rparr>)"
proof -
  let ?bs = "buckets d"
  define d1 where "d1 = d\<lparr>buckets := ?bs[0 := tomb_bucket x],
    thombstones_count := thombstones_count d + 1, entries_count := entries_count d - 1\<rparr>"
  define d2 where "d2 = d1\<lparr>thombstones_count := thombstones_count d,
    buckets := ?bs[0 := live_bucket y, 1 := tomb_bucket y]\<rparr>"
  have rem: "shd_dict_remove_impl demo_hash (=) d x = Inr (True, d1)"
    using assms unfolding shd_dict_remove_impl_def shd_dict_find_impl_def
    by (subst find_loop.simps) (simp add: demo_pos dict_size_def key_matches_def d1_def Let_def)
  have n1: "?bs[0 := tomb_bucket x] ! 1 = live_bucket y" using assms by simp
  have ins1: "shd_dict_insert_impl demo_hash (=) d1 y () = Inr (False, d2)"
  proof -
    have "insert_scan (=) (buckets d1) y 0 0 None = Inr (Moving, 0, 1)"
      using assms n1 by (subst insert_scan.simps, subst insert_scan.simps)
        (simp add: d1_def next_pos_def key_matches_def Let_def)
    then show ?thesis
      using assms n1 by (subst demo_insert) (simp_all add: d1_def d2_def dict_place_def dict_size_def
          Let_def list_update_swap tag_update_swap)
  qed
  have n2: "?bs[0 := live_bucket y, 1 := tomb_bucket y] ! 0 = live_bucket y"
      "?bs[0 := live_bucket y, 1 := tomb_bucket y] ! 1 = tomb_bucket y"
      "?bs[0 := live_bucket y, 1 := tomb_bucket y] ! 2 = zero_bucket" using assms by simp_all
  have s2: "unat (entries_count d2 + thombstones_count d2) \<le> 19"
  proof -
    have "entries_count d2 + thombstones_count d2 = s - 1"
      using assms(1) by (simp add: d2_def d1_def algebra_simps)
    moreover have "unat (s - 1) = unat s - 1" using assms(2) by (intro unat_minus_one) auto
    ultimately show ?thesis using assms(3) by simp
  qed
  have ins2: "shd_dict_insert_impl demo_hash (=) d2 x () = Inr (True,
    d\<lparr>thombstones_count := thombstones_count d - 1, buckets := ?bs[0 := live_bucket y, 1 := live_bucket x]\<rparr>)"
  proof -
    have "insert_scan (=) (buckets d2) x 0 0 None = Inr (Inserting, 1, 2)"
      using assms n2 unfolding d2_def
      by (subst insert_scan.simps, subst insert_scan.simps, subst insert_scan.simps)
        (simp add: next_pos_def key_matches_def Let_def zero_bucket_def numeral_2_eq_2)
    then show ?thesis
      using assms n2 s2 by (subst demo_insert) (simp_all add: d1_def d2_def dict_place_def dict_size_def
          Let_def)
  qed
  show ?thesis by (simp add: drift_swap_def rem ins1 ins2)
qed

lemma demo_cycles:
  assumes "entries_count d + thombstones_count d = of_nat m" and "2 * n < m" "m \<le> 19"
    and "length (buckets d) = 32"
    and "buckets d ! 0 = live_bucket 0" "buckets d ! 1 = live_bucket 32" "buckets d ! 2 = zero_bucket"
  shows "demo_run (concat (replicate n drift_cycle)) d
    = Inr (d\<lparr>thombstones_count := thombstones_count d - of_nat (2 * n)\<rparr>)"
  using assms
proof (induction n arbitrary: d m)
  case 0
  then show ?case by simp
next
  case (Suc n)
  let ?bs = "buckets d"
  let ?d1 = "d\<lparr>thombstones_count := thombstones_count d - 1,
    buckets := ?bs[0 := live_bucket 32, 1 := live_bucket 0]\<rparr>"
  let ?d2 = "d\<lparr>thombstones_count := thombstones_count d - 2\<rparr>"
  have m: "2 < m" "m \<le> 19" using Suc.prems by auto
  have u: "unat (of_nat m :: u64) = m" using m by (simp add: unat_of_nat)
  have one: "demo_run (drift_swap 0 32) d = Inr ?d1"
    using Suc.prems m u demo_swap [of d "of_nat m" 0 32] by simp
  have "?bs[0 := live_bucket 32, 1 := live_bucket 0, 0 := live_bucket 0, 1 := live_bucket 32] = ?bs"
    using Suc.prems by (simp add: list_update_swap list_update_id flip: Suc.prems(5,6))
  moreover have "entries_count ?d1 + thombstones_count ?d1 = of_nat (m - 1)"
    using Suc.prems(1) m by (simp add: of_nat_diff)
  moreover have "unat (of_nat (m - 1) :: u64) = m - 1" by (subst unat_of_nat) (use m in simp)
  ultimately have two: "demo_run (drift_swap 32 0) ?d1 = Inr ?d2"
    using Suc.prems m demo_swap [of ?d1 "of_nat (m - 1)" 32 0] by simp
  have "entries_count ?d2 + thombstones_count ?d2 = of_nat (m - 2)"
    using Suc.prems(1) m by (simp add: of_nat_diff)
  with Suc.IH [of ?d2 "m - 2"] Suc.prems m
  have "demo_run (concat (replicate n drift_cycle)) ?d2
    = Inr (d\<lparr>thombstones_count := thombstones_count d - 2 - of_nat (2 * n)\<rparr>)" by simp
  then show ?case by (simp add: drift_cycle_def demo_run_append one two algebra_simps del: One_nat_def)
qed

lemma drift_reaches_full:
  "\<exists>d. demo_run drift_history shd_new_dict = Inr d \<and> entries_count d = 32
     \<and> thombstones_count d = - 14 \<and> length (buckets d) = 32"
proof -
  let ?bs = "replicate 32 zero_bucket :: (nat, unit) bucket list"
  define d1 :: "(nat, unit) dict" where
    "d1 = \<lparr>entries_count = 2, thombstones_count = 0, buckets = ?bs[0 := live_bucket 0, 1 := live_bucket 32]\<rparr>"
  have one: "demo_run (fill [0, 32]) shd_new_dict = Inr d1"
  proof -
    let ?d = "shd_new_dict\<lparr>entries_count := 1, buckets := ?bs[0 := live_bucket 0]\<rparr>"
    have "shd_dict_insert_impl demo_hash (=) shd_new_dict 0 () = Inr (True, ?d)"
      by (subst demo_insert_empty) (simp_all add: shd_new_dict_def init_size_def)
    moreover have "shd_dict_insert_impl demo_hash (=) ?d 32 () = Inr (True, d1)"
      by (subst demo_insert, simp_all add: shd_new_dict_def, subst insert_scan.simps, subst insert_scan.simps)
        (simp add: next_pos_def key_matches_def Let_def zero_bucket_def dict_place_def dict_size_def d1_def)
    ultimately show ?thesis by (simp add: fill_def)
  qed
  have d1: "buckets d1 ! 0 = live_bucket 0" "buckets d1 ! 1 = live_bucket 32"
    "\<And>k. 1 < k \<Longrightarrow> k < 32 \<Longrightarrow> buckets d1 ! k = zero_bucket" "length (buckets d1) = 32"
    "entries_count d1 = 2" "thombstones_count d1 = 0" by (simp_all add: d1_def)
  have "\<forall>k \<in> set [3..<20]. k < 32 \<and> buckets d1 ! k = zero_bucket"
    using d1(3) unfolding set_upt by auto
  with demo_fill [of d1 "[3..<20]", OF _ d1(4) distinct_upt] d1(5,6) obtain d2
    where d2: "demo_run (fill [3..<20]) d1 = Inr d2"
      "entries_count d2 = entries_count d1 + of_nat (length [3..<20])"
      "thombstones_count d2 = thombstones_count d1" "length (buckets d2) = 32"
      "\<forall>k. k \<notin> set [3..<20] \<longrightarrow> buckets d2 ! k = buckets d1 ! k"
    by (auto simp del: upt_rec_numeral)
  then have e2: "entries_count d2 = 19" "thombstones_count d2 = 0" using d1 by simp_all
  have b2: "buckets d2 ! k = buckets d1 ! k" if "k < 3 \<or> 20 \<le> k" for k
    using d2(5) that unfolding set_upt by auto
  let ?d3 = "d2\<lparr>thombstones_count := - 14\<rparr>"
  have three: "demo_run (concat (replicate 7 drift_cycle)) d2 = Inr ?d3"
    using demo_cycles [of d2 19 7] d2(4) e2 b2 d1 by simp
  have zero: "\<forall>k \<in> set (2 # [20..<32]). k < 32 \<and> buckets ?d3 ! k = zero_bucket"
    using d1(3) b2 unfolding set_simps set_upt by auto
  have "unat (entries_count ?d3 + thombstones_count ?d3) + length (2 # [20..<32]) \<le> 20"
    using e2 by simp
  from demo_fill [OF this _ _ zero] d2(4) e2 obtain d4
    where "demo_run (fill (2 # [20..<32])) ?d3 = Inr d4" "entries_count d4 = 32"
      "thombstones_count d4 = - 14" "length (buckets d4) = 32" by auto
  with one d2(1) three show ?thesis by (auto simp: drift_history_def demo_run_append)
qed

text \<open>
  C20: there is a history of insertions and removals of 33 distinct keys after which the table
  holds 32 live entries in 32 buckets while the load test sees 18, so inserting one more key
  fails the assertion that a free bucket was found (a release build writes out of bounds).
\<close>

theorem dict_tombstone_drift:
  "\<exists>d. dict_run demo_hash (=) drift_history shd_new_dict = Inr d
     \<and> entries_count d = 32 \<and> dict_size d = 32 \<and> entries_count d + thombstones_count d = 18
     \<and> shd_dict_insert_impl demo_hash (=) d 1 () = Inl AssertFailed"
proof -
  obtain d where d: "demo_run drift_history shd_new_dict = Inr d" "entries_count d = 32"
    "thombstones_count d = - 14" "length (buckets d) = 32" using drift_reaches_full by blast
  from eq_key.history [OF d(1)] have wf: "dict_wf demo_hash (=) d"
    and lk: "dict_lookup (=) d 1 = fold (spec_step (=)) drift_history (\<lambda>_. None) 1" by simp_all
  have "fold (spec_step (=)) drift_history (\<lambda>_. None) 1 = None" by code_simp
  with lk have none: "dict_lookup (=) d 1 = None" by simp
  have "(of_nat (live (buckets d)) :: u64) = 32" using wf d(2) by (simp add: dict_wf_def dict_inv_def)
  then have "unat (of_nat (live (buckets d)) :: u64) = 32" by simp
  moreover have "live (buckets d) \<le> 32" using d(4) length_filter_le [of is_present "buckets d"]
    by (simp add: live_def)
  ultimately have "live (buckets d) = length (buckets d)" using d(4) by (simp add: unat_of_nat)
  then have "\<forall>b \<in> set (buckets d). is_present b" by (simp add: live_def length_filter_all)
  moreover have "\<not> load_exceeds (entries_count d + thombstones_count d) (dict_size d)"
    using d load_small [of 18] by (simp add: dict_size_def)
  ultimately have "shd_dict_insert_impl demo_hash (=) d 1 () = Inl AssertFailed"
    using eq_key.insert_cases [OF wf, of 1 "()"] none by (simp add: shd_dict_insert_impl_def)
  with d show ?thesis by (auto simp: dict_size_def)
qed

end
