(* ===== verification/SpirvWords.thy ===== *)
theory SpirvWords
  imports DictProps
begin

unbundle bit_operations_syntax

text \<open>
  The word level of \<^verbatim>\<open>src/backend/spirv/spirv_builder.c\<close>: how an instruction header, an id, a
  literal and a string become 32-bit words of a section, and the grammar a consumer reads them
  with. A section is the list of its words; \<^verbatim>\<open>shd_growy_append_bytes\<close> appends. Enumerators of the
  SPIR-V headers (a git submodule) are not in the repository: the record \<open>spirv_h\<close> carries them
  as a parameter of every operation that uses one.
\<close>

type_synonym section_words = "u32 list"
type_synonym spv_id = u32

datatype spv_op =
    SpvOpAccessChain | SpvOpBranch | SpvOpBranchConditional | SpvOpCapability
  | SpvOpCompositeConstruct | SpvOpCompositeExtract | SpvOpCompositeInsert | SpvOpConstant
  | SpvOpConstantComposite | SpvOpConstantFalse | SpvOpConstantNull | SpvOpConstantTrue
  | SpvOpDecorate | SpvOpEntryPoint | SpvOpExecutionMode | SpvOpExtInst | SpvOpExtInstImport
  | SpvOpExtension | SpvOpFunction | SpvOpFunctionCall | SpvOpFunctionEnd | SpvOpFunctionParameter
  | SpvOpGroupNonUniformBallot | SpvOpGroupNonUniformBroadcastFirst | SpvOpGroupNonUniformElect
  | SpvOpGroupNonUniformShuffle | SpvOpLabel | SpvOpLoad | SpvOpLoopMerge | SpvOpMemberDecorate
  | SpvOpMemoryModel | SpvOpName | SpvOpPhi | SpvOpPtrAccessChain | SpvOpReturn | SpvOpReturnValue
  | SpvOpSelect | SpvOpSelectionMerge | SpvOpStore | SpvOpString | SpvOpSwitch | SpvOpTypeArray
  | SpvOpTypeBool | SpvOpTypeFloat | SpvOpTypeForwardPointer | SpvOpTypeFunction | SpvOpTypeImage
  | SpvOpTypeInt | SpvOpTypePointer | SpvOpTypeRuntimeArray | SpvOpTypeSampledImage
  | SpvOpTypeSampler | SpvOpTypeStruct | SpvOpTypeVector | SpvOpTypeVoid | SpvOpUndef
  | SpvOpUnreachable | SpvOpVariable | SpvOpVectorExtractDynamic | SpvOpVectorInsertDynamic
  | SpvOpVectorShuffle

record spirv_h =
  opcode :: "spv_op \<Rightarrow> u32"
  SpvMagicNumber :: u32
  SpvFunctionControlMaskNone :: u32
  SpvMemoryModelGLSL450 :: u32
  SpvAddressingModelLogical :: u32

subsection \<open>Emitting words\<close>

definition div_roundup :: "nat \<Rightarrow> nat \<Rightarrow> nat" where
  "div_roundup a b = (if a mod b = 0 then a div b else a div b + 1)"

definition output_word :: "u32 \<Rightarrow> section_words \<Rightarrow> section_words" where
  "output_word w data = data @ [w]"

text \<open>The instruction header: the opcode in the low half, the word count in the high half.\<close>

definition emit_op :: "u32 \<Rightarrow> nat \<Rightarrow> section_words \<Rightarrow> section_words result" where
  "emit_op opc ops_size data =
     (let lower = opc AND 0xFFFF;
          upper = push_bit 16 (of_nat ops_size) AND 0xFFFF0000
      in Inr (output_word (lower OR upper) data))"

definition ref_id :: "spv_id \<Rightarrow> section_words \<Rightarrow> section_words result" where
  "ref_id i data = bind_res (assert_res (i \<noteq> 0)) (\<lambda>_. Inr (output_word i data))"

definition literal_int :: "u32 \<Rightarrow> section_words \<Rightarrow> section_words result" where
  "literal_int i data = Inr (output_word i data)"

text \<open>The loop of \<^verbatim>\<open>spvb_literal_name\<close> over the characters: four bytes per word, low byte first.\<close>

fun literal_name_loop :: "u8 list \<Rightarrow> nat \<Rightarrow> u32 \<Rightarrow> section_words \<Rightarrow> section_words" where
  "literal_name_loop [] i cword data = output_word cword data"
| "literal_name_loop (c # str) i cword data =
     (let cword = cword OR push_bit (i * 8) (ucast c); i = i + 1
      in if i = 4 then literal_name_loop str 0 0 (output_word cword data)
         else literal_name_loop str i cword data)"

definition spvb_literal_name :: "u8 list \<Rightarrow> section_words \<Rightarrow> section_words result" where
  "spvb_literal_name str data = Inr (literal_name_loop str 0 0 data)"

definition copy_section :: "section_words \<Rightarrow> section_words \<Rightarrow> section_words result" where
  "copy_section source target = Inr (target @ source)"

text \<open>Emitters run one after another on the same section.\<close>

type_synonym emitter = "section_words \<Rightarrow> section_words result"

definition emit :: "emitter list \<Rightarrow> section_words \<Rightarrow> section_words result" where
  "emit es = fold_res (\<lambda>e. e) es"

definition ref_ids :: "spv_id list \<Rightarrow> emitter" where
  "ref_ids is = fold_res ref_id is"

definition literal_ints :: "u32 list \<Rightarrow> emitter" where
  "literal_ints is = fold_res literal_int is"

subsection \<open>What the emitters append\<close>

text \<open>An emitter that appends the words \<open>ws\<close>, provided all the ids in \<open>ids\<close> are nonzero.\<close>

definition appends :: "emitter \<Rightarrow> bool \<Rightarrow> u32 list \<Rightarrow> bool" where
  "appends e ok ws \<longleftrightarrow> (\<forall>data. e data = (if ok then Inr (data @ ws) else Inl AssertFailed))"

definition inst_word :: "u32 \<Rightarrow> nat \<Rightarrow> u32" where
  "inst_word opc n = (opc AND 0xFFFF) OR (push_bit 16 (of_nat n) AND 0xFFFF0000)"

fun name_words :: "u8 list \<Rightarrow> u32 list" where
  "name_words (a # b # c # d # str) =
     (ucast a OR push_bit 8 (ucast b) OR push_bit 16 (ucast c) OR push_bit 24 (ucast d)) # name_words str"
| "name_words [a, b, c] = [ucast a OR push_bit 8 (ucast b) OR push_bit 16 (ucast c)]"
| "name_words [a, b] = [ucast a OR push_bit 8 (ucast b)]"
| "name_words [a] = [ucast a]"
| "name_words [] = [0]"

lemma literal_name_loop_eq: "literal_name_loop str 0 0 data = data @ name_words str"
  by (induction str arbitrary: data rule: name_words.induct)
    (simp_all add: output_word_def Let_def or.assoc)

lemma length_name_words: "length (name_words str) = div_roundup (length str + 1) 4"
proof (induction str rule: name_words.induct)
  case (1 a b c d str)
  have "(n + 4) div 4 = n div 4 + 1" for n :: nat by presburger
  then have "div_roundup (n + 4) 4 = div_roundup n 4 + 1" for n by (simp add: div_roundup_def)
  from this [of "length str + 1"] 1 show ?case by (simp add: eval_nat_numeral)
qed (simp_all add: div_roundup_def)

lemma appends_op: "appends (emit_op opc n) True [inst_word opc n]"
  by (simp add: appends_def emit_op_def inst_word_def output_word_def Let_def)

lemma appends_ref_id: "appends (ref_id i) (i \<noteq> 0) [i]"
  by (simp add: appends_def ref_id_def output_word_def)

lemma appends_literal_int: "appends (literal_int i) True [i]"
  by (simp add: appends_def literal_int_def output_word_def)

lemma appends_literal_name: "appends (spvb_literal_name s) True (name_words s)"
  by (simp add: appends_def spvb_literal_name_def literal_name_loop_eq)

lemma appends_copy: "appends (copy_section ws) True ws"
  by (simp add: appends_def copy_section_def)

lemma appends_fold:
  assumes "\<And>x. x \<in> set xs \<Longrightarrow> appends (f x) (ok x) (ws x)"
  shows "appends (fold_res f xs) (\<forall>x \<in> set xs. ok x) (concat (map ws xs))"
  using assms
proof (induction xs)
  case (Cons x xs)
  then show ?case by (auto simp: appends_def)
qed (simp add: appends_def)

lemma appends_ref_ids: "appends (ref_ids is) (0 \<notin> set is) is"
proof -
  have "appends (ref_ids is) (\<forall>i \<in> set is. i \<noteq> 0) (concat (map (\<lambda>i. [i]) is))"
    unfolding ref_ids_def by (rule appends_fold) (rule appends_ref_id)
  moreover have "(\<forall>i \<in> set is. i \<noteq> 0) \<longleftrightarrow> 0 \<notin> set is" by metis
  ultimately show ?thesis by simp
qed

lemma appends_literal_ints: "appends (literal_ints is) True is"
  using appends_fold [of "is" literal_int "\<lambda>_. True" "\<lambda>i. [i]"] appends_literal_int
  by (simp add: literal_ints_def)

lemma appends_emit_Nil: "appends (emit []) True []"
  by (simp add: appends_def emit_def)

lemma appends_emit_Cons:
  "appends e ok1 ws1 \<Longrightarrow> appends (emit es) ok2 ws2 \<Longrightarrow> appends (emit (e # es)) (ok1 \<and> ok2) (ws1 @ ws2)"
  by (simp add: appends_def emit_def)

lemmas appends_intros =
  appends_emit_Nil appends_emit_Cons appends_op appends_ref_id appends_literal_int
  appends_literal_name appends_copy appends_ref_ids appends_literal_ints

lemma appendsD: "appends e ok ws \<Longrightarrow> e data = Inr data' \<Longrightarrow> ok \<and> data' = data @ ws"
  by (auto simp: appends_def split: if_splits)

subsection \<open>Reading instructions back\<close>

text \<open>A physical instruction: its opcode and its operand words.\<close>

type_synonym inst = "u32 \<times> u32 list"

definition word_count :: "u32 \<Rightarrow> nat" where
  "word_count w = unat (drop_bit 16 w)"

definition word_opcode :: "u32 \<Rightarrow> u32" where
  "word_opcode w = w AND 0xFFFF"

text \<open>
  The reader of the SPIR-V binary form (section 2.3): each instruction starts with its word count
  and opcode and extends over that many words.
\<close>

function parse_insts :: "u32 list \<Rightarrow> inst list option" where
  "parse_insts [] = Some []"
| "parse_insts (w # ws) =
     (let n = word_count w
      in if n = 0 \<or> n - 1 > length ws then None
         else map_option (\<lambda>is. (word_opcode w, take (n - 1) ws) # is) (parse_insts (drop (n - 1) ws)))"
  by pat_completeness auto
termination by (relation "measure length") auto

declare parse_insts.simps(2) [simp del]

text \<open>One instruction as the builder is meant to write it.\<close>

definition enc_inst :: "u32 \<Rightarrow> u32 list \<Rightarrow> u32 list" where
  "enc_inst opc args = inst_word opc (length args + 1) # args"

lemma word_opcode_inst: "word_opcode (inst_word opc n) = opc AND 0xFFFF"
proof -
  have "(0xFFFF0000 :: u32) AND 0xFFFF = 0" by simp
  then have "(push_bit 16 (of_nat n) AND 0xFFFF0000) AND (0xFFFF :: u32) = 0"
    by (simp add: and.assoc)
  then show ?thesis
    by (simp add: word_opcode_def inst_word_def bit.conj_disj_distrib2 and.assoc)
qed

lemma word_count_inst:
  assumes "n < 65536"
  shows "word_count (inst_word opc n) = n"
proof -
  have lo: "drop_bit 16 (opc AND 0xFFFF) = (0 :: u32)"
    by (rule bit_eqI) (simp add: bit_drop_bit_eq bit_and_iff bit_numeral_word_iff)
  have shift: "drop_bit 16 (push_bit 16 x) = take_bit 16 x" for x :: u32
    by (rule bit_eqI) (auto simp: bit_simps)
  have m: "x AND 0xFFFF = take_bit 16 x" for x :: u32
    by (simp add: take_bit_eq_mask mask_eq_exp_minus_1)
  have "drop_bit 16 (push_bit 16 (of_nat n) AND 0xFFFF0000) = take_bit 16 (of_nat n :: u32) AND 0xFFFF"
    by (simp add: shift)
  also have "\<dots> = take_bit 16 (of_nat n)" by (simp only: m take_bit_take_bit min.idem)
  also have "\<dots> = of_nat n"
    using assms by (simp add: take_bit_of_nat take_bit_nat_eq_self)
  finally have "drop_bit 16 (inst_word opc n) = of_nat n"
    by (simp add: inst_word_def drop_bit_or lo)
  with assms show ?thesis by (simp add: word_count_def unat_of_nat)
qed

lemma parse_enc_inst:
  assumes "length args + 1 < 65536"
  shows "parse_insts (enc_inst opc args @ ws) = map_option (\<lambda>is. (opc AND 0xFFFF, args) # is) (parse_insts ws)"
  using word_count_inst [OF assms, of opc]
  by (simp add: enc_inst_def parse_insts.simps(2) word_opcode_inst Let_def)

lemma parse_append:
  "parse_insts xs = Some is \<Longrightarrow> parse_insts (xs @ ys) = map_option (\<lambda>js. is @ js) (parse_insts ys)"
proof (induction xs arbitrary: "is" rule: parse_insts.induct)
  case 1
  then show ?case by (simp add: option.map_ident)
next
  case (2 w ws)
  let ?n = "word_count w"
  from "2.prems" obtain js where n: "?n \<noteq> 0" "?n - 1 \<le> length ws"
    and js: "parse_insts (drop (?n - 1) ws) = Some js" "is = (word_opcode w, take (?n - 1) ws) # js"
    by (auto simp: parse_insts.simps(2) Let_def split: if_splits)
  from "2.IH" [OF refl _ js(1)] n
  have "parse_insts (drop (?n - 1) ws @ ys) = map_option (\<lambda>ks. js @ ks) (parse_insts ys)" by simp
  with n js(2) show ?case
    by (simp add: parse_insts.simps(2) [of w "ws @ ys"] Let_def option.map_comp comp_def)
qed

end
