(* ===== verification/SpirvBuilder.thy ===== *)
theory SpirvBuilder
  imports SpirvWords
begin

text \<open>
  The SPIR-V module builder of \<^verbatim>\<open>src/backend/spirv/spirv_builder.c\<close>: the file builder with its
  twelve sections, id supply and capability and extension sets, one definition per exported
  operation in the order of the file, the function and basic-block builders with their phis, and
  the final merge. The sets are the hash tables of theory \<open>DictC\<close>. A variable-length argument
  with its count is a list, an optional operand an \<open>option\<close>; builders are passed and returned.
  The enumerators passed by callers are words.
\<close>

subsection \<open>The file builder\<close>

datatype section_name =
    Capabilities | Extensions | ExtInstImport | EntryPoints | ExecutionModes | DebugStringSource
  | DebugNames | DebugModuleProcessed | Annotations | TypesConstants | FnDecls | FnDefs

definition hash_u32 :: "u32 \<Rightarrow> u32" where
  "hash_u32 p = shd_hash (map (\<lambda>i. ucast (drop_bit (8 * i) p)) [0..<4])"

definition compare_u32s :: "u32 \<Rightarrow> u32 \<Rightarrow> bool" where
  "compare_u32s a b = (a = b)"

definition shd_hash_string :: "u8 list \<Rightarrow> u32" where
  "shd_hash_string s = shd_hash s"

definition shd_compare_string :: "u8 list \<Rightarrow> u8 list \<Rightarrow> bool" where
  "shd_compare_string a b = (length a = length b \<and> a = b)"

interpretation u32_key: hash_key hash_u32 compare_u32s
  by unfold_locales (simp_all add: compare_u32s_def)

interpretation string_key: hash_key shd_hash_string shd_compare_string
  by unfold_locales (simp_all add: shd_compare_string_def)

record file_builder =
  addressing_model :: u32
  memory_model :: u32
  bound :: u32
  version_major :: u8
  version_minor :: u8
  sections :: "section_name \<Rightarrow> section_words"
  capabilities_set :: "(u32, unit) dict"
  extensions_set :: "(u8 list, unit) dict"

definition spvb_begin :: "spirv_h \<Rightarrow> file_builder" where
  "spvb_begin H = \<lparr>addressing_model = 0, memory_model = SpvMemoryModelGLSL450 H, bound = 1,
     version_major = 0, version_minor = 0, sections = (\<lambda>_. []),
     capabilities_set = shd_new_dict, extensions_set = shd_new_dict\<rparr>"

definition spvb_fresh_id :: "file_builder \<Rightarrow> spv_id \<times> file_builder" where
  "spvb_fresh_id fb = (bound fb, fb\<lparr>bound := bound fb + 1\<rparr>)"

definition spvb_set_version :: "file_builder \<Rightarrow> u8 \<Rightarrow> u8 \<Rightarrow> file_builder" where
  "spvb_set_version fb major minor = fb\<lparr>version_major := major, version_minor := minor\<rparr>"

definition spvb_set_addressing_model :: "spirv_h \<Rightarrow> file_builder \<Rightarrow> u32 \<Rightarrow> file_builder result" where
  "spvb_set_addressing_model H fb model =
     bind_res (assert_res (addressing_model fb = SpvAddressingModelLogical H \<or> addressing_model fb = model))
       (\<lambda>_. Inr (fb\<lparr>addressing_model := model\<rparr>))"

text \<open>The macro \<^verbatim>\<open>target_data\<close>: run emitters on one section, with a fresh id where one is taken.\<close>

definition out_section :: "section_name \<Rightarrow> file_builder \<Rightarrow> emitter list \<Rightarrow> file_builder result" where
  "out_section sec fb es =
     bind_res (emit es (sections fb sec)) (\<lambda>ws. Inr (fb\<lparr>sections := (sections fb)(sec := ws)\<rparr>))"

definition out_fresh ::
  "section_name \<Rightarrow> file_builder \<Rightarrow> (spv_id \<Rightarrow> emitter list) \<Rightarrow> (spv_id \<times> file_builder) result" where
  "out_fresh sec fb es =
     (let (id, fb) = spvb_fresh_id fb
      in bind_res (out_section sec fb (es id)) (\<lambda>fb. Inr (id, fb)))"

definition ref_id_opt :: "spv_id option \<Rightarrow> emitter" where
  "ref_id_opt x = (case x of None \<Rightarrow> (\<lambda>data. Inr data) | Some i \<Rightarrow> ref_id i)"

definition spvb_capability :: "spirv_h \<Rightarrow> file_builder \<Rightarrow> u32 \<Rightarrow> file_builder result" where
  "spvb_capability H fb cap =
     bind_res (shd_dict_insert_impl hash_u32 compare_u32s (capabilities_set fb) cap ()) (\<lambda>(fresh, set).
       let fb = fb\<lparr>capabilities_set := set\<rparr>
       in if fresh
          then out_section Capabilities fb [emit_op (opcode H SpvOpCapability) 2, literal_int cap]
          else Inr fb)"

definition spvb_extension :: "spirv_h \<Rightarrow> file_builder \<Rightarrow> u8 list \<Rightarrow> file_builder result" where
  "spvb_extension H fb name =
     bind_res (shd_dict_insert_impl shd_hash_string shd_compare_string (extensions_set fb) name ())
       (\<lambda>(fresh, set).
          let fb = fb\<lparr>extensions_set := set\<rparr>
          in if fresh
             then out_section Extensions fb
                    [emit_op (opcode H SpvOpExtension) (1 + div_roundup (length name + 1) 4),
                     spvb_literal_name name]
             else Inr fb)"

definition spvb_name :: "spirv_h \<Rightarrow> file_builder \<Rightarrow> spv_id \<Rightarrow> u8 list \<Rightarrow> file_builder result" where
  "spvb_name H fb i str =
     bind_res (assert_res (i < bound fb)) (\<lambda>_.
       out_section DebugNames fb
         [emit_op (opcode H SpvOpName) (2 + div_roundup (length str + 1) 4), ref_id i,
          spvb_literal_name str])"

subsection \<open>File-level instructions\<close>

definition spvb_extended_import ::
  "spirv_h \<Rightarrow> file_builder \<Rightarrow> u8 list \<Rightarrow> (spv_id \<times> file_builder) result" where
  "spvb_extended_import H fb name =
     out_fresh ExtInstImport fb (\<lambda>id.
       [emit_op (opcode H SpvOpExtInstImport) (2 + div_roundup (length name + 1) 4), ref_id id,
        spvb_literal_name name])"

definition spvb_entry_point ::
  "spirv_h \<Rightarrow> file_builder \<Rightarrow> u32 \<Rightarrow> spv_id \<Rightarrow> u8 list \<Rightarrow> spv_id list \<Rightarrow> file_builder result" where
  "spvb_entry_point H fb execution_model entry_point name interface_elements =
     out_section EntryPoints fb
       [emit_op (opcode H SpvOpEntryPoint) (3 + div_roundup (length name + 1) 4 + length interface_elements),
        literal_int execution_model, ref_id entry_point, spvb_literal_name name,
        ref_ids interface_elements]"

definition spvb_execution_mode ::
  "spirv_h \<Rightarrow> file_builder \<Rightarrow> spv_id \<Rightarrow> u32 \<Rightarrow> u32 list \<Rightarrow> file_builder result" where
  "spvb_execution_mode H fb entry_point execution_mode payloads =
     out_section ExecutionModes fb
       [emit_op (opcode H SpvOpExecutionMode) (3 + length payloads), ref_id entry_point,
        literal_int execution_mode, literal_ints payloads]"

definition spvb_debug_string ::
  "spirv_h \<Rightarrow> file_builder \<Rightarrow> u8 list \<Rightarrow> (spv_id \<times> file_builder) result" where
  "spvb_debug_string H fb str =
     out_fresh DebugStringSource fb (\<lambda>id.
       [emit_op (opcode H SpvOpString) (2 + div_roundup (length str + 1) 4), ref_id id,
        spvb_literal_name str])"

definition spvb_decorate ::
  "spirv_h \<Rightarrow> file_builder \<Rightarrow> spv_id \<Rightarrow> u32 \<Rightarrow> u32 list \<Rightarrow> file_builder result" where
  "spvb_decorate H fb target decoration extras =
     out_section Annotations fb
       [emit_op (opcode H SpvOpDecorate) (3 + length extras), ref_id target,
        literal_int decoration, literal_ints extras]"

definition spvb_decorate_member ::
  "spirv_h \<Rightarrow> file_builder \<Rightarrow> spv_id \<Rightarrow> u32 \<Rightarrow> u32 \<Rightarrow> u32 list \<Rightarrow> file_builder result" where
  "spvb_decorate_member H fb target member decoration extras =
     out_section Annotations fb
       [emit_op (opcode H SpvOpMemberDecorate) (4 + length extras), ref_id target,
        literal_int member, literal_int decoration, literal_ints extras]"

definition spvb_bool_type ::
  "spirv_h \<Rightarrow> file_builder \<Rightarrow> (spv_id \<times> file_builder) result" where
  "spvb_bool_type H fb =
     out_fresh TypesConstants fb (\<lambda>id.
       [emit_op (opcode H SpvOpTypeBool) 2, ref_id id])"

definition spvb_int_type ::
  "spirv_h \<Rightarrow> file_builder \<Rightarrow> u32 \<Rightarrow> bool \<Rightarrow> (spv_id \<times> file_builder) result" where
  "spvb_int_type H fb width is_sgn =
     out_fresh TypesConstants fb (\<lambda>id.
       [emit_op (opcode H SpvOpTypeInt) 4, ref_id id, literal_int width,
        literal_int (if is_sgn then 1 else 0)])"

definition spvb_float_type ::
  "spirv_h \<Rightarrow> file_builder \<Rightarrow> u32 \<Rightarrow> (spv_id \<times> file_builder) result" where
  "spvb_float_type H fb width =
     out_fresh TypesConstants fb (\<lambda>id.
       [emit_op (opcode H SpvOpTypeFloat) 3, ref_id id, literal_int width])"

definition spvb_void_type ::
  "spirv_h \<Rightarrow> file_builder \<Rightarrow> (spv_id \<times> file_builder) result" where
  "spvb_void_type H fb =
     out_fresh TypesConstants fb (\<lambda>id.
       [emit_op (opcode H SpvOpTypeVoid) 2, ref_id id])"

definition spvb_ptr_type ::
  "spirv_h \<Rightarrow> file_builder \<Rightarrow> u32 \<Rightarrow> spv_id \<Rightarrow> (spv_id \<times> file_builder) result" where
  "spvb_ptr_type H fb storage_class element_type =
     out_fresh TypesConstants fb (\<lambda>id.
       [emit_op (opcode H SpvOpTypePointer) 4, ref_id id, literal_int storage_class,
        ref_id element_type])"

definition spvb_forward_ptr_type ::
  "spirv_h \<Rightarrow> file_builder \<Rightarrow> u32 \<Rightarrow> (spv_id \<times> file_builder) result" where
  "spvb_forward_ptr_type H fb storage_class =
     out_fresh TypesConstants fb (\<lambda>id.
       [emit_op (opcode H SpvOpTypeForwardPointer) 3, ref_id id, literal_int storage_class])"

definition spvb_ptr_type_define ::
  "spirv_h \<Rightarrow> file_builder \<Rightarrow> spv_id \<Rightarrow> u32 \<Rightarrow> spv_id \<Rightarrow> file_builder result" where
  "spvb_ptr_type_define H fb i storage_class element_type =
     out_section TypesConstants fb
       [emit_op (opcode H SpvOpTypePointer) 4, ref_id i, literal_int storage_class,
        ref_id element_type]"

definition spvb_array_type ::
  "spirv_h \<Rightarrow> file_builder \<Rightarrow> spv_id \<Rightarrow> spv_id \<Rightarrow> (spv_id \<times> file_builder) result" where
  "spvb_array_type H fb element_type dim =
     out_fresh TypesConstants fb (\<lambda>id.
       [emit_op (opcode H SpvOpTypeArray) 4, ref_id id, ref_id element_type, ref_id dim])"

definition spvb_runtime_array_type ::
  "spirv_h \<Rightarrow> file_builder \<Rightarrow> spv_id \<Rightarrow> (spv_id \<times> file_builder) result" where
  "spvb_runtime_array_type H fb element_type =
     out_fresh TypesConstants fb (\<lambda>id.
       [emit_op (opcode H SpvOpTypeRuntimeArray) 3, ref_id id, ref_id element_type])"

definition spvb_fn_type ::
  "spirv_h \<Rightarrow> file_builder \<Rightarrow> spv_id list \<Rightarrow> spv_id \<Rightarrow> (spv_id \<times> file_builder) result" where
  "spvb_fn_type H fb args_types codom =
     out_fresh TypesConstants fb (\<lambda>id.
       [emit_op (opcode H SpvOpTypeFunction) (3 + length args_types), ref_id id, ref_id codom,
        ref_ids args_types])"

definition spvb_struct_type ::
  "spirv_h \<Rightarrow> file_builder \<Rightarrow> spv_id \<Rightarrow> spv_id list \<Rightarrow> file_builder result" where
  "spvb_struct_type H fb i members =
     out_section TypesConstants fb
       [emit_op (opcode H SpvOpTypeStruct) (2 + length members), ref_id i, ref_ids members]"

definition spvb_vector_type ::
  "spirv_h \<Rightarrow> file_builder \<Rightarrow> spv_id \<Rightarrow> u32 \<Rightarrow> (spv_id \<times> file_builder) result" where
  "spvb_vector_type H fb component_type dim =
     out_fresh TypesConstants fb (\<lambda>id.
       [emit_op (opcode H SpvOpTypeVector) 4, ref_id id, ref_id component_type, literal_int dim])"

definition spvb_image_type ::
  "spirv_h \<Rightarrow> file_builder \<Rightarrow> spv_id \<Rightarrow> u32 \<Rightarrow> u32 \<Rightarrow> u32 \<Rightarrow> u32 \<Rightarrow> u32 \<Rightarrow> u32 \<Rightarrow> (spv_id \<times> file_builder) result" where
  "spvb_image_type H fb component_type dim depth onion multisample sampled image_format =
     out_fresh TypesConstants fb (\<lambda>id.
       [emit_op (opcode H SpvOpTypeImage) 9, ref_id id, ref_id component_type, literal_int dim,
        literal_int depth, literal_int onion, literal_int multisample, literal_int sampled,
        literal_int image_format])"

definition spvb_sampler_type ::
  "spirv_h \<Rightarrow> file_builder \<Rightarrow> (spv_id \<times> file_builder) result" where
  "spvb_sampler_type H fb =
     out_fresh TypesConstants fb (\<lambda>id.
       [emit_op (opcode H SpvOpTypeSampler) 2, ref_id id])"

definition spvb_sampled_image_type ::
  "spirv_h \<Rightarrow> file_builder \<Rightarrow> spv_id \<Rightarrow> (spv_id \<times> file_builder) result" where
  "spvb_sampled_image_type H fb image_type =
     out_fresh TypesConstants fb (\<lambda>id.
       [emit_op (opcode H SpvOpTypeSampledImage) 3, ref_id id, ref_id image_type])"

definition spvb_bool_constant ::
  "spirv_h \<Rightarrow> file_builder \<Rightarrow> spv_id \<Rightarrow> spv_id \<Rightarrow> bool \<Rightarrow> file_builder result" where
  "spvb_bool_constant H fb res ty value =
     out_section TypesConstants fb
       [emit_op (opcode H (if value then SpvOpConstantTrue else SpvOpConstantFalse)) 3,
        ref_id ty, ref_id res]"

definition spvb_constant ::
  "spirv_h \<Rightarrow> file_builder \<Rightarrow> spv_id \<Rightarrow> spv_id \<Rightarrow> u32 list \<Rightarrow> file_builder result" where
  "spvb_constant H fb res ty bit_pattern =
     out_section TypesConstants fb
       [emit_op (opcode H SpvOpConstant) (3 + length bit_pattern), ref_id ty, ref_id res,
        literal_ints bit_pattern]"

definition spvb_constant_composite ::
  "spirv_h \<Rightarrow> file_builder \<Rightarrow> spv_id \<Rightarrow> spv_id list \<Rightarrow> (spv_id \<times> file_builder) result" where
  "spvb_constant_composite H fb ty ops =
     out_fresh TypesConstants fb (\<lambda>id.
       [emit_op (opcode H SpvOpConstantComposite) (3 + length ops), ref_id ty, ref_id id,
        ref_ids ops])"

definition spvb_constant_null ::
  "spirv_h \<Rightarrow> file_builder \<Rightarrow> spv_id \<Rightarrow> (spv_id \<times> file_builder) result" where
  "spvb_constant_null H fb ty =
     out_fresh TypesConstants fb (\<lambda>id.
       [emit_op (opcode H SpvOpConstantNull) 3, ref_id ty, ref_id id])"

definition spvb_global_variable ::
  "spirv_h \<Rightarrow> file_builder \<Rightarrow> spv_id \<Rightarrow> spv_id \<Rightarrow> u32 \<Rightarrow> spv_id option \<Rightarrow> file_builder result" where
  "spvb_global_variable H fb i ty storage_class initializer =
     out_section TypesConstants fb
       [emit_op (opcode H SpvOpVariable) (if initializer \<noteq> None then 5 else 4),
        ref_id ty, ref_id i, literal_int storage_class, ref_id_opt initializer]"

definition spvb_constant_op ::
  "spirv_h \<Rightarrow> file_builder \<Rightarrow> spv_id \<Rightarrow> u32 \<Rightarrow> spv_id list \<Rightarrow> (spv_id \<times> file_builder) result" where
  "spvb_constant_op H fb ty opc operands =
     out_fresh TypesConstants fb (\<lambda>id.
       [emit_op opc (3 + length operands), ref_id ty, ref_id id, literal_ints operands])"

definition spvb_undef ::
  "spirv_h \<Rightarrow> file_builder \<Rightarrow> spv_id \<Rightarrow> (spv_id \<times> file_builder) result" where
  "spvb_undef H fb ty =
     out_fresh TypesConstants fb (\<lambda>id.
       [emit_op (opcode H SpvOpUndef) 3, ref_id ty, ref_id id])"

subsection \<open>Function and basic-block builders\<close>

text \<open>
  A basic block is filled while its function already lists it, so the function builder keeps the
  blocks begun for it in a store and lists the indices of the added ones; a phi is named by its
  position in the block's list.
\<close>

record spvb_phi =
  phi_type :: spv_id
  phi_value :: spv_id
  preds :: "(spv_id \<times> spv_id) list"   \<comment> \<open>basic block, value\<close>

record bb_builder =
  label :: spv_id
  phis :: "spvb_phi list"
  instructions_section :: section_words
  terminator_section :: section_words

record fn_builder =
  function_id :: spv_id
  fn_type :: spv_id
  fn_ret_type :: spv_id
  bb_store :: "bb_builder list"
  bbs :: "nat list"
  header :: section_words
  variables :: section_words

definition spvb_begin_fn :: "spv_id \<Rightarrow> spv_id \<Rightarrow> spv_id \<Rightarrow> fn_builder" where
  "spvb_begin_fn fn_id fn_t fn_ret_t = \<lparr>function_id = fn_id, fn_type = fn_t, fn_ret_type = fn_ret_t,
     bb_store = [], bbs = [], header = [], variables = []\<rparr>"

definition spvb_fn_ret_type_id :: "fn_builder \<Rightarrow> spv_id" where
  "spvb_fn_ret_type_id fnb = fn_ret_type fnb"

definition spvb_parameter ::
  "spirv_h \<Rightarrow> file_builder \<Rightarrow> fn_builder \<Rightarrow> spv_id \<Rightarrow> (spv_id \<times> file_builder \<times> fn_builder) result" where
  "spvb_parameter H fb fnb param_type =
     (let (id, fb) = spvb_fresh_id fb
      in bind_res (emit [emit_op (opcode H SpvOpFunctionParameter) 3, ref_id param_type, ref_id id]
                     (header fnb))
           (\<lambda>ws. Inr (id, fb, fnb\<lparr>header := ws\<rparr>)))"

definition spvb_local_variable ::
  "spirv_h \<Rightarrow> file_builder \<Rightarrow> fn_builder \<Rightarrow> spv_id \<Rightarrow> u32 \<Rightarrow> (spv_id \<times> file_builder \<times> fn_builder) result"
  where
  "spvb_local_variable H fb fnb ty storage_class =
     (let (id, fb) = spvb_fresh_id fb
      in bind_res (emit [emit_op (opcode H SpvOpVariable) 4, ref_id ty, ref_id id,
                         literal_int storage_class] (variables fnb))
           (\<lambda>ws. Inr (id, fb, fnb\<lparr>variables := ws\<rparr>)))"

definition function_header :: "spirv_h \<Rightarrow> fn_builder \<Rightarrow> emitter list" where
  "function_header H fnb =
     [emit_op (opcode H SpvOpFunction) 5, ref_id (fn_ret_type fnb), ref_id (function_id fnb),
      literal_int (SpvFunctionControlMaskNone H), ref_id (fn_type fnb), copy_section (header fnb)]"

definition spvb_declare_function :: "spirv_h \<Rightarrow> file_builder \<Rightarrow> fn_builder \<Rightarrow> file_builder result" where
  "spvb_declare_function H fb fnb =
     bind_res (assert_res (bbs fnb = [])) (\<lambda>_.
       out_section FnDecls fb (function_header H fnb @ [emit_op (opcode H SpvOpFunctionEnd) 1]))"

definition emit_pred :: "spv_id \<times> spv_id \<Rightarrow> emitter" where
  "emit_pred p = (case p of (basic_block, value) \<Rightarrow> emit [ref_id value, ref_id basic_block])"

definition emit_phi :: "spirv_h \<Rightarrow> spvb_phi \<Rightarrow> emitter" where
  "emit_phi H phi data =
     bind_res (emit [emit_op (opcode H SpvOpPhi) (3 + 2 * length (preds phi)), ref_id (phi_type phi),
                     ref_id (phi_value phi)] data) (\<lambda>data.
     bind_res (assert_res (length (preds phi) \<noteq> 0)) (\<lambda>_.
       fold_res emit_pred (preds phi) data))"

definition emit_bb :: "spirv_h \<Rightarrow> section_words \<Rightarrow> bool \<Rightarrow> bb_builder \<Rightarrow> emitter" where
  "emit_bb H vars first bb =
     emit ([emit_op (opcode H SpvOpLabel) 2, ref_id (label bb)]
           @ (if first then [copy_section vars] else [])
           @ map (emit_phi H) (phis bb)
           @ [copy_section (instructions_section bb), copy_section (terminator_section bb)])"

primrec emit_bbs :: "spirv_h \<Rightarrow> section_words \<Rightarrow> bool \<Rightarrow> bb_builder list \<Rightarrow> emitter" where
  "emit_bbs H vars first [] data = Inr data"
| "emit_bbs H vars first (bb # rest) data =
     bind_res (emit_bb H vars first bb data) (emit_bbs H vars False rest)"

definition added_bbs :: "fn_builder \<Rightarrow> bb_builder list" where
  "added_bbs fnb = map ((!) (bb_store fnb)) (bbs fnb)"

text \<open>Each block is freed once it is copied: a block that was added twice is read after that.\<close>

definition spvb_define_function :: "spirv_h \<Rightarrow> file_builder \<Rightarrow> fn_builder \<Rightarrow> file_builder result" where
  "spvb_define_function H fb fnb =
     bind_res (if distinct (bbs fnb) then Inr () else Inl OutOfBounds) (\<lambda>_.
       out_section FnDefs fb
         (function_header H fnb @ [emit_bbs H (variables fnb) True (added_bbs fnb),
                                   emit_op (opcode H SpvOpFunctionEnd) 1]))"

text \<open>A new block is the index of its cell in the store.\<close>

definition spvb_begin_bb :: "fn_builder \<Rightarrow> spv_id \<Rightarrow> nat \<times> fn_builder" where
  "spvb_begin_bb fnb lab =
     (length (bb_store fnb),
      fnb\<lparr>bb_store := bb_store fnb @ [\<lparr>label = lab, phis = [], instructions_section = [],
                                       terminator_section = []\<rparr>]\<rparr>)"

definition spvb_add_bb :: "fn_builder \<Rightarrow> nat \<Rightarrow> fn_builder" where
  "spvb_add_bb fnb b = fnb\<lparr>bbs := bbs fnb @ [b]\<rparr>"

definition spvb_get_block_builder_id :: "bb_builder \<Rightarrow> spv_id" where
  "spvb_get_block_builder_id bb = label bb"

definition spvb_add_phi :: "bb_builder \<Rightarrow> spv_id \<Rightarrow> spv_id \<Rightarrow> nat \<times> bb_builder" where
  "spvb_add_phi bb ty i =
     (length (phis bb), bb\<lparr>phis := phis bb @ [\<lparr>phi_type = ty, phi_value = i, preds = []\<rparr>]\<rparr>)"

definition spvb_add_phi_source :: "bb_builder \<Rightarrow> nat \<Rightarrow> spv_id \<Rightarrow> spv_id \<Rightarrow> bb_builder" where
  "spvb_add_phi_source bb p source_block value =
     bb\<lparr>phis := (phis bb)[p := (phis bb ! p)\<lparr>preds := preds (phis bb ! p) @ [(source_block, value)]\<rparr>]\<rparr>"

definition spvb_get_phis :: "bb_builder \<Rightarrow> spvb_phi list" where
  "spvb_get_phis bb = phis bb"

definition out_inst :: "bb_builder \<Rightarrow> emitter list \<Rightarrow> bb_builder result" where
  "out_inst bb es =
     bind_res (emit es (instructions_section bb)) (\<lambda>ws. Inr (bb\<lparr>instructions_section := ws\<rparr>))"

definition out_inst_fresh ::
  "file_builder \<Rightarrow> bb_builder \<Rightarrow> (spv_id \<Rightarrow> emitter list) \<Rightarrow> (spv_id \<times> file_builder \<times> bb_builder) result"
  where
  "out_inst_fresh fb bb es =
     (let (id, fb) = spvb_fresh_id fb in bind_res (out_inst bb (es id)) (\<lambda>bb. Inr (id, fb, bb)))"

definition out_term :: "bb_builder \<Rightarrow> emitter list \<Rightarrow> bb_builder result" where
  "out_term bb es =
     bind_res (emit es (terminator_section bb)) (\<lambda>ws. Inr (bb\<lparr>terminator_section := ws\<rparr>))"

subsection \<open>Block-level instructions\<close>

definition spvb_composite ::
  "spirv_h \<Rightarrow> file_builder \<Rightarrow> bb_builder \<Rightarrow> spv_id \<Rightarrow> spv_id list \<Rightarrow> (spv_id \<times> file_builder \<times> bb_builder) result" where
  "spvb_composite H fb bb aggregate_t elements =
     out_inst_fresh fb bb (\<lambda>id.
       [emit_op (opcode H SpvOpCompositeConstruct) (3 + length elements), ref_id aggregate_t,
        ref_id id, ref_ids elements])"

definition spvb_select ::
  "spirv_h \<Rightarrow> file_builder \<Rightarrow> bb_builder \<Rightarrow> spv_id \<Rightarrow> spv_id \<Rightarrow> spv_id \<Rightarrow> spv_id \<Rightarrow> (spv_id \<times> file_builder \<times> bb_builder) result" where
  "spvb_select H fb bb ty cond if_true if_false =
     out_inst_fresh fb bb (\<lambda>id.
       [emit_op (opcode H SpvOpSelect) 6, ref_id ty, ref_id id, ref_id cond, ref_id if_true,
        ref_id if_false])"

definition spvb_extract ::
  "spirv_h \<Rightarrow> file_builder \<Rightarrow> bb_builder \<Rightarrow> spv_id \<Rightarrow> spv_id \<Rightarrow> u32 list \<Rightarrow> (spv_id \<times> file_builder \<times> bb_builder) result" where
  "spvb_extract H fb bb target_type comp_v indices =
     out_inst_fresh fb bb (\<lambda>id.
       [emit_op (opcode H SpvOpCompositeExtract) (4 + length indices), ref_id target_type,
        ref_id id, ref_id comp_v, literal_ints indices])"

definition spvb_insert ::
  "spirv_h \<Rightarrow> file_builder \<Rightarrow> bb_builder \<Rightarrow> spv_id \<Rightarrow> spv_id \<Rightarrow> spv_id \<Rightarrow> u32 list \<Rightarrow> (spv_id \<times> file_builder \<times> bb_builder) result" where
  "spvb_insert H fb bb target_type obj comp_v indices =
     out_inst_fresh fb bb (\<lambda>id.
       [emit_op (opcode H SpvOpCompositeInsert) (5 + length indices), ref_id target_type,
        ref_id id, ref_id obj, ref_id comp_v, literal_ints indices])"

definition spvb_vector_extract_dynamic ::
  "spirv_h \<Rightarrow> file_builder \<Rightarrow> bb_builder \<Rightarrow> spv_id \<Rightarrow> spv_id \<Rightarrow> spv_id \<Rightarrow> (spv_id \<times> file_builder \<times> bb_builder) result" where
  "spvb_vector_extract_dynamic H fb bb target_type vector index =
     out_inst_fresh fb bb (\<lambda>id.
       [emit_op (opcode H SpvOpVectorExtractDynamic) 5, ref_id target_type, ref_id id,
        ref_id vector, ref_id index])"

definition spvb_vector_insert_dynamic ::
  "spirv_h \<Rightarrow> file_builder \<Rightarrow> bb_builder \<Rightarrow> spv_id \<Rightarrow> spv_id \<Rightarrow> spv_id \<Rightarrow> spv_id \<Rightarrow> (spv_id \<times> file_builder \<times> bb_builder) result" where
  "spvb_vector_insert_dynamic H fb bb target_type vector component index =
     out_inst_fresh fb bb (\<lambda>id.
       [emit_op (opcode H SpvOpVectorInsertDynamic) 6, ref_id target_type, ref_id id,
        ref_id vector, ref_id component, ref_id index])"

definition spvb_access_chain ::
  "spirv_h \<Rightarrow> file_builder \<Rightarrow> bb_builder \<Rightarrow> spv_id \<Rightarrow> spv_id \<Rightarrow> spv_id list \<Rightarrow> (spv_id \<times> file_builder \<times> bb_builder) result" where
  "spvb_access_chain H fb bb target_type element indices =
     out_inst_fresh fb bb (\<lambda>id.
       [emit_op (opcode H SpvOpAccessChain) (4 + length indices), ref_id target_type,
        ref_id id, ref_id element, ref_ids indices])"

definition spvb_ptr_access_chain ::
  "spirv_h \<Rightarrow> file_builder \<Rightarrow> bb_builder \<Rightarrow> spv_id \<Rightarrow> spv_id \<Rightarrow> spv_id \<Rightarrow> spv_id list \<Rightarrow> (spv_id \<times> file_builder \<times> bb_builder) result" where
  "spvb_ptr_access_chain H fb bb target_type base element indices =
     out_inst_fresh fb bb (\<lambda>id.
       [emit_op (opcode H SpvOpPtrAccessChain) (5 + length indices), ref_id target_type,
        ref_id id, ref_id base, ref_id element, ref_ids indices])"

definition spvb_load ::
  "spirv_h \<Rightarrow> file_builder \<Rightarrow> bb_builder \<Rightarrow> spv_id \<Rightarrow> spv_id \<Rightarrow> u32 list \<Rightarrow> (spv_id \<times> file_builder \<times> bb_builder) result" where
  "spvb_load H fb bb target_type pointer operands =
     out_inst_fresh fb bb (\<lambda>id.
       [emit_op (opcode H SpvOpLoad) (4 + length operands), ref_id target_type, ref_id id,
        ref_id pointer, literal_ints operands])"

definition spvb_vecshuffle ::
  "spirv_h \<Rightarrow> file_builder \<Rightarrow> bb_builder \<Rightarrow> spv_id \<Rightarrow> spv_id \<Rightarrow> spv_id \<Rightarrow> u32 list \<Rightarrow> (spv_id \<times> file_builder \<times> bb_builder) result" where
  "spvb_vecshuffle H fb bb result_type a b operands =
     out_inst_fresh fb bb (\<lambda>id.
       [emit_op (opcode H SpvOpVectorShuffle) (5 + length operands), ref_id result_type,
        ref_id id, ref_id a, ref_id b, literal_ints operands])"

definition spvb_store ::
  "spirv_h \<Rightarrow> bb_builder \<Rightarrow> spv_id \<Rightarrow> spv_id \<Rightarrow> u32 list \<Rightarrow> bb_builder result" where
  "spvb_store H bb value pointer operands =
     out_inst bb
       [emit_op (opcode H SpvOpStore) (3 + length operands), ref_id pointer, ref_id value,
        literal_ints operands]"

definition spvb_op ::
  "spirv_h \<Rightarrow> file_builder \<Rightarrow> bb_builder \<Rightarrow> u32 \<Rightarrow> spv_id \<Rightarrow> spv_id list \<Rightarrow> (spv_id \<times> file_builder \<times> bb_builder) result" where
  "spvb_op H fb bb opc result_type operands =
     out_inst_fresh fb bb (\<lambda>id.
       [emit_op opc (3 + length operands), ref_id result_type, ref_id id, ref_ids operands])"

definition spvb_group_elect ::
  "spirv_h \<Rightarrow> file_builder \<Rightarrow> bb_builder \<Rightarrow> spv_id \<Rightarrow> spv_id \<Rightarrow> (spv_id \<times> file_builder \<times> bb_builder) result" where
  "spvb_group_elect H fb bb result_type scope =
     out_inst_fresh fb bb (\<lambda>id.
       [emit_op (opcode H SpvOpGroupNonUniformElect) 4, ref_id result_type, ref_id id,
        ref_id scope])"

definition spvb_group_ballot ::
  "spirv_h \<Rightarrow> file_builder \<Rightarrow> bb_builder \<Rightarrow> spv_id \<Rightarrow> spv_id \<Rightarrow> spv_id \<Rightarrow> (spv_id \<times> file_builder \<times> bb_builder) result" where
  "spvb_group_ballot H fb bb result_type predicate scope =
     out_inst_fresh fb bb (\<lambda>id.
       [emit_op (opcode H SpvOpGroupNonUniformBallot) 5, ref_id result_type, ref_id id,
        ref_id scope, ref_id predicate])"

definition spvb_group_broadcast_first ::
  "spirv_h \<Rightarrow> file_builder \<Rightarrow> bb_builder \<Rightarrow> spv_id \<Rightarrow> spv_id \<Rightarrow> spv_id \<Rightarrow> (spv_id \<times> file_builder \<times> bb_builder) result" where
  "spvb_group_broadcast_first H fb bb result_type value scope =
     out_inst_fresh fb bb (\<lambda>id.
       [emit_op (opcode H SpvOpGroupNonUniformBroadcastFirst) 5, ref_id result_type, ref_id id,
        ref_id scope, ref_id value])"

definition spvb_group_shuffle ::
  "spirv_h \<Rightarrow> file_builder \<Rightarrow> bb_builder \<Rightarrow> spv_id \<Rightarrow> spv_id \<Rightarrow> spv_id \<Rightarrow> spv_id \<Rightarrow> (spv_id \<times> file_builder \<times> bb_builder) result" where
  "spvb_group_shuffle H fb bb result_type scope value i =
     out_inst_fresh fb bb (\<lambda>id.
       [emit_op (opcode H SpvOpGroupNonUniformShuffle) 6, ref_id result_type, ref_id id,
        ref_id scope, ref_id value, ref_id i])"

definition spvb_group_non_uniform_group_op ::
  "spirv_h \<Rightarrow> file_builder \<Rightarrow> bb_builder \<Rightarrow> spv_id \<Rightarrow> u32 \<Rightarrow> spv_id \<Rightarrow> u32 \<Rightarrow> spv_id \<Rightarrow> spv_id option \<Rightarrow> (spv_id \<times> file_builder \<times> bb_builder) result" where
  "spvb_group_non_uniform_group_op H fb bb result_type opc scope group_op value cluster_size =
     out_inst_fresh fb bb (\<lambda>id.
       [emit_op opc (if cluster_size \<noteq> None then 7 else 6), ref_id result_type,
        ref_id id, ref_id scope, literal_int group_op, ref_id value, ref_id_opt cluster_size])"

definition spvb_call ::
  "spirv_h \<Rightarrow> file_builder \<Rightarrow> bb_builder \<Rightarrow> spv_id \<Rightarrow> spv_id \<Rightarrow> spv_id list \<Rightarrow> (spv_id \<times> file_builder \<times> bb_builder) result" where
  "spvb_call H fb bb return_type callee arguments =
     out_inst_fresh fb bb (\<lambda>id.
       [emit_op (opcode H SpvOpFunctionCall) (4 + length arguments), ref_id return_type,
        ref_id id, ref_id callee, ref_ids arguments])"

definition spvb_ext_instruction ::
  "spirv_h \<Rightarrow> file_builder \<Rightarrow> bb_builder \<Rightarrow> spv_id \<Rightarrow> spv_id \<Rightarrow> u32 \<Rightarrow> spv_id list \<Rightarrow> (spv_id \<times> file_builder \<times> bb_builder) result" where
  "spvb_ext_instruction H fb bb return_type ext_set instruction arguments =
     out_inst_fresh fb bb (\<lambda>id.
       [emit_op (opcode H SpvOpExtInst) (5 + length arguments), ref_id return_type, ref_id id,
        ref_id ext_set, literal_int instruction, ref_ids arguments])"

definition spvb_branch ::
  "spirv_h \<Rightarrow> bb_builder \<Rightarrow> spv_id \<Rightarrow> bb_builder result" where
  "spvb_branch H bb target =
     out_term bb
       [emit_op (opcode H SpvOpBranch) 2, ref_id target]"

definition spvb_branch_conditional ::
  "spirv_h \<Rightarrow> bb_builder \<Rightarrow> spv_id \<Rightarrow> spv_id \<Rightarrow> spv_id \<Rightarrow> bb_builder result" where
  "spvb_branch_conditional H bb condition true_target false_target =
     out_term bb
       [emit_op (opcode H SpvOpBranchConditional) 4, ref_id condition, ref_id true_target,
        ref_id false_target]"

definition spvb_switch ::
  "spirv_h \<Rightarrow> bb_builder \<Rightarrow> spv_id \<Rightarrow> spv_id \<Rightarrow> u32 list \<Rightarrow> bb_builder result" where
  "spvb_switch H bb selector default_target targets_and_literals =
     out_term bb
       [emit_op (opcode H SpvOpSwitch) (3 + length targets_and_literals), ref_id selector,
        ref_id default_target, literal_ints targets_and_literals]"

definition spvb_selection_merge ::
  "spirv_h \<Rightarrow> bb_builder \<Rightarrow> spv_id \<Rightarrow> u32 \<Rightarrow> bb_builder result" where
  "spvb_selection_merge H bb merge_bb selection_control =
     out_term bb
       [emit_op (opcode H SpvOpSelectionMerge) 3, ref_id merge_bb, literal_int selection_control]"

definition spvb_loop_merge ::
  "spirv_h \<Rightarrow> bb_builder \<Rightarrow> spv_id \<Rightarrow> spv_id \<Rightarrow> u32 \<Rightarrow> u32 list \<Rightarrow> bb_builder result" where
  "spvb_loop_merge H bb merge_bb continue_bb loop_control loop_control_ops =
     out_term bb
       [emit_op (opcode H SpvOpLoopMerge) (4 + length loop_control_ops), ref_id merge_bb,
        ref_id continue_bb, literal_int loop_control, literal_ints loop_control_ops]"

definition spvb_return_void ::
  "spirv_h \<Rightarrow> bb_builder \<Rightarrow> bb_builder result" where
  "spvb_return_void H bb =
     out_term bb
       [emit_op (opcode H SpvOpReturn) 1]"

definition spvb_return_value ::
  "spirv_h \<Rightarrow> bb_builder \<Rightarrow> spv_id \<Rightarrow> bb_builder result" where
  "spvb_return_value H bb value =
     out_term bb
       [emit_op (opcode H SpvOpReturnValue) 2, ref_id value]"

definition spvb_unreachable ::
  "spirv_h \<Rightarrow> bb_builder \<Rightarrow> bb_builder result" where
  "spvb_unreachable H bb =
     out_term bb
       [emit_op (opcode H SpvOpUnreachable) 1]"

definition spvb_terminator ::
  "spirv_h \<Rightarrow> bb_builder \<Rightarrow> u32 \<Rightarrow> spv_id list \<Rightarrow> bb_builder result" where
  "spvb_terminator H bb opc operands =
     out_term bb
       [emit_op opc (1 + length operands), ref_ids operands]"

subsection \<open>The finished module\<close>

definition merge_sections :: "spirv_h \<Rightarrow> file_builder \<Rightarrow> emitter" where
  "merge_sections H fb =
     emit [literal_int (SpvMagicNumber H),
           literal_int (push_bit 16 (ucast (version_major fb)) OR push_bit 8 (ucast (version_minor fb))),
           literal_int 35, literal_int (bound fb), literal_int 0,
           copy_section (sections fb Capabilities), copy_section (sections fb Extensions),
           copy_section (sections fb ExtInstImport),
           emit_op (opcode H SpvOpMemoryModel) 3, literal_int (addressing_model fb),
           literal_int (memory_model fb),
           copy_section (sections fb EntryPoints), copy_section (sections fb ExecutionModes),
           copy_section (sections fb DebugStringSource), copy_section (sections fb DebugNames),
           copy_section (sections fb DebugModuleProcessed), copy_section (sections fb Annotations),
           copy_section (sections fb TypesConstants), copy_section (sections fb FnDecls),
           copy_section (sections fb FnDefs)]"

text \<open>The words in the byte order of the file, lowest byte first, whatever the host's order.\<close>

definition word_bytes :: "u32 \<Rightarrow> u8 list" where
  "word_bytes w = map (\<lambda>i. ucast (drop_bit (8 * i) w)) [0..<4]"

definition bytes_word :: "u8 \<Rightarrow> u8 \<Rightarrow> u8 \<Rightarrow> u8 \<Rightarrow> u32" where
  "bytes_word a b c d =
     ucast a OR push_bit 8 (ucast b) OR push_bit 16 (ucast c) OR push_bit 24 (ucast d)"

definition byteswap :: "u32 \<Rightarrow> u32" where
  "byteswap v = (let arr = word_bytes v in bytes_word (arr ! 3) (arr ! 2) (arr ! 1) (arr ! 0))"

definition host_bytes :: "bool \<Rightarrow> u32 \<Rightarrow> u8 list" where
  "host_bytes big_endian w = (if big_endian then rev (word_bytes w) else word_bytes w)"

definition spvb_finish :: "spirv_h \<Rightarrow> bool \<Rightarrow> file_builder \<Rightarrow> u8 list result" where
  "spvb_finish H big_endian fb =
     bind_res (merge_sections H fb []) (\<lambda>ws.
       Inr (concat (map (host_bytes big_endian) (if big_endian then map byteswap ws else ws))))"

end
