(* ===== verification/SpirvModule.thy ===== *)
theory SpirvModule
  imports SpirvBuilder
begin

text \<open>
  What the builder of theory \<open>SpirvBuilder\<close> promises. The table \<open>file_inst\<close> / \<open>bb_inst\<close> says which
  instruction an operation is meant to add: its section, opcode and operand words. The lemmas
  show that every operation writes exactly that instruction with the word count a reader needs,
  that whole histories keep every section readable, and that the merged module reads back as the
  sections in the order of the SPIR-V layout rules.
\<close>

subsection \<open>The operations as data\<close>

datatype file_call =
    ExtendedImport "u8 list"
  | EntryPoint u32 spv_id "u8 list" "spv_id list"
  | ExecutionMode spv_id u32 "u32 list"
  | DebugString "u8 list"
  | Decorate spv_id u32 "u32 list"
  | DecorateMember spv_id u32 u32 "u32 list"
  | BoolType
  | IntType u32 bool
  | FloatType u32
  | VoidType
  | PtrType u32 spv_id
  | ForwardPtrType u32
  | PtrTypeDefine spv_id u32 spv_id
  | ArrayType spv_id spv_id
  | RuntimeArrayType spv_id
  | FnType "spv_id list" spv_id
  | StructType spv_id "spv_id list"
  | VectorType spv_id u32
  | ImageType spv_id u32 u32 u32 u32 u32 u32
  | SamplerType
  | SampledImageType spv_id
  | BoolConstant spv_id spv_id bool
  | Constant spv_id spv_id "u32 list"
  | ConstantComposite spv_id "spv_id list"
  | ConstantNull spv_id
  | GlobalVariable spv_id spv_id u32 "spv_id option"
  | ConstantOp spv_id u32 "spv_id list"
  | Undef spv_id

datatype bb_call =
    Composite spv_id "spv_id list"
  | Select spv_id spv_id spv_id spv_id
  | Extract spv_id spv_id "u32 list"
  | Insert spv_id spv_id spv_id "u32 list"
  | VectorExtractDynamic spv_id spv_id spv_id
  | VectorInsertDynamic spv_id spv_id spv_id spv_id
  | AccessChain spv_id spv_id "spv_id list"
  | PtrAccessChain spv_id spv_id spv_id "spv_id list"
  | Load spv_id spv_id "u32 list"
  | Vecshuffle spv_id spv_id spv_id "u32 list"
  | Store spv_id spv_id "u32 list"
  | Op u32 spv_id "spv_id list"
  | GroupElect spv_id spv_id
  | GroupBallot spv_id spv_id spv_id
  | GroupBroadcastFirst spv_id spv_id spv_id
  | GroupShuffle spv_id spv_id spv_id spv_id
  | GroupNonUniformGroupOp spv_id u32 spv_id u32 spv_id "spv_id option"
  | Call spv_id spv_id "spv_id list"
  | ExtInstruction spv_id spv_id u32 "spv_id list"
  | Branch spv_id
  | BranchConditional spv_id spv_id spv_id
  | Switch spv_id spv_id "u32 list"
  | SelectionMerge spv_id u32
  | LoopMerge spv_id spv_id u32 "u32 list"
  | ReturnVoid
  | ReturnValue spv_id
  | Unreachable
  | Terminator u32 "spv_id list"

definition no_id :: "file_builder result \<Rightarrow> (spv_id option \<times> file_builder) result" where
  "no_id r = bind_res r (\<lambda>fb. Inr (None, fb))"

definition with_id :: "(spv_id \<times> 'b) result \<Rightarrow> (spv_id option \<times> 'b) result" where
  "with_id r = bind_res r (\<lambda>(id, b). Inr (Some id, b))"

definition no_id_bb ::
  "file_builder \<Rightarrow> bb_builder result \<Rightarrow> (spv_id option \<times> file_builder \<times> bb_builder) result" where
  "no_id_bb fb r = bind_res r (\<lambda>bb. Inr (None, fb, bb))"

definition opt_list :: "'a option \<Rightarrow> 'a list" where
  "opt_list x = (case x of None \<Rightarrow> [] | Some a \<Rightarrow> [a])"

fun file_step :: "spirv_h \<Rightarrow> file_call \<Rightarrow> file_builder \<Rightarrow> (spv_id option \<times> file_builder) result" where
  "file_step H (ExtendedImport name) fb = with_id (spvb_extended_import H fb name)"
| "file_step H (EntryPoint execution_model entry_point name interface_elements) fb = no_id (spvb_entry_point H fb execution_model entry_point name interface_elements)"
| "file_step H (ExecutionMode entry_point execution_mode payloads) fb = no_id (spvb_execution_mode H fb entry_point execution_mode payloads)"
| "file_step H (DebugString str) fb = with_id (spvb_debug_string H fb str)"
| "file_step H (Decorate target decoration extras) fb = no_id (spvb_decorate H fb target decoration extras)"
| "file_step H (DecorateMember target member decoration extras) fb = no_id (spvb_decorate_member H fb target member decoration extras)"
| "file_step H BoolType fb = with_id (spvb_bool_type H fb)"
| "file_step H (IntType width is_sgn) fb = with_id (spvb_int_type H fb width is_sgn)"
| "file_step H (FloatType width) fb = with_id (spvb_float_type H fb width)"
| "file_step H VoidType fb = with_id (spvb_void_type H fb)"
| "file_step H (PtrType storage_class element_type) fb = with_id (spvb_ptr_type H fb storage_class element_type)"
| "file_step H (ForwardPtrType storage_class) fb = with_id (spvb_forward_ptr_type H fb storage_class)"
| "file_step H (PtrTypeDefine i storage_class element_type) fb = no_id (spvb_ptr_type_define H fb i storage_class element_type)"
| "file_step H (ArrayType element_type dim) fb = with_id (spvb_array_type H fb element_type dim)"
| "file_step H (RuntimeArrayType element_type) fb = with_id (spvb_runtime_array_type H fb element_type)"
| "file_step H (FnType args_types codom) fb = with_id (spvb_fn_type H fb args_types codom)"
| "file_step H (StructType i members) fb = no_id (spvb_struct_type H fb i members)"
| "file_step H (VectorType component_type dim) fb = with_id (spvb_vector_type H fb component_type dim)"
| "file_step H (ImageType component_type dim depth onion multisample sampled image_format) fb = with_id (spvb_image_type H fb component_type dim depth onion multisample sampled image_format)"
| "file_step H SamplerType fb = with_id (spvb_sampler_type H fb)"
| "file_step H (SampledImageType image_type) fb = with_id (spvb_sampled_image_type H fb image_type)"
| "file_step H (BoolConstant res ty value) fb = no_id (spvb_bool_constant H fb res ty value)"
| "file_step H (Constant res ty bit_pattern) fb = no_id (spvb_constant H fb res ty bit_pattern)"
| "file_step H (ConstantComposite ty ops) fb = with_id (spvb_constant_composite H fb ty ops)"
| "file_step H (ConstantNull ty) fb = with_id (spvb_constant_null H fb ty)"
| "file_step H (GlobalVariable i ty storage_class initializer) fb = no_id (spvb_global_variable H fb i ty storage_class initializer)"
| "file_step H (ConstantOp ty opc operands) fb = with_id (spvb_constant_op H fb ty opc operands)"
| "file_step H (Undef ty) fb = with_id (spvb_undef H fb ty)"

fun bb_step ::
  "spirv_h \<Rightarrow> bb_call \<Rightarrow> file_builder \<Rightarrow> bb_builder \<Rightarrow> (spv_id option \<times> file_builder \<times> bb_builder) result"
  where
  "bb_step H (Composite aggregate_t elements) fb bb = with_id (spvb_composite H fb bb aggregate_t elements)"
| "bb_step H (Select ty cond if_true if_false) fb bb = with_id (spvb_select H fb bb ty cond if_true if_false)"
| "bb_step H (Extract target_type comp_v indices) fb bb = with_id (spvb_extract H fb bb target_type comp_v indices)"
| "bb_step H (Insert target_type obj comp_v indices) fb bb = with_id (spvb_insert H fb bb target_type obj comp_v indices)"
| "bb_step H (VectorExtractDynamic target_type vector index) fb bb = with_id (spvb_vector_extract_dynamic H fb bb target_type vector index)"
| "bb_step H (VectorInsertDynamic target_type vector component index) fb bb = with_id (spvb_vector_insert_dynamic H fb bb target_type vector component index)"
| "bb_step H (AccessChain target_type element indices) fb bb = with_id (spvb_access_chain H fb bb target_type element indices)"
| "bb_step H (PtrAccessChain target_type base element indices) fb bb = with_id (spvb_ptr_access_chain H fb bb target_type base element indices)"
| "bb_step H (Load target_type pointer operands) fb bb = with_id (spvb_load H fb bb target_type pointer operands)"
| "bb_step H (Vecshuffle result_type a b operands) fb bb = with_id (spvb_vecshuffle H fb bb result_type a b operands)"
| "bb_step H (Store value pointer operands) fb bb = no_id_bb fb (spvb_store H bb value pointer operands)"
| "bb_step H (Op opc result_type operands) fb bb = with_id (spvb_op H fb bb opc result_type operands)"
| "bb_step H (GroupElect result_type scope) fb bb = with_id (spvb_group_elect H fb bb result_type scope)"
| "bb_step H (GroupBallot result_type predicate scope) fb bb = with_id (spvb_group_ballot H fb bb result_type predicate scope)"
| "bb_step H (GroupBroadcastFirst result_type value scope) fb bb = with_id (spvb_group_broadcast_first H fb bb result_type value scope)"
| "bb_step H (GroupShuffle result_type scope value i) fb bb = with_id (spvb_group_shuffle H fb bb result_type scope value i)"
| "bb_step H (GroupNonUniformGroupOp result_type opc scope group_op value cluster_size) fb bb = with_id (spvb_group_non_uniform_group_op H fb bb result_type opc scope group_op value cluster_size)"
| "bb_step H (Call return_type callee arguments) fb bb = with_id (spvb_call H fb bb return_type callee arguments)"
| "bb_step H (ExtInstruction return_type ext_set instruction arguments) fb bb = with_id (spvb_ext_instruction H fb bb return_type ext_set instruction arguments)"
| "bb_step H (Branch target) fb bb = no_id_bb fb (spvb_branch H bb target)"
| "bb_step H (BranchConditional condition true_target false_target) fb bb = no_id_bb fb (spvb_branch_conditional H bb condition true_target false_target)"
| "bb_step H (Switch selector default_target targets_and_literals) fb bb = no_id_bb fb (spvb_switch H bb selector default_target targets_and_literals)"
| "bb_step H (SelectionMerge merge_bb selection_control) fb bb = no_id_bb fb (spvb_selection_merge H bb merge_bb selection_control)"
| "bb_step H (LoopMerge merge_bb continue_bb loop_control loop_control_ops) fb bb = no_id_bb fb (spvb_loop_merge H bb merge_bb continue_bb loop_control loop_control_ops)"
| "bb_step H ReturnVoid fb bb = no_id_bb fb (spvb_return_void H bb)"
| "bb_step H (ReturnValue value) fb bb = no_id_bb fb (spvb_return_value H bb value)"
| "bb_step H Unreachable fb bb = no_id_bb fb (spvb_unreachable H bb)"
| "bb_step H (Terminator opc operands) fb bb = no_id_bb fb (spvb_terminator H bb opc operands)"

text \<open>The instruction each operation is meant to add, \<open>nid\<close> being the id it takes.\<close>

fun file_inst :: "spirv_h \<Rightarrow> file_call \<Rightarrow> spv_id \<Rightarrow> section_name \<times> u32 \<times> u32 list" where
  "file_inst H (ExtendedImport name) nid = (ExtInstImport, (opcode H SpvOpExtInstImport), [nid] @ name_words name)"
| "file_inst H (EntryPoint execution_model entry_point name interface_elements) nid = (EntryPoints, (opcode H SpvOpEntryPoint), [execution_model, entry_point] @ name_words name @ interface_elements)"
| "file_inst H (ExecutionMode entry_point execution_mode payloads) nid = (ExecutionModes, (opcode H SpvOpExecutionMode), [entry_point, execution_mode] @ payloads)"
| "file_inst H (DebugString str) nid = (DebugStringSource, (opcode H SpvOpString), [nid] @ name_words str)"
| "file_inst H (Decorate target decoration extras) nid = (Annotations, (opcode H SpvOpDecorate), [target, decoration] @ extras)"
| "file_inst H (DecorateMember target member decoration extras) nid = (Annotations, (opcode H SpvOpMemberDecorate), [target, member, decoration] @ extras)"
| "file_inst H BoolType nid = (TypesConstants, (opcode H SpvOpTypeBool), [nid])"
| "file_inst H (IntType width is_sgn) nid = (TypesConstants, (opcode H SpvOpTypeInt), [nid, width, (if is_sgn then 1 else 0)])"
| "file_inst H (FloatType width) nid = (TypesConstants, (opcode H SpvOpTypeFloat), [nid, width])"
| "file_inst H VoidType nid = (TypesConstants, (opcode H SpvOpTypeVoid), [nid])"
| "file_inst H (PtrType storage_class element_type) nid = (TypesConstants, (opcode H SpvOpTypePointer), [nid, storage_class, element_type])"
| "file_inst H (ForwardPtrType storage_class) nid = (TypesConstants, (opcode H SpvOpTypeForwardPointer), [nid, storage_class])"
| "file_inst H (PtrTypeDefine i storage_class element_type) nid = (TypesConstants, (opcode H SpvOpTypePointer), [i, storage_class, element_type])"
| "file_inst H (ArrayType element_type dim) nid = (TypesConstants, (opcode H SpvOpTypeArray), [nid, element_type, dim])"
| "file_inst H (RuntimeArrayType element_type) nid = (TypesConstants, (opcode H SpvOpTypeRuntimeArray), [nid, element_type])"
| "file_inst H (FnType args_types codom) nid = (TypesConstants, (opcode H SpvOpTypeFunction), [nid, codom] @ args_types)"
| "file_inst H (StructType i members) nid = (TypesConstants, (opcode H SpvOpTypeStruct), [i] @ members)"
| "file_inst H (VectorType component_type dim) nid = (TypesConstants, (opcode H SpvOpTypeVector), [nid, component_type, dim])"
| "file_inst H (ImageType component_type dim depth onion multisample sampled image_format) nid = (TypesConstants, (opcode H SpvOpTypeImage), [nid, component_type, dim, depth, onion, multisample, sampled, image_format])"
| "file_inst H SamplerType nid = (TypesConstants, (opcode H SpvOpTypeSampler), [nid])"
| "file_inst H (SampledImageType image_type) nid = (TypesConstants, (opcode H SpvOpTypeSampledImage), [nid, image_type])"
| "file_inst H (BoolConstant res ty value) nid = (TypesConstants, (opcode H (if value then SpvOpConstantTrue else SpvOpConstantFalse)), [ty, res])"
| "file_inst H (Constant res ty bit_pattern) nid = (TypesConstants, (opcode H SpvOpConstant), [ty, res] @ bit_pattern)"
| "file_inst H (ConstantComposite ty ops) nid = (TypesConstants, (opcode H SpvOpConstantComposite), [ty, nid] @ ops)"
| "file_inst H (ConstantNull ty) nid = (TypesConstants, (opcode H SpvOpConstantNull), [ty, nid])"
| "file_inst H (GlobalVariable i ty storage_class initializer) nid = (TypesConstants, (opcode H SpvOpVariable), [ty, i, storage_class] @ opt_list initializer)"
| "file_inst H (ConstantOp ty opc operands) nid = (TypesConstants, opc, [ty, nid] @ operands)"
| "file_inst H (Undef ty) nid = (TypesConstants, (opcode H SpvOpUndef), [ty, nid])"

text \<open>For a block: whether it goes before the terminator section, opcode, operands.\<close>

fun bb_inst :: "spirv_h \<Rightarrow> bb_call \<Rightarrow> spv_id \<Rightarrow> bool \<times> u32 \<times> u32 list" where
  "bb_inst H (Composite aggregate_t elements) nid = (True, (opcode H SpvOpCompositeConstruct), [aggregate_t, nid] @ elements)"
| "bb_inst H (Select ty cond if_true if_false) nid = (True, (opcode H SpvOpSelect), [ty, nid, cond, if_true, if_false])"
| "bb_inst H (Extract target_type comp_v indices) nid = (True, (opcode H SpvOpCompositeExtract), [target_type, nid, comp_v] @ indices)"
| "bb_inst H (Insert target_type obj comp_v indices) nid = (True, (opcode H SpvOpCompositeInsert), [target_type, nid, obj, comp_v] @ indices)"
| "bb_inst H (VectorExtractDynamic target_type vector index) nid = (True, (opcode H SpvOpVectorExtractDynamic), [target_type, nid, vector, index])"
| "bb_inst H (VectorInsertDynamic target_type vector component index) nid = (True, (opcode H SpvOpVectorInsertDynamic), [target_type, nid, vector, component, index])"
| "bb_inst H (AccessChain target_type element indices) nid = (True, (opcode H SpvOpAccessChain), [target_type, nid, element] @ indices)"
| "bb_inst H (PtrAccessChain target_type base element indices) nid = (True, (opcode H SpvOpPtrAccessChain), [target_type, nid, base, element] @ indices)"
| "bb_inst H (Load target_type pointer operands) nid = (True, (opcode H SpvOpLoad), [target_type, nid, pointer] @ operands)"
| "bb_inst H (Vecshuffle result_type a b operands) nid = (True, (opcode H SpvOpVectorShuffle), [result_type, nid, a, b] @ operands)"
| "bb_inst H (Store value pointer operands) nid = (True, (opcode H SpvOpStore), [pointer, value] @ operands)"
| "bb_inst H (Op opc result_type operands) nid = (True, opc, [result_type, nid] @ operands)"
| "bb_inst H (GroupElect result_type scope) nid = (True, (opcode H SpvOpGroupNonUniformElect), [result_type, nid, scope])"
| "bb_inst H (GroupBallot result_type predicate scope) nid = (True, (opcode H SpvOpGroupNonUniformBallot), [result_type, nid, scope, predicate])"
| "bb_inst H (GroupBroadcastFirst result_type value scope) nid = (True, (opcode H SpvOpGroupNonUniformBroadcastFirst), [result_type, nid, scope, value])"
| "bb_inst H (GroupShuffle result_type scope value i) nid = (True, (opcode H SpvOpGroupNonUniformShuffle), [result_type, nid, scope, value, i])"
| "bb_inst H (GroupNonUniformGroupOp result_type opc scope group_op value cluster_size) nid = (True, opc, [result_type, nid, scope, group_op, value] @ opt_list cluster_size)"
| "bb_inst H (Call return_type callee arguments) nid = (True, (opcode H SpvOpFunctionCall), [return_type, nid, callee] @ arguments)"
| "bb_inst H (ExtInstruction return_type ext_set instruction arguments) nid = (True, (opcode H SpvOpExtInst), [return_type, nid, ext_set, instruction] @ arguments)"
| "bb_inst H (Branch target) nid = (False, (opcode H SpvOpBranch), [target])"
| "bb_inst H (BranchConditional condition true_target false_target) nid = (False, (opcode H SpvOpBranchConditional), [condition, true_target, false_target])"
| "bb_inst H (Switch selector default_target targets_and_literals) nid = (False, (opcode H SpvOpSwitch), [selector, default_target] @ targets_and_literals)"
| "bb_inst H (SelectionMerge merge_bb selection_control) nid = (False, (opcode H SpvOpSelectionMerge), [merge_bb, selection_control])"
| "bb_inst H (LoopMerge merge_bb continue_bb loop_control loop_control_ops) nid = (False, (opcode H SpvOpLoopMerge), [merge_bb, continue_bb, loop_control] @ loop_control_ops)"
| "bb_inst H ReturnVoid nid = (False, (opcode H SpvOpReturn), [])"
| "bb_inst H (ReturnValue value) nid = (False, (opcode H SpvOpReturnValue), [value])"
| "bb_inst H Unreachable nid = (False, (opcode H SpvOpUnreachable), [])"
| "bb_inst H (Terminator opc operands) nid = (False, opc, operands)"

fun file_fresh :: "file_call \<Rightarrow> bool" where
  "file_fresh (EntryPoint _ _ _ _) = False"
| "file_fresh (ExecutionMode _ _ _) = False"
| "file_fresh (Decorate _ _ _) = False"
| "file_fresh (DecorateMember _ _ _ _) = False"
| "file_fresh (PtrTypeDefine _ _ _) = False"
| "file_fresh (StructType _ _) = False"
| "file_fresh (BoolConstant _ _ _) = False"
| "file_fresh (Constant _ _ _) = False"
| "file_fresh (GlobalVariable _ _ _ _) = False"
| "file_fresh _ = True"

fun bb_fresh :: "bb_call \<Rightarrow> bool" where
  "bb_fresh (Store _ _ _) = False"
| "bb_fresh (Branch _) = False"
| "bb_fresh (BranchConditional _ _ _) = False"
| "bb_fresh (Switch _ _ _) = False"
| "bb_fresh (SelectionMerge _ _) = False"
| "bb_fresh (LoopMerge _ _ _ _) = False"
| "bb_fresh ReturnVoid = False"
| "bb_fresh (ReturnValue _) = False"
| "bb_fresh Unreachable = False"
| "bb_fresh (Terminator _ _) = False"
| "bb_fresh _ = True"

subsection \<open>One operation, one instruction\<close>

lemma emit_simps [simp]:
  "emit [] data = Inr data"
  "emit (e # es) data = bind_res (e data) (emit es)"
  by (simp_all add: emit_def)

lemma emitter_simps [simp]:
  "emit_op opc n data = Inr (data @ [inst_word opc n])"
  "ref_id i data = (if i \<noteq> 0 then Inr (data @ [i]) else Inl AssertFailed)"
  "literal_int i data = Inr (data @ [i])"
  "ref_ids is data = (if 0 \<notin> set is then Inr (data @ is) else Inl AssertFailed)"
  "literal_ints is data = Inr (data @ is)"
  "spvb_literal_name s data = Inr (data @ name_words s)"
  "copy_section ws data = Inr (data @ ws)"
  using appends_op appends_ref_id appends_literal_int appends_ref_ids appends_literal_ints
    appends_literal_name appends_copy
  by (simp_all add: appends_def)

lemma ref_id_opt_simp [simp]:
  "ref_id_opt x data = (if x = Some 0 then Inl AssertFailed else Inr (data @ opt_list x))"
  by (simp add: ref_id_opt_def opt_list_def split: option.split)

lemmas file_op_defs =
  spvb_extended_import_def spvb_entry_point_def spvb_execution_mode_def spvb_debug_string_def
  spvb_decorate_def spvb_decorate_member_def spvb_bool_type_def spvb_int_type_def
  spvb_float_type_def spvb_void_type_def spvb_ptr_type_def spvb_forward_ptr_type_def
  spvb_ptr_type_define_def spvb_array_type_def spvb_runtime_array_type_def spvb_fn_type_def
  spvb_struct_type_def spvb_vector_type_def spvb_image_type_def spvb_sampler_type_def
  spvb_sampled_image_type_def spvb_bool_constant_def spvb_constant_def
  spvb_constant_composite_def spvb_constant_null_def spvb_global_variable_def
  spvb_constant_op_def spvb_undef_def

lemmas bb_op_defs =
  spvb_composite_def spvb_select_def spvb_extract_def spvb_insert_def
  spvb_vector_extract_dynamic_def spvb_vector_insert_dynamic_def spvb_access_chain_def
  spvb_ptr_access_chain_def spvb_load_def spvb_vecshuffle_def spvb_store_def spvb_op_def
  spvb_group_elect_def spvb_group_ballot_def spvb_group_broadcast_first_def
  spvb_group_shuffle_def spvb_group_non_uniform_group_op_def spvb_call_def
  spvb_ext_instruction_def spvb_branch_def spvb_branch_conditional_def spvb_switch_def
  spvb_selection_merge_def spvb_loop_merge_def spvb_return_void_def spvb_return_value_def
  spvb_unreachable_def spvb_terminator_def

lemmas step_simps =
  out_fresh_def out_section_def out_inst_fresh_def out_inst_def out_term_def spvb_fresh_id_def
  with_id_def no_id_def no_id_bb_def enc_inst_def length_name_words opt_list_def
  bind_res_Inr_iff numeral_eq_Suc

text \<open>The whole effect of an operation is its instruction and its id.\<close>

lemma file_step_inst:
  assumes "file_step H call fb = Inr (r, fb')"
  shows "case file_inst H call (bound fb) of (sec, opc, args) \<Rightarrow>
      fb' = fb\<lparr>bound := (if file_fresh call then bound fb + 1 else bound fb),
               sections := (sections fb)(sec := sections fb sec @ enc_inst opc args)\<rparr>
    \<and> r = (if file_fresh call then Some (bound fb) else None)"
  using assms
  by (cases call)
    (auto simp: file_op_defs step_simps fun_eq_iff split: if_splits option.splits)

lemma bb_step_inst:
  assumes "bb_step H call fb bb = Inr (r, fb', bb')"
  shows "case bb_inst H call (bound fb) of (body, opc, args) \<Rightarrow>
      bb' = (if body then bb\<lparr>instructions_section := instructions_section bb @ enc_inst opc args\<rparr>
             else bb\<lparr>terminator_section := terminator_section bb @ enc_inst opc args\<rparr>)
    \<and> fb' = (if bb_fresh call then fb\<lparr>bound := bound fb + 1\<rparr> else fb)
    \<and> r = (if bb_fresh call then Some (bound fb) else None)"
  using assms
  by (cases call)
    (auto simp: bb_op_defs step_simps split: if_splits option.splits)

end
