(* ===== verification/SpirvClient.thy ===== *)
theory SpirvClient
  imports SpirvModule
begin

text \<open>
  Whole histories of builder calls. A client holds the file builder, any number of function
  builders and the ids it was given, and interleaves calls to all of them. The reference is a
  recorder that keeps lists of instructions instead of words; the lemmas show that the word-level
  builder always holds the encoding of the record, and the properties that the finished module
  reads back as the recorded instructions in the order of the SPIR-V layout.
\<close>

subsection \<open>The client of the builder\<close>

datatype fn_op =
    Parameter spv_id
  | LocalVariable spv_id u32
  | BeginBB spv_id
  | AddBB nat
  | AddPhi nat spv_id spv_id
  | AddPhiSource nat nat spv_id spv_id
  | BBCall nat bb_call

datatype module_op =
    FreshId
  | SetVersion u8 u8
  | SetAddressingModel u32
  | Capability u32
  | Extension "u8 list"
  | Name spv_id "u8 list"
  | FileCall file_call
  | BeginFn spv_id spv_id spv_id
  | FnOp nat fn_op
  | DeclareFn nat
  | DefineFn nat

text \<open>A handle that was never given out is an invalid pointer.\<close>

definition handle_ok :: "nat \<Rightarrow> 'a list \<Rightarrow> unit result" where
  "handle_ok i xs = (if i < length xs then Inr () else Inl OutOfBounds)"

fun fn_step ::
  "spirv_h \<Rightarrow> fn_op \<Rightarrow> file_builder \<Rightarrow> fn_builder \<Rightarrow> (spv_id option \<times> file_builder \<times> fn_builder) result"
  where
  "fn_step H (Parameter ty) fb fnb = with_id (spvb_parameter H fb fnb ty)"
| "fn_step H (LocalVariable ty sc) fb fnb = with_id (spvb_local_variable H fb fnb ty sc)"
| "fn_step H (BeginBB lab) fb fnb = Inr (None, fb, snd (spvb_begin_bb fnb lab))"
| "fn_step H (AddBB b) fb fnb =
     bind_res (handle_ok b (bb_store fnb)) (\<lambda>_. Inr (None, fb, spvb_add_bb fnb b))"
| "fn_step H (AddPhi b ty v) fb fnb =
     bind_res (handle_ok b (bb_store fnb)) (\<lambda>_.
       Inr (None, fb, fnb\<lparr>bb_store := (bb_store fnb)[b := snd (spvb_add_phi (bb_store fnb ! b) ty v)]\<rparr>))"
| "fn_step H (AddPhiSource b p src v) fb fnb =
     bind_res (handle_ok b (bb_store fnb)) (\<lambda>_.
     bind_res (handle_ok p (phis (bb_store fnb ! b))) (\<lambda>_.
       Inr (None, fb, fnb\<lparr>bb_store := (bb_store fnb)
         [b := spvb_add_phi_source (bb_store fnb ! b) p src v]\<rparr>)))"
| "fn_step H (BBCall b call) fb fnb =
     bind_res (handle_ok b (bb_store fnb)) (\<lambda>_.
     bind_res (bb_step H call fb (bb_store fnb ! b)) (\<lambda>(i, fb, bb).
       Inr (i, fb, fnb\<lparr>bb_store := (bb_store fnb)[b := bb]\<rparr>)))"

record client =
  cfile :: file_builder
  cfns :: "fn_builder list"
  cids :: "spv_id list"
  cfreed :: "nat set"   \<comment> \<open>function builders freed by their declaration or definition\<close>

definition new_client :: "spirv_h \<Rightarrow> client" where
  "new_client H = \<lparr>cfile = spvb_begin H, cfns = [], cids = [], cfreed = {}\<rparr>"

definition fn_handle_ok :: "nat \<Rightarrow> client \<Rightarrow> unit result" where
  "fn_handle_ok f c = (if f \<in> cfreed c then Inl OutOfBounds else handle_ok f (cfns c))"

definition give :: "client \<Rightarrow> (spv_id option \<times> file_builder) result \<Rightarrow> client result" where
  "give c r = bind_res r (\<lambda>(i, fb). Inr (c\<lparr>cfile := fb, cids := cids c @ opt_list i\<rparr>))"

fun module_step :: "spirv_h \<Rightarrow> module_op \<Rightarrow> client \<Rightarrow> client result" where
  "module_step H FreshId c = give c (Inr (case spvb_fresh_id (cfile c) of (i, fb) \<Rightarrow> (Some i, fb)))"
| "module_step H (SetVersion major minor) c = give c (Inr (None, spvb_set_version (cfile c) major minor))"
| "module_step H (SetAddressingModel m) c = give c (no_id (spvb_set_addressing_model H (cfile c) m))"
| "module_step H (Capability cap) c = give c (no_id (spvb_capability H (cfile c) cap))"
| "module_step H (Extension name) c = give c (no_id (spvb_extension H (cfile c) name))"
| "module_step H (Name i str) c = give c (no_id (spvb_name H (cfile c) i str))"
| "module_step H (FileCall call) c = give c (file_step H call (cfile c))"
| "module_step H (BeginFn i t ret) c = Inr (c\<lparr>cfns := cfns c @ [spvb_begin_fn i t ret]\<rparr>)"
| "module_step H (FnOp f op) c =
     bind_res (fn_handle_ok f c) (\<lambda>_.
     bind_res (fn_step H op (cfile c) (cfns c ! f)) (\<lambda>(i, fb, fnb).
       Inr (c\<lparr>cfile := fb, cfns := (cfns c)[f := fnb], cids := cids c @ opt_list i\<rparr>)))"
| "module_step H (DeclareFn f) c =
     bind_res (fn_handle_ok f c) (\<lambda>_.
       give (c\<lparr>cfreed := insert f (cfreed c)\<rparr>) (no_id (spvb_declare_function H (cfile c) (cfns c ! f))))"
| "module_step H (DefineFn f) c =
     bind_res (fn_handle_ok f c) (\<lambda>_.
       give (c\<lparr>cfreed := insert f (cfreed c)\<rparr>) (no_id (spvb_define_function H (cfile c) (cfns c ! f))))"

definition module_run :: "spirv_h \<Rightarrow> module_op list \<Rightarrow> client \<Rightarrow> client result" where
  "module_run H = fold_res (module_step H)"

subsection \<open>The recorder\<close>

record rec_bb =
  rlabel :: spv_id
  rphis :: "spvb_phi list"
  rbody :: "inst list"
  rterm :: "inst list"

record rec_fn =
  rfn_id :: spv_id
  rfn_type :: spv_id
  rfn_ret :: spv_id
  rblocks :: "rec_bb list"
  radded :: "nat list"
  rparams :: "inst list"
  rvars :: "inst list"

record recorder =
  rnext :: nat
  rversion :: "u8 \<times> u8"
  raddressing :: u32
  rsections :: "section_name \<Rightarrow> inst list"
  rcaps :: "u32 set"
  rexts :: "u8 list set"
  rfns :: "rec_fn list"

definition new_recorder :: recorder where
  "new_recorder = \<lparr>rnext = 1, rversion = (0, 0), raddressing = 0, rsections = (\<lambda>_. []),
     rcaps = {}, rexts = {}, rfns = []\<rparr>"

definition record_in :: "section_name \<Rightarrow> inst list \<Rightarrow> recorder \<Rightarrow> recorder" where
  "record_in sec is r = r\<lparr>rsections := (rsections r)(sec := rsections r sec @ is)\<rparr>"

definition phi_inst :: "spirv_h \<Rightarrow> spvb_phi \<Rightarrow> inst" where
  "phi_inst H phi = (opcode H SpvOpPhi,
     [phi_type phi, phi_value phi] @ concat (map (\<lambda>(b, v). [v, b]) (preds phi)))"

definition block_insts :: "spirv_h \<Rightarrow> rec_bb \<Rightarrow> inst list \<times> inst list" where
  "block_insts H b = ([(opcode H SpvOpLabel, [rlabel b])],
                      map (phi_inst H) (rphis b) @ rbody b @ rterm b)"

definition fn_head_insts :: "spirv_h \<Rightarrow> rec_fn \<Rightarrow> inst list" where
  "fn_head_insts H f =
     (opcode H SpvOpFunction, [rfn_ret f, rfn_id f, SpvFunctionControlMaskNone H, rfn_type f])
     # rparams f"

text \<open>The local variables follow the label of the first block.\<close>

fun body_insts :: "spirv_h \<Rightarrow> inst list \<Rightarrow> rec_bb list \<Rightarrow> inst list" where
  "body_insts H vars [] = []"
| "body_insts H vars (b # bs) =
     (case block_insts H b of (lab, code) \<Rightarrow> lab @ vars @ code @ body_insts H [] bs)"

definition fn_insts :: "spirv_h \<Rightarrow> rec_fn \<Rightarrow> inst list" where
  "fn_insts H f = fn_head_insts H f @ body_insts H (rvars f) (map ((!) (rblocks f)) (radded f))
                  @ [(opcode H SpvOpFunctionEnd, [])]"

fun fn_record :: "spirv_h \<Rightarrow> fn_op \<Rightarrow> nat \<Rightarrow> rec_fn \<Rightarrow> rec_fn" where
  "fn_record H (Parameter ty) n f =
     f\<lparr>rparams := rparams f @ [(opcode H SpvOpFunctionParameter, [ty, of_nat n])]\<rparr>"
| "fn_record H (LocalVariable ty sc) n f =
     f\<lparr>rvars := rvars f @ [(opcode H SpvOpVariable, [ty, of_nat n, sc])]\<rparr>"
| "fn_record H (BeginBB lab) n f =
     f\<lparr>rblocks := rblocks f @ [\<lparr>rlabel = lab, rphis = [], rbody = [], rterm = []\<rparr>]\<rparr>"
| "fn_record H (AddBB b) n f = f\<lparr>radded := radded f @ [b]\<rparr>"
| "fn_record H (AddPhi b ty v) n f =
     (let bb = rblocks f ! b
      in f\<lparr>rblocks := (rblocks f)[b := bb\<lparr>rphis := rphis bb @ [\<lparr>phi_type = ty, phi_value = v, preds = []\<rparr>]\<rparr>]\<rparr>)"
| "fn_record H (AddPhiSource b p src v) n f =
     (let bb = rblocks f ! b; phi = rphis bb ! p
      in f\<lparr>rblocks := (rblocks f)[b := bb\<lparr>rphis := (rphis bb)[p := phi\<lparr>preds := preds phi @ [(src, v)]\<rparr>]\<rparr>]\<rparr>)"
| "fn_record H (BBCall b call) n f =
     (let bb = rblocks f ! b
      in case bb_inst H call (of_nat n) of (body, inst) \<Rightarrow>
           f\<lparr>rblocks := (rblocks f)[b := if body then bb\<lparr>rbody := rbody bb @ [inst]\<rparr>
                                      else bb\<lparr>rterm := rterm bb @ [inst]\<rparr>]\<rparr>)"

fun fn_op_ids :: "fn_op \<Rightarrow> nat" where
  "fn_op_ids (Parameter _) = 1"
| "fn_op_ids (LocalVariable _ _) = 1"
| "fn_op_ids (BBCall _ call) = (if bb_fresh call then 1 else 0)"
| "fn_op_ids _ = 0"

fun module_record :: "spirv_h \<Rightarrow> module_op \<Rightarrow> recorder \<Rightarrow> recorder" where
  "module_record H FreshId r = r\<lparr>rnext := rnext r + 1\<rparr>"
| "module_record H (SetVersion major minor) r = r\<lparr>rversion := (major, minor)\<rparr>"
| "module_record H (SetAddressingModel m) r = r\<lparr>raddressing := m\<rparr>"
| "module_record H (Capability cap) r =
     (if cap \<in> rcaps r then r
      else record_in Capabilities [(opcode H SpvOpCapability, [cap])] (r\<lparr>rcaps := insert cap (rcaps r)\<rparr>))"
| "module_record H (Extension name) r =
     (if name \<in> rexts r then r
      else record_in Extensions [(opcode H SpvOpExtension, name_words name)]
             (r\<lparr>rexts := insert name (rexts r)\<rparr>))"
| "module_record H (Name i str) r = record_in DebugNames [(opcode H SpvOpName, i # name_words str)] r"
| "module_record H (FileCall call) r =
     (case file_inst H call (of_nat (rnext r)) of (sec, inst) \<Rightarrow>
        (record_in sec [inst] r)\<lparr>rnext := rnext r + (if file_fresh call then 1 else 0)\<rparr>)"
| "module_record H (BeginFn i t ret) r =
     r\<lparr>rfns := rfns r @ [\<lparr>rfn_id = i, rfn_type = t, rfn_ret = ret, rblocks = [], radded = [],
                          rparams = [], rvars = []\<rparr>]\<rparr>"
| "module_record H (FnOp f op) r =
     r\<lparr>rnext := rnext r + fn_op_ids op,
       rfns := (rfns r)[f := fn_record H op (rnext r) (rfns r ! f)]\<rparr>"
| "module_record H (DeclareFn f) r =
     record_in FnDecls (fn_head_insts H (rfns r ! f) @ [(opcode H SpvOpFunctionEnd, [])]) r"
| "module_record H (DefineFn f) r = record_in FnDefs (fn_insts H (rfns r ! f)) r"

text \<open>The instructions of a module, in the order of section 2.4 of the SPIR-V specification.\<close>

definition layout :: "spirv_h \<Rightarrow> recorder \<Rightarrow> inst list" where
  "layout H r =
     concat (map (rsections r) [Capabilities, Extensions, ExtInstImport])
     @ [(opcode H SpvOpMemoryModel, [raddressing r, SpvMemoryModelGLSL450 H])]
     @ concat (map (rsections r) [EntryPoints, ExecutionModes, DebugStringSource, DebugNames,
         DebugModuleProcessed, Annotations, TypesConstants, FnDecls, FnDefs])"

subsection \<open>The words are the encoding of the record\<close>

definition enc_insts :: "inst list \<Rightarrow> u32 list" where
  "enc_insts is = concat (map (\<lambda>(opc, args). enc_inst opc args) is)"

lemma enc_insts_simps [simp]:
  "enc_insts [] = []"
  "enc_insts (i # is) = enc_inst (fst i) (snd i) @ enc_insts is"
  "enc_insts (is @ js) = enc_insts is @ enc_insts js"
  by (simp_all add: enc_insts_def split_beta)

definition enc_bb :: "rec_bb \<Rightarrow> bb_builder" where
  "enc_bb b = \<lparr>label = rlabel b, phis = rphis b, instructions_section = enc_insts (rbody b),
               terminator_section = enc_insts (rterm b)\<rparr>"

definition enc_fn :: "rec_fn \<Rightarrow> fn_builder" where
  "enc_fn f = \<lparr>function_id = rfn_id f, fn_type = rfn_type f, fn_ret_type = rfn_ret f,
     bb_store = map enc_bb (rblocks f), bbs = radded f, header = enc_insts (rparams f),
     variables = enc_insts (rvars f)\<rparr>"

definition same_set :: "('k \<Rightarrow> u32) \<Rightarrow> ('k, unit) dict \<Rightarrow> 'k set \<Rightarrow> bool" where
  "same_set hash d s \<longleftrightarrow> dict_wf hash (=) d \<and> dom (dict_lookup (=) d) = s"

definition holds_file :: "spirv_h \<Rightarrow> file_builder \<Rightarrow> recorder \<Rightarrow> bool" where
  "holds_file H fb r \<longleftrightarrow>
     bound fb = of_nat (rnext r) \<and> (version_major fb, version_minor fb) = rversion r \<and>
     addressing_model fb = raddressing r \<and> memory_model fb = SpvMemoryModelGLSL450 H \<and>
     sections fb = enc_insts \<circ> rsections r \<and>
     same_set hash_u32 (capabilities_set fb) (rcaps r) \<and>
     same_set shd_hash_string (extensions_set fb) (rexts r)"

definition handles_ok :: "rec_fn \<Rightarrow> bool" where
  "handles_ok f \<longleftrightarrow> (\<forall>b \<in> set (radded f). b < length (rblocks f))"

definition holds_module :: "spirv_h \<Rightarrow> client \<Rightarrow> recorder \<Rightarrow> bool" where
  "holds_module H c r \<longleftrightarrow> holds_file H (cfile c) r \<and> cfns c = map enc_fn (rfns r) \<and>
     (\<forall>f \<in> set (rfns r). handles_ok f) \<and> cids c = map of_nat [1..<rnext r] \<and> 0 < rnext r"

text \<open>The capability and extension sets.\<close>

lemma same_set_insert:
  assumes "same_set hash d s" and "shd_dict_insert_impl hash (=) d k () = Inr (fresh, d')"
  shows "same_set hash d' (insert k s)" and "fresh \<longleftrightarrow> k \<notin> s"
proof -
  have "dict_wf hash (=) d" using assms(1) by (simp add: same_set_def)
  from eq_key.table.ins_ok [OF this assms(2)] have
    "dict_wf hash (=) d'" "fresh \<longleftrightarrow> dict_lookup (=) d k = None"
    "dict_lookup (=) d' = (\<lambda>k'. if k = k' then Some () else dict_lookup (=) d k')" by auto
  with assms(1) show "same_set hash d' (insert k s)" "fresh \<longleftrightarrow> k \<notin> s"
    by (auto simp: same_set_def dom_def)
qed

lemma compare_eq: "compare_u32s = (=)" "shd_compare_string = (=)"
  by (auto simp: fun_eq_iff compare_u32s_def shd_compare_string_def)

lemma set_insert_cases:
  assumes "same_set hash d s"
    and "bind_res (shd_dict_insert_impl hash (=) d k ()) (\<lambda>(fresh, set). G fresh set) = Inr x"
  obtains d' where "same_set hash d' (insert k s)" "G (k \<notin> s) d' = Inr x"
  using assms same_set_insert [OF assms(1)] by (fastforce simp: bind_res_Inr_iff)

text \<open>One section grows by the encoding of the recorded instructions.\<close>

lemma holds_file_grow:
  assumes "holds_file H fb r"
  shows "holds_file H (fb\<lparr>sections := (sections fb)(sec := sections fb sec @ enc_insts is)\<rparr>) (record_in sec is r)"
  using assms by (auto simp: holds_file_def record_in_def fun_eq_iff)

lemma out_section_holds:
  assumes "holds_file H fb r" and "out_section sec fb es = Inr fb'"
    and "\<And>ws ws'. emit es ws = Inr ws' \<Longrightarrow> ws' = ws @ enc_insts is"
  shows "holds_file H fb' (record_in sec is r)"
proof -
  from assms(2) obtain ws where "emit es (sections fb sec) = Inr ws"
    and fb': "fb' = fb\<lparr>sections := (sections fb)(sec := ws)\<rparr>"
    by (auto simp: out_section_def bind_res_Inr_iff)
  with assms(3) have "ws = sections fb sec @ enc_insts is" by blast
  with fb' holds_file_grow [OF assms(1), of sec "is"] show ?thesis by simp
qed

lemma capability_holds:
  assumes h: "holds_file H fb r" and run: "spvb_capability H fb cap = Inr fb'"
  shows "holds_file H fb' (module_record H (Capability cap) r)"
proof -
  have set: "same_set hash_u32 (capabilities_set fb) (rcaps r)" using h by (simp add: holds_file_def)
  from run [unfolded spvb_capability_def compare_eq Let_def] obtain d'
    where d': "same_set hash_u32 d' (insert cap (rcaps r))"
      and out: "(if cap \<notin> rcaps r
          then out_section Capabilities (fb\<lparr>capabilities_set := d'\<rparr>)
                 [emit_op (opcode H SpvOpCapability) 2, literal_int cap]
          else Inr (fb\<lparr>capabilities_set := d'\<rparr>)) = Inr fb'"
    by (rule set_insert_cases [OF set])
  have h': "holds_file H (fb\<lparr>capabilities_set := d'\<rparr>) (r\<lparr>rcaps := insert cap (rcaps r)\<rparr>)"
    using h d' by (simp add: holds_file_def)
  show ?thesis
  proof (cases "cap \<in> rcaps r")
    case True
    then have "insert cap (rcaps r) = rcaps r" by auto
    with True h' out show ?thesis by simp
  next
    case False
    with out show ?thesis
      by (auto intro: out_section_holds [OF h'] simp: enc_inst_def numeral_2_eq_2 simp del: One_nat_def)
  qed
qed

lemma extension_holds:
  assumes h: "holds_file H fb r" and run: "spvb_extension H fb name = Inr fb'"
  shows "holds_file H fb' (module_record H (Extension name) r)"
proof -
  have set: "same_set shd_hash_string (extensions_set fb) (rexts r)" using h by (simp add: holds_file_def)
  from run [unfolded spvb_extension_def compare_eq Let_def] obtain d'
    where d': "same_set shd_hash_string d' (insert name (rexts r))"
      and out: "(if name \<notin> rexts r
          then out_section Extensions (fb\<lparr>extensions_set := d'\<rparr>)
                 [emit_op (opcode H SpvOpExtension) (1 + div_roundup (length name + 1) 4),
                  spvb_literal_name name]
          else Inr (fb\<lparr>extensions_set := d'\<rparr>)) = Inr fb'"
    by (rule set_insert_cases [OF set])
  have h': "holds_file H (fb\<lparr>extensions_set := d'\<rparr>) (r\<lparr>rexts := insert name (rexts r)\<rparr>)"
    using h d' by (simp add: holds_file_def)
  show ?thesis
  proof (cases "name \<in> rexts r")
    case True
    then have "insert name (rexts r) = rexts r" by auto
    with True h' out show ?thesis by simp
  next
    case False
    with out show ?thesis
      by (auto intro: out_section_holds [OF h'] simp: enc_inst_def length_name_words)
  qed
qed

text \<open>Functions.\<close>

lemma emit_phi_enc:
  assumes "emit_phi H phi ws = Inr ws'"
  shows "ws' = ws @ enc_insts [phi_inst H phi]"
proof -
  have pair: "appends (emit_pred p) (snd p \<noteq> 0 \<and> fst p \<noteq> 0) [snd p, fst p]" for p
    by (cases p) (auto simp: appends_def emit_pred_def)
  have "appends (fold_res emit_pred ps) (\<forall>p \<in> set ps. snd p \<noteq> 0 \<and> fst p \<noteq> 0)
          (concat (map (\<lambda>p. [snd p, fst p]) ps))" for ps
    by (rule appends_fold) (rule pair)
  moreover have "length (concat (map (\<lambda>p. [snd p, fst p]) ps)) = 2 * length ps"
    for ps :: "(u32 \<times> u32) list"
    by (induction ps) auto
  moreover have "(\<lambda>(b, v). [v, b]) = (\<lambda>p :: u32 \<times> u32. [snd p, fst p])" by auto
  ultimately show ?thesis
    using assms
    by (auto simp: emit_phi_def phi_inst_def enc_inst_def appends_def bind_res_Inr_iff numeral_eq_Suc
        split: if_splits)
qed

lemma emit_map_enc:
  assumes "\<And>x ws ws'. x \<in> set xs \<Longrightarrow> f x ws = Inr ws' \<Longrightarrow> ws' = ws @ enc_insts (g x)"
    and "emit (map f xs) ws = Inr ws'"
  shows "ws' = ws @ enc_insts (concat (map g xs))"
  using assms
proof (induction xs arbitrary: ws)
  case (Cons x xs)
  from Cons.prems(2) obtain v where v: "f x ws = Inr v" "emit (map f xs) v = Inr ws'"
    by (auto simp: bind_res_Inr_iff)
  from Cons.prems(1) [OF _ v(1)] Cons.IH [OF Cons.prems(1) v(2)] show ?case by simp
qed simp

lemma emit_append: "emit (es @ fs) ws = bind_res (emit es ws) (emit fs)"
  by (simp add: emit_def fold_res_append)

lemma emit_bb_enc:
  assumes "emit_bb H (enc_insts vars) first (enc_bb b) ws = Inr ws'"
  shows "ws' = ws @ enc_insts (body_insts H (if first then vars else []) [b])"
proof -
  from assms obtain v where
    "emit (map (emit_phi H) (rphis b))
       (ws @ enc_insts ((opcode H SpvOpLabel, [rlabel b]) # (if first then vars else []))) = Inr v"
    "ws' = v @ enc_insts (rbody b @ rterm b)"
    by (auto simp: emit_bb_def enc_bb_def enc_inst_def emit_append bind_res_Inr_iff numeral_2_eq_2
        simp del: One_nat_def split: if_splits)
  moreover from this(1) have
    "v = ws @ enc_insts ((opcode H SpvOpLabel, [rlabel b]) # (if first then vars else []))
           @ enc_insts (concat (map (\<lambda>p. [phi_inst H p]) (rphis b)))"
    using emit_map_enc [of "rphis b" "emit_phi H" "\<lambda>p. [phi_inst H p]"] emit_phi_enc by fastforce
  moreover have "concat (map (\<lambda>p. [phi_inst H p]) ps) = map (phi_inst H) ps" for ps
    by (induction ps) auto
  ultimately show ?thesis by (simp add: block_insts_def)
qed

lemma emit_bbs_enc:
  assumes "emit_bbs H (enc_insts vars) first (map enc_bb bs) ws = Inr ws'"
  shows "ws' = ws @ enc_insts (body_insts H (if first then vars else []) bs)"
  using assms
proof (induction bs arbitrary: first ws)
  case (Cons b bs)
  from Cons.prems obtain v where v: "emit_bb H (enc_insts vars) first (enc_bb b) ws = Inr v"
    "emit_bbs H (enc_insts vars) False (map enc_bb bs) v = Inr ws'"
    by (auto simp: bind_res_Inr_iff)
  from emit_bb_enc [OF v(1)] Cons.IH [OF v(2)] show ?case by (simp add: block_insts_def)
qed simp

lemma emit_head_enc:
  assumes "emit (function_header H (enc_fn f)) ws = Inr ws'"
  shows "ws' = ws @ enc_insts (fn_head_insts H f)"
  using assms
  by (auto simp: function_header_def enc_fn_def fn_head_insts_def enc_inst_def bind_res_Inr_iff
      numeral_eq_Suc split: if_splits)

lemma declare_holds:
  assumes "holds_file H fb r" and "spvb_declare_function H fb (enc_fn f) = Inr fb'"
  shows "holds_file H fb' (record_in FnDecls (fn_head_insts H f @ [(opcode H SpvOpFunctionEnd, [])]) r)"
  using assms(2)
  by (auto simp: spvb_declare_function_def bind_res_Inr_iff emit_append enc_inst_def
      dest!: emit_head_enc intro!: out_section_holds [OF assms(1)])

lemma define_holds:
  assumes h: "holds_file H fb r" and ok: "handles_ok f"
    and run: "spvb_define_function H fb (enc_fn f) = Inr fb'"
  shows "holds_file H fb' (record_in FnDefs (fn_insts H f) r)"
proof (rule out_section_holds [OF h])
  show "out_section FnDefs fb (function_header H (enc_fn f)
    @ [emit_bbs H (variables (enc_fn f)) True (added_bbs (enc_fn f)),
       emit_op (opcode H SpvOpFunctionEnd) 1]) = Inr fb'"
    using run by (simp add: spvb_define_function_def split: if_splits)
next
  fix ws ws'
  have added: "added_bbs (enc_fn f) = map enc_bb (map ((!) (rblocks f)) (radded f))"
    using ok by (auto simp: added_bbs_def enc_fn_def handles_ok_def)
  assume "emit (function_header H (enc_fn f)
    @ [emit_bbs H (variables (enc_fn f)) True (added_bbs (enc_fn f)),
       emit_op (opcode H SpvOpFunctionEnd) 1]) ws = Inr ws'"
  then obtain u v where u: "emit (function_header H (enc_fn f)) ws = Inr u"
    and v: "emit_bbs H (enc_insts (rvars f)) True (map enc_bb (map ((!) (rblocks f)) (radded f))) u = Inr v"
    and ws': "ws' = v @ enc_insts [(opcode H SpvOpFunctionEnd, [])]"
    by (auto simp: emit_append bind_res_Inr_iff added enc_inst_def) (auto simp: enc_fn_def)
  from emit_head_enc [OF u] emit_bbs_enc [OF v] ws' show "ws' = ws @ enc_insts (fn_insts H f)"
    by (simp add: fn_insts_def)
qed

text \<open>Steps on a function builder.\<close>

lemma holds_file_ids:
  "holds_file H fb r \<Longrightarrow> holds_file H (fb\<lparr>bound := bound fb + of_nat n\<rparr>) (r\<lparr>rnext := rnext r + n\<rparr>)"
  by (simp add: holds_file_def)

lemma map_enc_update:
  "b < length bs \<Longrightarrow> enc_bb x = y \<Longrightarrow> (map enc_bb bs)[b := y] = map enc_bb (bs[b := x])"
  by (simp add: map_update)

lemma fn_step_holds:
  assumes "fn_step H op fb (enc_fn f) = Inr (i, fb', fnb')" and "bound fb = of_nat n"
  shows "fnb' = enc_fn (fn_record H op n f) \<and> fb' = fb\<lparr>bound := bound fb + of_nat (fn_op_ids op)\<rparr>
     \<and> opt_list i = map of_nat [n..<n + fn_op_ids op]
     \<and> (handles_ok f \<longrightarrow> handles_ok (fn_record H op n f))"
proof (cases op)
  case (BBCall b call)
  with assms(1) obtain bb where b: "b < length (rblocks f)"
    and step: "bb_step H call fb (enc_bb (rblocks f ! b)) = Inr (i, fb', bb)"
    and fnb': "fnb' = (enc_fn f)\<lparr>bb_store := (map enc_bb (rblocks f))[b := bb]\<rparr>"
    by (auto simp: bind_res_Inr_iff handle_ok_def enc_fn_def split: if_splits)
  obtain body opc args where inst: "bb_inst H call (of_nat n) = (body, opc, args)"
    by (metis prod_cases3)
  from bb_step_inst [OF step] inst assms(2)
  have "bb = enc_bb (if body then (rblocks f ! b)\<lparr>rbody := rbody (rblocks f ! b) @ [(opc, args)]\<rparr>
                     else (rblocks f ! b)\<lparr>rterm := rterm (rblocks f ! b) @ [(opc, args)]\<rparr>)"
    and "fb' = fb\<lparr>bound := bound fb + of_nat (fn_op_ids op)\<rparr>"
    and "opt_list i = map of_nat [n..<n + fn_op_ids op]"
    by (auto simp: enc_bb_def opt_list_def BBCall)
  then show ?thesis
    using BBCall b fnb' inst
    by (auto simp: enc_fn_def Let_def map_update handles_ok_def)
qed (use assms in \<open>auto simp: step_simps spvb_parameter_def spvb_local_variable_def spvb_begin_bb_def
      spvb_add_bb_def spvb_add_phi_def spvb_add_phi_source_def enc_fn_def enc_bb_def handle_ok_def
      handles_ok_def Let_def map_update split: if_splits\<close>)

text \<open>Steps of the client.\<close>

lemma holds_file_fns [simp]: "holds_file H fb (r\<lparr>rfns := fs\<rparr>) = holds_file H fb r"
  by (simp add: holds_file_def)

lemma upt_extend: "a \<le> b \<Longrightarrow> map f [a..<b] @ map f [b..<b + k] = map f [a..<b + k]"
  using upt_add_eq_append [of a b k] by (simp flip: map_append)

lemma name_holds:
  assumes "holds_file H fb r" and "spvb_name H fb i str = Inr fb'"
  shows "holds_file H fb' (module_record H (Name i str) r)"
  using assms(2)
  by (auto simp: spvb_name_def bind_res_Inr_iff enc_inst_def length_name_words
      intro!: out_section_holds [OF assms(1)] split: if_splits)

lemma record_in_simps [simp]:
  "rfns (record_in sec is r) = rfns r" "rnext (record_in sec is r) = rnext r"
  by (simp_all add: record_in_def)

lemma file_call_holds:
  assumes h: "holds_file H fb r" and run: "file_step H call fb = Inr (i, fb')"
  shows "holds_file H fb' (module_record H (FileCall call) r)
     \<and> opt_list i = map of_nat [rnext r..<rnext r + (if file_fresh call then 1 else 0)]"
proof -
  obtain sec opc args where inst: "file_inst H call (of_nat (rnext r)) = (sec, opc, args)"
    by (metis prod_cases3)
  have bound: "bound fb = of_nat (rnext r)" using h by (simp add: holds_file_def)
  from holds_file_grow [OF h, of sec "[(opc, args)]"] file_step_inst [OF run] inst bound
  show ?thesis by (auto simp: holds_file_def record_in_def opt_list_def)
qed

lemma give_holds:
  assumes "holds_module H c r" and "holds_file H fb r'" and "rfns r' = rfns r"
    and "rnext r' = rnext r + k" and "opt_list i = map of_nat [rnext r..<rnext r']"
  shows "holds_module H (c\<lparr>cfile := fb, cids := cids c @ opt_list i\<rparr>) r'"
  using assms upt_extend [of 1 "rnext r" of_nat k]
  by (auto simp: holds_module_def)

lemma give_Inr: "give c r = Inr c' \<longleftrightarrow> (\<exists>i fb. r = Inr (i, fb) \<and> c' = c\<lparr>cfile := fb, cids := cids c @ opt_list i\<rparr>)"
  by (auto simp: give_def bind_res_Inr_iff)

lemma no_id_Inr: "no_id r = Inr (i, fb) \<longleftrightarrow> i = None \<and> r = Inr fb"
  by (auto simp: no_id_def bind_res_Inr_iff)

lemma no_ids [simp]: "opt_list None = []" "opt_list (Some i) = [i]"
  by (simp_all add: opt_list_def)

lemma caps_next [simp]:
  "rfns (module_record H (Capability cap) r) = rfns r"
  "rnext (module_record H (Capability cap) r) = rnext r"
  "rfns (module_record H (Extension name) r) = rfns r"
  "rnext (module_record H (Extension name) r) = rnext r"
  by simp_all

lemma module_step_holds:
  assumes m: "holds_module H c r" and step: "module_step H op c = Inr c'"
  shows "holds_module H c' (module_record H op r)"
proof -
  have h: "holds_file H (cfile c) r" and fns: "cfns c = map enc_fn (rfns r)"
    and handles: "\<And>f. f \<in> set (rfns r) \<Longrightarrow> handles_ok f"
    using m by (auto simp: holds_module_def)
  have bound: "bound (cfile c) = of_nat (rnext r)" using h by (simp add: holds_file_def)
  have freed: "holds_module H (c\<lparr>cfreed := fs\<rparr>) r" for fs using m by (simp add: holds_module_def)
  note give = give_holds [OF m] and give_freed = give_holds [OF freed]
  show ?thesis
  proof (cases op)
    case FreshId
    let ?fb = "(cfile c)\<lparr>bound := bound (cfile c) + of_nat 1\<rparr>"
    have c': "c' = c\<lparr>cfile := ?fb, cids := cids c @ opt_list (Some (of_nat (rnext r)))\<rparr>"
      using FreshId step bound by (auto simp: give_Inr spvb_fresh_id_def)
    show ?thesis unfolding c' FreshId
      by (rule give [where k = 1]) (use holds_file_ids [OF h, of 1] in simp_all)
  next
    case (SetVersion major minor)
    with step have c': "c' = c\<lparr>cfile := spvb_set_version (cfile c) major minor, cids := cids c @ opt_list None\<rparr>"
      by (auto simp: give_Inr)
    show ?thesis unfolding c' SetVersion
      by (rule give [where k = 0]) (use h in \<open>simp_all add: spvb_set_version_def holds_file_def\<close>)
  next
    case (SetAddressingModel a)
    with step have c': "c' = c\<lparr>cfile := (cfile c)\<lparr>addressing_model := a\<rparr>, cids := cids c @ opt_list None\<rparr>"
      by (auto simp: give_Inr no_id_Inr spvb_set_addressing_model_def bind_res_Inr_iff split: if_splits)
    show ?thesis unfolding c' SetAddressingModel
      by (rule give [where k = 0]) (use h in \<open>simp_all add: holds_file_def\<close>)
  next
    case (Capability cap)
    with step obtain fb where fb: "spvb_capability H (cfile c) cap = Inr fb"
      and c': "c' = c\<lparr>cfile := fb, cids := cids c @ opt_list None\<rparr>"
      by (auto simp: give_Inr no_id_Inr)
    show ?thesis unfolding c' Capability
      by (rule give [OF capability_holds [OF h fb], where k = 0]) simp_all
  next
    case (Extension name)
    with step obtain fb where fb: "spvb_extension H (cfile c) name = Inr fb"
      and c': "c' = c\<lparr>cfile := fb, cids := cids c @ opt_list None\<rparr>"
      by (auto simp: give_Inr no_id_Inr)
    show ?thesis unfolding c' Extension
      by (rule give [OF extension_holds [OF h fb], where k = 0]) simp_all
  next
    case (Name i str)
    with step obtain fb where fb: "spvb_name H (cfile c) i str = Inr fb"
      and c': "c' = c\<lparr>cfile := fb, cids := cids c @ opt_list None\<rparr>"
      by (auto simp: give_Inr no_id_Inr)
    show ?thesis unfolding c' Name
      by (rule give [OF name_holds [OF h fb], where k = 0]) simp_all
  next
    case (FileCall call)
    with step obtain i fb where fb: "file_step H call (cfile c) = Inr (i, fb)"
      and c': "c' = c\<lparr>cfile := fb, cids := cids c @ opt_list i\<rparr>" by (auto simp: give_Inr)
    show ?thesis unfolding c' FileCall
      using file_call_holds [OF h fb]
      by (intro give [where k = "if file_fresh call then 1 else 0"]) (auto split: prod.splits)
  next
    case (BeginFn i t ret)
    then show ?thesis using step m
      by (auto simp: holds_module_def spvb_begin_fn_def enc_fn_def handles_ok_def)
  next
    case (FnOp f fop)
    with step fns obtain i fb fnb where f: "f < length (rfns r)"
      and fstep: "fn_step H fop (cfile c) (enc_fn (rfns r ! f)) = Inr (i, fb, fnb)"
      and c': "c' = c\<lparr>cfile := fb, cfns := (cfns c)[f := fnb], cids := cids c @ opt_list i\<rparr>"
      by (auto simp: bind_res_Inr_iff fn_handle_ok_def handle_ok_def split: if_splits)
    let ?g = "fn_record H fop (rnext r) (rfns r ! f)" and ?k = "fn_op_ids fop"
    from fn_step_holds [OF fstep bound] handles f
    have s: "fnb = enc_fn ?g" "fb = (cfile c)\<lparr>bound := bound (cfile c) + of_nat ?k\<rparr>"
      "opt_list i = map of_nat [rnext r..<rnext r + ?k]" "handles_ok ?g" by auto
    have "holds_file H fb (r\<lparr>rnext := rnext r + ?k\<rparr>)" using holds_file_ids [OF h] s(2) by simp
    moreover have "\<forall>g \<in> set ((rfns r)[f := ?g]). handles_ok g"
      using s(4) handles set_update_subset_insert by fastforce
    moreover have "(map enc_fn (rfns r))[f := fnb] = map enc_fn ((rfns r)[f := ?g])"
      using s(1) by (simp add: map_update)
    ultimately show ?thesis
      using m FnOp c' fns s(3) upt_extend [of 1 "rnext r" of_nat ?k]
      by (auto simp: holds_module_def)
  next
    case (DeclareFn f)
    let ?c = "c\<lparr>cfreed := insert f (cfreed c)\<rparr>"
    from DeclareFn step fns obtain fb where fb: "spvb_declare_function H (cfile c) (enc_fn (rfns r ! f)) = Inr fb"
      and c': "c' = ?c\<lparr>cfile := fb, cids := cids ?c @ opt_list None\<rparr>"
      by (auto simp: bind_res_Inr_iff fn_handle_ok_def handle_ok_def give_Inr no_id_Inr split: if_splits)
    show ?thesis unfolding c' DeclareFn module_record.simps
      by (rule give_freed [OF declare_holds [OF h fb], where k = 0]) simp_all
  next
    case (DefineFn f)
    let ?c = "c\<lparr>cfreed := insert f (cfreed c)\<rparr>"
    from DefineFn step fns obtain fb where fb: "spvb_define_function H (cfile c) (enc_fn (rfns r ! f)) = Inr fb"
      and c': "c' = ?c\<lparr>cfile := fb, cids := cids ?c @ opt_list None\<rparr>" and f: "f < length (rfns r)"
      by (auto simp: bind_res_Inr_iff fn_handle_ok_def handle_ok_def give_Inr no_id_Inr split: if_splits)
    show ?thesis unfolding c' DefineFn module_record.simps
      by (rule give_freed [OF define_holds [OF h _ fb], where k = 0]) (use handles f in simp_all)
  qed
qed

end
