(* ===== verification/SpirvProps.thy ===== *)
theory SpirvProps
  imports SpirvClient
begin

text \<open>
  The properties of the SPIR-V builder: the finished module reads back as the recorded
  instructions, its bytes are little-endian on every host, ids are fresh, capabilities are
  declared once, strings survive their encoding; and the one size the builder does not check.
\<close>

subsection \<open>Histories and the merged module\<close>

lemma holds_new: "holds_module H (new_client H) new_recorder"
  by (auto simp: holds_module_def new_client_def new_recorder_def holds_file_def spvb_begin_def
      same_set_def dict_wf_new dict_lookup_new)

lemma module_history:
  assumes "module_run H ops (new_client H) = Inr c"
  shows "holds_module H c (fold (module_record H) ops new_recorder)"
proof -
  have "holds_module H c r \<Longrightarrow> fold_res (module_step H) ops c = Inr c' \<Longrightarrow>
      holds_module H c' (fold (module_record H) ops r)" for c c' r
    by (induction ops arbitrary: c r) (auto simp: bind_res_Inr_iff dest: module_step_holds)
  from this [OF holds_new] assms show ?thesis by (simp add: module_run_def)
qed

definition header_words :: "spirv_h \<Rightarrow> file_builder \<Rightarrow> u32 list" where
  "header_words H fb =
     [SpvMagicNumber H, push_bit 16 (ucast (version_major fb)) OR push_bit 8 (ucast (version_minor fb)),
      35, bound fb, 0]"

lemma merge_enc:
  assumes "holds_file H fb r"
  shows "merge_sections H fb [] = Inr (header_words H fb @ enc_insts (layout H r))"
  using assms
  by (simp add: holds_file_def merge_sections_def header_words_def layout_def enc_inst_def
      numeral_eq_Suc)

definition fits :: "inst list \<Rightarrow> bool" where
  "fits is \<longleftrightarrow> (\<forall>(opc, args) \<in> set is. length args < 65535)"

definition as_read :: "inst \<Rightarrow> inst" where
  "as_read i = (fst i AND 0xFFFF, snd i)"

lemma parse_enc_insts: "fits is \<Longrightarrow> parse_insts (enc_insts is) = Some (map as_read is)"
  by (induction "is") (auto simp: fits_def as_read_def parse_enc_inst)

subsection \<open>Bytes\<close>

lemma word_bytes_pack: "word_bytes (bytes_word a b c d) = [a, b, c, d]"
proof -
  let ?w = "bytes_word a b c d"
  have "ucast ?w = a" "ucast (drop_bit 8 ?w) = b" "ucast (drop_bit 16 ?w) = c" "ucast (drop_bit 24 ?w) = d"
    unfolding bytes_word_def
    by (rule bit_eqI; auto simp: bit_simps add.commute dest: bit_imp_le_length)+
  then show ?thesis by (simp add: word_bytes_def upt_rec)
qed

lemma word_bytes_byteswap: "rev (word_bytes (byteswap w)) = word_bytes w"
  by (simp add: byteswap_def Let_def word_bytes_pack) (simp add: word_bytes_def upt_rec)

lemma name_bytes:
  "\<exists>k. concat (map word_bytes (name_words str)) = str @ replicate (Suc k) 0"
proof (induction str rule: name_words.induct)
  case (1 a b c d str)
  then show ?case using word_bytes_pack [of a b c d, unfolded bytes_word_def] by auto
next
  case (2 a b c)
  then show ?case using word_bytes_pack [of a b c 0, unfolded bytes_word_def] by (intro exI [of _ 0]) simp
next
  case (3 a b)
  then show ?case using word_bytes_pack [of a b 0 0, unfolded bytes_word_def] by (intro exI [of _ 1]) simp
next
  case (4 a)
  then show ?case using word_bytes_pack [of a 0 0 0, unfolded bytes_word_def] by (intro exI [of _ 2]) (simp add: numeral_2_eq_2)
next
  case 5
  then show ?case using word_bytes_pack [of 0 0 0 0, unfolded bytes_word_def] by (intro exI [of _ 3]) (simp add: numeral_3_eq_3)
qed

subsection \<open>Properties\<close>

text \<open>
  C1: whatever calls a client makes, in whatever interleaving of file, function and block builders,
  the merged module is the five header words followed by words that a reader splits into exactly
  the instructions the calls stand for, in the order of the SPIR-V layout, provided each of them
  is shorter than 65536 words.
\<close>

theorem spirv_module_reads_back:
  assumes "module_run H ops (new_client H) = Inr c"
    and "fits (layout H (fold (module_record H) ops new_recorder))"
  shows "\<exists>ws. merge_sections H (cfile c) [] = Inr ws \<and> take 5 ws = header_words H (cfile c)
     \<and> parse_insts (drop 5 ws) = Some (map as_read (layout H (fold (module_record H) ops new_recorder)))"
proof -
  have "holds_file H (cfile c) (fold (module_record H) ops new_recorder)"
    using module_history [OF assms(1)] by (simp add: holds_module_def)
  from merge_enc [OF this] show ?thesis
    using parse_enc_insts [OF assms(2)] by (simp add: header_words_def)
qed

definition demo_ops :: "module_op list" where
  "demo_ops = [SetVersion 1 3, FileCall VoidType, FileCall (FnType [] 1), FreshId, BeginFn 3 2 1,
     FnOp 0 (BeginBB 4), FreshId, FnOp 0 (LocalVariable 1 7), FnOp 0 (BBCall 0 (Load 1 5 [])),
     FnOp 0 (BBCall 0 ReturnVoid), FnOp 0 (AddBB 0), Name 3 [109, 97, 105, 110], DefineFn 0]"

lemma demo_runs: "\<exists>c. module_run H demo_ops (new_client H) = Inr c"
  by (simp add: module_run_def demo_ops_def new_client_def give_def out_fresh_def out_section_def
      out_inst_fresh_def out_inst_def out_term_def spvb_fresh_id_def with_id_def no_id_def no_id_bb_def
      file_op_defs bb_op_defs
      fn_handle_ok_def handle_ok_def spvb_begin_def spvb_set_version_def spvb_begin_fn_def spvb_begin_bb_def
      spvb_add_bb_def spvb_parameter_def spvb_local_variable_def spvb_name_def
      spvb_define_function_def function_header_def emit_append added_bbs_def emit_bb_def)

lemma demo_fits: "fits (layout H (fold (module_record H) demo_ops new_recorder))"
  by (simp add: demo_ops_def fits_def layout_def new_recorder_def record_in_def fn_insts_def
      fn_head_insts_def block_insts_def)

theorem spirv_module_reads_back_witness:
  "\<forall>H. \<exists>c ws. module_run H demo_ops (new_client H) = Inr c \<and> merge_sections H (cfile c) [] = Inr ws
     \<and> parse_insts (drop 5 ws) \<noteq> None"
  using demo_runs spirv_module_reads_back [OF _ demo_fits] by fastforce

text \<open>
  C21: the bytes of the finished module are its words with the lowest byte first, whether the
  host is little- or big-endian.
\<close>

theorem spirv_finish_little_endian:
  "spvb_finish H big_endian fb =
     bind_res (merge_sections H fb []) (\<lambda>ws. Inr (concat (map word_bytes ws)))"
proof -
  have "host_bytes False = word_bytes" and "host_bytes True \<circ> byteswap = word_bytes"
    by (simp_all add: host_bytes_def word_bytes_byteswap fun_eq_iff)
  then show ?thesis
    by (cases "merge_sections H fb []") (simp_all add: spvb_finish_def flip: map_map [unfolded comp_def])
qed

text \<open>
  C22: the ids handed out in a history are \<open>1, 2, 3, ...\<close>: as long as fewer than \<open>2 ^ 32 - 1\<close> are
  taken they are distinct, nonzero and below the bound written in the module header.
\<close>

theorem spirv_ids_fresh:
  assumes "module_run H ops (new_client H) = Inr c" and "length (cids c) < 2 ^ 32 - 1"
  shows "distinct (cids c) \<and> (\<forall>i \<in> set (cids c). 0 < i \<and> i < bound (cfile c))"
proof -
  obtain n where ids: "cids c = map of_nat [1..<n]" and n: "0 < n" and b: "bound (cfile c) = of_nat n"
    using module_history [OF assms(1)] by (auto simp: holds_module_def holds_file_def)
  have small: "n < 2 ^ 32" using assms(2) ids n by simp
  have "unat (of_nat i :: u32) = i" if "i \<le> n" for i using that small by (simp add: unat_of_nat)
  then have "inj_on (of_nat :: nat \<Rightarrow> u32) {1..<n}" and "\<And>i. 1 \<le> i \<Longrightarrow> i < n \<Longrightarrow> 0 < (of_nat i :: u32) \<and> (of_nat i :: u32) < of_nat n"
    by (auto intro!: inj_onI simp: word_less_nat_alt) (metis less_imp_le)
  with ids b show ?thesis by (auto simp: distinct_map)
qed

theorem spirv_ids_fresh_witness:
  "\<forall>H. \<exists>c. module_run H [FreshId, FreshId] (new_client H) = Inr c \<and> distinct (cids c) \<and> cids c = [1, 2]"
proof
  fix H
  let ?c = "\<lparr>cfile = (spvb_begin H)\<lparr>bound := 3\<rparr>, cfns = [], cids = [1, 2], cfreed = {}\<rparr>"
  have run: "module_run H [FreshId, FreshId] (new_client H) = Inr ?c"
    by (simp add: module_run_def new_client_def give_def spvb_fresh_id_def spvb_begin_def)
  with spirv_ids_fresh [OF run] show "\<exists>c. module_run H [FreshId, FreshId] (new_client H) = Inr c
      \<and> distinct (cids c) \<and> cids c = [1, 2]" by simp
qed

definition asked_caps :: "module_op list \<Rightarrow> u32 list" where
  "asked_caps ops = concat (map (\<lambda>op. case op of Capability cap \<Rightarrow> [cap] | _ \<Rightarrow> []) ops)"

lemma recorded_caps:
  "rsections (fold (module_record H) ops new_recorder) Capabilities
     = map (\<lambda>cap. (opcode H SpvOpCapability, [cap])) (rev (remdups (rev (asked_caps ops))))
   \<and> rcaps (fold (module_record H) ops new_recorder) = set (asked_caps ops)"
proof (induction ops rule: rev_induct)
  case (snoc op ops)
  have sec: "fst (file_inst H call i) \<noteq> Capabilities" for call i by (cases call) simp_all
  show ?case
  proof (cases op)
    case (FileCall call)
    with snoc.IH sec [of call "of_nat (rnext (fold (module_record H) ops new_recorder))"] show ?thesis
      by (auto simp: asked_caps_def record_in_def split: prod.split)
  qed (use snoc.IH in \<open>auto simp: asked_caps_def record_in_def\<close>)
qed (simp add: new_recorder_def asked_caps_def)

text \<open>
  The capability section holds one declaration for each capability that was asked for, in the
  order of the first requests, however often each was asked for.
\<close>

theorem spirv_capabilities_once:
  assumes "module_run H ops (new_client H) = Inr c"
  shows "sections (cfile c) Capabilities =
    concat (map (\<lambda>cap. enc_inst (opcode H SpvOpCapability) [cap]) (rev (remdups (rev (asked_caps ops)))))"
  using module_history [OF assms] recorded_caps [of H ops]
  by (simp add: holds_module_def holds_file_def enc_insts_def comp_def)

theorem spirv_capabilities_once_witness:
  "\<forall>H. \<exists>c. module_run H [Capability 4] (new_client H) = Inr c
     \<and> sections (cfile c) Capabilities = enc_inst (opcode H SpvOpCapability) [4]"
proof
  fix H
  have "\<exists>fresh d. shd_dict_insert_impl hash_u32 compare_u32s shd_new_dict 4 () = Inr (fresh, d)"
    by (rule u32_key.insert_succeeds [OF dict_wf_new])
      (simp_all add: shd_new_dict_def dict_size_def init_size_def zero_bucket_def)
  then have "\<exists>c. module_run H [Capability 4] (new_client H) = Inr c"
    by (auto simp: module_run_def new_client_def spvb_begin_def give_def no_id_def spvb_capability_def
        out_section_def Let_def)
  then obtain c where c: "module_run H [Capability 4] (new_client H) = Inr c" by blast
  with spirv_capabilities_once [OF c] show "\<exists>c. module_run H [Capability 4] (new_client H) = Inr c
      \<and> sections (cfile c) Capabilities = enc_inst (opcode H SpvOpCapability) [4]"
    by (simp add: asked_caps_def)
qed

text \<open>
  A string written with \<^verbatim>\<open>spvb_literal_name\<close> takes \<open>(length + 4) div 4\<close> words whose bytes, read up to
  the first zero, are the string again.
\<close>

theorem spirv_name_roundtrip:
  assumes "0 \<notin> set str"
  shows "\<exists>ws. spvb_literal_name str data = Inr (data @ ws) \<and> length ws = (length str + 4) div 4
     \<and> takeWhile (\<lambda>b. b \<noteq> 0) (concat (map word_bytes ws)) = str"
proof -
  obtain k where "concat (map word_bytes (name_words str)) = str @ replicate (Suc k) 0"
    using name_bytes by blast
  moreover have "takeWhile (\<lambda>b. b \<noteq> 0) (str @ replicate (Suc k) 0) = str"
    using assms by (induction str) auto
  moreover have "div_roundup (n + 1) 4 = (n + 4) div 4" for n by (simp add: div_roundup_def) presburger
  ultimately show ?thesis by (simp add: length_name_words)
qed

theorem spirv_name_roundtrip_witness:
  "\<exists>ws. spvb_literal_name [109, 97, 105, 110] [] = Inr ([] @ ws) \<and> length ws = 2
     \<and> takeWhile (\<lambda>b. b \<noteq> 0) (concat (map word_bytes ws)) = [109, 97, 105, 110]"
  using spirv_name_roundtrip [of "[109, 97, 105, 110]" "[]"] by simp

text \<open>
  C25: the builder does not check the size of an instruction: a structure type with 65534 members
  is accepted and leaves a section that no reader can split into instructions, because its word
  count wraps to zero.
\<close>

theorem spirv_count_wraps:
  "\<exists>fb. spvb_struct_type H (spvb_begin H) 1 (replicate 65534 1) = Inr fb
     \<and> parse_insts (sections fb TypesConstants) = None"
proof -
  have "word_count (inst_word opc 65536) = 0" for opc
  proof -
    have "push_bit 16 (of_nat 65536 :: u32) = 0" by simp
    moreover have "drop_bit 16 (opc AND 0xFFFF) = (0 :: u32)"
      by (rule bit_eqI) (simp add: bit_drop_bit_eq bit_and_iff bit_numeral_word_iff)
    ultimately show ?thesis by (simp add: word_count_def inst_word_def)
  qed
  moreover have "spvb_struct_type H (spvb_begin H) 1 (replicate 65534 1) =
    Inr ((spvb_begin H)\<lparr>sections := (\<lambda>_. [])(TypesConstants :=
       inst_word (opcode H SpvOpTypeStruct) 65536 # 1 # replicate 65534 1)\<rparr>)"
    by (simp add: spvb_struct_type_def out_section_def spvb_begin_def)
  ultimately show ?thesis by (simp add: parse_insts.simps(2))
qed

end
