(* ===== verification/ArenaC.thy ===== *)
theory ArenaC
  imports Prelude
begin

text \<open>
  The region allocator of \<^verbatim>\<open>src/common/arena.c\<close>. The memory obtained from \<^verbatim>\<open>malloc\<close> is a list of
  blocks, each with its size; the contents of a fresh block are whatever the byte map held. A
  pointer is a block and an offset into it. Sizes are the 64-bit \<^verbatim>\<open>size_t\<close>; the size of
  \<^verbatim>\<open>max_align_t\<close> is that of the usual 64-bit targets. \<^verbatim>\<open>malloc\<close> is taken to succeed, as the code
  asserts, and the number of blocks to stay below the range of \<^verbatim>\<open>int\<close>.
\<close>

subsection \<open>State and operations\<close>

record heap =
  sizes :: "nat list"                    \<comment> \<open>of the blocks handed out by \<^verbatim>\<open>malloc\<close>\<close>
  bytes :: "nat \<times> nat \<Rightarrow> u8"

record region_arena =
  nblocks :: nat
  maxblocks :: nat
  ablocks :: "nat option list"           \<comment> \<open>\<^verbatim>\<open>blocks\<close>, as long as its allocation\<close>
  available :: nat

definition alloc_size :: nat where
  "alloc_size = 1024 * 1024"

definition max_align_t_size :: u64 where
  "max_align_t_size = 32"

definition round_up :: "u64 \<Rightarrow> u64 \<Rightarrow> u64" where
  "round_up a b = ((a + b - 1) div b) * b"

definition malloc :: "heap \<Rightarrow> nat \<Rightarrow> nat \<times> heap" where
  "malloc h n = (length (sizes h), h\<lparr>sizes := sizes h @ [n]\<rparr>)"

definition memset_zero :: "heap \<Rightarrow> nat \<times> nat \<Rightarrow> nat \<Rightarrow> heap" where
  "memset_zero h p n =
     h\<lparr>bytes := (\<lambda>(b, i). if b = fst p \<and> snd p \<le> i \<and> i < snd p + n then 0 else bytes h (b, i))\<rparr>"

definition shd_new_arena :: region_arena where
  "shd_new_arena = \<lparr>nblocks = 0, maxblocks = 256, ablocks = replicate 256 None, available = 0\<rparr>"

definition new_block :: "heap \<Rightarrow> region_arena \<Rightarrow> nat \<Rightarrow> (nat \<times> heap \<times> region_arena) result" where
  "new_block h a n =
     require (nblocks a \<le> maxblocks a)
       (let a = (if nblocks a = maxblocks a
                 then a\<lparr>maxblocks := maxblocks a * 2,
                        ablocks := ablocks a @ replicate (maxblocks a * 2 - length (ablocks a)) None\<rparr>
                 else a);
            (allocated, h) = malloc h n
        in if nblocks a < length (ablocks a)
           then Inr (allocated, h, a\<lparr>ablocks := (ablocks a)[nblocks a := Some allocated], nblocks := nblocks a + 1\<rparr>)
           else Inl OutOfBounds)"

definition swap_last :: "region_arena \<Rightarrow> region_arena" where
  "swap_last a =
     (if nblocks a \<ge> 2
      then a\<lparr>ablocks := (ablocks a)[nblocks a - 1 := ablocks a ! (nblocks a - 2),
                                    nblocks a - 2 := ablocks a ! (nblocks a - 1)]\<rparr>
      else a)"

text \<open>The result is the pointer, \<open>None\<close> for \<^verbatim>\<open>NULL\<close>.\<close>

definition shd_arena_alloc ::
  "heap \<Rightarrow> region_arena \<Rightarrow> u64 \<Rightarrow> ((nat \<times> nat) option \<times> heap \<times> region_arena) result" where
  "shd_arena_alloc h a sz =
     (let n = unat (round_up sz max_align_t_size)
      in if n = 0 then Inr (None, h, a)
         else if n > alloc_size
         then bind_res (new_block h a n) (\<lambda>(allocated, h, a).
                Inr (Some (allocated, 0), memset_zero h (allocated, 0) n, swap_last a))
         else bind_res (if n > available a
                        then bind_res (new_block h a alloc_size) (\<lambda>(_, h, a).
                               Inr (h, a\<lparr>available := alloc_size\<rparr>))
                        else Inr (h, a)) (\<lambda>(h, a).
              require (n \<le> available a)
                (let in_block = alloc_size - available a
                 in if nblocks a = 0 then Inl OutOfBounds
                    else bind_res (case ablocks a ! (nblocks a - 1) of None \<Rightarrow> Inl OutOfBounds | Some b \<Rightarrow> Inr b) (\<lambda>b.
                           Inr (Some (b, in_block), memset_zero h (b, in_block) n,
                                a\<lparr>available := available a - n\<rparr>)))))"

text \<open>The blocks that are freed, in order.\<close>

definition shd_destroy_arena :: "region_arena \<Rightarrow> nat option list" where
  "shd_destroy_arena a = take (nblocks a) (ablocks a)"

text \<open>A history of allocations, with the sizes reserved for them.\<close>

fun alloc_run :: "heap \<Rightarrow> region_arena \<Rightarrow> u64 list \<Rightarrow> (((nat \<times> nat) option \<times> nat) list \<times> heap \<times> region_arena) result" where
  "alloc_run h a [] = Inr ([], h, a)"
| "alloc_run h a (n # ns) =
     bind_res (shd_arena_alloc h a n) (\<lambda>(p, h, a).
     bind_res (alloc_run h a ns) (\<lambda>(ps, h, a).
       Inr ((p, unat (round_up n max_align_t_size)) # ps, h, a)))"

subsection \<open>The invariant\<close>

text \<open>
  \<open>bs\<close> are the blocks of the arena in order and \<open>rs\<close> the regions handed out, as block, offset and
  size. While there is room left, the block being filled is the last.
\<close>

definition disjoint_regions :: "nat \<times> nat \<times> nat \<Rightarrow> nat \<times> nat \<times> nat \<Rightarrow> bool" where
  "disjoint_regions r r' = (case (r, r') of ((b, i, n), (b', j, m)) \<Rightarrow> b \<noteq> b' \<or> i + n \<le> j \<or> j + m \<le> i)"

lemma disjoint_regions_sym: "disjoint_regions r r' \<longleftrightarrow> disjoint_regions r' r"
  by (auto simp: disjoint_regions_def split: prod.splits)

definition blocks_inv :: "nat \<Rightarrow> heap \<Rightarrow> region_arena \<Rightarrow> nat list \<Rightarrow> bool" where
  "blocks_inv k h a bs \<longleftrightarrow>
     take (nblocks a) (ablocks a) = map Some bs \<and> length bs = nblocks a \<and> length (ablocks a) = maxblocks a
     \<and> 0 < maxblocks a \<and> nblocks a \<le> maxblocks a \<and> distinct bs \<and> set bs = {k..<length (sizes h)} \<and> k \<le> length (sizes h)"

definition room_inv :: "heap \<Rightarrow> region_arena \<Rightarrow> nat list \<Rightarrow> bool" where
  "room_inv h a bs \<longleftrightarrow> available a \<le> alloc_size \<and> 32 dvd available a
     \<and> (available a > 0 \<longrightarrow> bs \<noteq> [] \<and> sizes h ! last bs = alloc_size)"

definition region_ok :: "heap \<Rightarrow> region_arena \<Rightarrow> nat list \<Rightarrow> nat \<times> nat \<times> nat \<Rightarrow> bool" where
  "region_ok h a bs r = (case r of (b, i, n) \<Rightarrow>
     b \<in> set bs \<and> i + n \<le> sizes h ! b \<and> 32 dvd i \<and> 0 < n
     \<and> (available a > 0 \<and> b = last bs \<longrightarrow> i + n \<le> alloc_size - available a))"

definition arena_inv :: "nat \<Rightarrow> heap \<Rightarrow> region_arena \<Rightarrow> nat list \<Rightarrow> (nat \<times> nat \<times> nat) list \<Rightarrow> bool" where
  "arena_inv k h a bs rs \<longleftrightarrow> blocks_inv k h a bs \<and> room_inv h a bs
     \<and> (\<forall>r \<in> set rs. region_ok h a bs r) \<and> sorted_wrt disjoint_regions rs"

lemma arena_inv_new: "arena_inv (length (sizes h)) h shd_new_arena [] []"
  by (simp add: arena_inv_def blocks_inv_def room_inv_def shd_new_arena_def)

lemma new_block_inv:
  assumes "blocks_inv k h a bs"
  obtains h' a' where "new_block h a n = Inr (length (sizes h), h', a')"
    "blocks_inv k h' a' (bs @ [length (sizes h)])" "sizes h' = sizes h @ [n]" "bytes h' = bytes h"
    "available a' = available a"
proof -
  let ?a = "if nblocks a = maxblocks a
      then a\<lparr>maxblocks := maxblocks a * 2, ablocks := ablocks a @ replicate (maxblocks a * 2 - length (ablocks a)) None\<rparr>
      else a"
  let ?h = "h\<lparr>sizes := sizes h @ [n]\<rparr>"
  let ?a' = "?a\<lparr>ablocks := (ablocks ?a)[nblocks a := Some (length (sizes h))], nblocks := nblocks a + 1\<rparr>"
  have room: "nblocks a < length (ablocks ?a)" using assms by (auto simp: blocks_inv_def)
  have "new_block h a n = Inr (length (sizes h), ?h, ?a')"
    using assms room by (simp add: new_block_def malloc_def blocks_inv_def Let_def)
  moreover have "take (nblocks a) (ablocks ?a) = map Some bs" using assms by (auto simp: blocks_inv_def)
  then have "blocks_inv k ?h ?a' (bs @ [length (sizes h)])"
    using assms room by (auto simp: blocks_inv_def take_Suc_update)
  ultimately show thesis by (rule that) simp_all
qed

lemma round_up_32: "32 dvd unat (round_up n max_align_t_size)"
proof -
  have "round_up n max_align_t_size = push_bit 5 ((n + 31) div 32)"
    by (simp add: round_up_def max_align_t_size_def push_bit_eq_mult add_ac)
  then show ?thesis by (simp add: unsigned_push_bit_eq push_bit_nat_def take_bit_eq_mod dvd_mod)
qed

lemma swap_last_inv:
  assumes inv: "blocks_inv k h a (bs @ [b])"
  obtains bs' where "blocks_inv k h (swap_last a) bs'" "set bs' = set (bs @ [b])"
    "bs \<noteq> [] \<longrightarrow> last bs' = last bs" "available (swap_last a) = available a"
proof (cases bs rule: rev_cases)
  case Nil
  with inv have "swap_last a = a" by (auto simp: swap_last_def blocks_inv_def)
  with inv Nil show thesis using that [of "[b]"] by simp
next
  case (snoc cs l)
  with inv have len: "nblocks a = Suc (Suc (length cs))" "nblocks a \<le> length (ablocks a)"
    by (auto simp: blocks_inv_def)
  have "ablocks a = map Some (cs @ [l, b]) @ drop (nblocks a) (ablocks a)"
    using inv snoc append_take_drop_id [of "nblocks a" "ablocks a"] by (simp add: blocks_inv_def)
  then obtain xs where xs: "ablocks a = map Some (cs @ [l, b]) @ xs" by blast
  have "ablocks (swap_last a) = map Some (cs @ [b, l]) @ xs"
    using len(1) by (simp add: swap_last_def xs list_update_append nth_append)
  then have "blocks_inv k h (swap_last a) (cs @ [b, l])"
    using inv len(1) snoc xs by (auto simp: blocks_inv_def swap_last_def)
  then show thesis by (rule that) (auto simp: snoc swap_last_def)
qed

text \<open>What one allocation does: the region it hands out and what it leaves alone.\<close>

definition alloc_ok :: "nat \<Rightarrow> heap \<Rightarrow> (nat \<times> nat \<times> nat) list \<Rightarrow> u64 \<Rightarrow> (nat \<times> nat) option \<Rightarrow> heap \<Rightarrow> region_arena \<Rightarrow> bool" where
  "alloc_ok k h rs sz p h' a' \<longleftrightarrow>
     (let n = unat (round_up sz max_align_t_size)
      in case p of
           None \<Rightarrow> n = 0 \<and> h' = h \<and> (\<exists>bs. arena_inv k h' a' bs rs)
         | Some (b, i) \<Rightarrow> n \<noteq> 0 \<and> (\<exists>bs. arena_inv k h' a' bs (rs @ [(b, i, n)]))
             \<and> bytes h' = bytes (memset_zero h (b, i) n))"

lemma region_old:
  assumes "region_ok h a bs r" and "set bs \<subseteq> set bs'" and "\<And>b. b \<in> set bs \<Longrightarrow> sizes h' ! b = sizes h ! b"
    and "available a' > 0 \<Longrightarrow> last bs' \<in> set bs \<Longrightarrow> last bs' = last bs \<and> 0 < available a \<and> available a' \<le> available a"
  shows "region_ok h' a' bs' r"
  using assms by (force simp: region_ok_def split: prod.splits)

lemma alloc_large:
  assumes inv: "arena_inv k h a bs rs" and n: "unat (round_up sz max_align_t_size) > alloc_size"
  shows "\<exists>p h' a'. shd_arena_alloc h a sz = Inr (p, h', a') \<and> alloc_ok k h rs sz p h' a'"
proof -
  let ?n = "unat (round_up sz max_align_t_size)" and ?b = "length (sizes h)"
  from inv have b: "blocks_inv k h a bs" by (simp add: arena_inv_def)
  from new_block_inv [OF b, of ?n] obtain h1 a1 where
    nb: "new_block h a ?n = Inr (?b, h1, a1)" "blocks_inv k h1 a1 (bs @ [?b])" "sizes h1 = sizes h @ [?n]"
      "bytes h1 = bytes h" "available a1 = available a" by blast
  from swap_last_inv [OF nb(2)] obtain bs' where
    bs': "blocks_inv k h1 (swap_last a1) bs'" "set bs' = set (bs @ [?b])" "bs \<noteq> [] \<longrightarrow> last bs' = last bs"
      "available (swap_last a1) = available a1" by blast
  let ?h = "memset_zero h1 (?b, 0) ?n" and ?a = "swap_last a1"
  have sz: "sizes ?h = sizes h @ [?n]" by (simp add: memset_zero_def nb)
  have set_bs: "set bs = {k..<length (sizes h)}" using b by (simp add: blocks_inv_def)
  then have lt: "c \<in> set bs \<Longrightarrow> c < length (sizes h)" for c by simp
  have last: "last bs' = last bs \<and> last bs \<in> set bs \<and> sizes h ! last bs = alloc_size" if "available a > 0"
    using that inv bs'(3) by (auto simp: arena_inv_def room_inv_def)
  have "blocks_inv k ?h ?a bs'" using bs'(1) by (simp add: blocks_inv_def memset_zero_def)
  moreover have "room_inv ?h ?a bs'"
    using inv bs' nb(5) last lt by (auto simp: arena_inv_def room_inv_def sz nth_append)
  moreover have "region_ok ?h ?a bs' r" if "r \<in> set rs" for r
  proof (rule region_old)
    show "region_ok h a bs r" using inv that by (simp add: arena_inv_def)
  qed (use bs' nb(5) last lt in \<open>auto simp: sz nth_append\<close>)
  moreover have "region_ok ?h ?a bs' (?b, 0, ?n)"
    using bs' n nb(5) last lt [of "last bs"] by (auto simp: region_ok_def sz nth_append)
  moreover have "disjoint_regions r (?b, 0, ?n)" if "r \<in> set rs" for r
    using inv that lt by (force simp: arena_inv_def region_ok_def disjoint_regions_def split: prod.splits)
  ultimately have "arena_inv k ?h ?a bs' (rs @ [(?b, 0, ?n)])"
    using inv by (auto simp: arena_inv_def sorted_wrt_append)
  moreover have "shd_arena_alloc h a sz = Inr (Some (?b, 0), ?h, ?a)"
    using n by (simp add: shd_arena_alloc_def nb Let_def alloc_size_def)
  ultimately show ?thesis
    using n nb(4) by (auto simp: alloc_ok_def Let_def memset_zero_def)
qed

lemma alloc_small:
  assumes inv: "arena_inv k h a bs rs" and n: "unat (round_up sz max_align_t_size) \<le> alloc_size"
    "unat (round_up sz max_align_t_size) \<noteq> 0" and room: "unat (round_up sz max_align_t_size) \<le> available a"
  shows "\<exists>p h' a'. shd_arena_alloc h a sz = Inr (p, h', a') \<and> alloc_ok k h rs sz p h' a'"
proof -
  let ?n = "unat (round_up sz max_align_t_size)" and ?i = "alloc_size - available a"
  from inv have b: "blocks_inv k h a bs" and avail: "available a \<le> alloc_size" "32 dvd available a"
    and bs: "bs \<noteq> []" "sizes h ! last bs = alloc_size"
    using n room by (auto simp: arena_inv_def room_inv_def)
  let ?h = "memset_zero h (last bs, ?i) ?n" and ?a = "a\<lparr>available := available a - ?n\<rparr>"
  have nb: "nblocks a = length bs" "nblocks a \<noteq> 0" using b bs by (auto simp: blocks_inv_def simp flip: length_greater_0_conv)
  have "ablocks a ! (nblocks a - 1) = take (nblocks a) (ablocks a) ! (nblocks a - 1)"
    using nb by simp
  also have "\<dots> = Some (last bs)" using b bs nb by (simp add: blocks_inv_def last_conv_nth)
  finally have last: "ablocks a ! (nblocks a - 1) = Some (last bs)" .
  have fits: "?i + ?n \<le> alloc_size" "alloc_size - (available a - ?n) = ?i + ?n"
    using avail room by simp_all
  have "32 dvd alloc_size" by (simp add: alloc_size_def)
  then have dvd: "32 dvd ?i" using avail(2) by (rule dvd_diff_nat)
  have "blocks_inv k ?h ?a bs" using b by (simp add: blocks_inv_def memset_zero_def)
  moreover have "room_inv ?h ?a bs"
    using avail bs round_up_32 [of sz] by (auto simp: room_inv_def memset_zero_def)
  moreover have "region_ok ?h ?a bs r" if "r \<in> set rs" for r
  proof (rule region_old)
    show "region_ok h a bs r" using inv that by (simp add: arena_inv_def)
  qed (use n room in \<open>auto simp: memset_zero_def\<close>)
  moreover have "region_ok ?h ?a bs (last bs, ?i, ?n)"
    using bs n(2) fits(1) dvd eq_refl [OF fits(2) [symmetric]] by (simp add: region_ok_def memset_zero_def)
  moreover have "disjoint_regions r (last bs, ?i, ?n)" if "r \<in> set rs" for r
  proof -
    have "region_ok h a bs r" "0 < available a" using inv that n room by (auto simp: arena_inv_def)
    then show ?thesis by (auto simp: region_ok_def disjoint_regions_def)
  qed
  ultimately have "arena_inv k ?h ?a bs (rs @ [(last bs, ?i, ?n)])"
    using inv by (auto simp: arena_inv_def sorted_wrt_append)
  moreover have "shd_arena_alloc h a sz = Inr (Some (last bs, ?i), ?h, ?a)"
    using n room last nb by (simp add: shd_arena_alloc_def Let_def)
  ultimately show ?thesis using n by (auto simp: alloc_ok_def Let_def)
qed

lemma alloc_full:
  assumes inv: "arena_inv k h a bs rs"
  obtains h1 a1 bs1 where "new_block h a alloc_size = Inr (length (sizes h), h1, a1)"
    "arena_inv k h1 (a1\<lparr>available := alloc_size\<rparr>) bs1 rs" "bytes h1 = bytes h"
proof -
  let ?b = "length (sizes h)"
  from inv have b: "blocks_inv k h a bs" by (simp add: arena_inv_def)
  from new_block_inv [OF b, of alloc_size] obtain h1 a1 where
    nb: "new_block h a alloc_size = Inr (?b, h1, a1)" "blocks_inv k h1 a1 (bs @ [?b])"
      "sizes h1 = sizes h @ [alloc_size]" "bytes h1 = bytes h" by blast
  let ?a = "a1\<lparr>available := alloc_size\<rparr>"
  have lt: "c \<in> set bs \<Longrightarrow> c < ?b" for c using b by (simp add: blocks_inv_def)
  have "blocks_inv k h1 ?a (bs @ [?b])" using nb(2) by (simp add: blocks_inv_def)
  moreover have "room_inv h1 ?a (bs @ [?b])" by (simp add: room_inv_def nb alloc_size_def)
  moreover have "region_ok h1 ?a (bs @ [?b]) r" if "r \<in> set rs" for r
  proof (rule region_old)
    show "region_ok h a bs r" using inv that by (simp add: arena_inv_def)
  qed (use lt in \<open>force simp: nb nth_append\<close>)+
  ultimately have "arena_inv k h1 ?a (bs @ [?b]) rs" using inv by (auto simp: arena_inv_def)
  then show thesis using nb that by blast
qed

lemma alloc_step:
  assumes inv: "arena_inv k h a bs rs"
  shows "\<exists>p h' a'. shd_arena_alloc h a sz = Inr (p, h', a') \<and> alloc_ok k h rs sz p h' a'"
proof -
  let ?n = "unat (round_up sz max_align_t_size)"
  consider "?n = 0" | "?n > alloc_size" | "?n \<noteq> 0" "?n \<le> alloc_size" "?n \<le> available a"
    | "?n \<noteq> 0" "?n \<le> alloc_size" "?n > available a" by linarith
  then show ?thesis
  proof cases
    case 1
    with inv show ?thesis by (auto simp: shd_arena_alloc_def alloc_ok_def)
  next
    case 2
    with alloc_large [OF inv] show ?thesis by simp
  next
    case 3
    with alloc_small [OF inv] show ?thesis by simp
  next
    case 4
    from alloc_full [OF inv] obtain h1 a1 bs1 where
      nb: "new_block h a alloc_size = Inr (length (sizes h), h1, a1)"
        "arena_inv k h1 (a1\<lparr>available := alloc_size\<rparr>) bs1 rs" "bytes h1 = bytes h" .
    have "shd_arena_alloc h a sz = shd_arena_alloc h1 (a1\<lparr>available := alloc_size\<rparr>) sz"
      using 4 by (simp add: shd_arena_alloc_def nb(1) Let_def)
    moreover from alloc_small [OF nb(2) _ _, of sz] 4 obtain p h' a' where
      "shd_arena_alloc h1 (a1\<lparr>available := alloc_size\<rparr>) sz = Inr (p, h', a')" "alloc_ok k h1 rs sz p h' a'"
      by (auto simp del: neq0_conv)
    ultimately show ?thesis
      using 4 nb(3) by (cases p) (auto simp: alloc_ok_def memset_zero_def Let_def)
  qed
qed

lemma alloc_run_inv:
  assumes "arena_inv k h a bs rs"
  shows "\<exists>ps h' a' bs'. alloc_run h a ns = Inr (ps, h', a') \<and> length ps = length ns
    \<and> arena_inv k h' a' bs' (rs @ [(b, i, n). (Some (b, i), n) \<leftarrow> ps])
    \<and> (\<forall>(p, n) \<in> set ps. (p = None) = (n = 0))"
  using assms
proof (induction ns arbitrary: h a bs rs)
  case (Cons sz ns)
  let ?n = "unat (round_up sz max_align_t_size)"
  from alloc_step [OF Cons.prems] obtain p h1 a1 where
    p: "shd_arena_alloc h a sz = Inr (p, h1, a1)" "alloc_ok k h rs sz p h1 a1" by blast
  then obtain bs1 where inv: "arena_inv k h1 a1 bs1 (rs @ [(b, i, n). (Some (b, i), n) \<leftarrow> [(p, ?n)]])"
    by (cases p) (auto simp: alloc_ok_def Let_def)
  have "(p = None) = (?n = 0)" using p(2) by (cases p) (auto simp: alloc_ok_def Let_def)
  with Cons.IH [OF inv] p(1) show ?case by fastforce
qed (auto)

subsection \<open>Properties\<close>


text \<open>
  A request within 31 bytes of the largest size wraps around when it is rounded up: it is
  answered with the null pointer, like a request for nothing.
\<close>

theorem arena_alloc_wraps:
  "shd_arena_alloc h a (- 1) = Inr (None, h, a) \<and> shd_arena_alloc h a 0 = Inr (None, h, a)"
  by (simp add: shd_arena_alloc_def round_up_def max_align_t_size_def)

end
