(* ===== verification/GrowyC.thy ===== *)
theory GrowyC
  imports Prelude
begin

text \<open>
  The growing byte buffer of \<^verbatim>\<open>src/common/growy.c\<close> and the indenting printer of
  \<^verbatim>\<open>src/common/printer.c\<close> that writes into it. A cell of the buffer is \<open>None\<close> while it holds what
  \<^verbatim>\<open>realloc\<close> left there. Sizes are taken to stay below \<^verbatim>\<open>SIZE_MAX / 2\<close>. Formatting is
  \<^verbatim>\<open>vsnprintf\<close>'s: \<open>shd_print\<close> takes the formatted text. Printers onto a \<^verbatim>\<open>FILE\<close> are left out.
\<close>

subsection \<open>Growy buffers\<close>

record growy =
  gbuffer :: "char option list"
  used :: nat
  gsize :: nat

definition growy_init_size :: nat where
  "growy_init_size = 4096"

definition shd_new_growy :: growy where
  "shd_new_growy = \<lparr>gbuffer = replicate growy_init_size (Some (CHR 0x00)), used = 0, gsize = growy_init_size\<rparr>"

text \<open>The doubling loop; \<open>None\<close> would be a loop that does not end.\<close>

partial_function (option) grow_to :: "nat \<Rightarrow> nat \<Rightarrow> nat option" where
  "grow_to u n = (if u \<ge> n then grow_to u (n * 2) else Some n)"

definition realloc :: "'a option list \<Rightarrow> nat \<Rightarrow> 'a option list" where
  "realloc buf n = take n buf @ replicate (n - length buf) None"

definition shd_growy_append_bytes :: "growy \<Rightarrow> string \<Rightarrow> growy result" where
  "shd_growy_append_bytes g bs =
     (let old_used = used g; new_used = used g + length bs
      in case grow_to new_used (gsize g) of
           None \<Rightarrow> Inl OutOfFuel
         | Some n \<Rightarrow>
             let buf = (if n = gsize g then gbuffer g else realloc (gbuffer g) n)
             in if old_used + length bs \<le> length buf
                then Inr \<lparr>gbuffer = take old_used buf @ map Some bs @ drop (old_used + length bs) buf,
                          used = new_used, gsize = n\<rparr>
                else Inl OutOfBounds)"

text \<open>Strings end at their first zero byte.\<close>

definition strlen :: "string \<Rightarrow> nat" where
  "strlen s = length (takeWhile (\<lambda>c. c \<noteq> CHR 0x00) s)"

definition shd_growy_append_string :: "growy \<Rightarrow> string \<Rightarrow> growy result" where
  "shd_growy_append_string g s = shd_growy_append_bytes g (take (strlen s) s)"

definition shd_growy_size :: "growy \<Rightarrow> nat" where
  "shd_growy_size g = used g"

definition shd_growy_data :: "growy \<Rightarrow> char option list" where
  "shd_growy_data g = gbuffer g"

definition shd_growy_deconstruct :: "growy \<Rightarrow> char option list" where
  "shd_growy_deconstruct g = gbuffer g"

subsection \<open>Printers\<close>

record printer =
  growy :: growy
  indent :: int

definition shd_new_printer_from_growy :: "growy \<Rightarrow> printer" where
  "shd_new_printer_from_growy g = \<lparr>growy = g, indent = 0\<rparr>"

definition shd_printer_print_raw :: "printer \<Rightarrow> nat \<Rightarrow> string \<Rightarrow> printer result" where
  "shd_printer_print_raw p len str =
     require (strlen str \<ge> len)
       (bind_res (shd_growy_append_bytes (growy p) (take len str)) (\<lambda>g. Inr (p\<lparr>growy := g\<rparr>)))"

definition shd_printer_indent :: "printer \<Rightarrow> printer" where
  "shd_printer_indent p = p\<lparr>indent := indent p + 1\<rparr>"

definition shd_printer_deindent :: "printer \<Rightarrow> printer" where
  "shd_printer_deindent p = p\<lparr>indent := indent p - 1\<rparr>"

definition shd_newline :: "printer \<Rightarrow> printer result" where
  "shd_newline p =
     bind_res (shd_printer_print_raw p 1 [CHR 0x0A]) (\<lambda>p.
       fold_res (\<lambda>_ p. shd_printer_print_raw p 4 ''    '') [0..<nat (indent p)] p)"

text \<open>The loop over the formatted text; \<open>start\<close> is the first character not yet written.\<close>

function print_loop :: "printer \<Rightarrow> string \<Rightarrow> nat \<Rightarrow> nat \<Rightarrow> printer result" where
  "print_loop p tmp start i =
     (if i < length tmp then
        if tmp ! i = CHR 0x0A
        then bind_res (shd_printer_print_raw p (i - start) (drop start tmp)) (\<lambda>p.
             bind_res (shd_newline p) (\<lambda>p. print_loop p tmp (i + 1) (i + 1)))
        else print_loop p tmp start (i + 1)
      else if start < i then shd_printer_print_raw p (i - start) (drop start tmp)
      else Inr p)"
  by pat_completeness auto
termination
  by (relation "measure (\<lambda>(_, tmp, _, i). length tmp - i)") auto

declare print_loop.simps [simp del]

definition shd_print :: "printer \<Rightarrow> string \<Rightarrow> printer result" where
  "shd_print p formatted = print_loop p formatted 0 0"

definition shd_printer_growy_unwrap :: "printer \<Rightarrow> char option list result" where
  "shd_printer_growy_unwrap p =
     bind_res (shd_growy_append_bytes (growy p) [CHR 0x00]) (\<lambda>g. Inr (shd_growy_deconstruct g))"

subsection \<open>The buffer holds what was appended\<close>

lemma grow_to_spec: "0 < n \<Longrightarrow> \<exists>k. grow_to u n = Some (2 ^ k * n) \<and> u < 2 ^ k * n"
proof (induction "Suc u - n" arbitrary: n rule: less_induct)
  case less
  show ?case
  proof (cases "u \<ge> n")
    case True
    then have "Suc u - n * 2 < Suc u - n" "0 < n * 2" using less.prems by auto
    from less.hyps [OF this] obtain k where "grow_to u (n * 2) = Some (2 ^ k * (n * 2)) \<and> u < 2 ^ k * (n * 2)" by blast
    then show ?thesis using True by (intro exI [of _ "Suc k"]) (subst grow_to.simps, simp add: ac_simps)
  next
    case False
    then show ?thesis by (intro exI [of _ 0]) (subst grow_to.simps, simp)
  qed
qed

definition growy_text :: "growy \<Rightarrow> string" where
  "growy_text g = map the (take (used g) (gbuffer g))"

text \<open>There is always room for one more byte, and the bytes in use are initialised.\<close>

definition growy_inv :: "growy \<Rightarrow> bool" where
  "growy_inv g \<longleftrightarrow> length (gbuffer g) = gsize g \<and> used g < gsize g \<and> None \<notin> set (take (used g) (gbuffer g))
     \<and> (\<exists>k. gsize g = 2 ^ k * growy_init_size)"

lemma growy_new: "growy_inv shd_new_growy" "growy_text shd_new_growy = []"
  by (auto simp: growy_inv_def shd_new_growy_def growy_init_size_def growy_text_def intro: exI [of _ 0])

lemma append_bytes_step:
  assumes "growy_inv g"
  obtains g' where "shd_growy_append_bytes g bs = Inr g'" "growy_inv g'" "growy_text g' = growy_text g @ bs"
proof -
  from assms have inv: "length (gbuffer g) = gsize g" "used g < gsize g" "None \<notin> set (take (used g) (gbuffer g))"
    by (auto simp: growy_inv_def)
  from assms obtain j where j: "gsize g = 2 ^ j * growy_init_size" by (auto simp: growy_inv_def)
  from inv(2) have "0 < gsize g" by simp
  from grow_to_spec [OF this] obtain k where
    k: "grow_to (used g + length bs) (gsize g) = Some (2 ^ k * gsize g)" "used g + length bs < 2 ^ k * gsize g" by blast
  let ?n = "2 ^ k * gsize g"
  let ?buf = "if ?n = gsize g then gbuffer g else realloc (gbuffer g) ?n"
  have ge: "gsize g \<le> ?n" by simp
  have len: "length ?buf = ?n" using inv(1) ge by (simp add: realloc_def)
  have pre: "take (used g) ?buf = take (used g) (gbuffer g)" using inv ge by (simp add: realloc_def)
  let ?g = "\<lparr>gbuffer = take (used g) ?buf @ map Some bs @ drop (used g + length bs) ?buf,
             used = used g + length bs, gsize = ?n\<rparr>"
  have "shd_growy_append_bytes g bs = Inr ?g"
    using k len by (simp add: shd_growy_append_bytes_def Let_def)
  moreover have "growy_inv ?g"
    using k(2) len pre inv j by (auto simp: growy_inv_def power_add intro!: exI [of _ "k + j"])
  moreover have "growy_text ?g = growy_text g @ bs"
    using len pre inv by (simp add: growy_text_def map_idI)
  ultimately show thesis by (rule that)
qed

text \<open>
  C36: Appending any sequence of byte strings to a new buffer succeeds, and the buffer then holds
  their concatenation, in an allocation that is a power of two of pages and larger than its contents.
\<close>

theorem growy_append_all:
  "\<exists>g. fold_res (\<lambda>bs g. shd_growy_append_bytes g bs) bss shd_new_growy = Inr g
     \<and> growy_text g = concat bss \<and> used g = length (concat bss)
     \<and> used g < length (gbuffer g) \<and> (\<exists>k. length (gbuffer g) = 2 ^ k * 4096)"
proof -
  have "\<exists>g'. fold_res (\<lambda>bs g. shd_growy_append_bytes g bs) bss g = Inr g' \<and> growy_inv g'
      \<and> growy_text g' = growy_text g @ concat bss" if "growy_inv g" for g
    using that
  proof (induction bss arbitrary: g)
    case (Cons bs bss)
    from append_bytes_step [OF Cons.prems] obtain g1 where
      "shd_growy_append_bytes g bs = Inr g1" "growy_inv g1" "growy_text g1 = growy_text g @ bs" .
    with Cons.IH [of g1] show ?case by auto
  qed simp
  from this [OF growy_new(1)] obtain g where
    g: "fold_res (\<lambda>bs g. shd_growy_append_bytes g bs) bss shd_new_growy = Inr g" "growy_inv g" "growy_text g = concat bss"
    by (auto simp: growy_new)
  from g(2) have "length (growy_text g) = used g" by (simp add: growy_text_def growy_inv_def)
  with g(3) have "used g = length (concat bss)" by simp
  with g show ?thesis by (auto simp: growy_inv_def growy_init_size_def)
qed

subsection \<open>The printer indents every line\<close>

definition printer_inv :: "printer \<Rightarrow> bool" where
  "printer_inv p \<longleftrightarrow> growy_inv (growy p)"

definition printer_text :: "printer \<Rightarrow> string" where
  "printer_text p = growy_text (growy p)"

text \<open>What a printer turns a text into at an indentation.\<close>

definition indented :: "int \<Rightarrow> string \<Rightarrow> string" where
  "indented n s = concat (map (\<lambda>c. if c = CHR 0x0A then CHR 0x0A # replicate (4 * nat n) (CHR 0x20) else [c]) s)"

definition prints :: "printer \<Rightarrow> printer result \<Rightarrow> string \<Rightarrow> bool" where
  "prints p r s \<longleftrightarrow> (\<exists>p'. r = Inr p' \<and> printer_inv p' \<and> printer_text p' = printer_text p @ s \<and> indent p' = indent p)"

lemma prints_bind:
  assumes "prints p r s"
    and "\<And>p'. r = Inr p' \<Longrightarrow> printer_inv p' \<Longrightarrow> indent p' = indent p \<Longrightarrow> prints p' (f p') t"
  shows "prints p (bind_res r f) (s @ t)"
proof -
  from assms(1) obtain p' where p': "r = Inr p'" "printer_inv p'" "printer_text p' = printer_text p @ s" "indent p' = indent p"
    by (auto simp: prints_def)
  from assms(2) [OF p'(1,2,4)] p' show ?thesis by (auto simp: prints_def)
qed

lemma prints_Inr: "printer_inv p \<Longrightarrow> prints p (Inr p) []"
  by (simp add: prints_def)

lemma strlen_no_zero: "CHR 0x00 \<notin> set s \<Longrightarrow> strlen s = length s"
  by (induction s) (auto simp: strlen_def)

lemma prints_raw:
  assumes "printer_inv p" and "CHR 0x00 \<notin> set s" and "n \<le> length s"
  shows "prints p (shd_printer_print_raw p n s) (take n s)"
proof -
  from assms(1) have "growy_inv (growy p)" by (simp add: printer_inv_def)
  from append_bytes_step [OF this] obtain g where "shd_growy_append_bytes (growy p) (take n s) = Inr g"
    "growy_inv g" "growy_text g = growy_text (growy p) @ take n s" .
  with assms show ?thesis
    by (simp add: prints_def shd_printer_print_raw_def strlen_no_zero printer_inv_def printer_text_def)
qed

lemma prints_newline:
  assumes "printer_inv p"
  shows "prints p (shd_newline p) (CHR 0x0A # replicate (4 * nat (indent p)) (CHR 0x20))"
proof -
  have spaces: "prints q (fold_res (\<lambda>_ p. shd_printer_print_raw p 4 ''    '') xs q) (replicate (4 * length xs) (CHR 0x20))"
    if "printer_inv q" for q and xs :: "nat list"
    using that
  proof (induction xs arbitrary: q)
    case (Cons x xs)
    have "prints q (shd_printer_print_raw q 4 ''    '') (replicate 4 (CHR 0x20))"
      using prints_raw [OF Cons.prems, of "''    ''" 4] by (simp add: numeral_eq_Suc)
    from prints_bind [OF this Cons.IH] show ?case by (simp add: replicate_add)
  qed (simp add: prints_Inr)
  have nl: "prints p (shd_printer_print_raw p 1 [CHR 0x0A]) [CHR 0x0A]"
    using prints_raw [OF assms, of "[CHR 0x0A]" 1] by simp
  have "prints p (shd_newline p) ([CHR 0x0A] @ replicate (4 * nat (indent p)) (CHR 0x20))"
    unfolding shd_newline_def
  proof (rule prints_bind [OF nl])
    fix p' assume "printer_inv p'" "indent p' = indent p"
    with spaces [of p' "[0..<nat (indent p')]"]
    show "prints p' (fold_res (\<lambda>_ p. shd_printer_print_raw p 4 ''    '') [0..<nat (indent p')] p')
        (replicate (4 * nat (indent p)) (CHR 0x20))" by simp
  qed
  then show ?thesis by simp
qed

lemma indented_simps:
  "indented n [] = []" "indented n (s @ t) = indented n s @ indented n t"
  "c \<noteq> CHR 0x0A \<Longrightarrow> indented n [c] = [c]"
  "indented n [CHR 0x0A] = CHR 0x0A # replicate (4 * nat n) (CHR 0x20)"
  by (simp_all add: indented_def)

lemma indented_plain: "CHR 0x0A \<notin> set s \<Longrightarrow> indented n s = s"
  by (induction s) (auto simp: indented_def)

lemma prints_loop:
  assumes "printer_inv p" and "CHR 0x00 \<notin> set tmp" and "start \<le> i" and "i \<le> length tmp"
    and "CHR 0x0A \<notin> set (take (i - start) (drop start tmp))"
  shows "prints p (print_loop p tmp start i) (take (i - start) (drop start tmp) @ indented (indent p) (drop i tmp))"
  using assms
proof (induction p tmp start i rule: print_loop.induct)
  case (1 p tmp start i)
  have nz: "CHR 0x00 \<notin> set (drop start tmp)" using "1.prems"(2) by (meson in_set_dropD)
  show ?case
  proof (cases "i < length tmp")
    case True
    then have drop_i: "drop i tmp = tmp ! i # drop (Suc i) tmp" by (simp add: Cons_nth_drop_Suc)
    have seg: "take (Suc i - start) (drop start tmp) = take (i - start) (drop start tmp) @ [tmp ! i]"
      using True "1.prems"(3) by (simp add: Suc_diff_le take_Suc_conv_app_nth)
    show ?thesis
    proof (cases "tmp ! i = CHR 0x0A")
      case nl: True
      have "prints p (print_loop p tmp start i)
          (take (i - start) (drop start tmp) @ ((CHR 0x0A # replicate (4 * nat (indent p)) (CHR 0x20))
             @ indented (indent p) (drop (Suc i) tmp)))"
        unfolding print_loop.simps [of p tmp start i] if_P [OF True] if_P [OF nl]
      proof (rule prints_bind [OF prints_raw [OF "1.prems"(1) nz]])
        show "i - start \<le> length (drop start tmp)" using True by simp
        fix p1 assume r1: "shd_printer_print_raw p (i - start) (drop start tmp) = Inr p1" and p1: "printer_inv p1" "indent p1 = indent p"
        show "prints p1 (bind_res (shd_newline p1) (\<lambda>p. print_loop p tmp (i + 1) (i + 1)))
            ((CHR 0x0A # replicate (4 * nat (indent p)) (CHR 0x20)) @ indented (indent p) (drop (Suc i) tmp))"
        proof (rule prints_bind)
          show "prints p1 (shd_newline p1) (CHR 0x0A # replicate (4 * nat (indent p)) (CHR 0x20))"
            using prints_newline [OF p1(1)] p1(2) by simp
          fix p2 assume r2: "shd_newline p1 = Inr p2" and p2: "printer_inv p2" "indent p2 = indent p1"
          have "prints p2 (print_loop p2 tmp (i + 1) (i + 1)) (take 0 (drop (i + 1) tmp) @ indented (indent p2) (drop (i + 1) tmp))"
            using "1.IH"(1) [OF True nl r1 r2] p2 "1.prems"(2) True by simp
          then show "prints p2 (print_loop p2 tmp (i + 1) (i + 1)) (indented (indent p) (drop (Suc i) tmp))"
            using p1 p2 by simp
        qed
      qed
      then show ?thesis by (simp add: drop_i nl indented_def)
    next
      case False
      have "CHR 0x0A \<notin> set (take (Suc i - start) (drop start tmp))" using "1.prems"(5) False by (simp add: seg)
      then have "prints p (print_loop p tmp start (i + 1))
          (take (i + 1 - start) (drop start tmp) @ indented (indent p) (drop (i + 1) tmp))"
        using "1.IH"(2) [OF True False] "1.prems" True by simp
      then show ?thesis
        unfolding print_loop.simps [of p tmp start i] if_P [OF True] if_not_P [OF False]
        using False by (simp add: seg drop_i indented_def)
    qed
  next
    case False
    with "1.prems" have "i = length tmp" by simp
    then show ?thesis
      using prints_raw [OF "1.prems"(1) nz, of "i - start"] prints_Inr [OF "1.prems"(1)] "1.prems"(3)
      by (subst print_loop.simps) (auto simp: indented_def)
  qed
qed

text \<open>
  C35: Printing a text into a buffer succeeds and appends the text with every newline followed by
  four spaces per level of indentation; the indentation stays as it was.
\<close>

theorem printer_indents_lines:
  assumes "printer_inv p" and "CHR 0x00 \<notin> set s"
  shows "\<exists>p'. shd_print p s = Inr p' \<and> printer_inv p' \<and> indent p' = indent p
    \<and> printer_text p' = printer_text p @ indented (indent p) s"
  using prints_loop [OF assms, of 0 0] by (auto simp: shd_print_def prints_def)

theorem printer_indents_lines_witness:
  "\<exists>p'. shd_print (shd_printer_indent (shd_new_printer_from_growy shd_new_growy)) [CHR ''a'', CHR 0x0A, CHR ''b''] = Inr p'
     \<and> printer_text p' = [CHR ''a'', CHR 0x0A, CHR 0x20, CHR 0x20, CHR 0x20, CHR 0x20, CHR ''b'']"
proof -
  let ?p = "shd_printer_indent (shd_new_printer_from_growy shd_new_growy)"
  have "printer_inv ?p" "indent ?p = 1" "printer_text ?p = []"
    by (simp_all add: printer_inv_def printer_text_def shd_printer_indent_def shd_new_printer_from_growy_def growy_new)
  with printer_indents_lines [of ?p "[CHR ''a'', CHR 0x0A, CHR ''b'']"] show ?thesis
    by (auto simp: indented_def numeral_eq_Suc)
qed

end
