(* ===== verification/TextC.thy ===== *)
theory TextC
  imports GrowyC "HOL-Library.Sublist"
begin

text \<open>
  The string functions of \<^verbatim>\<open>src/common/util.c\<close>: escape sequences, the escaping printers, prefixes
  and suffixes, and the directory of a path. Buffers of characters are lists; the functions that
  format, read files or abort are those of the C library and not modelled.
\<close>

subsection \<open>Escape sequences\<close>

text \<open>\<^verbatim>\<open>ESCAPE_SEQS\<close>: the mnemonic and the character it stands for.\<close>

definition ESCAPE_SEQS :: "(char \<times> char) list" where
  "ESCAPE_SEQS =
     [(CHR 0x5C, CHR 0x5C), (CHR 0x27, CHR 0x27), (CHR 0x22, CHR 0x22), (CHR ''n'', CHR 0x0A),
      (CHR ''t'', CHR 0x09), (CHR ''b'', CHR 0x08), (CHR ''r'', CHR 0x0D), (CHR ''f'', CHR 0x0C),
      (CHR ''a'', CHR 0x07), (CHR ''v'', CHR 0x0B)]"

abbreviation backslash :: char where
  "backslash \<equiv> CHR 0x5C"

text \<open>The character a mnemonic stands for, and the mnemonic of a character: the first that matches.\<close>

definition escape_code :: "char \<Rightarrow> char option" where
  "escape_code m = map_of ESCAPE_SEQS m"

definition escape_mnemonic :: "char \<Rightarrow> char option" where
  "escape_mnemonic s = map_of (map (\<lambda>(m, s). (s, m)) ESCAPE_SEQS) s"

text \<open>The loop of \<^verbatim>\<open>shd_apply_escape_codes\<close>: \<open>c\<close> is the character before, \<open>dst\<close> what is written.\<close>

fun apply_codes :: "char \<Rightarrow> string \<Rightarrow> string \<Rightarrow> string result" where
  "apply_codes c dst [] = Inr dst"
| "apply_codes prev dst (c # src) =
     (case (if prev = backslash then escape_code c else None) of
        Some s \<Rightarrow> if dst = [] then Inl OutOfBounds else apply_codes c (butlast dst @ [s]) src
      | None \<Rightarrow> apply_codes c (dst @ [c]) src)"

definition shd_apply_escape_codes :: "string \<Rightarrow> string result" where
  "shd_apply_escape_codes src = apply_codes (CHR 0x00) [] src"

fun shd_unapply_escape_codes :: "string \<Rightarrow> string" where
  "shd_unapply_escape_codes [] = []"
| "shd_unapply_escape_codes (c # src) =
     (case escape_mnemonic c of
        Some m \<Rightarrow> backslash # m # shd_unapply_escape_codes src
      | None \<Rightarrow> c # shd_unapply_escape_codes src)"

text \<open>The printers work on the string up to its end, one character at a time.\<close>

fun printer_escape :: "printer \<Rightarrow> string \<Rightarrow> printer result" where
  "printer_escape p [] = Inr p"
| "printer_escape p [c] = shd_print p [c]"
| "printer_escape p (c # next # src) =
     (case (if c = backslash then escape_code next else None) of
        Some code \<Rightarrow> bind_res (shd_print p [code]) (\<lambda>p. printer_escape p src)
      | None \<Rightarrow> bind_res (shd_print p [c]) (\<lambda>p. printer_escape p (next # src)))"

definition shd_printer_escape :: "printer \<Rightarrow> string \<Rightarrow> printer result" where
  "shd_printer_escape p src = printer_escape p (take (strlen src) src)"

definition shd_printer_unescape :: "printer \<Rightarrow> string \<Rightarrow> printer result" where
  "shd_printer_unescape p src =
     fold_res (\<lambda>c p. case escape_mnemonic c of
                       Some m \<Rightarrow> shd_print p [backslash, m]
                     | None \<Rightarrow> shd_print p [c]) (take (strlen src) src) p"

subsection \<open>Prefixes, suffixes, paths\<close>

definition shd_string_starts_with :: "string \<Rightarrow> string \<Rightarrow> bool" where
  "shd_string_starts_with s pre =
     (let len = length s; slen = length pre
      in if len < slen then False else take slen s = take slen pre)"

text \<open>The loop compares from the end.\<close>

definition shd_string_ends_with :: "string \<Rightarrow> string \<Rightarrow> bool" where
  "shd_string_ends_with s suf =
     (let len = length s; slen = length suf
      in if len < slen then False
         else list_all (\<lambda>i. s ! (len - 1 - i) = suf ! (slen - 1 - i)) [0..<slen])"

text \<open>\<^verbatim>\<open>strrchr\<close>: the last position of a character.\<close>

definition strrchr :: "string \<Rightarrow> char \<Rightarrow> nat option" where
  "strrchr s c = List.find (\<lambda>i. s ! i = c) (rev [0..<length s])"

definition shd_strip_path :: "string \<Rightarrow> string" where
  "shd_strip_path path =
     (let separator = (if backslash \<notin> set path then CHR 0x2F else backslash)
      in case strrchr path separator of
           None \<Rightarrow> ''./''
         | Some e \<Rightarrow> take e path)"

subsection \<open>Properties\<close>

lemma escape_mnemonic_code:
  "escape_mnemonic c = Some m \<Longrightarrow> escape_code m = Some c"
  "escape_mnemonic c = None \<Longrightarrow> c \<noteq> backslash"
  by (auto simp: escape_mnemonic_def escape_code_def ESCAPE_SEQS_def split: if_splits)

lemma escape_mnemonic_backslash: "escape_mnemonic backslash = Some backslash"
  by (simp add: escape_mnemonic_def ESCAPE_SEQS_def)

lemma mnemonic_backslash: "escape_mnemonic c = Some backslash \<Longrightarrow> c = backslash"
  by (auto simp: escape_mnemonic_def ESCAPE_SEQS_def split: if_splits)

lemma apply_unapply:
  "backslash \<notin> set s \<Longrightarrow> prev \<noteq> backslash \<Longrightarrow> apply_codes prev dst (shd_unapply_escape_codes s) = Inr (dst @ s)"
proof (induction s arbitrary: prev dst)
  case (Cons c s)
  show ?case
  proof (cases "escape_mnemonic c")
    case None
    with Cons.IH [OF _ escape_mnemonic_code(2) [OF None], of "dst @ [c]"] Cons.prems show ?thesis by simp
  next
    case (Some m)
    with Cons.prems(1) mnemonic_backslash [of c] have m: "m \<noteq> backslash" by (cases "m = backslash") simp_all
    have "apply_codes prev dst (shd_unapply_escape_codes (c # s)) = apply_codes m (dst @ [c]) (shd_unapply_escape_codes s)"
      using Some Cons.prems(2) escape_mnemonic_code(1) [OF Some] by simp
    with Cons.IH [OF _ m, of "dst @ [c]"] Cons.prems(1) show ?thesis by simp
  qed
qed simp

text \<open>
  Escaping a text and reading the escape sequences back gives the text, for texts without a
  backslash.
\<close>

theorem escape_roundtrip:
  assumes "backslash \<notin> set s"
  shows "shd_apply_escape_codes (shd_unapply_escape_codes s) = Inr s"
  using apply_unapply [OF assms, of "CHR 0x00" "[]"] by (simp add: shd_apply_escape_codes_def)

theorem escape_roundtrip_witness:
  "shd_apply_escape_codes (shd_unapply_escape_codes [CHR ''a'', CHR 0x0A, CHR 0x22]) = Inr [CHR ''a'', CHR 0x0A, CHR 0x22]"
  using escape_roundtrip [of "[CHR ''a'', CHR 0x0A, CHR 0x22]"] by simp

text \<open>
  An escaped backslash in front of an \<open>n\<close> is read back as a newline: the second backslash of a
  pair still counts as the start of a sequence.
\<close>

theorem escape_backslash_lost:
  "shd_unapply_escape_codes [backslash, CHR ''n''] = [backslash, backslash, CHR ''n'']
   \<and> shd_apply_escape_codes [backslash, backslash, CHR ''n''] = Inr [CHR 0x0A]"
  by (simp add: shd_apply_escape_codes_def escape_code_def escape_mnemonic_def ESCAPE_SEQS_def)

text \<open>The printers, on a printer that does not indent.\<close>

lemma indented_none: "indented 0 s = s"
  by (induction s) (auto simp: indented_def)

lemma print_plain:
  assumes "printer_inv p" "indent p = 0" "CHR 0x00 \<notin> set s"
  obtains p' where "shd_print p s = Inr p'" "printer_inv p'" "indent p' = 0" "printer_text p' = printer_text p @ s"
  using prints_loop [OF assms(1,3), of 0 0] assms(2) that
  by (auto simp: shd_print_def prints_def indented_none)

lemma printer_unescape_text:
  assumes "printer_inv p" "indent p = 0" "CHR 0x00 \<notin> set s"
  obtains p' where "fold_res (\<lambda>c p. case escape_mnemonic c of
                       Some m \<Rightarrow> shd_print p [backslash, m]
                     | None \<Rightarrow> shd_print p [c]) s p = Inr p'"
    "printer_inv p'" "indent p' = 0" "printer_text p' = printer_text p @ shd_unapply_escape_codes s"
  using assms
proof (induction s arbitrary: p thesis)
  case (Cons c s)
  let ?w = "case escape_mnemonic c of Some m \<Rightarrow> [backslash, m] | None \<Rightarrow> [c]"
  have "CHR 0x00 \<notin> set ?w"
    using Cons.prems(4) by (auto simp: escape_mnemonic_def ESCAPE_SEQS_def)
  from print_plain [OF Cons.prems(2,3) this] obtain p1 where
    p1: "shd_print p ?w = Inr p1" "printer_inv p1" "indent p1 = 0" "printer_text p1 = printer_text p @ ?w" .
  from Cons.prems(4) have "CHR 0x00 \<notin> set s" by simp
  from Cons.IH [OF _ p1(2,3) this] obtain p2 where
    p2: "fold_res (\<lambda>c p. case escape_mnemonic c of
                       Some m \<Rightarrow> shd_print p [backslash, m]
                     | None \<Rightarrow> shd_print p [c]) s p1 = Inr p2"
    "printer_inv p2" "indent p2 = 0" "printer_text p2 = printer_text p1 @ shd_unapply_escape_codes s" by blast
  show ?case
    by (rule Cons.prems(1) [of p2]) (use p1 p2 in \<open>cases "escape_mnemonic c"; simp\<close>)+
qed simp

lemma printer_escape_text:
  assumes "printer_inv p" "indent p = 0" "CHR 0x00 \<notin> set s"
  shows "\<exists>p'. printer_escape p (shd_unapply_escape_codes s) = Inr p' \<and> printer_text p' = printer_text p @ s"
  using assms
proof (induction s arbitrary: p)
  case (Cons c s)
  have z: "CHR 0x00 \<notin> set [c]" "CHR 0x00 \<notin> set s" using Cons.prems(3) by auto
  from print_plain [OF Cons.prems(1,2) z(1)] obtain p1 where
    p1: "shd_print p [c] = Inr p1" "printer_inv p1" "indent p1 = 0" "printer_text p1 = printer_text p @ [c]" .
  from Cons.IH [OF p1(2,3) z(2)] obtain p2 where
    p2: "printer_escape p1 (shd_unapply_escape_codes s) = Inr p2" "printer_text p2 = printer_text p1 @ s" by blast
  show ?case
  proof (cases "escape_mnemonic c")
    case (Some m)
    with p1 p2 show ?thesis by (simp add: escape_mnemonic_code)
  next
    case None
    have "printer_escape p (c # shd_unapply_escape_codes s) = bind_res (shd_print p [c]) (\<lambda>p. printer_escape p (shd_unapply_escape_codes s))"
      using escape_mnemonic_code(2) [OF None] p1(1) by (cases "shd_unapply_escape_codes s") simp_all
    with None p1 p2 show ?thesis by simp
  qed
qed simp

lemma unapply_no_zero: "CHR 0x00 \<notin> set s \<Longrightarrow> CHR 0x00 \<notin> set (shd_unapply_escape_codes s)"
  by (induction s) (auto simp: escape_mnemonic_def ESCAPE_SEQS_def)

text \<open>
  C34: On printers that do not indent, a text written with its special characters escaped is restored
  when it is printed through the function that resolves the sequences, backslashes included.
\<close>

theorem printer_escape_roundtrip:
  assumes "printer_inv p" and "indent p = 0" and "CHR 0x00 \<notin> set s"
  shows "\<exists>t p1 p2. shd_printer_unescape p s = Inr p1 \<and> printer_text p1 = printer_text p @ t
    \<and> shd_printer_escape p t = Inr p2 \<and> printer_text p2 = printer_text p @ s"
proof -
  have s: "take (strlen s) s = s" using assms(3) by (simp add: strlen_no_zero)
  have t: "take (strlen (shd_unapply_escape_codes s)) (shd_unapply_escape_codes s) = shd_unapply_escape_codes s"
    using unapply_no_zero [OF assms(3)] by (simp add: strlen_no_zero)
  from printer_unescape_text [OF assms] obtain p1 where "shd_printer_unescape p s = Inr p1"
    "printer_text p1 = printer_text p @ shd_unapply_escape_codes s"
    unfolding shd_printer_unescape_def s by blast
  moreover from printer_escape_text [OF assms] obtain p2 where
    "shd_printer_escape p (shd_unapply_escape_codes s) = Inr p2" "printer_text p2 = printer_text p @ s"
    unfolding shd_printer_escape_def t by blast
  ultimately show ?thesis by blast
qed

theorem printer_escape_roundtrip_witness:
  "\<exists>t p1 p2. shd_printer_unescape (shd_new_printer_from_growy shd_new_growy) [backslash, CHR ''n'', CHR 0x0A] = Inr p1
     \<and> printer_text p1 = t \<and> shd_printer_escape (shd_new_printer_from_growy shd_new_growy) t = Inr p2
     \<and> printer_text p2 = [backslash, CHR ''n'', CHR 0x0A]"
  using printer_escape_roundtrip [of "shd_new_printer_from_growy shd_new_growy" "[backslash, CHR ''n'', CHR 0x0A]"]
  by (simp add: printer_inv_def printer_text_def shd_new_printer_from_growy_def growy_new)

lemma apply_codes_total:
  "prev = backslash \<longrightarrow> dst \<noteq> [] \<Longrightarrow>
     \<exists>r. apply_codes prev dst src = Inr r \<and> length r \<le> length dst + length src"
proof (induction src arbitrary: prev dst)
  case (Cons c src)
  show ?case
  proof (cases "if prev = backslash then escape_code c else None")
    case None
    from Cons.IH [of c "dst @ [c]"] None show ?thesis by auto
  next
    case (Some s)
    with Cons.prems have d: "dst \<noteq> []" by (auto split: if_splits)
    from Cons.IH [of c "butlast dst @ [s]"] obtain r where
      "apply_codes c (butlast dst @ [s]) src = Inr r" "length r \<le> length (butlast dst @ [s]) + length src" by auto
    moreover have "length (butlast dst @ [s]) = length dst" using d by simp
    ultimately show ?thesis using Some d by auto
  qed
qed simp

lemma unapply_length: "length (shd_unapply_escape_codes s) \<le> 2 * length s"
  by (induction s) (auto split: option.splits)

text \<open>
  Resolving escape sequences never writes in front of its buffer and never needs more room than
  its input; escaping needs at most twice the room.
\<close>

theorem escape_bounds:
  "(\<exists>r. shd_apply_escape_codes s = Inr r \<and> length r \<le> length s)
   \<and> length (shd_unapply_escape_codes s) \<le> 2 * length s"
  using apply_codes_total [of "CHR 0x00" "[]" s] unapply_length by (simp add: shd_apply_escape_codes_def)

text \<open>The tests for a prefix and for a suffix decide the prefix and suffix orders on strings.\<close>

theorem starts_ends_with:
  "shd_string_starts_with s t = prefix t s \<and> shd_string_ends_with s t = suffix t s"
proof
  show "shd_string_starts_with s t = prefix t s"
    by (auto simp: shd_string_starts_with_def Let_def prefix_def) (metis append_take_drop_id)
  show "shd_string_ends_with s t = suffix t s"
  proof (cases "length s < length t")
    case True
    then show ?thesis by (auto simp: shd_string_ends_with_def suffix_def)
  next
    case False
    have "list_all (\<lambda>i. s ! (length s - 1 - i) = t ! (length t - 1 - i)) [0..<length t]
        \<longleftrightarrow> (\<forall>i < length t. rev s ! i = rev t ! i)"
      using False by (auto simp: list_all_iff rev_nth)
    also have "\<dots> \<longleftrightarrow> take (length t) (rev s) = rev t"
      using False by (auto simp: list_eq_iff_nth_eq)
    also have "\<dots> \<longleftrightarrow> prefix (rev t) (rev s)"
      using False by (auto simp: prefix_def) (metis append_take_drop_id)
    finally show ?thesis using False by (simp add: shd_string_ends_with_def Let_def suffix_to_prefix)
  qed
qed

end
