(* ===== verification/IrIntern.thy ===== *)
theory IrIntern
  imports SpirvBuilder
begin

text \<open>
  The interning tables of \<^verbatim>\<open>src/shady/ir.c\<close>: strings and lists of nodes are kept once, in hash
  sets of theory \<open>DictC\<close>, and named by the number of their copy. A set maps the contents of a copy
  to its number. Node numbers index the growing buffer \<^verbatim>\<open>ids\<close>, here the list of what was put in.
\<close>

subsection \<open>Strings\<close>

record string_table =
  copies :: "u8 list list"
  string_set :: "(u8 list, nat) dict"

definition new_string_table :: string_table where
  "new_string_table = \<lparr>copies = [], string_set = shd_new_dict\<rparr>"

text \<open>
  A string is its characters up to the terminating zero. The copy is allocated for all of them, and
  \<^verbatim>\<open>strncpy\<close> fills the first \<open>sz\<close> bytes, with zeros behind the end.
\<close>

definition string_impl :: "string_table \<Rightarrow> nat \<Rightarrow> u8 list option \<Rightarrow> (nat option \<times> string_table) result" where
  "string_impl a sz zero_terminated =
     (case zero_terminated of
        None \<Rightarrow> Inr (None, a)
      | Some s \<Rightarrow>
          bind_res (shd_dict_find_value_impl shd_hash_string shd_compare_string (string_set a) s) (\<lambda>found.
            case found of
              Some p \<Rightarrow> Inr (Some p, a)
            | None \<Rightarrow>
                if sz \<le> length s
                then let new_str = take sz s; p = length (copies a)
                     in bind_res (shd_dict_insert_impl shd_hash_string shd_compare_string (string_set a) new_str p)
                          (\<lambda>(_, d). Inr (Some p, \<lparr>copies = copies a @ [new_str], string_set = d\<rparr>))
                else Inl OutOfBounds))"

definition shd_string_sized :: "string_table \<Rightarrow> nat \<Rightarrow> u8 list \<Rightarrow> (nat option \<times> string_table) result" where
  "shd_string_sized a sz str =
     require (length (take sz str) = sz) (string_impl a sz (Some str))"

definition shd_string :: "string_table \<Rightarrow> u8 list option \<Rightarrow> (nat option \<times> string_table) result" where
  "shd_string a str = (case str of None \<Rightarrow> Inr (None, a) | Some s \<Rightarrow> string_impl a (length s) (Some s))"

fun shd_import_strings :: "string_table \<Rightarrow> u8 list list \<Rightarrow> (nat option list \<times> string_table) result" where
  "shd_import_strings a [] = Inr ([], a)"
| "shd_import_strings a (s # ss) =
     bind_res (shd_string a (Some s)) (\<lambda>(p, a).
     bind_res (shd_import_strings a ss) (\<lambda>(ps, a). Inr (p # ps, a)))"

subsection \<open>Lists of nodes\<close>

text \<open>
  \<^verbatim>\<open>Nodes\<close> are interned like strings; the operations on them build a list and intern it. Here they
  are the lists.
\<close>

definition shd_nodes_append :: "'n list \<Rightarrow> 'n \<Rightarrow> 'n list" where
  "shd_nodes_append old new = old @ [new]"

definition shd_nodes_prepend :: "'n list \<Rightarrow> 'n \<Rightarrow> 'n list" where
  "shd_nodes_prepend old new = new # old"

definition shd_concat_nodes :: "'n list \<Rightarrow> 'n list \<Rightarrow> 'n list" where
  "shd_concat_nodes a b = a @ b"

definition shd_change_node_at_index :: "'n list \<Rightarrow> nat \<Rightarrow> 'n \<Rightarrow> 'n list result" where
  "shd_change_node_at_index old i n = (if i < length old then Inr (old[i := n]) else Inl OutOfBounds)"

definition shd_find_in_nodes :: "'n list \<Rightarrow> 'n \<Rightarrow> bool" where
  "shd_find_in_nodes ns n = list_ex (\<lambda>m. m = n) ns"

subsection \<open>Node numbers\<close>

definition shd_allocate_node_id :: "'n list \<Rightarrow> 'n \<Rightarrow> nat \<times> 'n list" where
  "shd_allocate_node_id ids n = (let ids = ids @ [n] in (length ids, ids))"

definition shd_get_node_by_id :: "'n list \<Rightarrow> nat \<Rightarrow> 'n result" where
  "shd_get_node_by_id ids i = (if i < length ids then Inr (ids ! i) else Inl OutOfBounds)"

subsection \<open>Interning is injective\<close>

text \<open>Every copy is filed under its contents, and nothing else is.\<close>

definition interned :: "string_table \<Rightarrow> bool" where
  "interned a \<longleftrightarrow> dict_wf shd_hash_string shd_compare_string (string_set a)
     \<and> (\<forall>s p. dict_lookup shd_compare_string (string_set a) s = Some p \<longleftrightarrow> p < length (copies a) \<and> copies a ! p = s)"

lemma interned_new: "interned new_string_table"
  by (simp add: interned_def new_string_table_def dict_wf_new dict_lookup_new)

lemma find_value:
  assumes "interned a"
  shows "shd_dict_find_value_impl shd_hash_string shd_compare_string (string_set a) s
    = Inr (dict_lookup shd_compare_string (string_set a) s)"
  using assms by (intro string_key.find_value_impl) (simp add: interned_def dict_wf_def dict_inv_def)

lemma compare_string_eq: "shd_compare_string s t \<longleftrightarrow> s = t"
  by (auto simp: shd_compare_string_def)

lemma string_step:
  assumes inv: "interned a" and ok: "shd_string a (Some s) = Inr (r, a')"
  obtains p xs where "r = Some p" "interned a'" "p < length (copies a')" "copies a' ! p = s" "copies a' = copies a @ xs"
proof (cases "dict_lookup shd_compare_string (string_set a) s")
  case (Some p)
  with inv have "p < length (copies a)" "copies a ! p = s" by (simp_all add: interned_def)
  moreover from ok have "r = Some p" "a' = a"
    by (simp_all add: shd_string_def string_impl_def find_value [OF inv] Some)
  ultimately show thesis using that [of p "[]"] inv by simp
next
  case None
  let ?p = "length (copies a)"
  from None ok obtain b d where
    ins: "shd_dict_insert_impl shd_hash_string shd_compare_string (string_set a) s ?p = Inr (b, d)"
    and a': "r = Some ?p" "a' = \<lparr>copies = copies a @ [s], string_set = d\<rparr>"
    by (auto simp: shd_string_def string_impl_def find_value [OF inv] bind_res_Inr_iff Let_def)
  have wf: "dict_wf shd_hash_string shd_compare_string (string_set a)" using inv by (simp add: interned_def)
  have new: "dict_wf shd_hash_string shd_compare_string d"
    "dict_lookup shd_compare_string d = (\<lambda>t. if s = t then Some ?p else dict_lookup shd_compare_string (string_set a) t)"
    using string_key.table.ins_ok [OF wf ins] by (auto simp: compare_string_eq)
  have look: "dict_lookup shd_compare_string (string_set a) t = Some q \<longleftrightarrow> q < ?p \<and> copies a ! q = t" for t q
    using inv by (simp add: interned_def)
  have "interned a'"
    unfolding interned_def a'(2)
    using new(1) look [of s] None by (auto simp: new(2) look nth_append less_Suc_eq)
  with a' show thesis using that [of ?p "[s]"] by simp
qed

lemma import_strings_copies:
  assumes "interned a" and "shd_import_strings a ss = Inr (ps, a')"
  shows "interned a' \<and> (\<exists>xs. copies a' = copies a @ xs)
    \<and> list_all2 (\<lambda>r s. \<exists>p. r = Some p \<and> p < length (copies a') \<and> copies a' ! p = s) ps ss"
  using assms
proof (induction ss arbitrary: a ps)
  case (Cons s ss)
  from Cons.prems(2) obtain r a1 rs where
    r: "shd_string a (Some s) = Inr (r, a1)" "shd_import_strings a1 ss = Inr (rs, a')" "ps = r # rs"
    by (auto simp: bind_res_Inr_iff)
  from string_step [OF Cons.prems(1) r(1)] obtain p xs where
    p: "r = Some p" "interned a1" "p < length (copies a1)" "copies a1 ! p = s" "copies a1 = copies a @ xs" .
  from Cons.IH [OF p(2) r(2)] obtain ys where
    ys: "interned a'" "copies a' = copies a1 @ ys"
      "list_all2 (\<lambda>r s. \<exists>p. r = Some p \<and> p < length (copies a') \<and> copies a' ! p = s) rs ss" by blast
  have "p < length (copies a') \<and> copies a' ! p = s" using p(3,4) by (simp add: ys(2) nth_append)
  with p(1,5) ys r(3) show ?case by simp
qed (auto)

lemma interned_inj:
  "interned a \<Longrightarrow> p < length (copies a) \<Longrightarrow> q < length (copies a) \<Longrightarrow> copies a ! p = copies a ! q \<Longrightarrow> p = q"
  by (metis interned_def option.inject)

subsection \<open>Properties\<close>

text \<open>
  C33: Every string interned in a fresh table is returned as a copy with its characters, and two
  requests get the same copy exactly when the strings are equal.
\<close>

theorem interning_injective:
  assumes "shd_import_strings new_string_table ss = Inr (ps, a)"
  shows "list_all2 (\<lambda>r s. \<exists>p. r = Some p \<and> p < length (copies a) \<and> copies a ! p = s) ps ss
    \<and> (\<forall>i < length ss. \<forall>j < length ss. ps ! i = ps ! j \<longleftrightarrow> ss ! i = ss ! j)"
proof -
  from import_strings_copies [OF interned_new assms] have
    inv: "interned a" and all: "list_all2 (\<lambda>r s. \<exists>p. r = Some p \<and> p < length (copies a) \<and> copies a ! p = s) ps ss"
    by auto
  have "ps ! i = ps ! j \<longleftrightarrow> ss ! i = ss ! j" if "i < length ss" "j < length ss" for i j
    using list_all2_nthD2 [OF all that(1)] list_all2_nthD2 [OF all that(2)] interned_inj [OF inv] by auto
  with all show ?thesis by simp
qed

lemma new_table_string: "\<exists>a. shd_string new_string_table (Some s) = Inr (Some 0, a) \<and> copies a = [s]"
proof -
  have "\<exists>b d. shd_dict_insert_impl shd_hash_string shd_compare_string (shd_new_dict :: (u8 list, nat) dict) s 0 = Inr (b, d)"
    by (rule dict_insert_total [OF string_key.hash_key_axioms dict_wf_new])
      (simp_all add: shd_new_dict_def dict_size_def init_size_def zero_bucket_def)
  moreover have "dict_lookup shd_compare_string (shd_new_dict :: (u8 list, nat) dict) s = None" by (simp add: dict_lookup_new)
  ultimately show ?thesis
    using find_value [OF interned_new, of s] by (auto simp: shd_string_def string_impl_def new_string_table_def Let_def)
qed

theorem interning_injective_witness:
  "\<exists>ps a. shd_import_strings new_string_table [[1, 2]] = Inr (ps, a) \<and> list_all2 (\<lambda>r s. \<exists>p. r = Some p \<and> copies a ! p = s) ps [[1, 2]]"
proof -
  from new_table_string [of "[1, 2]"] obtain a where a: "shd_string new_string_table (Some [1, 2]) = Inr (Some 0, a)" by blast
  then have "shd_import_strings new_string_table [[1, 2]] = Inr ([Some 0], a)" by simp
  from interning_injective [OF this] this show ?thesis by auto
qed

text \<open>
  Interning the first characters of a longer string looks the whole string up: it makes a second
  copy of characters that are already interned.
\<close>

theorem string_sized_duplicates:
  assumes "n < length s"
  shows "\<exists>a a'. shd_string new_string_table (Some (take n s)) = Inr (Some 0, a)
    \<and> shd_string_sized a n s = Inr (Some 1, a') \<and> copies a' = [take n s, take n s]"
proof -
  let ?t = "take n s"
  from new_table_string [of ?t] obtain a where
    a: "shd_string new_string_table (Some ?t) = Inr (Some 0, a)" "copies a = [?t]" by blast
  from string_step [OF interned_new a(1)] have inv: "interned a" by metis
  have "?t \<noteq> s" using assms by (simp add: take_all_iff)
  then have "dict_lookup shd_compare_string (string_set a) s \<noteq> Some p" for p
    using inv a(2) by (auto simp: interned_def)
  then have none: "dict_lookup shd_compare_string (string_set a) s = None" by auto
  have wf: "dict_wf shd_hash_string shd_compare_string (string_set a)"
    and old: "dict_lookup shd_compare_string (string_set a) ?t = Some 0"
    using inv a(2) by (simp_all add: interned_def)
  obtain b f d where "dict_insert shd_hash_string shd_compare_string (string_set a) ?t 1 = Inr (b, f, d)"
    using string_key.insert_cases [OF wf, of ?t 1] old by auto
  with a(2) assms none have "\<exists>a'. shd_string_sized a n s = Inr (Some 1, a') \<and> copies a' = [?t, ?t]"
    by (simp add: shd_string_sized_def string_impl_def find_value [OF inv] shd_dict_insert_impl_def Let_def)
  with a(1) show ?thesis by blast
qed

theorem string_sized_duplicates_witness:
  "\<exists>a a'. shd_string new_string_table (Some [1, 2]) = Inr (Some 0, a)
     \<and> shd_string_sized a 2 [1, 2, 3] = Inr (Some 1, a') \<and> copies a' = [[1, 2], [1, 2]]"
  using string_sized_duplicates [of 2 "[1, 2, 3]"] by simp

text \<open>
  The number a node is given is one more than the position it is kept at: looked up by its
  number, the first of two nodes yields the second, and the last yields a read behind the buffer.
\<close>

theorem node_id_off_by_one:
  "let (i, ids) = shd_allocate_node_id [] n; (j, ids') = shd_allocate_node_id ids m
   in shd_get_node_by_id ids i = Inl OutOfBounds \<and> shd_get_node_by_id ids' i = Inr m
      \<and> shd_get_node_by_id ids' j = Inl OutOfBounds"
  by (simp add: shd_allocate_node_id_def shd_get_node_by_id_def)

end
