(* ===== verification/IrGrammar.thy ===== *)
theory IrGrammar
  imports Prelude
begin

text \<open>
  The nodes of Shady's intermediate representation, as \<^verbatim>\<open>include/shady/grammar.json\<close>,
  \<^verbatim>\<open>include/shady/primops.json\<close> and \<^verbatim>\<open>include/shady/ir/grammar.h\<close> declare them. Types and values are
  interned by the arena, so pointer equality of structural nodes is structural equality here;
  nominal nodes carry the number the arena gives them. Declarations and basic blocks are mutable
  and may refer to each other, so they are named by numbers and looked up in the arena.
\<close>

subsection \<open>Enumerations\<close>

datatype IntSizes = IntTy8 | IntTy16 | IntTy32 | IntTy64

datatype FloatSizes = FloatTy16 | FloatTy32 | FloatTy64

datatype RecordSpecialFlag = NotSpecial | MultipleReturn | DecorateBlock

datatype AddressSpace =
    AsGeneric | AsGlobal | AsShared | AsSubgroup | AsPrivate | AsInput | AsUInput | AsOutput
    | AsExternal | AsPushConstant | AsFunction | AsShaderStorageBufferObject | AsUniform |
    AsUniformConstant | AsImage | AsDebugInfo

datatype (plugins only: code size) Op =
    add_op | add_carry_op | sub_op | sub_borrow_op | mul_op | mul_extended_op | div_op |
    fma_op | mod_op | neg_op | not_op | and_op | or_op | xor_op | gt_op | gte_op | lt_op |
    lte_op | eq_op | neq_op | rshift_logical_op | rshift_arithm_op | lshift_op | sqrt_op |
    inv_sqrt_op | pow_op | exp_op | floor_op | ceil_op | round_op | fract_op | min_op |
    max_op | abs_op | sign_op | sin_op | cos_op | size_of_op | align_of_op | offset_of_op |
    subgroup_assume_uniform_op | select_op | convert_op | reinterpret_op | extract_op |
    extract_dynamic_op | insert_op | shuffle_op | sample_texture_op | empty_mask_op |
    mask_is_thread_active_op

definition int_size_in_bytes :: "IntSizes \<Rightarrow> nat" where
  "int_size_in_bytes s = (case s of IntTy8 \<Rightarrow> 1 | IntTy16 \<Rightarrow> 2 | IntTy32 \<Rightarrow> 4 | IntTy64 \<Rightarrow> 8)"

definition float_size_in_bytes :: "FloatSizes \<Rightarrow> nat" where
  "float_size_in_bytes s = (case s of FloatTy16 \<Rightarrow> 2 | FloatTy32 \<Rightarrow> 4 | FloatTy64 \<Rightarrow> 8)"

subsection \<open>Types\<close>

type_synonym decl_id = nat
type_synonym block_id = nat

datatype image_format = ImageFormat (depth: u32) (dim: u32) (arrayed: u32) (ms: u32) (sampled: u32) (imageformat: u32)

text \<open>
  Types, over the nodes \<open>'n\<close> that give the size of an array; \<open>None\<close> is a \<^verbatim>\<open>NULL\<close> size.
\<close>

datatype 'n ty =
    MaskType
  | JoinPointType "'n ty list"
  | NoRet
  | Int_type IntSizes bool                              \<comment> \<open>width, is_signed\<close>
  | Float_type FloatSizes
  | Bool_type
  | RecordType "'n ty list" "string list" RecordSpecialFlag
  | FnType "'n ty list" "'n ty list"                    \<comment> \<open>parameters, returns\<close>
  | BBType "'n ty list"
  | LamType "'n ty list"
  | PtrType AddressSpace "'n ty" bool                   \<comment> \<open>pointed_type, is_reference\<close>
  | QualifiedType bool "'n ty"                          \<comment> \<open>is_uniform\<close>
  | ArrType "'n ty" "'n option"
  | PackType "'n ty" nat
  | TypeDeclRef decl_id
  | ImageType "'n ty" image_format
  | SamplerType
  | SampledImageType "'n ty"

subsection \<open>Values, instructions and terminators\<close>

datatype abstraction = AbsFn decl_id | AbsBlock block_id

text \<open>
  A node is its number (0 for structural nodes), its payload and \<^verbatim>\<open>node->type\<close>. The operand
  \<^verbatim>\<open>mem\<close> comes first, as in the grammar.
\<close>

datatype (plugins only: code size) node = Node (nid: nat) (pl: payload) (ntype: "node ty option")
and payload =
    Param "node ty" string
  | ConstrainedValue "node ty" node
  | UntypedNumber string
  | IntLiteral IntSizes bool u64
  | FloatLiteral FloatSizes u64
  | StringLiteral "u8 list"
  | TrueLit
  | FalseLit
  | NullPtr "node ty"
  | Composite "node ty option" "node list"
  | Fill "node ty" node
  | Undef "node ty"
  | RefDecl decl_id
  | FnAddr decl_id
  | MemAndValue node node
  | Call node node "node list"
  | PrimOp Op "node ty list" "node list"
  | StackAlloc node "node ty"
  | LocalAlloc node "node ty"
  | Load node node
  | Store node node node
  | PtrCompositeElement node node
  | PtrArrayElementOffset node node
  | CopyBytes node node node node
  | FillBytes node node node node
  | PushStack node node
  | PopStack node "node ty"
  | GetStackSize node
  | SetStackSize node node
  | GetStackBaseAddr node
  | DebugPrintf node "u8 list" "node list"
  | ExtInstr "node option" "node ty" string u32 "node list"
  | Comment node string
  | AbsMem abstraction
  | If node "node ty list" node block_id "block_id option" block_id
  | Match node "node ty list" node "node list" "block_id list" block_id block_id
  | Loop node "node ty list" block_id "node list" block_id
  | Control node "node ty list" block_id block_id
  | TailCall node node "node list"
  | Jump node block_id "node list"
  | Branch node node node node
  | Switch node node "node list" "node list" node
  | Join node node "node list"
  | MergeContinue node "node list"
  | MergeBreak node "node list"
  | MergeSelection node "node list"
  | Return node "node list"
  | Unreachable node

type_synonym Type = "node ty"

datatype annotation =
    Annotation string
  | AnnotationValue string node
  | AnnotationValues string "node list"
  | AnnotationCompound string "annotation list"

subsection \<open>Declarations and the arena\<close>

datatype decl =
    GlobalVariable string "annotation list" Type AddressSpace "node option"   \<comment> \<open>init\<close>
  | Constant string "annotation list" Type "node option"                      \<comment> \<open>type_hint, value\<close>
  | Function string "annotation list" "node list" "Type list" "node option"   \<comment> \<open>params, return_types, body\<close>
  | NominalType string "annotation list" "Type option"                        \<comment> \<open>body\<close>

datatype SubgroupMaskRepresentation = SubgroupMaskAbstract | SubgroupMaskInt64

record arena_config =
  check_types :: bool
  allow_fold :: bool
  validate_builtin_types :: bool
  is_simt :: bool
  as_physical :: "AddressSpace \<Rightarrow> bool"
  as_allowed :: "AddressSpace \<Rightarrow> bool"
  subgroup_mask_representation :: SubgroupMaskRepresentation
  ptr_size :: IntSizes
  word_size :: IntSizes
  fold_static_control_flow :: bool
  delete_unreachable_structured_cases :: bool

record basic_block =
  bb_params :: "node list"
  bb_body :: "node option"

text \<open>A declaration comes with the \<^verbatim>\<open>type\<close> its node was given at creation.\<close>

record arena =
  config :: arena_config
  decls :: "(decl_id \<times> decl \<times> Type option) list"
  blocks :: "(block_id \<times> basic_block) list"

definition get_decl :: "arena \<Rightarrow> decl_id \<Rightarrow> decl result" where
  "get_decl a d = (case map_of (decls a) d of None \<Rightarrow> Inl NullDeref | Some (decl, _) \<Rightarrow> Inr decl)"

definition decl_type :: "arena \<Rightarrow> decl_id \<Rightarrow> Type option result" where
  "decl_type a d = (case map_of (decls a) d of None \<Rightarrow> Inl NullDeref | Some (_, t) \<Rightarrow> Inr t)"

definition get_block :: "arena \<Rightarrow> block_id \<Rightarrow> basic_block result" where
  "get_block a b = (case map_of (blocks a) b of None \<Rightarrow> Inl NullDeref | Some bb \<Rightarrow> Inr bb)"

text \<open>Following a pointer that may be \<^verbatim>\<open>NULL\<close>.\<close>

definition deref :: "'a option \<Rightarrow> 'a result" where
  "deref x = (case x of None \<Rightarrow> Inl NullDeref | Some a \<Rightarrow> Inr a)"

lemma deref_simps [simp]: "deref None = Inl NullDeref" "deref (Some a) = Inr a"
  by (simp_all add: deref_def)

lemma deref_Inr [simp]: "deref x = Inr a \<longleftrightarrow> x = Some a"
  by (cases x) auto

abbreviation type_of :: "node \<Rightarrow> Type result" where
  "type_of n \<equiv> deref (ntype n)"

end
