(* ===== verification/IrType.thy ===== *)
theory IrType
  imports IrGrammar
begin

text \<open>
  The type system: \<^verbatim>\<open>src/shady/ir/type.c\<close>, with the literals of \<^verbatim>\<open>src/shady/ir/int.c\<close> and the
  resolution of nodes to their definitions of \<^verbatim>\<open>src/shady/analysis/literal.c\<close> that it uses.
\<close>

unbundle bit_operations_syntax

definition shd_first :: "'a list \<Rightarrow> 'a result" where
  "shd_first xs = (case xs of [] \<Rightarrow> Inl AssertFailed | x # _ \<Rightarrow> Inr x)"

lemma shd_first_simps [simp]: "shd_first [] = Inl AssertFailed" "shd_first (x # xs) = Inr x"
  by (simp_all add: shd_first_def)

subsection \<open>Resolving nodes\<close>

record NodeResolveConfig =
  enter_loads :: bool
  allow_incompatible_types :: bool
  assume_globals_immutability :: bool

definition shd_default_node_resolve_config :: NodeResolveConfig where
  "shd_default_node_resolve_config =
     \<lparr>enter_loads = True, allow_incompatible_types = False, assume_globals_immutability = False\<rparr>"

text \<open>
  A definition is a node or a declaration. The two functions follow each other; the depth of the
  chase is bounded by \<open>fuel\<close>, which runs out where constants are defined in a circle and the C
  loops for ever. Two cases fall through in the C and then read a payload as that of another node;
  they are errors here.
\<close>

datatype resolved = RNode node | RDecl decl_id

fun shd_resolve_node_to_definition ::
    "nat \<Rightarrow> arena \<Rightarrow> NodeResolveConfig \<Rightarrow> resolved option \<Rightarrow> resolved option result"
and shd_resolve_ptr_to_value ::
    "nat \<Rightarrow> arena \<Rightarrow> NodeResolveConfig \<Rightarrow> resolved option \<Rightarrow> node option result" where
  "shd_resolve_node_to_definition 0 a cfg n = Inl OutOfFuel"
| "shd_resolve_node_to_definition (Suc fuel) a cfg n =
     (case n of
        None \<Rightarrow> Inr None
      | Some (RDecl d) \<Rightarrow>
          bind_res (get_decl a d) (\<lambda>decl.
            case decl of
              Constant _ _ _ v \<Rightarrow> shd_resolve_node_to_definition fuel a cfg (map_option RNode v)
            | _ \<Rightarrow> Inr (Some (RDecl d)))
      | Some (RNode m) \<Rightarrow>
          (case pl m of
             RefDecl d \<Rightarrow> shd_resolve_node_to_definition fuel a cfg (Some (RDecl d))
           | Load mem p \<Rightarrow>
               if enter_loads cfg
               then bind_res (shd_resolve_ptr_to_value fuel a cfg (Some (RNode p))) (\<lambda>r.
                      case r of None \<Rightarrow> Inr (Some (RNode m))
                      | Some v \<Rightarrow> shd_resolve_node_to_definition fuel a cfg (Some (RNode v)))
               else Inl OutOfBounds
           | PrimOp op tys args \<Rightarrow>
               if op \<in> {convert_op, reinterpret_op} \<and> allow_incompatible_types cfg
               then bind_res (shd_first args) (\<lambda>x. shd_resolve_node_to_definition fuel a cfg (Some (RNode x)))
               else Inr (Some (RNode m))
           | _ \<Rightarrow> Inr (Some (RNode m))))"
| "shd_resolve_ptr_to_value 0 a cfg p = Inl OutOfFuel"
| "shd_resolve_ptr_to_value (Suc fuel) a cfg p =
     (case p of
        None \<Rightarrow> Inr None
      | Some p \<Rightarrow>
          bind_res (shd_resolve_node_to_definition fuel a cfg (Some p)) (\<lambda>r.
            case r of
              None \<Rightarrow> Inl NullDeref
            | Some (RNode m) \<Rightarrow>
                (case pl m of
                   PrimOp op tys args \<Rightarrow>
                     if op = convert_op
                     then bind_res (shd_first args) (\<lambda>x. shd_resolve_ptr_to_value fuel a cfg (Some (RNode x)))
                     else if assume_globals_immutability cfg then Inl OutOfBounds
                     else Inr None
                 | _ \<Rightarrow> Inr None)
            | Some (RDecl d) \<Rightarrow>
                bind_res (get_decl a d) (\<lambda>decl.
                  case decl of
                    GlobalVariable _ _ _ _ init \<Rightarrow>
                      Inr (if assume_globals_immutability cfg then init else None)
                  | _ \<Rightarrow> Inr None)))"

text \<open>
  The depth at which the chase is cut off: every step goes to an operand of a node or to the value
  of a declaration, so without a circle it is shorter than this.
\<close>

definition decl_size :: "decl \<Rightarrow> nat" where
  "decl_size d = (case d of
     GlobalVariable _ _ _ _ (Some v) \<Rightarrow> Suc (size v)
   | Constant _ _ _ (Some v) \<Rightarrow> Suc (size v)
   | _ \<Rightarrow> 1)"

definition chase_depth :: "arena \<Rightarrow> node \<Rightarrow> nat" where
  "chase_depth a n = 2 * (size n + sum_list (map (\<lambda>(_, d, _). decl_size d) (decls a))) + 2"

definition resolve_default :: "arena \<Rightarrow> node option \<Rightarrow> resolved option result" where
  "resolve_default a n =
     (case n of None \<Rightarrow> Inr None
      | Some m \<Rightarrow> shd_resolve_node_to_definition (chase_depth a m) a
                    shd_default_node_resolve_config (Some (RNode m)))"

subsection \<open>Literals\<close>

type_synonym int_lit = "IntSizes \<times> bool \<times> u64"     \<comment> \<open>width, is_signed, value\<close>
type_synonym float_lit = "FloatSizes \<times> u64"

definition shd_resolve_to_int_literal :: "arena \<Rightarrow> node option \<Rightarrow> int_lit option result" where
  "shd_resolve_to_int_literal a n =
     bind_res (resolve_default a n) (\<lambda>r.
       Inr (case r of
              Some (RNode m) \<Rightarrow> (case pl m of IntLiteral w s v \<Rightarrow> Some (w, s, v) | _ \<Rightarrow> None)
            | _ \<Rightarrow> None))"

definition shd_resolve_to_float_literal :: "arena \<Rightarrow> node option \<Rightarrow> float_lit option result" where
  "shd_resolve_to_float_literal a n =
     bind_res (resolve_default a n) (\<lambda>r.
       Inr (case r of
              Some (RNode m) \<Rightarrow> (case pl m of FloatLiteral w v \<Rightarrow> Some (w, v) | _ \<Rightarrow> None)
            | _ \<Rightarrow> None))"

definition shd_get_int_literal_value :: "int_lit \<Rightarrow> bool \<Rightarrow> u64" where
  "shd_get_int_literal_value lit sign_extend =
     (case lit of (width, _, v) \<Rightarrow>
        if sign_extend then
          (case width of
             IntTy8 \<Rightarrow> scast (ucast (v AND 0xFF) :: 8 word)
           | IntTy16 \<Rightarrow> scast (ucast (v AND 0xFFFF) :: 16 word)
           | IntTy32 \<Rightarrow> scast (ucast (v AND 0xFFFFFFFF) :: 32 word)
           | IntTy64 \<Rightarrow> v)
        else
          (case width of
             IntTy8 \<Rightarrow> v AND 0xFF
           | IntTy16 \<Rightarrow> v AND 0xFFFF
           | IntTy32 \<Rightarrow> v AND 0xFFFFFFFF
           | IntTy64 \<Rightarrow> v))"

definition shd_get_int_value :: "arena \<Rightarrow> node \<Rightarrow> bool \<Rightarrow> u64 result" where
  "shd_get_int_value a n sign_extend =
     bind_res (shd_resolve_to_int_literal a (Some n)) (\<lambda>lit.
       case lit of None \<Rightarrow> Inl (ShdError ''Not a literal'')
       | Some l \<Rightarrow> Inr (shd_get_int_literal_value l sign_extend))"

text \<open>The size an array must have to be indexed: \<^verbatim>\<open>*shd_resolve_to_int_literal(n)\<close>, unsigned.\<close>

definition literal_size :: "arena \<Rightarrow> node option \<Rightarrow> u64 result" where
  "literal_size a n =
     bind_res (shd_resolve_to_int_literal a n) (\<lambda>lit.
       bind_res (deref lit) (\<lambda>l. Inr (shd_get_int_literal_value l False)))"

subsection \<open>Subtyping\<close>

function (sequential) shd_is_subtype :: "arena \<Rightarrow> Type \<Rightarrow> Type \<Rightarrow> bool result"
and subtypes :: "arena \<Rightarrow> Type list \<Rightarrow> Type list \<Rightarrow> bool result" where
  "shd_is_subtype a super t =
     (if super = t then Inr True else
      case (super, t) of
        (QualifiedType su st, QualifiedType u ty) \<Rightarrow>
          if su \<and> \<not> u then Inr False else shd_is_subtype a st ty
      | (RecordType supermembers _ sspecial, RecordType members _ special) \<Rightarrow>
          if length supermembers \<noteq> length members then Inr False
          else bind_res (subtypes a supermembers members) (\<lambda>b. Inr (b \<and> sspecial = special))
      | (JoinPointType superparams, JoinPointType params) \<Rightarrow>
          if length params \<noteq> length superparams then Inr False else subtypes a params superparams
      | (FnType superparams superreturns, FnType params returns) \<Rightarrow>
          if length superreturns \<noteq> length returns then Inr False
          else bind_res (subtypes a superreturns returns) (\<lambda>b.
                 if \<not> b then Inr False
                 else if length params \<noteq> length superparams then Inr False
                 else subtypes a params superparams)
      | (BBType superparams, BBType params) \<Rightarrow>
          if length params \<noteq> length superparams then Inr False else subtypes a params superparams
      | (LamType superparams, LamType params) \<Rightarrow>
          if length params \<noteq> length superparams then Inr False else subtypes a params superparams
      | (PtrType sas st sref, PtrType as ty ref) \<Rightarrow>
          if sas \<noteq> as then Inr False
          else if \<not> sref \<and> ref then Inr False
          else shd_is_subtype a st ty
      | (ArrType st ssize, ArrType ty sz) \<Rightarrow>
          bind_res (shd_is_subtype a st ty) (\<lambda>b.
            if \<not> b then Inr False
            else bind_res (shd_resolve_to_int_literal a ssize) (\<lambda>size_literal.
              if (case size_literal of Some (_, _, value) \<Rightarrow> value = 0 | None \<Rightarrow> False) then Inr True
              else Inr (ssize = sz \<or> ssize = None)))
      | (PackType st sw, PackType ty w) \<Rightarrow>
          bind_res (shd_is_subtype a st ty) (\<lambda>b. Inr (b \<and> sw = w))
      | (ImageType st sdesc, ImageType ty desc) \<Rightarrow>
          bind_res (shd_is_subtype a st ty) (\<lambda>b. Inr (b \<and> sdesc = desc))
      | (SampledImageType st, SampledImageType ty) \<Rightarrow> shd_is_subtype a st ty
      | _ \<Rightarrow> Inr False)"
| "subtypes a [] ts = Inr True"
| "subtypes a (s # ss) (t # ts) =
     bind_res (shd_is_subtype a s t) (\<lambda>b. if b then subtypes a ss ts else Inr False)"
| "subtypes a (s # ss) [] = Inl OutOfBounds"
  by pat_completeness auto
termination
  by (relation "measure (\<lambda>x. case x of Inl (_, s, t) \<Rightarrow> size s + size t
                                     | Inr (_, ss, ts) \<Rightarrow> size_list size ss + size_list size ts)")
    (auto simp: size_list_conv_sum_list)

declare shd_is_subtype.simps [simp del]

definition shd_check_subtype :: "arena \<Rightarrow> Type \<Rightarrow> Type \<Rightarrow> unit result" where
  "shd_check_subtype a super t =
     bind_res (shd_is_subtype a super t) (\<lambda>b.
       if b then Inr () else Inl (ShdError ''failed check_subtype''))"

subsection \<open>Classes of types\<close>

definition shd_get_nominal_type_body :: "arena \<Rightarrow> Type \<Rightarrow> Type option result" where
  "shd_get_nominal_type_body a t =
     (case t of
        TypeDeclRef d \<Rightarrow>
          bind_res (get_decl a d) (\<lambda>decl.
            case decl of NominalType _ _ body \<Rightarrow> Inr body | _ \<Rightarrow> Inl AssertFailed)
      | _ \<Rightarrow> Inl AssertFailed)"

text \<open>
  \<^verbatim>\<open>shd_is_data_type\<close> follows the bodies of nominal types. The fuel bounds how many of them it
  enters one inside the other: more than there are declarations means that one contains itself, on
  which the C recurses for ever.
\<close>

fun data_type :: "nat \<Rightarrow> arena \<Rightarrow> Type \<Rightarrow> bool result" where
  "data_type fuel a MaskType = Inr True"
| "data_type fuel a (JoinPointType _) = Inr True"
| "data_type fuel a (Int_type _ _) = Inr True"
| "data_type fuel a (Float_type _) = Inr True"
| "data_type fuel a Bool_type = Inr True"
| "data_type fuel a (PtrType _ _ _) = Inr True"
| "data_type fuel a (ArrType _ sz) = Inr (sz \<noteq> None)"
| "data_type fuel a (PackType t _) = data_type fuel a t"
| "data_type fuel a (RecordType members _ special) =
     bind_res (all_res (data_type fuel a) members) (\<lambda>b. Inr (b \<and> special = NotSpecial))"
| "data_type 0 a (TypeDeclRef d) = Inl OutOfFuel"
| "data_type (Suc fuel) a (TypeDeclRef d) =
     bind_res (shd_get_nominal_type_body a (TypeDeclRef d)) (\<lambda>body.
       case body of None \<Rightarrow> Inr True | Some t \<Rightarrow> data_type fuel a t)"
| "data_type fuel a (QualifiedType _ _) = Inr False"
| "data_type fuel a (FnType _ _) = Inr False"
| "data_type fuel a (BBType _) = Inr False"
| "data_type fuel a (LamType _) = Inr False"
| "data_type fuel a NoRet = Inr False"
| "data_type fuel a (SampledImageType _) = Inr True"
| "data_type fuel a SamplerType = Inr True"
| "data_type fuel a (ImageType _ _) = Inr True"

definition shd_is_data_type :: "arena \<Rightarrow> Type \<Rightarrow> bool result" where
  "shd_is_data_type a t = data_type (Suc (length (decls a))) a t"

definition require_data_type :: "arena \<Rightarrow> Type \<Rightarrow> unit result" where
  "require_data_type a t = bind_res (shd_is_data_type a t) assert_res"

definition shd_deconstruct_qualified_type :: "Type \<Rightarrow> (bool \<times> Type) result" where
  "shd_deconstruct_qualified_type t =
     (case t of QualifiedType u ty \<Rightarrow> Inr (u, ty)
      | _ \<Rightarrow> Inl (ShdError ''Expected a value type (annotated with qual_type)''))"

definition shd_get_unqualified_type :: "Type \<Rightarrow> Type result" where
  "shd_get_unqualified_type t = bind_res (shd_deconstruct_qualified_type t) (\<lambda>(_, ty). Inr ty)"

definition shd_is_qualified_type_uniform :: "Type \<Rightarrow> bool result" where
  "shd_is_qualified_type_uniform t = bind_res (shd_deconstruct_qualified_type t) (\<lambda>(u, _). Inr u)"

definition shd_is_value_type :: "arena \<Rightarrow> Type \<Rightarrow> bool result" where
  "shd_is_value_type a t =
     (case t of
        QualifiedType _ _ \<Rightarrow> bind_res (shd_get_unqualified_type t) (shd_is_data_type a)
      | _ \<Rightarrow> Inr False)"

definition require_value_type :: "arena \<Rightarrow> Type \<Rightarrow> unit result" where
  "require_value_type a t = bind_res (shd_is_value_type a t) assert_res"

definition is_float :: "Type \<Rightarrow> bool" where
  "is_float t = (case t of Float_type _ \<Rightarrow> True | _ \<Rightarrow> False)"

definition is_int :: "Type \<Rightarrow> bool" where
  "is_int t = (case t of Int_type _ _ \<Rightarrow> True | _ \<Rightarrow> False)"

fun shd_is_arithm_type :: "Type \<Rightarrow> bool" where
  "shd_is_arithm_type (Int_type _ _) = True"
| "shd_is_arithm_type (Float_type _) = True"
| "shd_is_arithm_type _ = False"

fun shd_is_shiftable_type :: "Type \<Rightarrow> bool" where
  "shd_is_shiftable_type (Int_type _ _) = True"
| "shd_is_shiftable_type MaskType = True"
| "shd_is_shiftable_type _ = False"

fun shd_has_boolean_ops :: "Type \<Rightarrow> bool" where
  "shd_has_boolean_ops (Int_type _ _) = True"
| "shd_has_boolean_ops Bool_type = True"
| "shd_has_boolean_ops MaskType = True"
| "shd_has_boolean_ops _ = False"

definition shd_is_comparable_type :: "Type \<Rightarrow> bool" where
  "shd_is_comparable_type t = True"

definition shd_is_ordered_type :: "Type \<Rightarrow> bool" where
  "shd_is_ordered_type t = shd_is_arithm_type t"

fun shd_is_physical_ptr_type :: "Type \<Rightarrow> bool" where
  "shd_is_physical_ptr_type (PtrType _ _ is_reference) = (\<not> is_reference)"
| "shd_is_physical_ptr_type _ = False"

fun shd_is_generic_ptr_type :: "Type \<Rightarrow> bool" where
  "shd_is_generic_ptr_type (PtrType as _ _) = (as = AsGeneric)"
| "shd_is_generic_ptr_type _ = False"

definition shd_is_addr_space_uniform :: "arena \<Rightarrow> AddressSpace \<Rightarrow> bool" where
  "shd_is_addr_space_uniform a as =
     (if as \<in> {AsGeneric, AsInput, AsOutput, AsFunction, AsPrivate} then \<not> is_simt (config a) else True)"

subsection \<open>Constructing types\<close>

definition unit_type :: Type where
  "unit_type = RecordType [] [] NotSpecial"

definition shd_check_type_join_point_type :: "arena \<Rightarrow> Type list \<Rightarrow> unit result" where
  "shd_check_type_join_point_type a yield_types = bind_res (map_res (require_data_type a) yield_types) (\<lambda>_. Inr ())"

definition shd_check_type_record_type ::
  "arena \<Rightarrow> Type list \<Rightarrow> string list \<Rightarrow> RecordSpecialFlag \<Rightarrow> unit result" where
  "shd_check_type_record_type a members names special =
     require (length names = 0 \<or> length names = length members)
       (bind_res (map_res (if special = MultipleReturn then require_value_type a else require_data_type a) members)
         (\<lambda>_. Inr ()))"

definition shd_check_type_qualified_type :: "arena \<Rightarrow> bool \<Rightarrow> Type \<Rightarrow> unit result" where
  "shd_check_type_qualified_type a is_uniform t =
     bind_res (require_data_type a t) (\<lambda>_. require (is_simt (config a) \<or> is_uniform) (Inr ()))"

definition shd_check_type_arr_type :: "arena \<Rightarrow> Type \<Rightarrow> unit result" where
  "shd_check_type_arr_type a element_type = require_data_type a element_type"

definition shd_check_type_pack_type :: "arena \<Rightarrow> Type \<Rightarrow> unit result" where
  "shd_check_type_pack_type a element_type = require_data_type a element_type"

definition is_block_record :: "Type option \<Rightarrow> bool" where
  "is_block_record t = (case t of Some (RecordType _ _ special) \<Rightarrow> special = DecorateBlock | _ \<Rightarrow> False)"

definition shd_check_type_ptr_type :: "arena \<Rightarrow> AddressSpace \<Rightarrow> Type \<Rightarrow> unit result" where
  "shd_check_type_ptr_type a as pointed_type =
     (if \<not> as_allowed (config a) as then Inl (ShdError ''Address space is not allowed in this arena'')
      else case pointed_type of
             ArrType element_type _ \<Rightarrow> require_data_type a element_type
           | FnType _ _ \<Rightarrow> Inr ()
           | _ \<Rightarrow>
               if pointed_type = unit_type then Inr ()
               else bind_res (case pointed_type of
                                TypeDeclRef _ \<Rightarrow> shd_get_nominal_type_body a pointed_type
                              | _ \<Rightarrow> Inr (Some pointed_type))
                      (\<lambda>maybe_record_type.
                        if is_block_record maybe_record_type then Inr ()
                        else require_data_type a pointed_type))"

text \<open>A type node is created by its constructor, which checks it: \<^verbatim>\<open>qualified_type(arena, ...)\<close> is
  \<open>mk_type a (QualifiedType ...)\<close>.\<close>

definition check_type_node :: "arena \<Rightarrow> Type \<Rightarrow> unit result" where
  "check_type_node a t =
     (case t of
        JoinPointType yields \<Rightarrow> shd_check_type_join_point_type a yields
      | RecordType members names special \<Rightarrow> shd_check_type_record_type a members names special
      | QualifiedType u ty \<Rightarrow> shd_check_type_qualified_type a u ty
      | ArrType ty _ \<Rightarrow> shd_check_type_arr_type a ty
      | PackType ty _ \<Rightarrow> shd_check_type_pack_type a ty
      | PtrType as ty _ \<Rightarrow> shd_check_type_ptr_type a as ty
      | _ \<Rightarrow> Inr ())"

definition mk_type :: "arena \<Rightarrow> Type \<Rightarrow> Type result" where
  "mk_type a t =
     (if check_types (config a) then bind_res (check_type_node a t) (\<lambda>_. Inr t) else Inr t)"

definition shd_as_qualified_type :: "arena \<Rightarrow> Type \<Rightarrow> bool \<Rightarrow> Type result" where
  "shd_as_qualified_type a t uniform = mk_type a (QualifiedType uniform t)"

definition shd_get_actual_mask_type :: "arena \<Rightarrow> Type result" where
  "shd_get_actual_mask_type a =
     (case subgroup_mask_representation (config a) of
        SubgroupMaskAbstract \<Rightarrow> mk_type a MaskType
      | SubgroupMaskInt64 \<Rightarrow> mk_type a (Int_type IntTy64 False))"

definition empty_multiple_return_type :: "arena \<Rightarrow> Type result" where
  "empty_multiple_return_type a =
     bind_res (mk_type a unit_type) (\<lambda>t. shd_as_qualified_type a t True)"

definition shd_maybe_multiple_return :: "arena \<Rightarrow> Type list \<Rightarrow> Type result" where
  "shd_maybe_multiple_return a types =
     (case types of
        [] \<Rightarrow> empty_multiple_return_type a
      | [t] \<Rightarrow> Inr t
      | _ \<Rightarrow> mk_type a (RecordType types [] MultipleReturn))"

definition shd_unwrap_multiple_yield_types :: "arena \<Rightarrow> Type \<Rightarrow> Type list result" where
  "shd_unwrap_multiple_yield_types a t =
     (case t of
        RecordType members _ MultipleReturn \<Rightarrow> Inr members
      | _ \<Rightarrow> bind_res (require_value_type a t) (\<lambda>_. Inr [t]))"

definition shd_get_pointee_type :: "arena \<Rightarrow> Type \<Rightarrow> Type result" where
  "shd_get_pointee_type a t =
     bind_res (shd_is_value_type a t) (\<lambda>qualified.
     bind_res (if qualified then shd_deconstruct_qualified_type t else Inr (False, t)) (\<lambda>(uniform, t).
       case t of
         PtrType as pointed_type _ \<Rightarrow>
           if qualified
           then mk_type a (QualifiedType (uniform \<and> shd_is_addr_space_uniform a as) pointed_type)
           else Inr pointed_type
       | _ \<Rightarrow> Inl AssertFailed))"

definition shd_get_param_types :: "node list \<Rightarrow> Type list result" where
  "shd_get_param_types variables =
     map_res (\<lambda>n. case pl n of Param t _ \<Rightarrow> Inr t | _ \<Rightarrow> Inl AssertFailed) variables"

definition shd_get_values_types :: "arena \<Rightarrow> node list \<Rightarrow> Type list result" where
  "shd_get_values_types a values = require (check_types (config a)) (map_res type_of values)"

definition shd_strip_qualifiers :: "Type list \<Rightarrow> Type list result" where
  "shd_strip_qualifiers tys = map_res shd_get_unqualified_type tys"

definition shd_add_qualifiers :: "arena \<Rightarrow> Type list \<Rightarrow> bool \<Rightarrow> Type list result" where
  "shd_add_qualifiers a tys uniform =
     map_res (\<lambda>t. shd_as_qualified_type a t (uniform \<or> \<not> is_simt (config a))) tys"

definition shd_deconstruct_maybe_packed_type :: "arena \<Rightarrow> Type \<Rightarrow> (nat \<times> Type) result" where
  "shd_deconstruct_maybe_packed_type a t =
     bind_res (require_data_type a t) (\<lambda>_.
       Inr (case t of PackType element_type width \<Rightarrow> (width, element_type) | _ \<Rightarrow> (1, t)))"

definition shd_deconstruct_packed_type :: "arena \<Rightarrow> Type \<Rightarrow> (nat \<times> Type) result" where
  "shd_deconstruct_packed_type a t =
     (case t of PackType _ _ \<Rightarrow> shd_deconstruct_maybe_packed_type a t | _ \<Rightarrow> Inl AssertFailed)"

definition shd_get_packed_type_element :: "arena \<Rightarrow> Type \<Rightarrow> Type result" where
  "shd_get_packed_type_element a t = bind_res (shd_deconstruct_packed_type a t) (\<lambda>(_, t). Inr t)"

definition shd_get_packed_type_width :: "arena \<Rightarrow> Type \<Rightarrow> nat result" where
  "shd_get_packed_type_width a t = bind_res (shd_deconstruct_packed_type a t) (\<lambda>(w, _). Inr w)"

definition shd_get_maybe_packed_type_element :: "arena \<Rightarrow> Type \<Rightarrow> Type result" where
  "shd_get_maybe_packed_type_element a t =
     bind_res (shd_deconstruct_maybe_packed_type a t) (\<lambda>(_, t). Inr t)"

definition shd_get_maybe_packed_type_width :: "arena \<Rightarrow> Type \<Rightarrow> nat result" where
  "shd_get_maybe_packed_type_width a t =
     bind_res (shd_deconstruct_maybe_packed_type a t) (\<lambda>(w, _). Inr w)"

definition shd_maybe_packed_type_helper :: "arena \<Rightarrow> Type \<Rightarrow> nat \<Rightarrow> Type result" where
  "shd_maybe_packed_type_helper a t width =
     require (width > 0) (if width = 1 then Inr t else mk_type a (PackType t width))"

definition shd_deconstruct_pointer_type :: "Type \<Rightarrow> (AddressSpace \<times> Type) result" where
  "shd_deconstruct_pointer_type t =
     (case t of PtrType as pointed_type _ \<Rightarrow> Inr (as, pointed_type) | _ \<Rightarrow> Inl AssertFailed)"

definition shd_get_pointer_type_element :: "Type \<Rightarrow> Type result" where
  "shd_get_pointer_type_element t = bind_res (shd_deconstruct_pointer_type t) (\<lambda>(_, t). Inr t)"

definition shd_get_maybe_nominal_type_body :: "arena \<Rightarrow> Type \<Rightarrow> Type option result" where
  "shd_get_maybe_nominal_type_body a t =
     (case t of TypeDeclRef _ \<Rightarrow> shd_get_nominal_type_body a t | _ \<Rightarrow> Inr (Some t))"

subsection \<open>Composite types\<close>

text \<open>Literal nodes are always accepted by their checks, see \<open>check_int_literal\<close>.\<close>

definition int_literal :: "arena \<Rightarrow> IntSizes \<Rightarrow> bool \<Rightarrow> u64 \<Rightarrow> node" where
  "int_literal a width is_signed v =
     Node 0 (IntLiteral width is_signed v)
       (if check_types (config a) then Some (QualifiedType True (Int_type width is_signed)) else None)"

definition shd_int32_literal :: "arena \<Rightarrow> nat \<Rightarrow> node" where
  "shd_int32_literal a i = int_literal a IntTy32 True (ucast (of_nat i :: u32))"

definition shd_get_fill_type_element_type :: "Type \<Rightarrow> Type result" where
  "shd_get_fill_type_element_type t =
     (case t of
        ArrType element_type _ \<Rightarrow> Inr element_type
      | PackType element_type _ \<Rightarrow> Inr element_type
      | _ \<Rightarrow> Inl (ShdError ''fill values need to be either array or pack types''))"

definition shd_get_fill_type_size :: "arena \<Rightarrow> Type \<Rightarrow> node option result" where
  "shd_get_fill_type_size a t =
     (case t of
        ArrType _ sz \<Rightarrow> Inr sz
      | PackType _ width \<Rightarrow> Inr (Some (shd_int32_literal a width))
      | _ \<Rightarrow> Inl (ShdError ''fill values need to be either array or pack types''))"

definition fill_element_types :: "arena \<Rightarrow> Type \<Rightarrow> Type list result" where
  "fill_element_types a t =
     bind_res (shd_get_fill_type_size a t) (\<lambda>sz.
     bind_res (literal_size a sz) (\<lambda>n.
     bind_res (shd_get_fill_type_element_type t) (\<lambda>element_type.
       Inr (replicate (unat n) element_type))))"

definition shd_get_composite_type_element_types :: "arena \<Rightarrow> Type \<Rightarrow> Type list result" where
  "shd_get_composite_type_element_types a t =
     (case t of
        TypeDeclRef _ \<Rightarrow>
          bind_res (shd_get_nominal_type_body a t) (\<lambda>body.
            case body of
              None \<Rightarrow> Inl NullDeref
            | Some (RecordType members _ _) \<Rightarrow> Inr members
            | Some _ \<Rightarrow> Inl AssertFailed)
      | RecordType members _ _ \<Rightarrow> Inr members
      | ArrType _ _ \<Rightarrow> fill_element_types a t
      | PackType _ _ \<Rightarrow> fill_element_types a t
      | _ \<Rightarrow> Inl (ShdError ''Not a composite type !''))"

subsection \<open>Entering composites\<close>

text \<open>
  \<^verbatim>\<open>shd_enter_composite_type\<close> of \<^verbatim>\<open>src/shady/ir/composite.c\<close>; \<^verbatim>\<open>goto try_again\<close> follows the
  body of a nominal type, within the same bound as \<open>shd_is_data_type\<close>.
\<close>

fun enter_composite :: "nat \<Rightarrow> arena \<Rightarrow> Type \<Rightarrow> node \<Rightarrow> bool \<Rightarrow> Type result" where
  "enter_composite fuel a (RecordType members names special) selector allow_pack =
     bind_res (literal_size a (Some selector)) (\<lambda>i.
       require (unat i < length members) (Inr (members ! unat i)))"
| "enter_composite fuel a (ArrType element_type _) selector allow_pack = Inr element_type"
| "enter_composite 0 a (TypeDeclRef d) selector allow_pack = Inl OutOfFuel"
| "enter_composite (Suc fuel) a (TypeDeclRef d) selector allow_pack =
     bind_res (shd_get_nominal_type_body a (TypeDeclRef d)) (\<lambda>body.
     bind_res (deref body) (\<lambda>t. enter_composite fuel a t selector allow_pack))"
| "enter_composite fuel a (PackType element_type width) selector allow_pack =
     require allow_pack
       (require (case pl selector of IntLiteral _ _ _ \<Rightarrow> True | _ \<Rightarrow> False)
         (bind_res (literal_size a (Some selector)) (\<lambda>i.
            require (unat i < width) (Inr element_type))))"
| "enter_composite fuel a t selector allow_pack = Inl (ShdError ''Trying to enter non-composite type'')"

definition shd_enter_composite_type :: "arena \<Rightarrow> Type \<Rightarrow> bool \<Rightarrow> node \<Rightarrow> bool \<Rightarrow> (Type \<times> bool) result" where
  "shd_enter_composite_type a datatype uniform selector allow_entering_pack =
     bind_res (if check_types (config a)
               then bind_res (type_of selector) (\<lambda>selector_type.
                    bind_res (shd_deconstruct_qualified_type selector_type) (\<lambda>(selector_uniform, t).
                      require (is_int t) (Inr (uniform \<and> selector_uniform))))
               else Inr uniform) (\<lambda>uniform.
     bind_res (enter_composite (Suc (length (decls a))) a datatype selector allow_entering_pack) (\<lambda>t.
       Inr (t, uniform)))"

definition shd_enter_composite_type_indices ::
  "arena \<Rightarrow> Type \<Rightarrow> bool \<Rightarrow> node list \<Rightarrow> bool \<Rightarrow> (Type \<times> bool) result" where
  "shd_enter_composite_type_indices a datatype uniform indices allow_entering_pack =
     fold_res (\<lambda>selector (t, u). shd_enter_composite_type a t u selector allow_entering_pack)
       indices (datatype, uniform)"

end
