(* ===== verification/IrBuiltin.thy ===== *)
theory IrBuiltin
  imports IrType
begin

text \<open>
  Annotations and built-in variables: \<^verbatim>\<open>src/shady/ir/annotation.c\<close>, the numeric types of
  \<^verbatim>\<open>src/shady/ir/int.c\<close> and \<^verbatim>\<open>src/shady/ir/float.c\<close>, and \<^verbatim>\<open>src/shady/ir/builtin.c\<close> with the table of
  \<^verbatim>\<open>include/shady/ir/builtin.h\<close>. A built-in is its index in the table.
\<close>

subsection \<open>Annotations\<close>

fun get_annotation_name :: "annotation \<Rightarrow> string" where
  "get_annotation_name (Annotation n) = n"
| "get_annotation_name (AnnotationValue n _) = n"
| "get_annotation_name (AnnotationValues n _) = n"
| "get_annotation_name (AnnotationCompound n _) = n"

definition get_declaration_annotations :: "decl \<Rightarrow> annotation list" where
  "get_declaration_annotations d = (case d of
     GlobalVariable _ anns _ _ _ \<Rightarrow> anns
   | Constant _ anns _ _ \<Rightarrow> anns
   | Function _ anns _ _ _ \<Rightarrow> anns
   | NominalType _ anns _ \<Rightarrow> anns)"

text \<open>From index \<open>i\<close> on: the first annotation of that name and the index behind it.\<close>

function search_annotations :: "annotation list \<Rightarrow> string \<Rightarrow> nat \<Rightarrow> annotation option \<times> nat" where
  "search_annotations anns name i =
     (if i < length anns
      then if get_annotation_name (anns ! i) = name then (Some (anns ! i), i + 1)
           else search_annotations anns name (i + 1)
      else (None, i))"
  by pat_completeness auto
termination
  by (relation "measure (\<lambda>(anns, _, i). length anns - i)") auto

declare search_annotations.simps [simp del]

definition shd_lookup_annotation :: "decl \<Rightarrow> string \<Rightarrow> annotation option" where
  "shd_lookup_annotation decl name = fst (search_annotations (get_declaration_annotations decl) name 0)"

definition shd_lookup_annotation_list :: "annotation list \<Rightarrow> string \<Rightarrow> annotation option" where
  "shd_lookup_annotation_list anns name = List.find (\<lambda>an. get_annotation_name an = name) anns"

definition shd_get_annotation_value :: "annotation \<Rightarrow> node result" where
  "shd_get_annotation_value an = (case an of
     AnnotationValue _ v \<Rightarrow> Inr v
   | _ \<Rightarrow> Inl (ShdError ''This annotation does not have a single payload''))"

definition shd_get_annotation_values :: "annotation \<Rightarrow> node list result" where
  "shd_get_annotation_values an = (case an of
     AnnotationValues _ vs \<Rightarrow> Inr vs
   | _ \<Rightarrow> Inl (ShdError ''This annotation does not have multiple payloads''))"

text \<open>Strings of annotations and names are compared as characters.\<close>

definition bytes_of_string :: "string \<Rightarrow> u8 list" where
  "bytes_of_string s = map (\<lambda>c. of_nat (of_char c)) s"

definition shd_get_annotation_string_payload :: "annotation \<Rightarrow> u8 list result" where
  "shd_get_annotation_string_payload an =
     bind_res (shd_get_annotation_value an) (\<lambda>payload.
       case pl payload of
         StringLiteral s \<Rightarrow> Inr s
       | _ \<Rightarrow> Inl (ShdError ''Wrong annotation payload tag, expected a string literal''))"

lemma search_annotations_bound:
  "search_annotations anns name i = (Some an, j) \<Longrightarrow> i < j \<and> j \<le> length anns"
proof (induction anns name i rule: search_annotations.induct)
  case (1 anns name i)
  then show ?case
    by (subst (asm) (2) search_annotations.simps) (fastforce split: if_splits)
qed

function lookup_string_payload :: "annotation list \<Rightarrow> string \<Rightarrow> u8 list \<Rightarrow> nat \<Rightarrow> bool result" where
  "lookup_string_payload anns name expected_payload i =
     (case search_annotations anns name i of
        (None, _) \<Rightarrow> Inr False
      | (Some next_annotation, j) \<Rightarrow>
          bind_res (shd_get_annotation_string_payload next_annotation) (\<lambda>s.
            if s = expected_payload then Inr True
            else lookup_string_payload anns name expected_payload j))"
  by pat_completeness auto
termination
  by (relation "measure (\<lambda>(anns, _, _, i). length anns - i)")
    (auto dest!: search_annotations_bound [OF sym])

declare lookup_string_payload.simps [simp del]

definition shd_lookup_annotation_with_string_payload :: "decl \<Rightarrow> string \<Rightarrow> u8 list \<Rightarrow> bool result" where
  "shd_lookup_annotation_with_string_payload decl name expected_payload =
     lookup_string_payload (get_declaration_annotations decl) name expected_payload 0"

definition shd_filter_out_annotation :: "annotation list \<Rightarrow> string \<Rightarrow> annotation list" where
  "shd_filter_out_annotation anns name = filter (\<lambda>an. get_annotation_name an \<noteq> name) anns"

subsection \<open>Numeric types\<close>

definition shd_uint32_type :: "arena \<Rightarrow> Type result" where
  "shd_uint32_type a = mk_type a (Int_type IntTy32 False)"

definition shd_uint8_type :: "arena \<Rightarrow> Type result" where
  "shd_uint8_type a = mk_type a (Int_type IntTy8 False)"

definition shd_int32_type :: "arena \<Rightarrow> Type result" where
  "shd_int32_type a = mk_type a (Int_type IntTy32 True)"

definition shd_fp32_type :: "arena \<Rightarrow> Type result" where
  "shd_fp32_type a = mk_type a (Float_type FloatTy32)"

definition shd_u32vec3_type :: "arena \<Rightarrow> Type result" where
  "shd_u32vec3_type a = bind_res (shd_uint32_type a) (\<lambda>t. mk_type a (PackType t 3))"

definition shd_f32vec4_type :: "arena \<Rightarrow> Type result" where
  "shd_f32vec4_type a = bind_res (shd_fp32_type a) (\<lambda>t. mk_type a (PackType t 4))"

subsection \<open>Built-ins\<close>

definition SHADY_BUILTINS :: "(string \<times> AddressSpace \<times> (arena \<Rightarrow> Type result)) list" where
  "SHADY_BUILTINS =
     [(''BaseInstance'', AsInput, shd_uint32_type),
      (''BaseVertex'', AsInput, shd_uint32_type),
      (''DeviceIndex'', AsInput, shd_uint32_type),
      (''DrawIndex'', AsInput, shd_uint32_type),
      (''VertexIndex'', AsInput, shd_uint32_type),
      (''FragCoord'', AsInput, shd_f32vec4_type),
      (''FragDepth'', AsOutput, shd_fp32_type),
      (''InstanceId'', AsInput, shd_uint32_type),
      (''InvocationId'', AsInput, shd_uint32_type),
      (''InstanceIndex'', AsInput, shd_uint32_type),
      (''LocalInvocationId'', AsInput, shd_u32vec3_type),
      (''LocalInvocationIndex'', AsInput, shd_uint32_type),
      (''GlobalInvocationId'', AsInput, shd_u32vec3_type),
      (''WorkgroupId'', AsUInput, shd_u32vec3_type),
      (''WorkgroupSize'', AsUInput, shd_u32vec3_type),
      (''NumSubgroups'', AsUInput, shd_uint32_type),
      (''NumWorkgroups'', AsUInput, shd_u32vec3_type),
      (''Position'', AsOutput, shd_f32vec4_type),
      (''PrimitiveId'', AsInput, shd_uint32_type),
      (''SubgroupLocalInvocationId'', AsInput, shd_uint32_type),
      (''SubgroupId'', AsUInput, shd_uint32_type),
      (''SubgroupSize'', AsInput, shd_uint32_type)]"

definition BuiltinsCount :: nat where
  "BuiltinsCount = length SHADY_BUILTINS"

definition shd_get_builtin_address_space :: "nat \<Rightarrow> AddressSpace" where
  "shd_get_builtin_address_space b = (if b \<ge> BuiltinsCount then AsGeneric else fst (snd (SHADY_BUILTINS ! b)))"

definition shd_get_builtin_name :: "nat \<Rightarrow> string" where
  "shd_get_builtin_name b = (if b \<ge> BuiltinsCount then [] else fst (SHADY_BUILTINS ! b))"

definition shd_get_builtin_type :: "arena \<Rightarrow> nat \<Rightarrow> Type result" where
  "shd_get_builtin_type a b =
     (if b \<ge> BuiltinsCount then Inl (ShdError ''Unhandled builtin'') else snd (snd (SHADY_BUILTINS ! b)) a)"

definition shd_get_builtin_by_name :: "u8 list \<Rightarrow> nat" where
  "shd_get_builtin_by_name s =
     (case List.find (\<lambda>i. bytes_of_string (fst (SHADY_BUILTINS ! i)) = s) [0..<BuiltinsCount] of
        Some i \<Rightarrow> i | None \<Rightarrow> BuiltinsCount)"

definition shd_get_decl_builtin :: "decl \<Rightarrow> nat result" where
  "shd_get_decl_builtin d =
     (case shd_lookup_annotation d ''Builtin'' of
        None \<Rightarrow> Inr BuiltinsCount
      | Some an \<Rightarrow> bind_res (shd_get_annotation_string_payload an) (\<lambda>s. Inr (shd_get_builtin_by_name s)))"

definition shd_is_decl_builtin :: "decl \<Rightarrow> bool result" where
  "shd_is_decl_builtin d = bind_res (shd_get_decl_builtin d) (\<lambda>b. Inr (b \<noteq> BuiltinsCount))"

end
