(* ===== verification/IrCheck.thy ===== *)
theory IrCheck
  imports IrBuiltin
begin

text \<open>
  The typing rules of \<^verbatim>\<open>src/shady/check.c\<close> and \<^verbatim>\<open>src/shady/ir/cast.c\<close>: one definition per node, and
  one per group of primitive operations. They read the types stored in the operands, build the
  result type with its checked constructors, and fail where the C asserts.
\<close>

subsection \<open>Classes of nodes\<close>

fun is_value :: "payload \<Rightarrow> bool" where
  "is_value (Param _ _) = True"
| "is_value (ConstrainedValue _ _) = True"
| "is_value (UntypedNumber _) = True"
| "is_value (IntLiteral _ _ _) = True"
| "is_value (FloatLiteral _ _) = True"
| "is_value (StringLiteral _) = True"
| "is_value TrueLit = True"
| "is_value FalseLit = True"
| "is_value (NullPtr _) = True"
| "is_value (Composite _ _) = True"
| "is_value (Fill _ _) = True"
| "is_value (Undef _) = True"
| "is_value (RefDecl _) = True"
| "is_value (FnAddr _) = True"
| "is_value (MemAndValue _ _) = True"
| "is_value (Call _ _ _) = True"
| "is_value (PrimOp _ _ _) = True"
| "is_value (StackAlloc _ _) = True"
| "is_value (LocalAlloc _ _) = True"
| "is_value (Load _ _) = True"
| "is_value (PtrCompositeElement _ _) = True"
| "is_value (PtrArrayElementOffset _ _) = True"
| "is_value (PopStack _ _) = True"
| "is_value (GetStackSize _) = True"
| "is_value (GetStackBaseAddr _) = True"
| "is_value (ExtInstr _ _ _ _ _) = True"
| "is_value _ = False"

abbreviation all_values :: "node list \<Rightarrow> bool" where
  "all_values ns \<equiv> (\<forall>n \<in> set ns. is_value (pl n))"

subsection \<open>Casts\<close>

text \<open>\<^verbatim>\<open>SIZE_MAX\<close> where a type has no width.\<close>

definition shd_get_type_bitwidth :: "arena \<Rightarrow> Type \<Rightarrow> u64" where
  "shd_get_type_bitwidth a t =
     (case t of
        Int_type width _ \<Rightarrow> of_nat (int_size_in_bytes width * 8)
      | Float_type width \<Rightarrow> of_nat (float_size_in_bytes width * 8)
      | PtrType as _ _ \<Rightarrow>
          if as_physical (config a) as then of_nat (int_size_in_bytes (ptr_size (config a)) * 8) else - 1
      | _ \<Rightarrow> - 1)"

definition castable :: "Type \<Rightarrow> bool" where
  "castable t = (shd_is_arithm_type t \<or> t = MaskType \<or> shd_is_physical_ptr_type t)"

definition shd_is_reinterpret_cast_legal :: "arena \<Rightarrow> Type \<Rightarrow> Type \<Rightarrow> bool result" where
  "shd_is_reinterpret_cast_legal a src dst =
     bind_res (require_data_type a src) (\<lambda>_. bind_res (require_data_type a dst) (\<lambda>_.
       if src = dst then Inr True
       else if \<not> castable src then Inr False
       else if \<not> castable dst then Inr False
       else require (shd_get_type_bitwidth a src = shd_get_type_bitwidth a dst)
              (Inr (\<not> (shd_is_physical_ptr_type src \<and> shd_is_physical_ptr_type dst
                        \<and> shd_is_generic_ptr_type src \<noteq> shd_is_generic_ptr_type dst)))))"

definition convertible :: "arena \<Rightarrow> Type \<Rightarrow> Type \<Rightarrow> Type \<Rightarrow> bool" where
  "convertible a src dst t =
     (shd_is_arithm_type t
      \<or> shd_is_physical_ptr_type t \<and> shd_get_type_bitwidth a src = shd_get_type_bitwidth a dst)"

definition shd_is_conversion_legal :: "arena \<Rightarrow> Type \<Rightarrow> Type \<Rightarrow> bool result" where
  "shd_is_conversion_legal a src dst =
     bind_res (require_data_type a src) (\<lambda>_. bind_res (require_data_type a dst) (\<lambda>_.
       Inr (convertible a src dst src \<and> convertible a src dst dst
            \<and> shd_is_physical_ptr_type src = shd_is_physical_ptr_type dst
            \<and> \<not> (shd_is_generic_ptr_type src \<and> shd_is_generic_ptr_type dst)
            \<and> (case (src, dst) of
                 (Int_type sw ss, Int_type dw ds) \<Rightarrow> \<not> (ss \<noteq> ds \<and> sw \<noteq> dw)
               | (PtrType _ sp sref, PtrType _ dp dref) \<Rightarrow> \<not> sref \<and> \<not> dref \<longrightarrow> sp = dp
               | _ \<Rightarrow> True))))"

subsection \<open>Literals and simple values\<close>

definition shd_check_type_param :: "arena \<Rightarrow> Type \<Rightarrow> Type result" where
  "shd_check_type_param a t = bind_res (require_value_type a t) (\<lambda>_. Inr t)"

definition shd_check_type_int_literal :: "arena \<Rightarrow> IntSizes \<Rightarrow> bool \<Rightarrow> Type result" where
  "shd_check_type_int_literal a width is_signed =
     bind_res (mk_type a (Int_type width is_signed)) (\<lambda>t. mk_type a (QualifiedType True t))"

definition shd_check_type_float_literal :: "arena \<Rightarrow> FloatSizes \<Rightarrow> Type result" where
  "shd_check_type_float_literal a width =
     bind_res (mk_type a (Float_type width)) (\<lambda>t. mk_type a (QualifiedType True t))"

definition shd_check_type_bool_lit :: "arena \<Rightarrow> Type result" where
  "shd_check_type_bool_lit a =
     bind_res (mk_type a Bool_type) (\<lambda>t. mk_type a (QualifiedType True t))"

definition shd_check_type_string_lit :: "arena \<Rightarrow> u8 list \<Rightarrow> Type result" where
  "shd_check_type_string_lit a str =
     bind_res (mk_type a (Int_type IntTy8 True)) (\<lambda>i8.
     bind_res (mk_type a (ArrType i8 (Some (shd_int32_literal a (length str))))) (\<lambda>t.
       mk_type a (QualifiedType True t)))"

definition shd_check_type_null_ptr :: "arena \<Rightarrow> Type \<Rightarrow> Type result" where
  "shd_check_type_null_ptr a ptr_type =
     bind_res (require_data_type a ptr_type) (\<lambda>_.
       require (case ptr_type of PtrType _ _ _ \<Rightarrow> True | _ \<Rightarrow> False)
         (shd_as_qualified_type a ptr_type True))"

text \<open>The types and the joint uniformity of the contents of a composite.\<close>

definition qualified_types :: "node list \<Rightarrow> (bool \<times> Type) list result" where
  "qualified_types ns = map_res (\<lambda>n. bind_res (type_of n) shd_deconstruct_qualified_type) ns"

definition shd_check_type_composite :: "arena \<Rightarrow> Type option \<Rightarrow> node list \<Rightarrow> Type result" where
  "shd_check_type_composite a t contents =
     (case t of
        Some ty \<Rightarrow>
          bind_res (require_data_type a ty) (\<lambda>_.
          bind_res (shd_get_composite_type_element_types a ty) (\<lambda>expected.
          require (length contents = length expected)
            (bind_res (map_res (\<lambda>(n, e).
                 bind_res (bind_res (type_of n) shd_deconstruct_qualified_type) (\<lambda>(u, element_type).
                 bind_res (shd_is_subtype a e element_type) (\<lambda>b. require b (Inr u)))) (zip contents expected))
               (\<lambda>us. mk_type a (QualifiedType (list_all id us) ty)))))
      | None \<Rightarrow>
          bind_res (qualified_types contents) (\<lambda>uts.
          bind_res (mk_type a (RecordType (map snd uts) [] NotSpecial)) (\<lambda>ty.
            mk_type a (QualifiedType (list_all fst uts) ty))))"

definition shd_check_type_fill :: "arena \<Rightarrow> Type \<Rightarrow> node \<Rightarrow> Type result" where
  "shd_check_type_fill a t v =
     bind_res (require_data_type a t) (\<lambda>_.
     bind_res (shd_get_fill_type_element_type t) (\<lambda>element_t.
     bind_res (type_of v) (\<lambda>vt.
     bind_res (shd_deconstruct_qualified_type vt) (\<lambda>(u, value_t).
     bind_res (shd_is_subtype a element_t value_t) (\<lambda>b.
       require b (mk_type a (QualifiedType u t)))))))"

definition shd_check_type_undef :: "arena \<Rightarrow> Type \<Rightarrow> Type result" where
  "shd_check_type_undef a t =
     bind_res (require_data_type a t) (\<lambda>_. mk_type a (QualifiedType True t))"

definition shd_check_type_fn_addr :: "arena \<Rightarrow> decl_id \<Rightarrow> Type result" where
  "shd_check_type_fn_addr a fn =
     bind_res (decl_type a fn) (\<lambda>t. bind_res (deref t) (\<lambda>t.
     require (case t of FnType _ _ \<Rightarrow> True | _ \<Rightarrow> False)
       (bind_res (get_decl a fn) (\<lambda>decl.
          require (case decl of Function _ _ _ _ _ \<Rightarrow> True | _ \<Rightarrow> False)
            (bind_res (mk_type a (PtrType AsGeneric t False)) (\<lambda>p. mk_type a (QualifiedType True p)))))))"

definition shd_check_type_ref_decl :: "arena \<Rightarrow> decl_id \<Rightarrow> Type result" where
  "shd_check_type_ref_decl a d =
     bind_res (decl_type a d) (\<lambda>t.
     require (t \<noteq> None)
       (bind_res (get_decl a d) (\<lambda>decl.
          if (case decl of GlobalVariable _ _ _ _ _ \<Rightarrow> True | Constant _ _ _ _ \<Rightarrow> True | _ \<Rightarrow> False)
          then require (case the t of QualifiedType _ _ \<Rightarrow> False | _ \<Rightarrow> True)
                 (mk_type a (QualifiedType True (the t)))
          else Inl (ShdError ''You can only use RefDecl on a global or a constant.''))))"

subsection \<open>Primitive operations\<close>

text \<open>
  The loop that most operations share: every operand has the unqualified type of the first, whose
  element satisfies \<open>P\<close>; the result is uniform if all operands are.
\<close>

definition check_operand :: "arena \<Rightarrow> (Type \<Rightarrow> bool) \<Rightarrow> Type \<Rightarrow> node \<Rightarrow> bool \<Rightarrow> bool result" where
  "check_operand a P first_operand_type arg result_uniform =
     bind_res (type_of arg) (\<lambda>t.
     bind_res (shd_deconstruct_qualified_type t) (\<lambda>(operand_uniform, operand_type).
     bind_res (shd_get_maybe_packed_type_element a operand_type) (\<lambda>e.
       require (P e)
         (require (first_operand_type = operand_type) (Inr (result_uniform \<and> operand_uniform))))))"

definition check_same_operands :: "arena \<Rightarrow> (Type \<Rightarrow> bool) \<Rightarrow> node list \<Rightarrow> (Type \<times> bool) result" where
  "check_same_operands a P operands =
     bind_res (shd_first operands) (\<lambda>x. bind_res (type_of x) (\<lambda>t.
     bind_res (shd_get_unqualified_type t) (\<lambda>first_operand_type.
     bind_res (fold_res (check_operand a P first_operand_type) operands True) (\<lambda>u.
       Inr (first_operand_type, u)))))"

definition is_signed_or_float :: "Type \<Rightarrow> bool" where
  "is_signed_or_float t = (case t of Float_type _ \<Rightarrow> True | Int_type _ s \<Rightarrow> s | _ \<Rightarrow> False)"

definition counts :: "Type list \<Rightarrow> nat \<Rightarrow> node list \<Rightarrow> nat \<Rightarrow> bool" where
  "counts type_arguments m operands n = (length type_arguments = m \<and> length operands = n)"

text \<open>\<^verbatim>\<open>neg_op\<close> and \<^verbatim>\<open>not_op\<close> keep the type of their operand.\<close>

definition check_unary :: "arena \<Rightarrow> (Type \<Rightarrow> bool) \<Rightarrow> Type list \<Rightarrow> node list \<Rightarrow> Type result" where
  "check_unary a P tys args =
     require (counts tys 0 args 1)
       (bind_res (type_of (hd args)) (\<lambda>t.
        bind_res (shd_get_unqualified_type t) (\<lambda>ty.
        bind_res (shd_get_maybe_packed_type_element a ty) (\<lambda>e. require (P e) (Inr t)))))"

definition check_shift :: "arena \<Rightarrow> Type list \<Rightarrow> node list \<Rightarrow> Type result" where
  "check_shift a tys args =
     require (counts tys 0 args 2)
       (bind_res (type_of (args ! 0)) (\<lambda>t1. bind_res (type_of (args ! 1)) (\<lambda>t2.
        bind_res (shd_deconstruct_qualified_type t1) (\<lambda>(u1, t1).
        bind_res (shd_deconstruct_qualified_type t2) (\<lambda>(u2, t2).
        bind_res (shd_deconstruct_maybe_packed_type a t1) (\<lambda>(value_simd_width, t1).
        bind_res (shd_deconstruct_maybe_packed_type a t2) (\<lambda>(shift_simd_width, t2).
          require (value_simd_width = shift_simd_width)
            (require (is_int t1 \<and> is_int t2)
               (bind_res (shd_maybe_packed_type_helper a t1 value_simd_width) (\<lambda>t.
                  shd_as_qualified_type a t (u1 \<and> u2)))))))))))"

definition check_arith :: "arena \<Rightarrow> bool \<Rightarrow> Type list \<Rightarrow> node list \<Rightarrow> Type result" where
  "check_arith a extended tys args =
     require (counts tys 0 args 2)
       (bind_res (check_same_operands a shd_is_arithm_type args) (\<lambda>(t, u).
        bind_res (if extended then mk_type a (RecordType [t, t] [] NotSpecial) else Inr t) (\<lambda>result_t.
          shd_as_qualified_type a result_t u)))"

definition check_logic :: "arena \<Rightarrow> Type list \<Rightarrow> node list \<Rightarrow> Type result" where
  "check_logic a tys args =
     require (counts tys 0 args 2)
       (bind_res (check_same_operands a shd_has_boolean_ops args) (\<lambda>(t, u). shd_as_qualified_type a t u))"

definition check_compare :: "arena \<Rightarrow> bool \<Rightarrow> Type list \<Rightarrow> node list \<Rightarrow> Type result" where
  "check_compare a ordered tys args =
     require (counts tys 0 args 2)
       (bind_res (type_of (hd args)) (\<lambda>t.
        bind_res (shd_get_unqualified_type t) (\<lambda>first_operand_type.
        bind_res (shd_get_maybe_packed_type_width a first_operand_type) (\<lambda>width.
        bind_res (check_same_operands a (if ordered then shd_is_ordered_type else shd_is_comparable_type) args)
          (\<lambda>(_, u).
        bind_res (mk_type a Bool_type) (\<lambda>b.
        bind_res (shd_maybe_packed_type_helper a b width) (\<lambda>t. shd_as_qualified_type a t u)))))))"

text \<open>The unary operations on floats, and \<^verbatim>\<open>abs_op\<close>, \<^verbatim>\<open>sign_op\<close>.\<close>

definition check_math :: "arena \<Rightarrow> (Type \<Rightarrow> bool) \<Rightarrow> Type list \<Rightarrow> node list \<Rightarrow> Type result" where
  "check_math a P tys args =
     require (counts tys 0 args 1)
       (bind_res (type_of (hd args)) (\<lambda>t.
        bind_res (shd_deconstruct_qualified_type t) (\<lambda>(u, t).
        bind_res (shd_deconstruct_maybe_packed_type a t) (\<lambda>(width, t).
          require (P t)
            (bind_res (shd_maybe_packed_type_helper a t width) (\<lambda>t. shd_as_qualified_type a t u))))))"

text \<open>\<^verbatim>\<open>pow_op\<close> takes two operands, \<^verbatim>\<open>fma_op\<close> three.\<close>

definition check_float_nary :: "arena \<Rightarrow> nat \<Rightarrow> Type list \<Rightarrow> node list \<Rightarrow> Type result" where
  "check_float_nary a n tys args =
     require (counts tys 0 args n)
       (bind_res (check_same_operands a is_float args) (\<lambda>(t, u). shd_as_qualified_type a t u))"

definition size_type :: "arena \<Rightarrow> Type result" where
  "size_type a =
     bind_res (mk_type a (Int_type (ptr_size (config a)) False)) (\<lambda>t. mk_type a (QualifiedType True t))"

definition check_size_of :: "arena \<Rightarrow> Type list \<Rightarrow> node list \<Rightarrow> Type result" where
  "check_size_of a tys args = require (counts tys 1 args 0) (size_type a)"

definition check_offset_of :: "arena \<Rightarrow> Type list \<Rightarrow> node list \<Rightarrow> Type result" where
  "check_offset_of a tys args =
     require (counts tys 1 args 1)
       (bind_res (type_of (hd args)) (\<lambda>t. bind_res (shd_deconstruct_qualified_type t) (\<lambda>(u, t).
          require (u \<and> is_int t) (size_type a))))"

definition select_alternative :: "arena \<Rightarrow> nat \<Rightarrow> node \<Rightarrow> (bool \<times> Type) result" where
  "select_alternative a width n =
     bind_res (type_of n) (\<lambda>t. bind_res (shd_deconstruct_qualified_type t) (\<lambda>(u, t).
     bind_res (shd_deconstruct_maybe_packed_type a t) (\<lambda>(alternative_width, t).
       require (alternative_width = width) (Inr (u, t)))))"

definition check_select :: "arena \<Rightarrow> Type list \<Rightarrow> node list \<Rightarrow> Type result" where
  "check_select a tys args =
     require (counts tys 0 args 3)
       (bind_res (type_of (args ! 0)) (\<lambda>t.
        bind_res (shd_deconstruct_qualified_type t) (\<lambda>(condition_uniform, t).
        bind_res (shd_deconstruct_maybe_packed_type a t) (\<lambda>(width, condition_type).
        bind_res (select_alternative a width (args ! 1)) (\<lambda>(u1, t1).
        bind_res (select_alternative a width (args ! 2)) (\<lambda>(u2, t2).
        bind_res (mk_type a Bool_type) (\<lambda>bool_type.
        bind_res (shd_is_subtype a bool_type condition_type) (\<lambda>b.
          require b
            (require (t1 = t2)
               (bind_res (shd_maybe_packed_type_helper a t1 width) (\<lambda>t.
                  shd_as_qualified_type a t (u1 \<and> u2 \<and> condition_uniform))))))))))))"

definition check_extract :: "arena \<Rightarrow> bool \<Rightarrow> Type list \<Rightarrow> node list \<Rightarrow> Type result" where
  "check_extract a inserting tys args =
     require (length tys = 0 \<and> length args \<ge> 2)
       (bind_res (type_of (hd args)) (\<lambda>source_t.
        bind_res (shd_deconstruct_qualified_type source_t) (\<lambda>(uniform, t).
        bind_res (shd_enter_composite_type_indices a t uniform
                    (drop (if inserting then 2 else 1) args) True) (\<lambda>(t, uniform).
          if inserting
          then bind_res (type_of (args ! 1)) (\<lambda>it.
               bind_res (shd_deconstruct_qualified_type it) (\<lambda>(iu, inserted_data_type).
               bind_res (shd_is_subtype a t inserted_data_type) (\<lambda>b.
                 require b
                   (bind_res (shd_get_unqualified_type source_t) (\<lambda>st.
                      mk_type a (QualifiedType (uniform \<and> iu) st))))))
          else shd_as_qualified_type a t uniform))))"

text \<open>A negative shuffle index stands for poison.\<close>

definition check_shuffle_index :: "arena \<Rightarrow> nat \<Rightarrow> node \<Rightarrow> bool \<Rightarrow> bool result" where
  "check_shuffle_index a total_size i u =
     bind_res (type_of i) (\<lambda>t. bind_res (shd_is_qualified_type_uniform t) (\<lambda>iu.
     bind_res (shd_resolve_to_int_literal a (Some i)) (\<lambda>lit. bind_res (deref lit) (\<lambda>lit.
       let index = sint (shd_get_int_literal_value lit True)
       in require (index < 0 \<or> index < int total_size) (Inr (u \<and> iu))))))"

definition check_shuffle :: "arena \<Rightarrow> Type list \<Rightarrow> node list \<Rightarrow> Type result" where
  "check_shuffle a tys args =
     require (length args \<ge> 2 \<and> length tys = 0)
       (bind_res (type_of (args ! 0)) (\<lambda>lt. bind_res (type_of (args ! 1)) (\<lambda>rt.
        bind_res (shd_deconstruct_qualified_type lt) (\<lambda>(lhs_u, lhs_t).
        bind_res (shd_deconstruct_qualified_type rt) (\<lambda>(rhs_u, rhs_t).
          case (lhs_t, rhs_t) of
            (PackType element_t lw, PackType relement_t rw) \<Rightarrow>
              require (element_t = relement_t)
                (bind_res (fold_res (check_shuffle_index a (lw + rw)) (drop 2 args) (lhs_u \<and> rhs_u)) (\<lambda>u.
                 bind_res (mk_type a (PackType element_t (length args - 2))) (\<lambda>t.
                   shd_as_qualified_type a t u)))
          | _ \<Rightarrow> Inl AssertFailed)))))"

definition check_cast ::
  "arena \<Rightarrow> (Type \<Rightarrow> Type \<Rightarrow> bool result) \<Rightarrow> Type list \<Rightarrow> node list \<Rightarrow> Type result" where
  "check_cast a legal tys args =
     require (counts tys 1 args 1)
       (bind_res (type_of (hd args)) (\<lambda>t.
        bind_res (shd_deconstruct_qualified_type t) (\<lambda>(src_uniform, src_type).
        bind_res (require_data_type a (hd tys)) (\<lambda>_.
        bind_res (legal src_type (hd tys)) (\<lambda>b.
          require b (mk_type a (QualifiedType src_uniform (hd tys))))))))"

definition check_mask_is_thread_active :: "arena \<Rightarrow> Type list \<Rightarrow> node list \<Rightarrow> Type result" where
  "check_mask_is_thread_active a tys args =
     require (counts tys 0 args 2)
       (bind_res (type_of (args ! 0)) (\<lambda>t0. bind_res (shd_is_qualified_type_uniform t0) (\<lambda>u0.
        bind_res (if u0 then bind_res (type_of (args ! 1)) shd_is_qualified_type_uniform else Inr False) (\<lambda>u.
        bind_res (mk_type a Bool_type) (\<lambda>t. mk_type a (QualifiedType u t))))))"

definition check_subgroup_assume_uniform :: "arena \<Rightarrow> Type list \<Rightarrow> node list \<Rightarrow> Type result" where
  "check_subgroup_assume_uniform a tys args =
     require (counts tys 0 args 1)
       (bind_res (type_of (hd args)) (\<lambda>t. bind_res (shd_get_unqualified_type t) (\<lambda>t.
          mk_type a (QualifiedType True t))))"

definition check_sample_texture :: "arena \<Rightarrow> Type list \<Rightarrow> node list \<Rightarrow> Type result" where
  "check_sample_texture a tys args =
     require (counts tys 0 args 2)
       (bind_res (type_of (args ! 0)) (\<lambda>st. bind_res (shd_deconstruct_qualified_type st) (\<lambda>(_, sampled_image_t).
        bind_res (type_of (args ! 1)) (\<lambda>ct. bind_res (shd_deconstruct_qualified_type ct) (\<lambda>(_, coords_t).
          case sampled_image_t of
            SampledImageType (ImageType sampled_type _) \<Rightarrow>
              bind_res (shd_deconstruct_packed_type a coords_t) (\<lambda>_.
              bind_res (shd_maybe_packed_type_helper a sampled_type 4) (\<lambda>t. mk_type a (QualifiedType False t)))
          | _ \<Rightarrow> Inl AssertFailed)))))"

definition shd_check_type_prim_op :: "arena \<Rightarrow> Op \<Rightarrow> Type list \<Rightarrow> node list \<Rightarrow> Type result" where
  "shd_check_type_prim_op a op tys args =
     require (all_values args)
       (case op of
          neg_op \<Rightarrow> check_unary a shd_is_arithm_type tys args
        | not_op \<Rightarrow> check_unary a shd_has_boolean_ops tys args
        | rshift_arithm_op \<Rightarrow> check_shift a tys args
        | rshift_logical_op \<Rightarrow> check_shift a tys args
        | lshift_op \<Rightarrow> check_shift a tys args
        | add_carry_op \<Rightarrow> check_arith a True tys args
        | sub_borrow_op \<Rightarrow> check_arith a True tys args
        | mul_extended_op \<Rightarrow> check_arith a True tys args
        | min_op \<Rightarrow> check_arith a False tys args
        | max_op \<Rightarrow> check_arith a False tys args
        | add_op \<Rightarrow> check_arith a False tys args
        | sub_op \<Rightarrow> check_arith a False tys args
        | mul_op \<Rightarrow> check_arith a False tys args
        | div_op \<Rightarrow> check_arith a False tys args
        | mod_op \<Rightarrow> check_arith a False tys args
        | or_op \<Rightarrow> check_logic a tys args
        | xor_op \<Rightarrow> check_logic a tys args
        | and_op \<Rightarrow> check_logic a tys args
        | lt_op \<Rightarrow> check_compare a True tys args
        | lte_op \<Rightarrow> check_compare a True tys args
        | gt_op \<Rightarrow> check_compare a True tys args
        | gte_op \<Rightarrow> check_compare a True tys args
        | eq_op \<Rightarrow> check_compare a False tys args
        | neq_op \<Rightarrow> check_compare a False tys args
        | sqrt_op \<Rightarrow> check_math a is_float tys args
        | inv_sqrt_op \<Rightarrow> check_math a is_float tys args
        | floor_op \<Rightarrow> check_math a is_float tys args
        | ceil_op \<Rightarrow> check_math a is_float tys args
        | round_op \<Rightarrow> check_math a is_float tys args
        | fract_op \<Rightarrow> check_math a is_float tys args
        | sin_op \<Rightarrow> check_math a is_float tys args
        | cos_op \<Rightarrow> check_math a is_float tys args
        | exp_op \<Rightarrow> check_math a is_float tys args
        | abs_op \<Rightarrow> check_math a is_signed_or_float tys args
        | sign_op \<Rightarrow> check_math a is_signed_or_float tys args
        | pow_op \<Rightarrow> check_float_nary a 2 tys args
        | fma_op \<Rightarrow> check_float_nary a 3 tys args
        | align_of_op \<Rightarrow> check_size_of a tys args
        | size_of_op \<Rightarrow> check_size_of a tys args
        | offset_of_op \<Rightarrow> check_offset_of a tys args
        | select_op \<Rightarrow> check_select a tys args
        | insert_op \<Rightarrow> check_extract a True tys args
        | extract_dynamic_op \<Rightarrow> check_extract a False tys args
        | extract_op \<Rightarrow> check_extract a False tys args
        | shuffle_op \<Rightarrow> check_shuffle a tys args
        | reinterpret_op \<Rightarrow> check_cast a (shd_is_reinterpret_cast_legal a) tys args
        | convert_op \<Rightarrow> check_cast a (shd_is_conversion_legal a) tys args
        | empty_mask_op \<Rightarrow>
            require (counts tys 0 args 0)
              (bind_res (shd_get_actual_mask_type a) (\<lambda>t. shd_as_qualified_type a t True))
        | mask_is_thread_active_op \<Rightarrow> check_mask_is_thread_active a tys args
        | subgroup_assume_uniform_op \<Rightarrow> check_subgroup_assume_uniform a tys args
        | sample_texture_op \<Rightarrow> check_sample_texture a tys args)"

subsection \<open>Calls\<close>

definition check_arguments_types_against_parameters_helper ::
  "arena \<Rightarrow> Type list \<Rightarrow> Type list \<Rightarrow> unit result" where
  "check_arguments_types_against_parameters_helper a param_types arg_types =
     (if length param_types \<noteq> length arg_types
      then Inl (ShdError ''Mismatched number of arguments/parameters'')
      else bind_res (map_res (\<lambda>(p, t). shd_check_subtype a p t) (zip param_types arg_types)) (\<lambda>_. Inr ()))"

definition check_value_call :: "arena \<Rightarrow> node \<Rightarrow> Type list \<Rightarrow> Type list result" where
  "check_value_call a callee argument_types =
     require (is_value (pl callee))
       (bind_res (type_of callee) (\<lambda>t.
        bind_res (shd_deconstruct_qualified_type t) (\<lambda>(_, t).
        bind_res (shd_deconstruct_pointer_type t) (\<lambda>(as, callee_type).
          require (as = AsGeneric)
            (case callee_type of
               FnType param_types return_types \<Rightarrow>
                 bind_res (check_arguments_types_against_parameters_helper a param_types argument_types)
                   (\<lambda>_. Inr return_types)
             | _ \<Rightarrow> Inl AssertFailed)))))"

definition shd_check_type_call :: "arena \<Rightarrow> node \<Rightarrow> node list \<Rightarrow> Type result" where
  "shd_check_type_call a callee args =
     require (all_values args)
       (bind_res (shd_get_values_types a args) (\<lambda>argument_types.
        bind_res (check_value_call a callee argument_types) (shd_maybe_multiple_return a)))"

definition shd_check_type_tail_call :: "arena \<Rightarrow> node \<Rightarrow> node list \<Rightarrow> Type result" where
  "shd_check_type_tail_call a callee args =
     require (all_values args)
       (bind_res (shd_get_values_types a args) (\<lambda>argument_types.
        bind_res (check_value_call a callee argument_types) (\<lambda>returns.
          require (length returns = 0) (mk_type a NoRet))))"

subsection \<open>Structured control flow\<close>

definition ensure_types_are_data_types :: "arena \<Rightarrow> Type list \<Rightarrow> unit result" where
  "ensure_types_are_data_types a yield_types =
     bind_res (map_res (require_data_type a) yield_types) (\<lambda>_. Inr ())"

definition shd_check_type_if_instr ::
  "arena \<Rightarrow> Type list \<Rightarrow> node \<Rightarrow> block_id option \<Rightarrow> block_id \<Rightarrow> Type result" where
  "shd_check_type_if_instr a yield_types condition if_false tail =
     bind_res (ensure_types_are_data_types a yield_types) (\<lambda>_.
     bind_res (type_of condition) (\<lambda>t.
     bind_res (shd_get_unqualified_type t) (\<lambda>condition_type.
     bind_res (mk_type a Bool_type) (\<lambda>bool_type.
       if condition_type \<noteq> bool_type then Inl (ShdError ''condition of an if should be bool'')
       else require (yield_types \<noteq> [] \<longrightarrow> if_false \<noteq> None)
         (bind_res (get_block a tail) (\<lambda>tail.
          bind_res (shd_get_param_types (bb_params tail)) (\<lambda>param_types.
          bind_res (shd_add_qualifiers a yield_types False) (\<lambda>arg_types.
          bind_res (check_arguments_types_against_parameters_helper a param_types arg_types) (\<lambda>_.
            mk_type a NoRet)))))))))"

definition shd_check_type_match_instr :: "arena \<Rightarrow> Type list \<Rightarrow> Type result" where
  "shd_check_type_match_instr a yield_types =
     bind_res (ensure_types_are_data_types a yield_types) (\<lambda>_. mk_type a NoRet)"

definition shd_check_type_loop_instr :: "arena \<Rightarrow> Type list \<Rightarrow> Type result" where
  "shd_check_type_loop_instr a yield_types =
     bind_res (ensure_types_are_data_types a yield_types) (\<lambda>_. mk_type a NoRet)"

definition shd_check_type_control ::
  "arena \<Rightarrow> Type list \<Rightarrow> block_id \<Rightarrow> block_id \<Rightarrow> Type result" where
  "shd_check_type_control a yield_types inside tail =
     bind_res (ensure_types_are_data_types a yield_types) (\<lambda>_.
     bind_res (get_block a inside) (\<lambda>inside.
     bind_res (shd_first (bb_params inside)) (\<lambda>join_point.
     bind_res (type_of join_point) (\<lambda>t.
     bind_res (shd_deconstruct_qualified_type t) (\<lambda>(_, join_point_type).
       case join_point_type of
         JoinPointType join_point_yield_types \<Rightarrow>
           require (length join_point_yield_types = length yield_types)
             (bind_res (map_res (\<lambda>(y, j). bind_res (shd_is_subtype a y j) assert_res)
                (zip yield_types join_point_yield_types)) (\<lambda>_.
              bind_res (get_block a tail) (\<lambda>tail.
                require (length (bb_params tail) = length yield_types) (mk_type a NoRet))))
       | _ \<Rightarrow> Inl AssertFailed)))))"

subsection \<open>Memory\<close>

definition alloc_type :: "arena \<Rightarrow> AddressSpace \<Rightarrow> Type \<Rightarrow> bool \<Rightarrow> Type result" where
  "alloc_type a as t is_reference =
     bind_res (mk_type a (PtrType as t is_reference)) (\<lambda>p.
       mk_type a (QualifiedType (shd_is_addr_space_uniform a as) p))"

definition shd_check_type_stack_alloc :: "arena \<Rightarrow> Type \<Rightarrow> Type result" where
  "shd_check_type_stack_alloc a t = alloc_type a AsPrivate t False"

definition shd_check_type_local_alloc :: "arena \<Rightarrow> Type \<Rightarrow> Type result" where
  "shd_check_type_local_alloc a t = alloc_type a AsFunction t True"

definition shd_check_type_load :: "arena \<Rightarrow> node \<Rightarrow> Type result" where
  "shd_check_type_load a ptr =
     bind_res (type_of ptr) (\<lambda>t.
     bind_res (shd_deconstruct_qualified_type t) (\<lambda>(ptr_uniform, ptr_type).
     bind_res (shd_deconstruct_maybe_packed_type a ptr_type) (\<lambda>(width, ptr_type).
       case ptr_type of
         PtrType as pointed_type _ \<Rightarrow>
           bind_res (shd_maybe_packed_type_helper a pointed_type width) (\<lambda>elem_type.
             shd_as_qualified_type a elem_type (ptr_uniform \<and> shd_is_addr_space_uniform a as))
       | _ \<Rightarrow> Inl AssertFailed)))"

definition shd_check_type_store :: "arena \<Rightarrow> node \<Rightarrow> node \<Rightarrow> Type result" where
  "shd_check_type_store a ptr v =
     bind_res (type_of ptr) (\<lambda>t.
     bind_res (shd_deconstruct_qualified_type t) (\<lambda>(ptr_uniform, ptr_type).
     bind_res (shd_deconstruct_maybe_packed_type a ptr_type) (\<lambda>(width, ptr_type).
       case ptr_type of
         PtrType as pointed_type _ \<Rightarrow>
           bind_res (shd_maybe_packed_type_helper a pointed_type width) (\<lambda>elem_type.
           bind_res (mk_type a (QualifiedType (\<not> is_simt (config a)) elem_type)) (\<lambda>val_expected_type.
           bind_res (type_of v) (\<lambda>vt.
           bind_res (shd_is_subtype a val_expected_type vt) (\<lambda>b.
             require b (empty_multiple_return_type a)))))
       | _ \<Rightarrow> Inl AssertFailed)))"

definition shd_check_type_ptr_array_element_offset :: "arena \<Rightarrow> node \<Rightarrow> node \<Rightarrow> Type result" where
  "shd_check_type_ptr_array_element_offset a ptr offset =
     bind_res (type_of ptr) (\<lambda>t.
     bind_res (shd_deconstruct_qualified_type t) (\<lambda>(uniform, base_ptr_type).
       case base_ptr_type of
         PtrType as pointee_type is_reference \<Rightarrow>
           bind_res (type_of offset) (\<lambda>ot.
           bind_res (shd_deconstruct_qualified_type ot) (\<lambda>(offset_uniform, offset_type).
           require (is_int offset_type)
             (bind_res (shd_resolve_to_int_literal a (Some offset)) (\<lambda>lit.
              let offset_is_zero = (case lit of Some (_, _, v) \<Rightarrow> v = 0 | None \<Rightarrow> False)
              in require (offset_is_zero \<or> \<not> is_reference)
                   (bind_res (if offset_is_zero then Inr () else require_data_type a pointee_type) (\<lambda>_.
                    bind_res (mk_type a (PtrType as pointee_type is_reference)) (\<lambda>p.
                      mk_type a (QualifiedType (uniform \<and> offset_uniform) p)))))))) 
       | _ \<Rightarrow> Inl AssertFailed))"

definition shd_check_type_ptr_composite_element :: "arena \<Rightarrow> node \<Rightarrow> node \<Rightarrow> Type result" where
  "shd_check_type_ptr_composite_element a ptr index =
     bind_res (type_of ptr) (\<lambda>t.
     bind_res (shd_deconstruct_qualified_type t) (\<lambda>(uniform, base_ptr_type).
       case base_ptr_type of
         PtrType as pointee_type is_reference \<Rightarrow>
           bind_res (shd_enter_composite_type a pointee_type uniform index True) (\<lambda>(pointee_type, uniform).
           bind_res (mk_type a (PtrType as pointee_type is_reference)) (\<lambda>p.
             mk_type a (QualifiedType uniform p)))
       | _ \<Rightarrow> Inl AssertFailed))"

text \<open>\<^verbatim>\<open>copy_bytes\<close> and \<^verbatim>\<open>fill_bytes\<close>: destination, source, count.\<close>

definition check_bytes_operands :: "arena \<Rightarrow> node \<Rightarrow> node \<Rightarrow> node \<Rightarrow> Type result" where
  "check_bytes_operands a dst src count =
     bind_res (type_of dst) (\<lambda>dt. bind_res (shd_deconstruct_qualified_type dt) (\<lambda>(_, dst_t).
     require (case dst_t of PtrType _ _ _ \<Rightarrow> True | _ \<Rightarrow> False)
       (bind_res (type_of src) (\<lambda>st. bind_res (shd_deconstruct_qualified_type st) (\<lambda>(_, src_t).
        bind_res (type_of count) (\<lambda>ct. bind_res (shd_deconstruct_qualified_type ct) (\<lambda>(_, cnt_t).
          require (is_int cnt_t) (empty_multiple_return_type a))))))))"

definition shd_check_type_copy_bytes :: "arena \<Rightarrow> node \<Rightarrow> node \<Rightarrow> node \<Rightarrow> Type result" where
  "shd_check_type_copy_bytes a dst src count = check_bytes_operands a dst src count"

definition shd_check_type_fill_bytes :: "arena \<Rightarrow> node \<Rightarrow> node \<Rightarrow> node \<Rightarrow> Type result" where
  "shd_check_type_fill_bytes a dst src count = check_bytes_operands a dst src count"

definition shd_check_type_pop_stack :: "arena \<Rightarrow> Type \<Rightarrow> Type result" where
  "shd_check_type_pop_stack a t = shd_as_qualified_type a t False"

definition shd_check_type_set_stack_size :: "arena \<Rightarrow> node \<Rightarrow> Type result" where
  "shd_check_type_set_stack_size a v =
     bind_res (type_of v) (\<lambda>t. bind_res (shd_get_unqualified_type t) (\<lambda>t.
     bind_res (shd_uint32_type a) (\<lambda>u32.
       require (t = u32) (bind_res (mk_type a unit_type) (\<lambda>u. shd_as_qualified_type a u True)))))"

definition shd_check_type_get_stack_size :: "arena \<Rightarrow> Type result" where
  "shd_check_type_get_stack_size a =
     bind_res (shd_uint32_type a) (\<lambda>t. mk_type a (QualifiedType False t))"

definition shd_check_type_get_stack_base_addr :: "arena \<Rightarrow> Type result" where
  "shd_check_type_get_stack_base_addr a =
     bind_res (shd_uint8_type a) (\<lambda>t.
     bind_res (mk_type a (PtrType AsPrivate t False)) (\<lambda>p. mk_type a (QualifiedType False p)))"

subsection \<open>Jumps and joins\<close>

definition block_type :: "arena \<Rightarrow> block_id \<Rightarrow> Type result" where
  "block_type a b =
     bind_res (get_block a b) (\<lambda>bb. bind_res (shd_get_param_types (bb_params bb)) (\<lambda>ts. mk_type a (BBType ts)))"

definition check_basic_block_call :: "arena \<Rightarrow> block_id \<Rightarrow> Type list \<Rightarrow> unit result" where
  "check_basic_block_call a block argument_types =
     bind_res (block_type a block) (\<lambda>t.
       case t of
         BBType param_types \<Rightarrow> check_arguments_types_against_parameters_helper a param_types argument_types
       | _ \<Rightarrow> Inl AssertFailed)"

definition shd_check_type_jump :: "arena \<Rightarrow> block_id \<Rightarrow> node list \<Rightarrow> Type result" where
  "shd_check_type_jump a target args =
     require (all_values args)
       (bind_res (shd_get_values_types a args) (\<lambda>ts.
        bind_res (check_basic_block_call a target ts) (\<lambda>_. mk_type a NoRet)))"

definition is_jump :: "node \<Rightarrow> bool" where
  "is_jump n = (case pl n of Jump _ _ _ \<Rightarrow> True | _ \<Rightarrow> False)"

definition shd_check_type_branch :: "arena \<Rightarrow> node \<Rightarrow> node \<Rightarrow> Type result" where
  "shd_check_type_branch a true_jump false_jump =
     require (is_jump true_jump) (require (is_jump false_jump) (mk_type a NoRet))"

definition shd_check_type_br_switch :: "arena \<Rightarrow> node list \<Rightarrow> node list \<Rightarrow> node \<Rightarrow> Type result" where
  "shd_check_type_br_switch a case_values case_jumps default_jump =
     require (\<forall>j \<in> set case_jumps. is_jump j)
       (require (length case_values = length case_jumps)
         (require (is_jump default_jump) (mk_type a NoRet)))"

definition shd_check_type_join :: "arena \<Rightarrow> node \<Rightarrow> node list \<Rightarrow> Type result" where
  "shd_check_type_join a join_point args =
     require (all_values args)
       (bind_res (type_of join_point) (\<lambda>t.
        bind_res (shd_deconstruct_qualified_type t) (\<lambda>(_, join_target_type).
          case join_target_type of
            JoinPointType yield_types \<Rightarrow>
              bind_res (shd_add_qualifiers a yield_types (\<not> is_simt (config a))) (\<lambda>param_types.
              bind_res (shd_get_values_types a args) (\<lambda>arg_types.
              bind_res (check_arguments_types_against_parameters_helper a param_types arg_types) (\<lambda>_.
                mk_type a NoRet)))
          | _ \<Rightarrow> Inl AssertFailed)))"

subsection \<open>Declarations\<close>

definition shd_check_type_fun :: "arena \<Rightarrow> node list \<Rightarrow> Type list \<Rightarrow> Type result" where
  "shd_check_type_fun a params return_types =
     bind_res (map_res (require_value_type a) return_types) (\<lambda>_.
     bind_res (shd_get_param_types params) (\<lambda>param_types.
       mk_type a (FnType param_types return_types)))"

definition shd_check_type_basic_block :: "arena \<Rightarrow> node list \<Rightarrow> Type result" where
  "shd_check_type_basic_block a params =
     bind_res (shd_get_param_types params) (\<lambda>param_types. mk_type a (BBType param_types))"

definition shd_check_type_global_variable ::
  "arena \<Rightarrow> annotation list \<Rightarrow> Type \<Rightarrow> AddressSpace \<Rightarrow> Type result" where
  "shd_check_type_global_variable a annotations t as =
     bind_res (case shd_lookup_annotation_list annotations ''Builtin'' of
                 Some ba \<Rightarrow>
                   if validate_builtin_types (config a)
                   then bind_res (shd_get_annotation_string_payload ba) (\<lambda>payload.
                        let b = shd_get_builtin_by_name payload
                        in require (b \<noteq> BuiltinsCount)
                             (bind_res (shd_get_builtin_type a b) (\<lambda>expected.
                                if expected \<noteq> t
                                then Inl (ShdError ''Creating a @Builtin global variable with the incorrect type'')
                                else Inr ())))
                   else Inr ()
               | None \<Rightarrow> Inr ()) (\<lambda>_.
       mk_type a (PtrType as t (shd_lookup_annotation_list annotations ''Logical'' \<noteq> None)))"

definition shd_check_type_constant :: "arena \<Rightarrow> Type \<Rightarrow> Type result" where
  "shd_check_type_constant a type_hint = bind_res (require_data_type a type_hint) (\<lambda>_. Inr type_hint)"

text \<open>The type a declaration node is given when it is created.\<close>

definition check_decl :: "arena \<Rightarrow> decl \<Rightarrow> Type option result" where
  "check_decl a d =
     (case d of
        GlobalVariable _ annotations t as _ \<Rightarrow> bind_res (shd_check_type_global_variable a annotations t as) (\<lambda>t. Inr (Some t))
      | Constant _ _ type_hint _ \<Rightarrow> bind_res (shd_check_type_constant a type_hint) (\<lambda>t. Inr (Some t))
      | Function _ _ params return_types _ \<Rightarrow> bind_res (shd_check_type_fun a params return_types) (\<lambda>t. Inr (Some t))
      | NominalType _ _ _ \<Rightarrow> Inr None)"

subsection \<open>The dispatch\<close>

definition with_type :: "Type result \<Rightarrow> Type option result" where
  "with_type r = bind_res r (\<lambda>t. Inr (Some t))"

text \<open>\<^verbatim>\<open>_shd_check_type_generated\<close>, which the build generates from the grammar.\<close>

fun check_type_generated :: "arena \<Rightarrow> payload \<Rightarrow> Type option result" where
  "check_type_generated a (Param t _) = with_type (shd_check_type_param a t)"
| "check_type_generated a (ConstrainedValue _ _) = Inr None"
| "check_type_generated a (UntypedNumber _) = Inl (ShdError ''should never happen'')"
| "check_type_generated a (IntLiteral w s _) = with_type (shd_check_type_int_literal a w s)"
| "check_type_generated a (FloatLiteral w _) = with_type (shd_check_type_float_literal a w)"
| "check_type_generated a (StringLiteral s) = with_type (shd_check_type_string_lit a s)"
| "check_type_generated a TrueLit = with_type (shd_check_type_bool_lit a)"
| "check_type_generated a FalseLit = with_type (shd_check_type_bool_lit a)"
| "check_type_generated a (NullPtr t) = with_type (shd_check_type_null_ptr a t)"
| "check_type_generated a (Composite t contents) = with_type (shd_check_type_composite a t contents)"
| "check_type_generated a (Fill t v) = with_type (shd_check_type_fill a t v)"
| "check_type_generated a (Undef t) = with_type (shd_check_type_undef a t)"
| "check_type_generated a (RefDecl d) = with_type (shd_check_type_ref_decl a d)"
| "check_type_generated a (FnAddr d) = with_type (shd_check_type_fn_addr a d)"
| "check_type_generated a (MemAndValue _ v) = Inr (ntype v)"
| "check_type_generated a (Call _ callee args) = with_type (shd_check_type_call a callee args)"
| "check_type_generated a (PrimOp op tys args) = with_type (shd_check_type_prim_op a op tys args)"
| "check_type_generated a (StackAlloc _ t) = with_type (shd_check_type_stack_alloc a t)"
| "check_type_generated a (LocalAlloc _ t) = with_type (shd_check_type_local_alloc a t)"
| "check_type_generated a (Load _ p) = with_type (shd_check_type_load a p)"
| "check_type_generated a (Store _ p v) = with_type (shd_check_type_store a p v)"
| "check_type_generated a (PtrCompositeElement p i) = with_type (shd_check_type_ptr_composite_element a p i)"
| "check_type_generated a (PtrArrayElementOffset p i) = with_type (shd_check_type_ptr_array_element_offset a p i)"
| "check_type_generated a (CopyBytes _ d s c) = with_type (shd_check_type_copy_bytes a d s c)"
| "check_type_generated a (FillBytes _ d s c) = with_type (shd_check_type_fill_bytes a d s c)"
| "check_type_generated a (PushStack _ v) = with_type (empty_multiple_return_type a)"
| "check_type_generated a (PopStack _ t) = with_type (shd_check_type_pop_stack a t)"
| "check_type_generated a (GetStackSize _) = with_type (shd_check_type_get_stack_size a)"
| "check_type_generated a (SetStackSize _ v) = with_type (shd_check_type_set_stack_size a v)"
| "check_type_generated a (GetStackBaseAddr _) = with_type (shd_check_type_get_stack_base_addr a)"
| "check_type_generated a (DebugPrintf _ _ _) = with_type (empty_multiple_return_type a)"
| "check_type_generated a (ExtInstr _ result_t _ _ _) = Inr (Some result_t)"
| "check_type_generated a (Comment _ _) = with_type (empty_multiple_return_type a)"
| "check_type_generated a (AbsMem _) = Inr None"
| "check_type_generated a (If _ ys c _ if_false tail) = with_type (shd_check_type_if_instr a ys c if_false tail)"
| "check_type_generated a (Match _ ys _ _ _ _ _) = with_type (shd_check_type_match_instr a ys)"
| "check_type_generated a (Loop _ ys _ _ _) = with_type (shd_check_type_loop_instr a ys)"
| "check_type_generated a (Control _ ys inside tail) = with_type (shd_check_type_control a ys inside tail)"
| "check_type_generated a (TailCall _ callee args) = with_type (shd_check_type_tail_call a callee args)"
| "check_type_generated a (Jump _ target args) = with_type (shd_check_type_jump a target args)"
| "check_type_generated a (Branch _ _ t f) = with_type (shd_check_type_branch a t f)"
| "check_type_generated a (Switch _ _ vs js d) = with_type (shd_check_type_br_switch a vs js d)"
| "check_type_generated a (Join _ j args) = with_type (shd_check_type_join a j args)"
| "check_type_generated a (MergeContinue _ _) = with_type (mk_type a NoRet)"
| "check_type_generated a (MergeBreak _ _) = with_type (mk_type a NoRet)"
| "check_type_generated a (MergeSelection _ _) = with_type (mk_type a NoRet)"
| "check_type_generated a (Return _ _) = with_type (mk_type a NoRet)"
| "check_type_generated a (Unreachable _) = with_type (mk_type a NoRet)"

end
