(* ===== verification/IrTypeProps.thy ===== *)
theory IrTypeProps
  imports IrType
begin

text \<open>
  Properties of the type system: the order of subtyping, the classes of types, the constructors'
  checks, and the values of literals.
\<close>

subsection \<open>Subtyping\<close>

lemma subtypes_list_all2:
  "length ss = length ts \<Longrightarrow>
     subtypes a ss ts = Inr True \<longleftrightarrow> list_all2 (\<lambda>s t. shd_is_subtype a s t = Inr True) ss ts"
  by (induction ss ts rule: list_induct2) (auto simp: bind_res_Inr_iff)

lemma subtype_refl [simp]: "shd_is_subtype a t t = Inr True"
  by (simp add: shd_is_subtype.simps)

lemma subtypes_refl [simp]: "subtypes a ts ts = Inr True"
  by (induction ts) simp_all

lemma bind_and_True [simp]:
  "bind_res r (\<lambda>b. Inr (b \<and> P)) = Inr True \<longleftrightarrow> r = Inr True \<and> P"
  "bind_res r (\<lambda>b. if b then X else Inr False) = Inr True \<longleftrightarrow> r = Inr True \<and> X = Inr True"
  "bind_res r (\<lambda>b. if \<not> b then Inr False else X) = Inr True \<longleftrightarrow> r = Inr True \<and> X = Inr True"
  by (cases r; auto)+

definition is_sub :: "arena \<Rightarrow> Type \<Rightarrow> Type \<Rightarrow> bool" where
  "is_sub a super t \<longleftrightarrow> shd_is_subtype a super t = Inr True"

lemma is_sub_refl [simp]: "is_sub a t t"
  by (simp add: is_sub_def)

abbreviation are_sub :: "arena \<Rightarrow> Type list \<Rightarrow> Type list \<Rightarrow> bool" where
  "are_sub a \<equiv> list_all2 (is_sub a)"

lemma are_sub_refl [simp]: "are_sub a ts ts"
  by (simp add: list_all2_same)

lemma subtypes_are_sub: "length ss = length ts \<Longrightarrow> subtypes a ss ts = Inr True \<longleftrightarrow> are_sub a ss ts"
  by (simp add: subtypes_list_all2 is_sub_def [abs_def])

text \<open>An array size that accepts every other size: none, or a literal zero.\<close>

definition any_size :: "arena \<Rightarrow> node option \<Rightarrow> bool" where
  "any_size a sz \<longleftrightarrow> sz = None \<or> (\<exists>w s. shd_resolve_to_int_literal a sz = Inr (Some (w, s, 0)))"

definition resolvable :: "arena \<Rightarrow> node option \<Rightarrow> bool" where
  "resolvable a sz \<longleftrightarrow> (\<exists>l. shd_resolve_to_int_literal a sz = Inr l)"

lemma resolve_None [simp]: "shd_resolve_to_int_literal a None = Inr None"
  by (simp add: shd_resolve_to_int_literal_def resolve_default_def)

lemma any_size_None [simp]: "any_size a None" by (simp add: any_size_def)

lemma sub_simple:
  "is_sub a MaskType t \<longleftrightarrow> t = MaskType"
  "is_sub a NoRet t \<longleftrightarrow> t = NoRet"
  "is_sub a (Int_type w s) t \<longleftrightarrow> t = Int_type w s"
  "is_sub a (Float_type fw) t \<longleftrightarrow> t = Float_type fw"
  "is_sub a Bool_type t \<longleftrightarrow> t = Bool_type"
  "is_sub a (TypeDeclRef d) t \<longleftrightarrow> t = TypeDeclRef d"
  "is_sub a SamplerType t \<longleftrightarrow> t = SamplerType"
  by (auto simp: is_sub_def shd_is_subtype.simps split: ty.splits)

lemma sub_qualified:
  "is_sub a (QualifiedType su st) t \<longleftrightarrow> (\<exists>u ty. t = QualifiedType u ty \<and> (su \<longrightarrow> u) \<and> is_sub a st ty)"
  by (cases t) (auto simp: is_sub_def shd_is_subtype.simps [of a "QualifiedType su st"])

lemma sub_record:
  "is_sub a (RecordType sm sn ss) t \<longleftrightarrow> (\<exists>m n. t = RecordType m n ss \<and> are_sub a sm m)"
  by (cases t) (auto simp: is_sub_def [of a "RecordType sm sn ss"] shd_is_subtype.simps [of a "RecordType sm sn ss"]
      subtypes_are_sub dest: list_all2_lengthD)

lemma sub_join:
  "is_sub a (JoinPointType ss) t \<longleftrightarrow> (\<exists>ts. t = JoinPointType ts \<and> are_sub a ts ss)"
  by (cases t) (auto simp: is_sub_def [of a "JoinPointType ss"] shd_is_subtype.simps [of a "JoinPointType ss"]
      subtypes_are_sub dest: list_all2_lengthD)

lemma sub_fn:
  "is_sub a (FnType sp sr) t \<longleftrightarrow> (\<exists>p r. t = FnType p r \<and> are_sub a sr r \<and> are_sub a p sp)"
  by (cases t) (auto simp: is_sub_def [of a "FnType sp sr"] shd_is_subtype.simps [of a "FnType sp sr"]
      bind_res_Inr_iff subtypes_are_sub dest: list_all2_lengthD split: if_splits)

lemma sub_bb:
  "is_sub a (BBType ss) t \<longleftrightarrow> (\<exists>ts. t = BBType ts \<and> are_sub a ts ss)"
  by (cases t) (auto simp: is_sub_def [of a "BBType ss"] shd_is_subtype.simps [of a "BBType ss"]
      subtypes_are_sub dest: list_all2_lengthD)

lemma sub_lam:
  "is_sub a (LamType ss) t \<longleftrightarrow> (\<exists>ts. t = LamType ts \<and> are_sub a ts ss)"
  by (cases t) (auto simp: is_sub_def [of a "LamType ss"] shd_is_subtype.simps [of a "LamType ss"]
      subtypes_are_sub dest: list_all2_lengthD)

lemma sub_ptr:
  "is_sub a (PtrType as st sref) t \<longleftrightarrow>
     (\<exists>ty ref. t = PtrType as ty ref \<and> (ref \<longrightarrow> sref) \<and> is_sub a st ty)"
  by (cases t) (auto simp: is_sub_def shd_is_subtype.simps [of a "PtrType as st sref"])

lemma sub_pack:
  "is_sub a (PackType st w) t \<longleftrightarrow> (\<exists>ty. t = PackType ty w \<and> is_sub a st ty)"
  by (cases t) (auto simp: is_sub_def shd_is_subtype.simps [of a "PackType st w"] bind_res_Inr_iff)

lemma sub_image:
  "is_sub a (ImageType st d) t \<longleftrightarrow> (\<exists>ty. t = ImageType ty d \<and> is_sub a st ty)"
  by (cases t) (auto simp: is_sub_def shd_is_subtype.simps [of a "ImageType st d"] bind_res_Inr_iff)

lemma sub_sampled:
  "is_sub a (SampledImageType st) t \<longleftrightarrow> (\<exists>ty. t = SampledImageType ty \<and> is_sub a st ty)"
  by (cases t) (auto simp: is_sub_def shd_is_subtype.simps [of a "SampledImageType st"])

lemma sub_arr_eq:
  "ArrType st ssz \<noteq> ArrType ty sz \<Longrightarrow>
   is_sub a (ArrType st ssz) (ArrType ty sz) \<longleftrightarrow>
     is_sub a st ty \<and> (any_size a ssz \<or> resolvable a ssz \<and> ssz = sz)"
proof (cases "shd_resolve_to_int_literal a ssz")
  case (Inr l)
  assume ne: "ArrType st ssz \<noteq> ArrType ty sz"
  have "any_size a ssz \<longleftrightarrow> ssz = None \<or> (case l of Some (_, _, v) \<Rightarrow> v = 0 | None \<Rightarrow> False)"
    using Inr by (auto simp: any_size_def split: option.splits)
  moreover have "resolvable a ssz" using Inr by (simp add: resolvable_def)
  ultimately show ?thesis
    using Inr ne by (auto simp: is_sub_def shd_is_subtype.simps [of a "ArrType st ssz"])
next
  case (Inl e)
  assume ne: "ArrType st ssz \<noteq> ArrType ty sz"
  have "ssz \<noteq> None" using Inl by (cases ssz) auto
  with Inl have "\<not> any_size a ssz" "\<not> resolvable a ssz" by (auto simp: any_size_def resolvable_def)
  with Inl ne show ?thesis by (auto simp: is_sub_def shd_is_subtype.simps [of a "ArrType st ssz"])
qed

lemma sub_arr:
  "is_sub a (ArrType st ssz) t \<longleftrightarrow>
     t = ArrType st ssz \<or>
     (\<exists>ty sz. t = ArrType ty sz \<and> is_sub a st ty \<and> (any_size a ssz \<or> resolvable a ssz \<and> ssz = sz))"
proof (cases t)
  case (ArrType ty sz)
  then show ?thesis using sub_arr_eq [of st ssz ty sz a] by (cases "t = ArrType st ssz") auto
qed (auto simp: is_sub_def shd_is_subtype.simps [of a "ArrType st ssz"])

lemmas sub_iffs = sub_simple sub_qualified sub_record sub_join sub_fn sub_bb sub_lam sub_ptr sub_pack
  sub_image sub_sampled sub_arr

lemma list_all2_trans_set:
  assumes "list_all2 P xs ys" and "list_all2 Q ys zs"
    and "\<And>x y z. x \<in> set xs \<Longrightarrow> y \<in> set ys \<Longrightarrow> z \<in> set zs \<Longrightarrow> P x y \<Longrightarrow> Q y z \<Longrightarrow> R x z"
  shows "list_all2 R xs zs"
  using assms
proof (induction xs ys arbitrary: zs rule: list_all2_induct)
  case (Cons x xs y ys)
  then show ?case by (cases zs) auto
qed auto

lemma size_list_mem: "x \<in> set xs \<Longrightarrow> size x \<le> size_list size xs"
  by (induction xs) auto

lemma are_sub_trans:
  assumes "are_sub a xs ys" and "are_sub a ys zs"
    and "\<And>x y z. size x + size y + size z \<le> size_list size xs + size_list size ys + size_list size zs
      \<Longrightarrow> is_sub a x y \<Longrightarrow> is_sub a y z \<Longrightarrow> is_sub a x z"
  shows "are_sub a xs zs"
  using assms(1,2)
proof (rule list_all2_trans_set)
  fix x y z
  assume "x \<in> set xs" "y \<in> set ys" "z \<in> set zs" "is_sub a x y" "is_sub a y z"
  then show "is_sub a x z" using assms(3) [of x y z] by (simp add: add_mono size_list_mem)
qed

lemma is_sub_trans: "is_sub a s t \<Longrightarrow> is_sub a t u \<Longrightarrow> is_sub a s u"
proof (induction "size s + size t + size u" arbitrary: s t u rule: less_induct)
  case less
  note IH = less.hyps and lists = are_sub_trans [where a = a]
  show ?case
  proof (cases s)
    case (RecordType sm sn ss)
    with less.prems obtain m n m' n' where t: "t = RecordType m n ss" "are_sub a sm m"
      and u: "u = RecordType m' n' ss" "are_sub a m m'" by (auto simp: sub_record)
    have "are_sub a sm m'" by (rule lists [OF t(2) u(2)]) (rule IH, auto simp: RecordType t u)
    with RecordType u show ?thesis by (simp add: sub_record)
  next
    case (JoinPointType ss)
    with less.prems obtain ts us where t: "t = JoinPointType ts" "are_sub a ts ss"
      and u: "u = JoinPointType us" "are_sub a us ts" by (auto simp: sub_join)
    have "are_sub a us ss" by (rule lists [OF u(2) t(2)]) (rule IH, auto simp: JoinPointType t u)
    with JoinPointType u show ?thesis by (simp add: sub_join)
  next
    case (FnType sp sr)
    with less.prems obtain p r p' r' where t: "t = FnType p r" "are_sub a sr r" "are_sub a p sp"
      and u: "u = FnType p' r'" "are_sub a r r'" "are_sub a p' p" by (auto simp: sub_fn)
    have "are_sub a sr r'" by (rule lists [OF t(2) u(2)]) (rule IH, auto simp: FnType t u)
    moreover have "are_sub a p' sp" by (rule lists [OF u(3) t(3)]) (rule IH, auto simp: FnType t u)
    ultimately show ?thesis using FnType u by (simp add: sub_fn)
  next
    case (BBType ss)
    with less.prems obtain ts us where t: "t = BBType ts" "are_sub a ts ss"
      and u: "u = BBType us" "are_sub a us ts" by (auto simp: sub_bb)
    have "are_sub a us ss" by (rule lists [OF u(2) t(2)]) (rule IH, auto simp: BBType t u)
    with BBType u show ?thesis by (simp add: sub_bb)
  next
    case (LamType ss)
    with less.prems obtain ts us where t: "t = LamType ts" "are_sub a ts ss"
      and u: "u = LamType us" "are_sub a us ts" by (auto simp: sub_lam)
    have "are_sub a us ss" by (rule lists [OF u(2) t(2)]) (rule IH, auto simp: LamType t u)
    with LamType u show ?thesis by (simp add: sub_lam)
  next
    case (ArrType st ssz)
    show ?thesis
    proof (cases "t = s \<or> u = t")
      case False
      from False less.prems(1) [unfolded ArrType sub_arr] ArrType obtain ty sz where
        t: "t = ArrType ty sz" "is_sub a st ty" "any_size a ssz \<or> resolvable a ssz \<and> ssz = sz" by blast
      from False less.prems(2) [unfolded t(1) sub_arr] t(1) obtain uy uz where
        u: "u = ArrType uy uz" "is_sub a ty uy" "any_size a sz \<or> resolvable a sz \<and> sz = uz" by blast
      have "is_sub a st uy" by (rule IH [OF _ t(2) u(2)]) (simp add: ArrType t u)
      with ArrType t u show ?thesis by (auto simp: sub_arr)
    qed (use less.prems in auto)
  next
    case (PtrType as st sref)
    with less.prems(1) obtain ty ref where t: "t = PtrType as ty ref" "is_sub a st ty" "ref \<longrightarrow> sref" by (auto simp: sub_ptr)
    with less.prems(2) obtain uy uref where u: "u = PtrType as uy uref" "is_sub a ty uy" "uref \<longrightarrow> ref" by (auto simp: sub_ptr)
    have "is_sub a st uy" by (rule IH [OF _ t(2) u(2)]) (simp add: PtrType t u)
    with PtrType t u show ?thesis by (auto simp: sub_ptr)
  next
    case (QualifiedType su st)
    with less.prems(1) obtain tu ty where t: "t = QualifiedType tu ty" "is_sub a st ty" "su \<longrightarrow> tu" by (auto simp: sub_qualified)
    with less.prems(2) obtain uu uy where u: "u = QualifiedType uu uy" "is_sub a ty uy" "tu \<longrightarrow> uu" by (auto simp: sub_qualified)
    have "is_sub a st uy" by (rule IH [OF _ t(2) u(2)]) (simp add: QualifiedType t u)
    with QualifiedType t u show ?thesis by (auto simp: sub_qualified)
  next
    case (PackType st w)
    with less.prems(1) obtain ty where t: "t = PackType ty w" "is_sub a st ty" by (auto simp: sub_pack)
    with less.prems(2) obtain uy where u: "u = PackType uy w" "is_sub a ty uy" by (auto simp: sub_pack)
    have "is_sub a st uy" by (rule IH [OF _ t(2) u(2)]) (simp add: PackType t u)
    with PackType t u show ?thesis by (auto simp: sub_pack)
  next
    case (ImageType st d)
    with less.prems(1) obtain ty where t: "t = ImageType ty d" "is_sub a st ty" by (auto simp: sub_image)
    with less.prems(2) obtain uy where u: "u = ImageType uy d" "is_sub a ty uy" by (auto simp: sub_image)
    have "is_sub a st uy" by (rule IH [OF _ t(2) u(2)]) (simp add: ImageType t u)
    with ImageType t u show ?thesis by (auto simp: sub_image)
  next
    case (SampledImageType st)
    with less.prems(1) obtain ty where t: "t = SampledImageType ty" "is_sub a st ty" by (auto simp: sub_sampled)
    with less.prems(2) obtain uy where u: "u = SampledImageType uy" "is_sub a ty uy" by (auto simp: sub_sampled)
    have "is_sub a st uy" by (rule IH [OF _ t(2) u(2)]) (simp add: SampledImageType t u)
    with SampledImageType t u show ?thesis by (auto simp: sub_sampled)
  qed (use less.prems in \<open>simp_all add: sub_simple\<close>)
qed

end
