(* ===== verification/IrCheckProps.thy ===== *)
theory IrCheckProps
  imports IrCheck IrTypeProps
begin

text \<open>
  Lemmas about the rules for primitive operations: their types are value types, and each group of
  them is uniform only if all its operands are.
\<close>

subsection \<open>Checked constructors\<close>

lemma mk_type_Inr:
  "check_types (config a) \<Longrightarrow> mk_type a t = Inr t' \<longleftrightarrow> t' = t \<and> check_type_node a t = Inr ()"
  by (auto simp: mk_type_def bind_res_Inr_iff)

lemma require_data_Inr [simp]: "require_data_type a t = Inr x \<longleftrightarrow> shd_is_data_type a t = Inr True"
  by (auto simp: require_data_type_def bind_res_Inr_iff assert_res_def split: if_splits)

lemma require_value_Inr [simp]: "require_value_type a t = Inr x \<longleftrightarrow> shd_is_value_type a t = Inr True"
  by (auto simp: require_value_type_def bind_res_Inr_iff assert_res_def split: if_splits)

lemma deconstruct_Inr [simp]:
  "shd_deconstruct_qualified_type t = Inr (u, ty) \<longleftrightarrow> t = QualifiedType u ty"
  by (auto simp: shd_deconstruct_qualified_type_def split: ty.splits)

lemma unqualified_Inr [simp]: "shd_get_unqualified_type t = Inr ty \<longleftrightarrow> (\<exists>u. t = QualifiedType u ty)"
  by (auto simp: shd_get_unqualified_type_def bind_res_Inr_iff)

lemma uniform_Inr [simp]:
  "shd_is_qualified_type_uniform t = Inr u \<longleftrightarrow> (\<exists>ty. t = QualifiedType u ty)"
  by (auto simp: shd_is_qualified_type_uniform_def bind_res_Inr_iff)

lemma maybe_packed_Inr:
  "shd_deconstruct_maybe_packed_type a t = Inr (w, e) \<longleftrightarrow>
     shd_is_data_type a t = Inr True \<and> (t = PackType e w \<or> w = 1 \<and> e = t \<and> (\<forall>e' w'. t \<noteq> PackType e' w'))"
  by (auto simp: shd_deconstruct_maybe_packed_type_def bind_res_Inr_iff split: ty.splits)

lemma value_type_iff:
  "shd_is_value_type a t = Inr True \<longleftrightarrow> (\<exists>u ty. t = QualifiedType u ty \<and> shd_is_data_type a ty = Inr True)"
  by (cases t) (auto simp: shd_is_value_type_def bind_res_Inr_iff)

subsection \<open>Uniformity\<close>

definition uniform :: "node \<Rightarrow> bool" where
  "uniform n \<longleftrightarrow> (\<exists>t. ntype n = Some (QualifiedType True t))"

lemma fold_uniform:
  assumes "\<And>x s s'. f x s = Inr s' \<Longrightarrow> g s' \<Longrightarrow> g s \<and> uniform x"
    and "fold_res f xs s = Inr s'" and "g s'"
  shows "g s \<and> (\<forall>x \<in> set xs. uniform x)"
  using assms(2)
proof (induction xs arbitrary: s)
  case (Cons x xs)
  then obtain s1 where "f x s = Inr s1" "fold_res f xs s1 = Inr s'" by (auto simp: bind_res_Inr_iff)
  with Cons.IH assms(1) show ?case by fastforce
qed (use assms(3) in simp)

lemma operand_uniform:
  "check_operand a P t x u = Inr u' \<Longrightarrow> u' \<Longrightarrow> u \<and> uniform x"
  by (auto simp: check_operand_def bind_res_Inr_iff uniform_def)

lemma fold_operands_uniform:
  "fold_res (check_operand a P t) args u0 = Inr u \<Longrightarrow> u \<Longrightarrow> u0 \<and> (\<forall>x \<in> set args. uniform x)"
  by (rule fold_uniform [where g = id, simplified]) (auto dest: operand_uniform)

lemma same_operands_uniform:
  assumes "check_same_operands a P args = Inr (t, u)" and u
  shows "\<forall>x \<in> set args. uniform x"
  using assms fold_operands_uniform by (fastforce simp: check_same_operands_def bind_res_Inr_iff)

lemma enter_uniform:
  "check_types (config a) \<Longrightarrow> shd_enter_composite_type a t u x True = Inr (t', u') \<Longrightarrow> u' \<Longrightarrow> u \<and> uniform x"
  by (auto simp: shd_enter_composite_type_def bind_res_Inr_iff uniform_def)

lemma enter_indices_uniform:
  assumes "check_types (config a)" and "shd_enter_composite_type_indices a t u0 is True = Inr (t', u)" and u
  shows "u0 \<and> (\<forall>x \<in> set is. uniform x)"
  using fold_uniform [where g = snd, OF _ assms(2) [unfolded shd_enter_composite_type_indices_def]]
    enter_uniform [OF assms(1)] assms(3)
  by fastforce

lemma shuffle_index_uniform:
  "check_shuffle_index a n x u = Inr u' \<Longrightarrow> u' \<Longrightarrow> u \<and> uniform x"
  by (auto simp: bind_res_Inr_iff check_shuffle_index_def uniform_def Let_def)

lemma shuffle_indices_uniform:
  "fold_res (check_shuffle_index a n) is u0 = Inr u \<Longrightarrow> u \<Longrightarrow> u0 \<and> (\<forall>x \<in> set is. uniform x)"
  by (rule fold_uniform [where g = id, simplified]) (auto dest: shuffle_index_uniform)

lemma two_operands: "length args = 2 \<Longrightarrow> set args = {args ! 0, args ! Suc 0}"
  by (cases args rule: list.exhaust; cases "tl args") (auto simp: numeral_2_eq_2)

lemma three_operands: "length args = 3 \<Longrightarrow> set args = {args ! 0, args ! Suc 0, args ! 2}"
  by (auto simp: set_conv_nth less_Suc_eq numeral_eq_Suc)

lemma one_operand: "length args = 1 \<Longrightarrow> set args = {hd args}"
  by (cases args) auto

subsection \<open>Uniformity of primitive operations\<close>


lemma as_qualified_Inr: "check_types (config a) \<Longrightarrow> shd_as_qualified_type a t u = Inr t' \<longleftrightarrow>
  t' = QualifiedType u t \<and> check_type_node a (QualifiedType u t) = Inr ()"
  by (simp add: shd_as_qualified_type_def mk_type_Inr)

lemmas prim_Inr = mk_type_Inr as_qualified_Inr bind_res_Inr_iff counts_def uniform_def

lemma operand_is_hd: "x \<in> set args \<Longrightarrow> length args = Suc 0 \<Longrightarrow> x = hd args"
  by (cases args) auto

lemma unary_uniform:
  "check_unary a P tys args = Inr (QualifiedType True t) \<Longrightarrow> \<forall>x \<in> set args. uniform x"
  by (auto simp: check_unary_def prim_Inr dest: operand_is_hd)

lemma shift_uniform:
  "check_types (config a) \<Longrightarrow> check_shift a tys args = Inr (QualifiedType True t) \<Longrightarrow> \<forall>x \<in> set args. uniform x"
  by (auto simp: check_shift_def prim_Inr two_operands)

lemma arith_uniform:
  "check_types (config a) \<Longrightarrow> check_arith a e tys args = Inr (QualifiedType True t) \<Longrightarrow> \<forall>x \<in> set args. uniform x"
  by (auto simp: check_arith_def prim_Inr dest!: same_operands_uniform simp del: )

lemma logic_uniform:
  "check_types (config a) \<Longrightarrow> check_logic a tys args = Inr (QualifiedType True t) \<Longrightarrow> \<forall>x \<in> set args. uniform x"
  by (auto simp: check_logic_def prim_Inr dest!: same_operands_uniform)

lemma compare_uniform:
  "check_types (config a) \<Longrightarrow> check_compare a ord tys args = Inr (QualifiedType True t) \<Longrightarrow> \<forall>x \<in> set args. uniform x"
  by (auto simp: check_compare_def prim_Inr dest!: same_operands_uniform)

lemma math_uniform:
  "check_types (config a) \<Longrightarrow> check_math a P tys args = Inr (QualifiedType True t) \<Longrightarrow> \<forall>x \<in> set args. uniform x"
  by (auto simp: check_math_def prim_Inr dest: operand_is_hd)

lemma float_nary_uniform:
  "check_types (config a) \<Longrightarrow> check_float_nary a n tys args = Inr (QualifiedType True t) \<Longrightarrow> \<forall>x \<in> set args. uniform x"
  by (auto simp: check_float_nary_def prim_Inr dest!: same_operands_uniform)

lemma size_of_uniform: "check_size_of a tys args = Inr (QualifiedType True t) \<Longrightarrow> \<forall>x \<in> set args. uniform x"
  by (auto simp: check_size_of_def prim_Inr)

lemma offset_of_uniform: "check_offset_of a tys args = Inr (QualifiedType True t) \<Longrightarrow> \<forall>x \<in> set args. uniform x"
  by (auto simp: check_offset_of_def prim_Inr dest: operand_is_hd)

lemma select_uniform:
  "check_types (config a) \<Longrightarrow> check_select a tys args = Inr (QualifiedType True t) \<Longrightarrow> \<forall>x \<in> set args. uniform x"
  by (auto simp: check_select_def select_alternative_def prim_Inr three_operands numeral_2_eq_2)

lemma extract_uniform:
  "check_types (config a) \<Longrightarrow> check_extract a ins tys args = Inr (QualifiedType True t) \<Longrightarrow> \<forall>x \<in> set args. uniform x"
  apply (cases args) apply (simp add: check_extract_def)
  apply (rename_tac x xs) apply (case_tac xs) apply (simp add: check_extract_def)
  apply (auto simp: check_extract_def prim_Inr split: if_splits dest!: enter_indices_uniform)
  done

lemma check_shuffle_Inr:
  assumes "check_shuffle a tys args = Inr r"
  obtains x y idx e lu ru lw rw u t where "args = x # y # idx" "ntype x = Some (QualifiedType lu (PackType e lw))"
    "ntype y = Some (QualifiedType ru (PackType e rw))"
    "fold_res (check_shuffle_index a (lw + rw)) idx (lu \<and> ru) = Inr u"
    "mk_type a (PackType e (length idx)) = Inr t" "shd_as_qualified_type a t u = Inr r"
proof -
  from assms obtain x y idx where args: "args = x # y # idx"
    by (cases args; cases "tl args") (auto simp: check_shuffle_def)
  from assms obtain lu lt ru rt where
    t: "ntype x = Some (QualifiedType lu lt)" "ntype y = Some (QualifiedType ru rt)"
    and r: "(case (lt, rt) of
            (PackType element_t lw, PackType relement_t rw) \<Rightarrow>
              require (element_t = relement_t)
                (bind_res (fold_res (check_shuffle_index a (lw + rw)) (drop 2 args) (lu \<and> ru)) (\<lambda>u.
                 bind_res (mk_type a (PackType element_t (length args - 2))) (\<lambda>t.
                   shd_as_qualified_type a t u)))
          | _ \<Rightarrow> Inl AssertFailed) = Inr r"
    unfolding args by (auto simp: check_shuffle_def bind_res_Inr_iff simp del: drop_Suc_Cons list.size)
  from r obtain e lw where l: "lt = PackType e lw" by (cases lt) auto
  from r l obtain e' rw where "rt = PackType e' rw" by (cases rt) auto
  with r l t args that show thesis by (auto simp: bind_res_Inr_iff)
qed

lemma shuffle_uniform:
  "check_types (config a) \<Longrightarrow> check_shuffle a tys args = Inr (QualifiedType True t) \<Longrightarrow> \<forall>x \<in> set args. uniform x"
  by (erule check_shuffle_Inr) (auto simp: prim_Inr dest!: shuffle_indices_uniform)

lemma cast_uniform:
  "check_types (config a) \<Longrightarrow> check_cast a legal tys args = Inr (QualifiedType True t) \<Longrightarrow> \<forall>x \<in> set args. uniform x"
  by (auto simp: check_cast_def prim_Inr dest: operand_is_hd)

lemma mask_active_uniform:
  "check_types (config a) \<Longrightarrow> check_mask_is_thread_active a tys args = Inr (QualifiedType True t) \<Longrightarrow> \<forall>x \<in> set args. uniform x"
  by (auto simp: check_mask_is_thread_active_def prim_Inr two_operands split: if_splits)

lemma sample_uniform:
  "check_types (config a) \<Longrightarrow> check_sample_texture a tys args \<noteq> Inr (QualifiedType True t)"
  by (auto simp: check_sample_texture_def prim_Inr split: ty.splits)


subsection \<open>Value types\<close>

lemma packed_value:
  "check_types (config a) \<Longrightarrow> shd_as_qualified_type a t u = Inr r \<Longrightarrow> shd_is_value_type a r = Inr True"
  by (auto simp: as_qualified_Inr value_type_iff check_type_node_def shd_check_type_qualified_type_def bind_res_Inr_iff)

lemma qualified_value:
  "check_types (config a) \<Longrightarrow> mk_type a (QualifiedType u t) = Inr r \<Longrightarrow> shd_is_value_type a r = Inr True"
  using packed_value [of a t u r] by (simp add: shd_as_qualified_type_def)

lemma element_data: "shd_get_maybe_packed_type_element a t = Inr e \<Longrightarrow> shd_is_data_type a t = Inr True"
  by (auto simp: shd_get_maybe_packed_type_element_def bind_res_Inr_iff maybe_packed_Inr)

lemma unary_value:
  "check_unary a P tys args = Inr t \<Longrightarrow> shd_is_value_type a t = Inr True"
  by (auto simp: check_unary_def bind_res_Inr_iff value_type_iff dest: element_data)

lemma case_sampled_InrE:
  assumes "(case t of SampledImageType (ImageType st d) \<Rightarrow> f st d | _ \<Rightarrow> Inl AssertFailed) = Inr r"
  obtains st d where "t = SampledImageType (ImageType st d)" "f st d = Inr r"
proof -
  from assms obtain im where im: "t = SampledImageType im" by (cases t) auto
  with assms show thesis using that by (cases im) auto
qed

lemma sample_value:
  "check_types (config a) \<Longrightarrow> check_sample_texture a tys args = Inr t \<Longrightarrow> shd_is_value_type a t = Inr True"
  by (auto simp: check_sample_texture_def bind_res_Inr_iff elim!: case_sampled_InrE intro: qualified_value)

lemma extract_value:
  "check_types (config a) \<Longrightarrow> check_extract a ins tys args = Inr t \<Longrightarrow> shd_is_value_type a t = Inr True"
  by (cases ins) (auto simp: check_extract_def bind_res_Inr_iff intro: qualified_value packed_value)

lemma shuffle_value:
  "check_types (config a) \<Longrightarrow> check_shuffle a tys args = Inr t \<Longrightarrow> shd_is_value_type a t = Inr True"
  by (erule check_shuffle_Inr) (auto intro: packed_value)


end
