(* ===== verification/IrCheckSound.thy ===== *)
theory IrCheckSound
  imports IrCheckProps
begin

text \<open>
  What accepted nodes satisfy: the types of primitive operations are value types, an operation is
  uniform only if all its operands are, calls and jumps are accepted exactly when their arguments
  fit the parameters; the values of integer literals; subtyping is a preorder.
\<close>

subsection \<open>Primitive operations\<close>

text \<open>
  C27: Whatever the type checker accepts as a primitive operation has a value type: a data type with a
  uniformity qualifier.
\<close>

theorem prim_op_value_type:
  assumes ct: "check_types (config a)" and ok: "shd_check_type_prim_op a op tys args = Inr t"
  shows "shd_is_value_type a t = Inr True"
proof -
  note facts = packed_value [OF ct] qualified_value [OF ct] unary_value sample_value [OF ct] extract_value [OF ct] shuffle_value [OF ct]
  have "check_shift a tys args = Inr t \<Longrightarrow> ?thesis" "\<And>e. check_arith a e tys args = Inr t \<Longrightarrow> ?thesis"
    "check_logic a tys args = Inr t \<Longrightarrow> ?thesis" "\<And>e. check_compare a e tys args = Inr t \<Longrightarrow> ?thesis"
    "\<And>P. check_math a P tys args = Inr t \<Longrightarrow> ?thesis" "\<And>n. check_float_nary a n tys args = Inr t \<Longrightarrow> ?thesis"
    "check_size_of a tys args = Inr t \<Longrightarrow> ?thesis" "check_offset_of a tys args = Inr t \<Longrightarrow> ?thesis"
    "check_select a tys args = Inr t \<Longrightarrow> ?thesis" "\<And>legal. check_cast a legal tys args = Inr t \<Longrightarrow> ?thesis"
    "check_mask_is_thread_active a tys args = Inr t \<Longrightarrow> ?thesis" "check_subgroup_assume_uniform a tys args = Inr t \<Longrightarrow> ?thesis"
    unfolding check_shift_def check_arith_def check_logic_def check_compare_def check_math_def check_float_nary_def
      check_size_of_def check_offset_of_def check_select_def check_cast_def check_mask_is_thread_active_def
      check_subgroup_assume_uniform_def size_type_def
    by (auto simp: bind_res_Inr_iff intro: facts)
  with ok facts show ?thesis
    by (auto simp: shd_check_type_prim_op_def bind_res_Inr_iff split: Op.splits)
qed
text \<open>
  C26: A primitive operation whose type is uniform has only uniform operands, for every operation except
  the one that asserts uniformity: divergence of an operand is never lost.
\<close>

theorem prim_op_uniform_sound:
  assumes ct: "check_types (config a)" and op: "op \<noteq> subgroup_assume_uniform_op"
    and ok: "shd_check_type_prim_op a op tys args = Inr (QualifiedType True t)"
  shows "\<forall>x \<in> set args. uniform x"
proof -
  note facts = unary_uniform shift_uniform [OF ct] arith_uniform [OF ct] logic_uniform [OF ct]
    compare_uniform [OF ct] math_uniform [OF ct] float_nary_uniform [OF ct] size_of_uniform
    offset_of_uniform select_uniform [OF ct] extract_uniform [OF ct] shuffle_uniform [OF ct]
    cast_uniform [OF ct] mask_active_uniform [OF ct]
  show ?thesis
    using ok op
    by (cases op)
      (simp_all add: shd_check_type_prim_op_def counts_def sample_uniform [OF ct],
        (elim conjE, drule facts, assumption)+)
qed

subsection \<open>Arguments and parameters\<close>

lemma arguments_accepted:
  "check_arguments_types_against_parameters_helper a ps ts = Inr u \<longleftrightarrow> are_sub a ps ts"
proof -
  have "length ps = length ts \<Longrightarrow>
      (\<exists>us. map_res (\<lambda>(p, t). shd_check_subtype a p t) (zip ps ts) = Inr us) \<longleftrightarrow> are_sub a ps ts"
    by (induction ps ts rule: list_induct2) (auto simp: bind_res_Inr_iff shd_check_subtype_def is_sub_def)
  then show ?thesis
    by (auto simp: check_arguments_types_against_parameters_helper_def bind_res_Inr_iff dest: list_all2_lengthD)
qed

lemma values_types_Inr:
  "check_types (config a) \<Longrightarrow> shd_get_values_types a ns = Inr ts \<longleftrightarrow> map ntype ns = map Some ts"
proof -
  have "map_res type_of ns = Inr ts \<longleftrightarrow> map ntype ns = map Some ts"
    by (induction ns arbitrary: ts) (auto simp: bind_res_Inr_iff Cons_eq_map_conv)
  then show "check_types (config a) \<Longrightarrow> ?thesis" by (simp add: shd_get_values_types_def)
qed

text \<open>
  C28: A jump is accepted exactly when its arguments are as many as the parameters of the target and each
  has a subtype of its parameter's type; its type is then the type of terminators.
\<close>

theorem jump_accepted_iff:
  assumes "check_types (config a)" and "get_block a b = Inr bb" and "shd_get_param_types (bb_params bb) = Inr ps"
    and "\<forall>x \<in> set args. is_value (pl x)"
  shows "shd_check_type_jump a b args = Inr t \<longleftrightarrow>
    t = NoRet \<and> (\<exists>ts. map ntype args = map Some ts \<and> are_sub a ps ts)"
  using assms
  by (auto simp: shd_check_type_jump_def check_basic_block_call_def block_type_def bind_res_Inr_iff
      mk_type_Inr values_types_Inr arguments_accepted check_type_node_def)

text \<open>
  C29: A call through a generic function pointer with one result is accepted exactly when the arguments
  fit the parameters one by one, and has the declared result type.
\<close>

theorem call_accepted_iff:
  assumes "check_types (config a)" and "is_value (pl callee)" and "\<forall>x \<in> set args. is_value (pl x)"
    and "ntype callee = Some (QualifiedType u (PtrType AsGeneric (FnType ps [r]) ref))"
  shows "shd_check_type_call a callee args = Inr t \<longleftrightarrow>
    t = r \<and> (\<exists>ts. map ntype args = map Some ts \<and> are_sub a ps ts)"
  using assms
  by (auto simp: shd_check_type_call_def check_value_call_def bind_res_Inr_iff shd_deconstruct_pointer_type_def
      values_types_Inr arguments_accepted shd_maybe_multiple_return_def)

subsection \<open>Conversions\<close>

definition example_config :: arena_config where
  "example_config =
     \<lparr>check_types = True, allow_fold = True, validate_builtin_types = True, is_simt = True,
      as_physical = (\<lambda>_. True), as_allowed = (\<lambda>_. True),
      subgroup_mask_representation = SubgroupMaskInt64, ptr_size = IntTy64, word_size = IntTy32,
      fold_static_control_flow = True, delete_unreachable_structured_cases = True\<rparr>"

definition example_arena :: arena where
  "example_arena = \<lparr>config = example_config, decls = [], blocks = []\<rparr>"

text \<open>
  A conversion between two pointers of which neither is in the generic address space is accepted,
  here from global to shared memory.
\<close>

theorem conversion_between_specific_pointers:
  "shd_is_conversion_legal example_arena (PtrType AsGlobal (Int_type IntTy32 False) False)
     (PtrType AsShared (Int_type IntTy32 False) False) = Inr True"
  by (simp add: shd_is_conversion_legal_def require_data_type_def shd_is_data_type_def convertible_def
      example_arena_def example_config_def shd_get_type_bitwidth_def)

subsection \<open>Integer literals\<close>

unbundle bit_operations_syntax

definition int_bits :: "IntSizes \<Rightarrow> nat" where
  "int_bits w = 8 * int_size_in_bytes w"

lemma and_masks:
  "(v::u64) AND 0xFF = take_bit 8 v" "v AND 0xFFFF = take_bit 16 v" "v AND 0xFFFFFFFF = take_bit 32 v"
  by (simp_all add: take_bit_eq_mask mask_eq_exp_minus_1)

lemma scast_take_bit:
  assumes "len = LENGTH('a::len)" "len < 64"
  shows "sint (scast (ucast (take_bit len v) :: 'a word) :: u64) = signed_take_bit (len - 1) (uint (v::u64))"
  using assms
  by transfer (simp add: min_def signed_take_bit_take_bit  take_bit_signed_take_bit)

lemma literal_unsigned: "uint (shd_get_int_literal_value (w, s, v) False) = take_bit (int_bits w) (uint v)"
  by (cases w) (simp_all add: shd_get_int_literal_value_def int_bits_def int_size_in_bytes_def and_masks
      unsigned_take_bit_eq bintr_uint)

lemma literal_signed: "sint (shd_get_int_literal_value (w, s, v) True) = signed_take_bit (int_bits w - 1) (uint v)"
  by (cases w) (simp_all add: shd_get_int_literal_value_def int_bits_def int_size_in_bytes_def and_masks scast_take_bit,
      simp add: sint_uint)

lemma int_bits_pos: "0 < int_bits w"
  by (cases w) (simp_all add: int_bits_def int_size_in_bytes_def)

text \<open>
  C31: Reading an integer literal of width \<open>b\<close> without sign extension gives the stored value modulo
  \<open>2 ^ b\<close>; with sign extension it gives the number congruent to it in the signed range of \<open>b\<close> bits.
\<close>

theorem int_literal_value:
  "let zero_extended = uint (shd_get_int_literal_value (w, s, v) False);
       sign_extended = sint (shd_get_int_literal_value (w, s, v) True)
   in zero_extended = uint v mod 2 ^ int_bits w
      \<and> sign_extended mod 2 ^ int_bits w = uint v mod 2 ^ int_bits w
      \<and> - (2 ^ (int_bits w - 1)) \<le> sign_extended \<and> sign_extended < 2 ^ (int_bits w - 1)"
proof -
  have "take_bit (int_bits w) (signed_take_bit (int_bits w - 1) (uint v)) = take_bit (int_bits w) (uint v)"
    using int_bits_pos [of w] by (simp add: take_bit_signed_take_bit)
  then show ?thesis
    by (simp add: literal_unsigned take_bit_eq_mod literal_signed
        signed_take_bit_int_greater_eq_minus_exp signed_take_bit_int_less_exp)
qed

subsection \<open>Annotations\<close>

lemma search_annotations_find:
  "fst (search_annotations anns name i) = List.find (\<lambda>an. get_annotation_name an = name) (drop i anns)"
proof (induction anns name i rule: search_annotations.induct)
  case (1 anns name i)
  show ?case
  proof (cases "i < length anns")
    case True
    then have "drop i anns = anns ! i # drop (Suc i) anns" by (simp add: Cons_nth_drop_Suc)
    with True 1 show ?thesis by (simp add: search_annotations.simps [of anns name i])
  qed (simp add: search_annotations.simps [of anns name i])
qed

lemma lookup_annotation_find:
  "shd_lookup_annotation d name = shd_lookup_annotation_list (get_declaration_annotations d) name"
  by (simp add: shd_lookup_annotation_def shd_lookup_annotation_list_def search_annotations_find)

text \<open>
  After the annotations of a name are filtered out none is found any more, and looking up any
  other name finds what it found before.
\<close>

theorem filter_out_annotation_lookup:
  "shd_lookup_annotation_list (shd_filter_out_annotation anns name) other =
     (if other = name then None else shd_lookup_annotation_list anns other)"
  by (induction anns) (auto simp: shd_lookup_annotation_list_def shd_filter_out_annotation_def)

subsection \<open>Subtyping\<close>

text \<open>
  C30: Subtyping is a preorder on types: reflexive, and transitive across every constructor, with
  the contravariant parameters of functions, blocks and join points and the unsized arrays.
\<close>

theorem subtype_preorder:
  "shd_is_subtype a t t = Inr True
   \<and> (shd_is_subtype a s t = Inr True \<and> shd_is_subtype a t u = Inr True \<longrightarrow> shd_is_subtype a s u = Inr True)"
  using is_sub_trans [of a s t u] by (simp add: is_sub_def)

subsection \<open>Witnesses\<close>

definition u32_value :: "bool \<Rightarrow> node" where
  "u32_value u = Node 1 (Param (QualifiedType u (Int_type IntTy32 False)) ''x'') (Some (QualifiedType u (Int_type IntTy32 False)))"

lemmas check_eval = shd_check_type_prim_op_def counts_def check_arith_def check_same_operands_def check_operand_def
  shd_get_maybe_packed_type_element_def shd_deconstruct_maybe_packed_type_def require_data_type_def
  shd_is_data_type_def shd_deconstruct_qualified_type_def shd_get_unqualified_type_def
  shd_as_qualified_type_def mk_type_def check_type_node_def shd_check_type_qualified_type_def
  example_arena_def example_config_def u32_value_def uniform_def

lemma example_sum:
  "shd_check_type_prim_op example_arena add_op [] [u32_value u, u32_value v] =
     Inr (QualifiedType (u \<and> v) (Int_type IntTy32 False))"
  by (simp add: check_eval)

lemma example_check_types: "check_types (config example_arena)"
  by (simp add: example_arena_def example_config_def)

theorem prim_op_value_type_witness:
  "shd_is_value_type example_arena (QualifiedType False (Int_type IntTy32 False)) = Inr True"
  using prim_op_value_type [OF example_check_types example_sum [of True False]] by simp

theorem prim_op_uniform_sound_witness: "uniform (u32_value True)"
  using prim_op_uniform_sound [OF example_check_types _ example_sum [of True True, simplified]] by simp

definition block_arena :: arena where
  "block_arena = example_arena\<lparr>blocks := [(7, \<lparr>bb_params = [u32_value True, u32_value False], bb_body = None\<rparr>)]\<rparr>"

lemma block_arena_block:
  "check_types (config block_arena)" 
  "get_block block_arena 7 = Inr \<lparr>bb_params = [u32_value True, u32_value False], bb_body = None\<rparr>"
  by (simp_all add: block_arena_def example_arena_def example_config_def get_block_def)

lemma u32_sub: "is_sub a (QualifiedType u (Int_type w s)) (QualifiedType v (Int_type w s)) \<longleftrightarrow> (u \<longrightarrow> v)"
  by (simp add: sub_qualified)

theorem jump_accepted_iff_witness:
  "shd_check_type_jump block_arena 7 [u32_value True, u32_value True] = Inr NoRet
   \<and> shd_check_type_jump block_arena 7 [u32_value False, u32_value True] \<noteq> Inr NoRet
   \<and> shd_check_type_jump block_arena 7 [u32_value True] \<noteq> Inr NoRet"
  using jump_accepted_iff [OF block_arena_block,
      of "[QualifiedType True (Int_type IntTy32 False), QualifiedType False (Int_type IntTy32 False)]"
         "[u32_value True, u32_value True]" NoRet]
    jump_accepted_iff [OF block_arena_block,
      of "[QualifiedType True (Int_type IntTy32 False), QualifiedType False (Int_type IntTy32 False)]"
         "[u32_value False, u32_value True]" NoRet]
    jump_accepted_iff [OF block_arena_block,
      of "[QualifiedType True (Int_type IntTy32 False), QualifiedType False (Int_type IntTy32 False)]"
         "[u32_value True]" NoRet]
  by (auto simp: shd_get_param_types_def u32_value_def u32_sub Cons_eq_map_conv)

definition fn_value :: node where
  "fn_value = Node 2 (Param NoRet ''f'') (Some (QualifiedType True (PtrType AsGeneric
     (FnType [QualifiedType True (Int_type IntTy32 False)] [QualifiedType False (Int_type IntTy32 False)]) False)))"

theorem call_accepted_iff_witness:
  "shd_check_type_call example_arena fn_value [u32_value True] = Inr (QualifiedType False (Int_type IntTy32 False))
   \<and> shd_check_type_call example_arena fn_value [u32_value False] \<noteq> Inr (QualifiedType False (Int_type IntTy32 False))"
  using call_accepted_iff [OF example_check_types, of fn_value "[u32_value True]" True
      "[QualifiedType True (Int_type IntTy32 False)]" "QualifiedType False (Int_type IntTy32 False)" False
      "QualifiedType False (Int_type IntTy32 False)"]
    call_accepted_iff [OF example_check_types, of fn_value "[u32_value False]" True
      "[QualifiedType True (Int_type IntTy32 False)]" "QualifiedType False (Int_type IntTy32 False)" False
      "QualifiedType False (Int_type IntTy32 False)"]
  by (simp add: fn_value_def u32_value_def u32_sub Cons_eq_map_conv)

theorem subtype_preorder_witness:
  "shd_is_subtype example_arena (QualifiedType False (ArrType Bool_type None)) (QualifiedType True (ArrType Bool_type None)) = Inr True"
  using subtype_preorder [of example_arena "QualifiedType False (ArrType Bool_type None)"
      "QualifiedType False (ArrType Bool_type None)" "QualifiedType True (ArrType Bool_type None)"]
  by (simp add: shd_is_subtype.simps [of _ "QualifiedType _ _"])

end
