(* ===== verification/IrLayout.thy ===== *)
theory IrLayout
  imports IrCheckSound
begin

text \<open>
  Sizes, alignments and field offsets: \<^verbatim>\<open>src/shady/ir/memory_layout.c\<close>, on the 64-bit \<^verbatim>\<open>size_t\<close> of
  the code. Nominal types are entered within the bound used for \<open>shd_is_data_type\<close>.
\<close>

lemma fold_res_cong [fundef_cong]:
  "xs = ys \<Longrightarrow> s = t \<Longrightarrow> (\<And>x s. x \<in> set ys \<Longrightarrow> f x s = g x s) \<Longrightarrow> fold_res f xs s = fold_res g ys t"
proof (induction xs arbitrary: ys s t)
  case (Cons x xs)
  then show ?case by (cases "g x t") auto
qed simp

definition layout_round_up :: "u64 \<Rightarrow> u64 \<Rightarrow> u64" where
  "layout_round_up a b = (if b = 0 then a else ((a + b - 1) div b) * b)"

record TypeMemLayout =
  ltype :: Type
  size_in_bytes :: u64
  alignment_in_bytes :: u64

record FieldLayout =
  fmem_layout :: TypeMemLayout
  offset_in_bytes :: u64

definition word_bytes :: "arena \<Rightarrow> u64" where
  "word_bytes a = of_nat (int_size_in_bytes (word_size (config a)))"

definition scalar_layout :: "arena \<Rightarrow> Type \<Rightarrow> nat \<Rightarrow> TypeMemLayout" where
  "scalar_layout a t n = \<lparr>ltype = t, size_in_bytes = of_nat n, alignment_in_bytes = max (of_nat n) (word_bytes a)\<rparr>"

definition has_layout :: "AddressSpace \<Rightarrow> bool" where
  "has_layout as = (as \<in> {AsPrivate, AsSubgroup, AsShared, AsGlobal, AsGeneric})"

text \<open>One turn of the loop over the members: the fields so far, the offset and the largest alignment.\<close>

definition place_member ::
  "TypeMemLayout \<Rightarrow> FieldLayout list \<times> u64 \<times> u64 \<Rightarrow> FieldLayout list \<times> u64 \<times> u64" where
  "place_member l s =
     (case s of (fs, offset, max_align) \<Rightarrow>
        let offset = layout_round_up offset (alignment_in_bytes l)
        in (fs @ [\<lparr>fmem_layout = l, offset_in_bytes = offset\<rparr>], offset + size_in_bytes l,
            if alignment_in_bytes l > max_align then alignment_in_bytes l else max_align))"

fun mem_layout :: "nat \<Rightarrow> arena \<Rightarrow> Type \<Rightarrow> TypeMemLayout result" where
  "mem_layout fuel a (FnType _ _) = Inl (ShdError ''Functions have an opaque memory representation'')"
| "mem_layout fuel a (PtrType as _ _) =
     (if has_layout as
      then bind_res (mk_type a (Int_type (ptr_size (config a)) False)) (\<lambda>t.
             Inr (scalar_layout a t (int_size_in_bytes (ptr_size (config a)))))
      else Inl (ShdError ''Pointers in this address space do not have a defined memory layout''))"
| "mem_layout fuel a (Int_type w s) = Inr (scalar_layout a (Int_type w s) (int_size_in_bytes w))"
| "mem_layout fuel a (Float_type w) = Inr (scalar_layout a (Float_type w) (float_size_in_bytes w))"
| "mem_layout fuel a Bool_type =
     Inr \<lparr>ltype = Bool_type, size_in_bytes = word_bytes a, alignment_in_bytes = word_bytes a\<rparr>"
| "mem_layout fuel a (ArrType t sz) =
     require (sz \<noteq> None)
       (bind_res (literal_size a sz) (\<lambda>actual_size.
        bind_res (mem_layout fuel a t) (\<lambda>l.
          Inr \<lparr>ltype = ArrType t sz, size_in_bytes = actual_size * size_in_bytes l,
               alignment_in_bytes = alignment_in_bytes l\<rparr>)))"
| "mem_layout fuel a (PackType t width) =
     bind_res (mem_layout fuel a t) (\<lambda>l.
       Inr \<lparr>ltype = PackType t width, size_in_bytes = of_nat width * size_in_bytes l,
            alignment_in_bytes = alignment_in_bytes l\<rparr>)"
| "mem_layout fuel a (QualifiedType _ t) = mem_layout fuel a t"
| "mem_layout 0 a (TypeDeclRef d) = Inl OutOfFuel"
| "mem_layout (Suc fuel) a (TypeDeclRef d) =
     bind_res (get_decl a d) (\<lambda>decl.
       case decl of
         NominalType _ _ (Some body) \<Rightarrow> mem_layout fuel a body
       | NominalType _ _ None \<Rightarrow> Inl NullDeref
       | _ \<Rightarrow> Inl OutOfBounds)"
| "mem_layout fuel a (RecordType members names special) =
     bind_res (fold_res (\<lambda>t s. bind_res (mem_layout fuel a t) (\<lambda>l. Inr (place_member l s))) members ([], 0, 0))
       (\<lambda>(fs, offset, max_align).
          Inr \<lparr>ltype = RecordType members names special, size_in_bytes = layout_round_up offset max_align,
               alignment_in_bytes = max_align\<rparr>)"
| "mem_layout fuel a _ = Inl (ShdError ''not a known type'')"

definition shd_get_mem_layout :: "arena \<Rightarrow> Type \<Rightarrow> TypeMemLayout result" where
  "shd_get_mem_layout a t = mem_layout (Suc (length (decls a))) a t"

text \<open>The layout of a record with the fields it writes out.\<close>

definition shd_get_record_layout :: "arena \<Rightarrow> Type \<Rightarrow> (TypeMemLayout \<times> FieldLayout list) result" where
  "shd_get_record_layout a t =
     (case t of
        RecordType members _ _ \<Rightarrow>
          bind_res (fold_res (\<lambda>t s. bind_res (shd_get_mem_layout a t) (\<lambda>l. Inr (place_member l s))) members ([], 0, 0))
            (\<lambda>(fs, offset, max_align).
               Inr (\<lparr>ltype = t, size_in_bytes = layout_round_up offset max_align, alignment_in_bytes = max_align\<rparr>, fs))
      | _ \<Rightarrow> Inl AssertFailed)"

definition shd_get_record_field_offset_in_bytes :: "arena \<Rightarrow> Type \<Rightarrow> nat \<Rightarrow> u64 result" where
  "shd_get_record_field_offset_in_bytes a t i =
     (case t of
        RecordType members _ _ \<Rightarrow>
          require (i < length members)
            (bind_res (shd_get_record_layout a t) (\<lambda>(_, fs). Inr (offset_in_bytes (fs ! i))))
      | _ \<Rightarrow> Inl AssertFailed)"

definition shd_bytes_to_words_static :: "arena \<Rightarrow> u64 \<Rightarrow> u64" where
  "shd_bytes_to_words_static a b = b div word_bytes a"

definition shd_float_to_int_width :: "FloatSizes \<Rightarrow> IntSizes" where
  "shd_float_to_int_width w = (case w of FloatTy16 \<Rightarrow> IntTy16 | FloatTy32 \<Rightarrow> IntTy32 | FloatTy64 \<Rightarrow> IntTy64)"

subsection \<open>Rounding\<close>

lemma round_up_nat:
  assumes "unat a + unat b < 2 ^ 64" and "b \<noteq> 0"
  shows "unat (layout_round_up a b) = ((unat a + unat b - 1) div unat b) * unat b"
proof -
  have b: "0 < unat b" using assms(2) by (simp add: unat_gt_0)
  have "unat (a + b) = unat a + unat b" using assms(1) by (simp add: unat_word_ariths)
  then have s: "unat (a + b - 1) = unat a + unat b - 1"
    using b by (subst unat_sub) (auto simp: word_le_nat_alt)
  have "(unat a + unat b - 1) div unat b * unat b \<le> unat a + unat b - 1" by simp
  then have "(unat a + unat b - 1) div unat b * unat b < 2 ^ 64" using assms(1) by linarith
  with s show ?thesis
    using assms(2) by (simp add: layout_round_up_def unat_word_ariths unat_div mod_mult_left_eq)
qed

lemma round_up_spec:
  assumes "unat a + unat b < 2 ^ 64"
  shows "unat a \<le> unat (layout_round_up a b) \<and> unat (layout_round_up a b) \<le> unat a + unat b
    \<and> (b \<noteq> 0 \<longrightarrow> unat b dvd unat (layout_round_up a b))"
proof (cases "b = 0")
  case False
  then have b: "0 < unat b" by (simp add: unat_gt_0)
  let ?q = "(unat a + unat b - 1) div unat b"
  have "unat a + unat b - 1 = ?q * unat b + (unat a + unat b - 1) mod unat b" by simp
  moreover have "(unat a + unat b - 1) mod unat b < unat b" using b by simp
  ultimately have "unat a \<le> ?q * unat b" "?q * unat b \<le> unat a + unat b" using b by linarith+
  then show ?thesis using round_up_nat [OF assms False] by simp
qed (simp add: layout_round_up_def)

subsection \<open>Records\<close>

text \<open>
  The fields placed so far are in order, aligned and end before the offset reached, which needs at
  most the room of the members' sizes and alignments.
\<close>

definition demand :: "TypeMemLayout list \<Rightarrow> nat" where
  "demand ls = sum_list (map (\<lambda>l. unat (size_in_bytes l) + unat (alignment_in_bytes l)) ls)"

definition field_end :: "FieldLayout \<Rightarrow> nat" where
  "field_end f = unat (offset_in_bytes f) + unat (size_in_bytes (fmem_layout f))"

definition placed :: "TypeMemLayout list \<Rightarrow> FieldLayout list \<times> u64 \<times> u64 \<Rightarrow> bool" where
  "placed ls s = (case s of (fs, offset, max_align) \<Rightarrow>
     map fmem_layout fs = ls
     \<and> unat offset \<le> demand ls
     \<and> (\<forall>f \<in> set fs. alignment_in_bytes (fmem_layout f) \<noteq> 0 \<longrightarrow>
          unat (alignment_in_bytes (fmem_layout f)) dvd unat (offset_in_bytes f))
     \<and> (\<forall>f \<in> set fs. field_end f \<le> unat offset)
     \<and> sorted_wrt (\<lambda>f g. field_end f \<le> unat (offset_in_bytes g)) fs
     \<and> (\<forall>f \<in> set fs. alignment_in_bytes (fmem_layout f) \<le> max_align)
     \<and> (max_align = 0 \<or> max_align \<in> alignment_in_bytes ` set ls))"

lemma place_member_placed:
  assumes "placed ls s" and "demand (ls @ [l]) < 2 ^ 64"
  shows "placed (ls @ [l]) (place_member l s)"
proof -
  obtain fs offset m where s: "s = (fs, offset, m)" by (cases s)
  from assms(1) have p: "map fmem_layout fs = ls" "unat offset \<le> demand ls"
    "\<forall>f \<in> set fs. field_end f \<le> unat offset" by (simp_all add: placed_def s)
  let ?o = "layout_round_up offset (alignment_in_bytes l)"
  have d: "demand (ls @ [l]) = demand ls + unat (size_in_bytes l) + unat (alignment_in_bytes l)"
    by (simp add: demand_def)
  have "unat offset + unat (alignment_in_bytes l) < 2 ^ 64" using p(2) d assms(2) by linarith
  from round_up_spec [OF this] have o: "unat offset \<le> unat ?o" "unat ?o \<le> unat offset + unat (alignment_in_bytes l)"
    "alignment_in_bytes l \<noteq> 0 \<longrightarrow> unat (alignment_in_bytes l) dvd unat ?o" by auto
  have "unat ?o + unat (size_in_bytes l) < 2 ^ 64" using o(2) p(2) d assms(2) by linarith
  then have e: "unat (?o + size_in_bytes l) = unat ?o + unat (size_in_bytes l)" by (simp add: unat_word_ariths)
  have "unat (?o + size_in_bytes l) \<le> demand (ls @ [l])" using e o(2) p(2) d by linarith
  moreover have ends: "\<forall>f \<in> set fs. field_end f \<le> unat ?o" using p(3) o(1) by (meson order_trans)
  moreover have "\<forall>f \<in> set fs. field_end f \<le> unat (?o + size_in_bytes l)"
    unfolding e using ends by (meson trans_le_add1)
  moreover have "field_end \<lparr>fmem_layout = l, offset_in_bytes = ?o\<rparr> = unat (?o + size_in_bytes l)"
    using e by (simp add: field_end_def)
  ultimately show ?thesis
    using assms(1) o
    by (auto simp: placed_def s place_member_def Let_def sorted_wrt_append word_gt_0 split: if_splits)
qed

lemma demand_append: "demand (xs @ ys) = demand xs + demand ys"
  by (simp add: demand_def)

lemma place_members_placed:
  assumes "fold_res (\<lambda>t s. bind_res (L t) (\<lambda>l. Inr (place_member l s))) ts s = Inr r"
    and "placed ls s" and "map_res L ts = Inr ks" and "demand (ls @ ks) < 2 ^ 64"
  shows "placed (ls @ ks) r"
  using assms
proof (induction ts arbitrary: ls s ks)
  case (Cons t ts)
  from Cons.prems(3) obtain k ks' where k: "L t = Inr k" "map_res L ts = Inr ks'" "ks = k # ks'"
    by (auto simp: bind_res_Inr_iff)
  have "demand (ls @ [k]) < 2 ^ 64" using Cons.prems(4) k(3) by (simp add: demand_def)
  from place_member_placed [OF Cons.prems(2) this] Cons.IH [of "place_member k s" "ls @ [k]" ks'] Cons.prems(1,4) k
  show ?case by simp
qed simp

lemma place_members_layouts:
  "fold_res (\<lambda>t s. bind_res (L t) (\<lambda>l. Inr (place_member l s))) ts s = Inr r \<Longrightarrow> \<exists>ks. map_res L ts = Inr ks"
proof (induction ts arbitrary: s)
  case (Cons t ts)
  then obtain k where "L t = Inr k" "fold_res (\<lambda>t s. bind_res (L t) (\<lambda>l. Inr (place_member l s))) ts (place_member k s) = Inr r"
    by (auto simp: bind_res_Inr_iff)
  with Cons.IH [of "place_member k s"] show ?case by auto
qed simp

lemma place_members_fields:
  "fold_res (\<lambda>t s. bind_res (L t) (\<lambda>l. Inr (place_member l s))) ts s = Inr r \<Longrightarrow> map_res L ts = Inr ks
     \<Longrightarrow> map fmem_layout (fst r) = map fmem_layout (fst s) @ ks"
proof (induction ts arbitrary: s ks)
  case (Cons t ts)
  from Cons.prems obtain k ks' where k: "L t = Inr k" "map_res L ts = Inr ks'" "ks = k # ks'"
    "fold_res (\<lambda>t s. bind_res (L t) (\<lambda>l. Inr (place_member l s))) ts (place_member k s) = Inr r"
    by (auto simp: bind_res_Inr_iff)
  from Cons.IH [OF k(4,2)] k(3) show ?case by (cases s) (simp add: place_member_def Let_def)
qed simp

text \<open>
  C38: In the layout of a record whose members' sizes and alignments add up to less than \<open>2 ^ 64\<close>,
  every field starts at a multiple of its alignment, behind the end of all earlier fields and ends
  inside the record, and the size of the record is a multiple of its alignment.
\<close>

theorem record_layout_sound:
  assumes ok: "shd_get_record_layout a t = Inr (l, fs)"
    and room: "demand (map fmem_layout fs) + unat (alignment_in_bytes l) < 2 ^ 64"
  shows "sorted_wrt (\<lambda>f g. field_end f \<le> unat (offset_in_bytes g)) fs
    \<and> list_all (\<lambda>f. field_end f \<le> unat (size_in_bytes l)
         \<and> (alignment_in_bytes (fmem_layout f) \<noteq> 0 \<longrightarrow>
              unat (alignment_in_bytes (fmem_layout f)) dvd unat (offset_in_bytes f))) fs
    \<and> (alignment_in_bytes l \<noteq> 0 \<longrightarrow> unat (alignment_in_bytes l) dvd unat (size_in_bytes l))"
proof -
  from ok obtain members names special offset m where t: "t = RecordType members names special"
    and fold: "fold_res (\<lambda>t s. bind_res (shd_get_mem_layout a t) (\<lambda>l. Inr (place_member l s))) members ([], 0, 0)
      = Inr (fs, offset, m)"
    and l: "l = \<lparr>ltype = t, size_in_bytes = layout_round_up offset m, alignment_in_bytes = m\<rparr>"
    by (cases t) (auto simp: shd_get_record_layout_def bind_res_Inr_iff)
  from place_members_layouts [OF fold] obtain ks where ks: "map_res (shd_get_mem_layout a) members = Inr ks" by blast
  from place_members_fields [OF fold ks] have fields: "map fmem_layout fs = ks" by simp
  have "placed [] ([], 0, 0)" by (simp add: placed_def demand_def)
  from place_members_placed [OF fold this ks] room fields have p: "placed ks (fs, offset, m)" by simp
  then have "unat offset + unat m < 2 ^ 64" using room fields by (simp add: placed_def l)
  from round_up_spec [OF this] p show ?thesis
    by (auto simp: placed_def l list_all_iff intro: order_trans)
qed

theorem record_layout_sound_witness:
  "\<exists>l fs. shd_get_record_layout example_arena (RecordType [Int_type IntTy8 False, Int_type IntTy64 False] [] NotSpecial) = Inr (l, fs)
     \<and> sorted_wrt (\<lambda>f g. field_end f \<le> unat (offset_in_bytes g)) fs \<and> map offset_in_bytes fs = [0, 8]"
proof -
  let ?f = "\<lambda>w n i. \<lparr>fmem_layout = \<lparr>ltype = Int_type w False, size_in_bytes = n, alignment_in_bytes = max n 4\<rparr>, offset_in_bytes = i\<rparr>"
  let ?fs = "[?f IntTy8 1 0, ?f IntTy64 8 8]"
  let ?t = "RecordType [Int_type IntTy8 False, Int_type IntTy64 False] [] NotSpecial"
  have "shd_get_record_layout example_arena ?t = Inr (\<lparr>ltype = ?t, size_in_bytes = 16, alignment_in_bytes = 8\<rparr>, ?fs)"
    by (simp add: shd_get_record_layout_def shd_get_mem_layout_def scalar_layout_def word_bytes_def example_arena_def
        example_config_def place_member_def layout_round_up_def int_size_in_bytes_def max_def Let_def)
  from record_layout_sound [OF this] this show ?thesis
    by (simp add: demand_def max_def)
qed

text \<open>
  With 32-bit words a byte is given an alignment of four bytes, but packs and arrays place bytes
  next to each other: the elements behind the first are not aligned.
\<close>

theorem packed_bytes_misaligned:
  "shd_get_mem_layout example_arena (Int_type IntTy8 s)
     = Inr \<lparr>ltype = Int_type IntTy8 s, size_in_bytes = 1, alignment_in_bytes = 4\<rparr>
   \<and> shd_get_mem_layout example_arena (PackType (Int_type IntTy8 s) n)
     = Inr \<lparr>ltype = PackType (Int_type IntTy8 s) n, size_in_bytes = of_nat n, alignment_in_bytes = 4\<rparr>"
  by (simp add: shd_get_mem_layout_def scalar_layout_def word_bytes_def example_arena_def example_config_def
      int_size_in_bytes_def max_def)

end
