(* ===== verification/IrFold.thy ===== *)
theory IrFold
  imports IrCheckSound
begin

text \<open>
  The creation of nodes with its folding: \<^verbatim>\<open>src/shady/ir/grammar.c\<close> and \<^verbatim>\<open>src/shady/fold.c\<close>. A
  constructor replaces the operands that carry a memory token, type-checks the node and folds it.
  The folding rules call constructors: they take the constructor \<open>mk\<close> as an argument, and
  \<open>create_node\<close> ties the knot with fuel for the depth of such calls.

  Floating-point numbers are those of the host: their operations are the fields of a record that
  every definition takes.
\<close>

unbundle bit_operations_syntax

subsection \<open>The host's floating-point numbers\<close>

record 'd float_ops =
  d_of_float :: "u32 \<Rightarrow> 'd"          \<comment> \<open>the number a \<^verbatim>\<open>float\<close> of these bits stands for\<close>
  float_of_d :: "'d \<Rightarrow> u32"
  d_of_bits :: "u64 \<Rightarrow> 'd"
  bits_of_d :: "'d \<Rightarrow> u64"
  d_neg :: "'d \<Rightarrow> 'd"
  d_add :: "'d \<Rightarrow> 'd \<Rightarrow> 'd"
  d_sub :: "'d \<Rightarrow> 'd \<Rightarrow> 'd"
  d_mul :: "'d \<Rightarrow> 'd \<Rightarrow> 'd"
  d_div :: "'d \<Rightarrow> 'd \<Rightarrow> 'd"
  d_fmod :: "'d \<Rightarrow> 'd \<Rightarrow> 'd"
  d_of_u64 :: "u64 \<Rightarrow> 'd"
  d_to_i64 :: "'d \<Rightarrow> u64"
  d_to_u64 :: "'d \<Rightarrow> u64"

type_synonym constructor = "payload \<Rightarrow> node result"

definition shd_fp_literal_helper :: "'d float_ops \<Rightarrow> constructor \<Rightarrow> FloatSizes \<Rightarrow> 'd \<Rightarrow> node result" where
  "shd_fp_literal_helper F mk sz v =
     (case sz of
        FloatTy16 \<Rightarrow> Inl AssertFailed
      | FloatTy32 \<Rightarrow> mk (FloatLiteral sz (ucast (float_of_d F v)))
      | FloatTy64 \<Rightarrow> mk (FloatLiteral sz (bits_of_d F v)))"

definition shd_get_float_literal_value :: "'d float_ops \<Rightarrow> float_lit \<Rightarrow> 'd result" where
  "shd_get_float_literal_value F lit =
     (case lit of (w, v) \<Rightarrow>
        case w of
          FloatTy16 \<Rightarrow> Inl (ShdError ''TODO: fp16 literals'')
        | FloatTy32 \<Rightarrow> Inr (d_of_float F (ucast v))
        | FloatTy64 \<Rightarrow> Inr (d_of_bits F v))"

subsection \<open>Constant operands\<close>

definition literal_is :: "arena \<Rightarrow> u64 \<Rightarrow> node \<Rightarrow> bool result" where
  "literal_is a v n =
     bind_res (shd_resolve_to_int_literal a (Some n)) (\<lambda>lit.
       Inr (case lit of Some l \<Rightarrow> shd_get_int_literal_value l False = v | None \<Rightarrow> False))"

definition is_zero :: "arena \<Rightarrow> node \<Rightarrow> bool result" where
  "is_zero a n = literal_is a 0 n"

definition is_one :: "arena \<Rightarrow> node \<Rightarrow> bool result" where
  "is_one a n = literal_is a 1 n"

text \<open>\<open>Some\<close> all the literals if every operand is one.\<close>

definition all_literals :: "'l option list \<Rightarrow> 'l list option" where
  "all_literals ls = (if None \<in> set ls then None else Some (map the ls))"

text \<open>Reading an array at a position.\<close>

definition nth_res :: "'l list \<Rightarrow> nat \<Rightarrow> 'l result" where
  "nth_res ls i = (if i < length ls then Inr (ls ! i) else Inl OutOfBounds)"

text \<open>
  \<^verbatim>\<open>UN_OP\<close> and \<^verbatim>\<open>BIN_OP\<close>: on integers the 64-bit values are combined, with the width and sign of
  the last literal; on floats the numbers they stand for.
\<close>

definition fold_int :: "constructor \<Rightarrow> int_lit list \<Rightarrow> u64 result \<Rightarrow> node option result" where
  "fold_int mk ints v =
     bind_res (if ints = [] then Inl OutOfBounds else Inr (last ints)) (\<lambda>(width, is_signed, _).
     bind_res v (\<lambda>v. bind_res (mk (IntLiteral width is_signed v)) (\<lambda>n. Inr (Some n))))"

definition fold_float :: "'d float_ops \<Rightarrow> constructor \<Rightarrow> float_lit list \<Rightarrow> 'd result \<Rightarrow> node option result" where
  "fold_float F mk floats v =
     bind_res (if floats = [] then Inl OutOfBounds else Inr (last floats)) (\<lambda>(width, _).
     bind_res v (\<lambda>v. bind_res (shd_fp_literal_helper F mk width v) (\<lambda>n. Inr (Some n))))"

definition un_op ::
  "'d float_ops \<Rightarrow> constructor \<Rightarrow> (u64 \<Rightarrow> u64 result) \<Rightarrow> ('d \<Rightarrow> 'd) \<Rightarrow> int_lit list option \<Rightarrow> float_lit list option
     \<Rightarrow> node option result" where
  "un_op F mk iop fop ints floats =
     (case ints of
        Some ls \<Rightarrow> fold_int mk ls (bind_res (nth_res ls 0) (\<lambda>(_, _, v). iop v))
      | None \<Rightarrow>
          (case floats of
             Some fs \<Rightarrow> fold_float F mk fs (bind_res (bind_res (nth_res fs 0) (shd_get_float_literal_value F)) (\<lambda>v. Inr (fop v)))
           | None \<Rightarrow> Inr None))"

definition bin_op ::
  "'d float_ops \<Rightarrow> constructor \<Rightarrow> (u64 \<Rightarrow> u64 \<Rightarrow> u64 result) \<Rightarrow> ('d \<Rightarrow> 'd \<Rightarrow> 'd)
     \<Rightarrow> int_lit list option \<Rightarrow> float_lit list option \<Rightarrow> node option result" where
  "bin_op F mk iop fop ints floats =
     (case ints of
        Some ls \<Rightarrow>
          fold_int mk ls (bind_res (nth_res ls 0) (\<lambda>(_, _, v). bind_res (nth_res ls 1) (\<lambda>(_, _, w). iop v w)))
      | None \<Rightarrow>
          (case floats of
             Some fs \<Rightarrow>
               fold_float F mk fs
                 (bind_res (bind_res (nth_res fs 0) (shd_get_float_literal_value F)) (\<lambda>v.
                  bind_res (bind_res (nth_res fs 1) (shd_get_float_literal_value F)) (\<lambda>w. Inr (fop v w))))
           | None \<Rightarrow> Inr None))"

definition div_u64 :: "u64 \<Rightarrow> u64 \<Rightarrow> u64 result" where
  "div_u64 v w = (if w = 0 then Inl DivisionByZero else Inr (v div w))"

definition mod_u64 :: "u64 \<Rightarrow> u64 \<Rightarrow> u64 result" where
  "mod_u64 v w = (if w = 0 then Inl DivisionByZero else Inr (v mod w))"

definition fold_reinterpret ::
  "constructor \<Rightarrow> Type list \<Rightarrow> int_lit option list \<Rightarrow> float_lit option list \<Rightarrow> node option result" where
  "fold_reinterpret mk tys int_literals float_literals =
     bind_res (shd_first tys) (\<lambda>dst_t.
     bind_res (nth_res int_literals 0) (\<lambda>i.
     bind_res (case i of Some (_, _, v) \<Rightarrow> Inr v
               | None \<Rightarrow> bind_res (nth_res float_literals 0) (\<lambda>f. bind_res (deref f) (\<lambda>(_, v). Inr v))) (\<lambda>raw_value.
       case dst_t of
         Int_type width is_signed \<Rightarrow> bind_res (mk (IntLiteral width is_signed raw_value)) (\<lambda>n. Inr (Some n))
       | Float_type width \<Rightarrow> bind_res (mk (FloatLiteral width raw_value)) (\<lambda>n. Inr (Some n))
       | _ \<Rightarrow> Inr None)))"

definition width_mask :: "u64 \<Rightarrow> u64 result" where
  "width_mask bw = (if bw = 64 then Inr (- 1) else if bw < 64 then Inr (NOT (push_bit (unat bw) (- 1))) else Inl BadShift)"

definition fold_convert ::
  "'d float_ops \<Rightarrow> arena \<Rightarrow> constructor \<Rightarrow> Type list \<Rightarrow> int_lit list option \<Rightarrow> float_lit list option \<Rightarrow> node option result" where
  "fold_convert F a mk tys ints floats =
     bind_res (shd_first tys) (\<lambda>dst_t.
     bind_res (width_mask (shd_get_type_bitwidth a dst_t)) (\<lambda>bitmask.
       case dst_t of
         Int_type width is_signed \<Rightarrow>
           (case (ints, floats) of
              (Some ls, _) \<Rightarrow>
                bind_res (nth_res ls 0) (\<lambda>lit.
                let old_value = shd_get_int_literal_value lit (fst (snd lit))
                in bind_res (mk (IntLiteral width is_signed (old_value AND bitmask))) (\<lambda>n. Inr (Some n)))
            | (None, Some fs) \<Rightarrow>
                bind_res (bind_res (nth_res fs 0) (shd_get_float_literal_value F)) (\<lambda>old_value.
                bind_res (mk (IntLiteral width is_signed (d_to_i64 F old_value))) (\<lambda>n. Inr (Some n)))
            | _ \<Rightarrow> Inr None)
       | Float_type width \<Rightarrow>
           (case (ints, floats) of
              (Some ls, _) \<Rightarrow>
                bind_res (nth_res ls 0) (\<lambda>lit.
                let old_value = shd_get_int_literal_value lit (fst (snd lit))
                in bind_res (shd_fp_literal_helper F mk width (d_of_u64 F old_value)) (\<lambda>n. Inr (Some n)))
            | (None, Some fs) \<Rightarrow>
                bind_res (bind_res (nth_res fs 0) (shd_get_float_literal_value F)) (\<lambda>old_value.
                bind_res (mk (FloatLiteral width (d_to_u64 F old_value))) (\<lambda>n. Inr (Some n)))
            | _ \<Rightarrow> Inr None)
       | _ \<Rightarrow> Inr None))"

definition fold_constant_math ::
  "'d float_ops \<Rightarrow> arena \<Rightarrow> constructor \<Rightarrow> Op \<Rightarrow> Type list \<Rightarrow> node list \<Rightarrow> node option result" where
  "fold_constant_math F a mk op tys args =
     bind_res (map_res (\<lambda>n. shd_resolve_to_int_literal a (Some n)) args) (\<lambda>int_literals.
     bind_res (map_res (\<lambda>n. shd_resolve_to_float_literal a (Some n)) args) (\<lambda>float_literals.
     let ints = all_literals int_literals; floats = all_literals float_literals
     in if ints = None \<and> floats = None then Inr None
        else case op of
          neg_op \<Rightarrow> un_op F mk (\<lambda>v. Inr (- v)) (d_neg F) ints floats
        | add_op \<Rightarrow> bin_op F mk (\<lambda>v w. Inr (v + w)) (d_add F) ints floats
        | sub_op \<Rightarrow> bin_op F mk (\<lambda>v w. Inr (v - w)) (d_sub F) ints floats
        | mul_op \<Rightarrow> bin_op F mk (\<lambda>v w. Inr (v * w)) (d_mul F) ints floats
        | div_op \<Rightarrow> bin_op F mk div_u64 (d_div F) ints floats
        | mod_op \<Rightarrow> bin_op F mk mod_u64 (d_fmod F) ints floats
        | reinterpret_op \<Rightarrow> fold_reinterpret mk tys int_literals float_literals
        | convert_op \<Rightarrow> fold_convert F a mk tys ints floats
        | _ \<Rightarrow> Inr None))"

subsection \<open>Algebraic simplifications\<close>

text \<open>The first position among \<open>is\<close> whose operand satisfies a test.\<close>

fun first_operand :: "(node \<Rightarrow> bool result) \<Rightarrow> node list \<Rightarrow> nat list \<Rightarrow> nat option result" where
  "first_operand P args [] = Inr None"
| "first_operand P args (i # idx) =
     bind_res (nth_res args i) (\<lambda>n. bind_res (P n) (\<lambda>b. if b then Inr (Some i) else first_operand P args idx))"

definition simplify_add :: "arena \<Rightarrow> node list \<Rightarrow> node option result" where
  "simplify_add a args =
     bind_res (first_operand (is_zero a) args [0, 1]) (\<lambda>z.
       case z of None \<Rightarrow> Inr None | Some i \<Rightarrow> bind_res (nth_res args (1 - i)) (\<lambda>n. Inr (Some n)))"

definition simplify_sub :: "arena \<Rightarrow> constructor \<Rightarrow> node list \<Rightarrow> node option result" where
  "simplify_sub a mk args =
     bind_res (nth_res args 1) (\<lambda>y. bind_res (is_zero a y) (\<lambda>b.
     bind_res (nth_res args 0) (\<lambda>x.
       if b then Inr (Some x)
       else bind_res (is_zero a x) (\<lambda>b.
              if b then bind_res (mk (PrimOp neg_op [] [y])) (\<lambda>n. Inr (Some n)) else Inr None))))"

definition simplify_mul :: "arena \<Rightarrow> node list \<Rightarrow> node option result" where
  "simplify_mul a args =
     bind_res (first_operand (is_zero a) args [0, 1]) (\<lambda>z.
       case z of
         Some i \<Rightarrow> bind_res (nth_res args i) (\<lambda>n. Inr (Some n))
       | None \<Rightarrow>
           bind_res (first_operand (is_one a) args [0, 1]) (\<lambda>o1.
             case o1 of None \<Rightarrow> Inr None | Some i \<Rightarrow> bind_res (nth_res args (1 - i)) (\<lambda>n. Inr (Some n))))"

definition simplify_div :: "arena \<Rightarrow> node list \<Rightarrow> node option result" where
  "simplify_div a args =
     bind_res (nth_res args 1) (\<lambda>y. bind_res (is_one a y) (\<lambda>b.
       if b then bind_res (nth_res args 0) (\<lambda>x. Inr (Some x)) else Inr None))"

definition simplify_same :: "constructor \<Rightarrow> payload \<Rightarrow> node list \<Rightarrow> node option result" where
  "simplify_same mk lit args =
     bind_res (nth_res args 0) (\<lambda>x. bind_res (nth_res args 1) (\<lambda>y.
       if x = y then bind_res (mk lit) (\<lambda>n. Inr (Some n)) else Inr None))"

definition fold_simplify_math :: "arena \<Rightarrow> constructor \<Rightarrow> Op \<Rightarrow> node list \<Rightarrow> node option result" where
  "fold_simplify_math a mk op args =
     (case op of
        add_op \<Rightarrow> simplify_add a args
      | sub_op \<Rightarrow> simplify_sub a mk args
      | mul_op \<Rightarrow> simplify_mul a args
      | div_op \<Rightarrow> simplify_div a args
      | eq_op \<Rightarrow> simplify_same mk TrueLit args
      | neq_op \<Rightarrow> simplify_same mk FalseLit args
      | _ \<Rightarrow> Inr None)"

definition fold_prim_op :: "'d float_ops \<Rightarrow> arena \<Rightarrow> constructor \<Rightarrow> node \<Rightarrow> Op \<Rightarrow> Type list \<Rightarrow> node list \<Rightarrow> node result" where
  "fold_prim_op F a mk node op tys args =
     bind_res (fold_constant_math F a mk op tys args) (\<lambda>applied_fold.
       case applied_fold of Some n \<Rightarrow> Inr n
       | None \<Rightarrow>
     bind_res (fold_simplify_math a mk op args) (\<lambda>applied_fold.
       case applied_fold of Some n \<Rightarrow> Inr n
       | None \<Rightarrow>
           if op = subgroup_assume_uniform_op
           then bind_res (shd_first args) (\<lambda>v. bind_res (type_of v) (\<lambda>t.
                bind_res (shd_is_qualified_type_uniform t) (\<lambda>u. Inr (if u then v else node))))
           else if op \<in> {convert_op, reinterpret_op}
           then bind_res (nth_res tys 0) (\<lambda>dst. bind_res (nth_res args 0) (\<lambda>x.
                bind_res (type_of x) (\<lambda>t. bind_res (shd_get_unqualified_type t) (\<lambda>src.
                  Inr (if dst = src then x else node)))))
           else Inr node))"

subsection \<open>Pointers\<close>

lemma size_first:
  "shd_first args = Inr x \<Longrightarrow> pl n = PrimOp op tys args \<Longrightarrow> size x < size n"
  "pl n = PtrCompositeElement p i \<Longrightarrow> size p < size n"
  by (cases n; cases args; simp)+

text \<open>
  The chase through casts and first elements: the pointer reached, how many of those were passed,
  whether a conversion was among them, and the address space in front of it.
\<close>

function ptr_source :: "arena \<Rightarrow> node \<Rightarrow> nat \<Rightarrow> bool \<Rightarrow> AddressSpace \<Rightarrow> (node \<times> nat \<times> bool \<times> AddressSpace) result" where
  "ptr_source a ptr distance specialize_generic src_as =
     (case pl ptr of
        PrimOp op tys args \<Rightarrow>
          if op = reinterpret_op
          then bind_res (shd_first args) (\<lambda>x. ptr_source a x (distance + 1) specialize_generic src_as)
          else if op = convert_op
          then bind_res (shd_first tys) (\<lambda>dst.
                 if (case dst of PtrType _ _ _ \<Rightarrow> True | _ \<Rightarrow> False)
                 then require (\<not> specialize_generic)
                        (bind_res (shd_first args) (\<lambda>x.
                         bind_res (type_of x) (\<lambda>t. bind_res (shd_get_unqualified_type t) (\<lambda>t.
                           case t of PtrType as _ _ \<Rightarrow> ptr_source a x distance True as
                           | _ \<Rightarrow> Inl OutOfBounds))))
                 else Inr (ptr, distance, specialize_generic, src_as))
          else Inr (ptr, distance, specialize_generic, src_as)
      | PtrCompositeElement p i \<Rightarrow>
          bind_res (is_zero a i) (\<lambda>z.
            if z then ptr_source a p (distance + 1) specialize_generic src_as
            else Inr (ptr, distance, specialize_generic, src_as))
      | _ \<Rightarrow> Inr (ptr, distance, specialize_generic, src_as))"
  by pat_completeness auto
termination
  by (relation "measure (\<lambda>(_, n, _). size n)") (auto dest: size_first)

declare ptr_source.simps [simp del]

definition resolve_ptr_source :: "arena \<Rightarrow> constructor \<Rightarrow> node \<Rightarrow> node option result" where
  "resolve_ptr_source a mk ptr =
     bind_res (type_of ptr) (\<lambda>t. bind_res (shd_deconstruct_qualified_type t) (\<lambda>(_, t).
       case t of
         PtrType as desired_pointee_type is_reference \<Rightarrow>
           bind_res (ptr_source a ptr 0 False as) (\<lambda>(ptr, distance, specialize_generic, src_as).
             if distance > 1 \<or> specialize_generic
             then bind_res (type_of ptr) (\<lambda>t. bind_res (shd_get_unqualified_type t) (\<lambda>new_src_ptr_type.
                    if (case new_src_ptr_type of PtrType _ p _ \<Rightarrow> p \<noteq> desired_pointee_type | _ \<Rightarrow> True)
                    then bind_res (mk_type a (PtrType src_as desired_pointee_type is_reference)) (\<lambda>dst.
                         bind_res (mk (PrimOp reinterpret_op [dst] [ptr])) (\<lambda>n. Inr (Some n)))
                    else Inr (Some ptr)))
             else Inr None)
       | _ \<Rightarrow> Inl AssertFailed))"

definition simplify_ptr_operand :: "arena \<Rightarrow> constructor \<Rightarrow> node \<Rightarrow> node option result" where
  "simplify_ptr_operand a mk old_op =
     bind_res (type_of old_op) (\<lambda>t. bind_res (shd_get_unqualified_type t) (\<lambda>ptr_t.
       case ptr_t of
         PtrType _ _ is_reference \<Rightarrow> if is_reference then Inr None else resolve_ptr_source a mk old_op
       | _ \<Rightarrow> Inl OutOfBounds))"

text \<open>The pointer operand of a node, and the node with another in its place.\<close>

fun ptr_operand :: "payload \<Rightarrow> (node \<times> (node \<Rightarrow> payload)) option" where
  "ptr_operand (Load mem p) = Some (p, Load mem)"
| "ptr_operand (Store mem p v) = Some (p, \<lambda>p. Store mem p v)"
| "ptr_operand (PtrCompositeElement p i) = Some (p, \<lambda>p. PtrCompositeElement p i)"
| "ptr_operand (PtrArrayElementOffset p i) = Some (p, \<lambda>p. PtrArrayElementOffset p i)"
| "ptr_operand (Call mem callee args) = Some (callee, \<lambda>p. Call mem p args)"
| "ptr_operand (TailCall mem callee args) = Some (callee, \<lambda>p. TailCall mem p args)"
| "ptr_operand _ = None"

definition fold_simplify_ptr_operand :: "arena \<Rightarrow> constructor \<Rightarrow> node \<Rightarrow> node result" where
  "fold_simplify_ptr_operand a mk node =
     (case ptr_operand (pl node) of
        None \<Rightarrow> Inr node
      | Some (ptr, rebuild) \<Rightarrow>
          bind_res (simplify_ptr_operand a mk ptr) (\<lambda>nptr.
            case nptr of
              None \<Rightarrow> Inr node
            | Some p \<Rightarrow>
                bind_res (mk (rebuild p)) (\<lambda>r.
                bind_res (type_of node) (\<lambda>t. bind_res (type_of r) (\<lambda>rt.
                bind_res (shd_is_subtype a t rt) (\<lambda>b.
                  if b then Inr r
                  else bind_res (shd_get_unqualified_type t) (\<lambda>t. mk (PrimOp convert_op [t] [r]))))))))"

subsection \<open>Poison\<close>

definition is_undef :: "node \<Rightarrow> bool" where
  "is_undef n = (case pl n of Undef _ \<Rightarrow> True | _ \<Rightarrow> False)"

definition undef_like :: "constructor \<Rightarrow> node \<Rightarrow> node result" where
  "undef_like mk node =
     bind_res (type_of node) (\<lambda>t. bind_res (shd_get_unqualified_type t) (\<lambda>t. mk (Undef t)))"

definition shd_tuple_helper :: "arena \<Rightarrow> constructor \<Rightarrow> node list \<Rightarrow> node result" where
  "shd_tuple_helper a mk contents =
     bind_res (if check_types (config a)
               then bind_res (shd_get_values_types a contents) (\<lambda>ts.
                    bind_res (shd_strip_qualifiers ts) (\<lambda>ts.
                    bind_res (mk_type a (RecordType ts [] NotSpecial)) (\<lambda>t. Inr (Some t))))
               else Inr None) (\<lambda>t. mk (Composite t contents))"

definition fold_memory_poison :: "arena \<Rightarrow> constructor \<Rightarrow> node \<Rightarrow> node result" where
  "fold_memory_poison a mk node =
     (case pl node of
        Load mem ptr \<Rightarrow>
          if is_undef ptr then bind_res (undef_like mk node) (\<lambda>u. mk (MemAndValue mem u)) else Inr node
      | Store mem ptr v \<Rightarrow>
          if is_undef ptr then bind_res (shd_tuple_helper a mk []) (\<lambda>u. mk (MemAndValue mem u)) else Inr node
      | PtrArrayElementOffset ptr _ \<Rightarrow> if is_undef ptr then undef_like mk node else Inr node
      | PtrCompositeElement ptr _ \<Rightarrow> if is_undef ptr then undef_like mk node else Inr node
      | PrimOp op _ args \<Rightarrow>
          if op \<in> {reinterpret_op, convert_op}
          then bind_res (shd_first args) (\<lambda>x. if is_undef x then undef_like mk node else Inr node)
          else Inr node
      | _ \<Rightarrow> Inr node)"

subsection \<open>Control flow\<close>

definition block_unreachable :: "arena \<Rightarrow> block_id \<Rightarrow> bool result" where
  "block_unreachable a b =
     bind_res (get_block a b) (\<lambda>bb. bind_res (deref (bb_body bb)) (\<lambda>t.
       Inr (case pl t of Unreachable _ \<Rightarrow> True | _ \<Rightarrow> False)))"

definition is_unreachable_destination :: "arena \<Rightarrow> node \<Rightarrow> bool result" where
  "is_unreachable_destination a j = (case pl j of Jump _ target _ \<Rightarrow> block_unreachable a target | _ \<Rightarrow> Inl AssertFailed)"

definition fold_branch :: "arena \<Rightarrow> constructor \<Rightarrow> node \<Rightarrow> node \<Rightarrow> node \<Rightarrow> node option result" where
  "fold_branch a mk condition true_jump false_jump =
     (if fold_static_control_flow (config a)
      then bind_res (mk TrueLit) (\<lambda>t.
             if condition = t then Inr (Some true_jump)
             else bind_res (mk FalseLit) (\<lambda>f. Inr (if condition = f then Some false_jump else None)))
      else if delete_unreachable_structured_cases (config a)
      then bind_res (is_unreachable_destination a true_jump) (\<lambda>b.
             if b then Inr (Some false_jump)
             else bind_res (is_unreachable_destination a false_jump) (\<lambda>b. Inr (if b then Some true_jump else None)))
      else Inr None)"

fun reachable_cases :: "arena \<Rightarrow> node list \<Rightarrow> block_id list \<Rightarrow> (node list \<times> block_id list) result" where
  "reachable_cases a lits [] = Inr ([], [])"
| "reachable_cases a lits (c # cs) =
     bind_res (block_unreachable a c) (\<lambda>b.
       if b then reachable_cases a (tl lits) cs
       else bind_res (nth_res lits 0) (\<lambda>l.
            bind_res (reachable_cases a (tl lits) cs) (\<lambda>(ls, ks). Inr (l # ls, c # ks))))"

subsection \<open>Folding a node\<close>

fun is_instruction :: "payload \<Rightarrow> bool" where
  "is_instruction (Call _ _ _) = True"
| "is_instruction (PrimOp _ _ _) = True"
| "is_instruction (StackAlloc _ _) = True"
| "is_instruction (LocalAlloc _ _) = True"
| "is_instruction (Load _ _) = True"
| "is_instruction (Store _ _ _) = True"
| "is_instruction (PtrCompositeElement _ _) = True"
| "is_instruction (PtrArrayElementOffset _ _) = True"
| "is_instruction (CopyBytes _ _ _ _) = True"
| "is_instruction (FillBytes _ _ _ _) = True"
| "is_instruction (PushStack _ _) = True"
| "is_instruction (PopStack _ _) = True"
| "is_instruction (GetStackSize _) = True"
| "is_instruction (SetStackSize _ _) = True"
| "is_instruction (GetStackBaseAddr _) = True"
| "is_instruction (DebugPrintf _ _ _) = True"
| "is_instruction (ExtInstr _ _ _ _ _) = True"
| "is_instruction (Comment _ _) = True"
| "is_instruction _ = False"

fun is_terminator :: "payload \<Rightarrow> bool" where
  "is_terminator (If _ _ _ _ _ _) = True"
| "is_terminator (Match _ _ _ _ _ _ _) = True"
| "is_terminator (Loop _ _ _ _ _) = True"
| "is_terminator (Control _ _ _ _) = True"
| "is_terminator (TailCall _ _ _) = True"
| "is_terminator (Jump _ _ _) = True"
| "is_terminator (Branch _ _ _ _) = True"
| "is_terminator (Switch _ _ _ _ _) = True"
| "is_terminator (Join _ _ _) = True"
| "is_terminator (MergeContinue _ _) = True"
| "is_terminator (MergeBreak _ _) = True"
| "is_terminator (MergeSelection _ _) = True"
| "is_terminator (Return _ _) = True"
| "is_terminator (Unreachable _) = True"
| "is_terminator _ = False"

text \<open>The checks behind the folding rules; a folded type must be a subtype of the original one.\<close>

definition check_folded :: "arena \<Rightarrow> node \<Rightarrow> node \<Rightarrow> node result" where
  "check_folded a original node =
     require ((is_value (pl original) \<longrightarrow> is_value (pl node))
              \<and> (is_instruction (pl original) \<longrightarrow> is_instruction (pl node) \<or> is_value (pl node))
              \<and> (is_terminator (pl original) \<longrightarrow> is_terminator (pl node)))
       (case ntype node of
          None \<Rightarrow> Inr node
        | Some t \<Rightarrow>
            bind_res (type_of original) (\<lambda>ot. bind_res (shd_is_subtype a ot t) (\<lambda>b. require b (Inr node))))"

definition fold_node :: "'d float_ops \<Rightarrow> arena \<Rightarrow> constructor \<Rightarrow> node \<Rightarrow> node result" where
  "fold_node F a mk original =
     bind_res (fold_memory_poison a mk original) (\<lambda>node.
     bind_res (fold_simplify_ptr_operand a mk node) (\<lambda>node.
       case pl node of
         PrimOp op tys args \<Rightarrow> bind_res (fold_prim_op F a mk node op tys args) (check_folded a original)
       | PtrArrayElementOffset ptr offset \<Rightarrow>
           bind_res (is_zero a offset) (\<lambda>z. if z then Inr ptr else check_folded a original node)
       | Branch _ condition true_jump false_jump \<Rightarrow>
           bind_res (fold_branch a mk condition true_jump false_jump) (\<lambda>j.
             case j of Some j \<Rightarrow> Inr j | None \<Rightarrow> check_folded a original node)
       | Match mem ys inspect literals cases default_case tail \<Rightarrow>
           if \<not> delete_unreachable_structured_cases (config a) then check_folded a original node
           else bind_res (reachable_cases a literals cases) (\<lambda>(ls, ks).
                  if length ks = length cases then check_folded a original node
                  else mk (Match mem ys inspect ls ks default_case tail))
       | _ \<Rightarrow> check_folded a original node))"

subsection \<open>Creating a node\<close>

text \<open>Operands that pair a memory token with a value are replaced by the part that is asked for.\<close>

definition shd_fold_node_operand :: "bool \<Rightarrow> node \<Rightarrow> node" where
  "shd_fold_node_operand mem_class op =
     (case pl op of MemAndValue mem v \<Rightarrow> if mem_class then mem else v | _ \<Rightarrow> op)"

abbreviation fold_mem :: "node \<Rightarrow> node" where
  "fold_mem \<equiv> shd_fold_node_operand True"

abbreviation fold_value :: "node \<Rightarrow> node" where
  "fold_value \<equiv> shd_fold_node_operand False"

fun fold_operands :: "payload \<Rightarrow> payload" where
  "fold_operands (ConstrainedValue t v) = ConstrainedValue t (fold_value v)"
| "fold_operands (Composite t vs) = Composite t (map fold_value vs)"
| "fold_operands (Fill t v) = Fill t (fold_value v)"
| "fold_operands (MemAndValue m v) = MemAndValue (fold_mem m) (fold_value v)"
| "fold_operands (Call m c args) = Call (fold_mem m) (fold_value c) (map fold_value args)"
| "fold_operands (PrimOp op tys args) = PrimOp op tys (map fold_value args)"
| "fold_operands (StackAlloc m t) = StackAlloc (fold_mem m) t"
| "fold_operands (LocalAlloc m t) = LocalAlloc (fold_mem m) t"
| "fold_operands (Load m p) = Load (fold_mem m) (fold_value p)"
| "fold_operands (Store m p v) = Store (fold_mem m) (fold_value p) (fold_value v)"
| "fold_operands (PtrCompositeElement p i) = PtrCompositeElement (fold_value p) (fold_value i)"
| "fold_operands (PtrArrayElementOffset p i) = PtrArrayElementOffset (fold_value p) (fold_value i)"
| "fold_operands (CopyBytes m d s c) = CopyBytes (fold_mem m) (fold_value d) (fold_value s) (fold_value c)"
| "fold_operands (FillBytes m d s c) = FillBytes (fold_mem m) (fold_value d) (fold_value s) (fold_value c)"
| "fold_operands (PushStack m v) = PushStack (fold_mem m) (fold_value v)"
| "fold_operands (PopStack m t) = PopStack (fold_mem m) t"
| "fold_operands (GetStackSize m) = GetStackSize (fold_mem m)"
| "fold_operands (SetStackSize m v) = SetStackSize (fold_mem m) (fold_value v)"
| "fold_operands (GetStackBaseAddr m) = GetStackBaseAddr (fold_mem m)"
| "fold_operands (DebugPrintf m s vs) = DebugPrintf (fold_mem m) s (map fold_value vs)"
| "fold_operands (ExtInstr m t s oc vs) = ExtInstr (map_option fold_mem m) t s oc (map fold_value vs)"
| "fold_operands (Comment m s) = Comment (fold_mem m) s"
| "fold_operands (If m ys c t f l) = If (fold_mem m) ys (fold_value c) t f l"
| "fold_operands (Match m ys i ls cs d t) = Match (fold_mem m) ys (fold_value i) (map fold_value ls) cs d t"
| "fold_operands (Loop m ys b vs t) = Loop (fold_mem m) ys b (map fold_value vs) t"
| "fold_operands (Control m ys i t) = Control (fold_mem m) ys i t"
| "fold_operands (TailCall m c args) = TailCall (fold_mem m) (fold_value c) (map fold_value args)"
| "fold_operands (Jump m t args) = Jump (fold_mem m) t (map fold_value args)"
| "fold_operands (Branch m c t f) = Branch (fold_mem m) (fold_value c) (fold_value t) (fold_value f)"
| "fold_operands (Switch m v vs js d) =
     Switch (fold_mem m) (fold_value v) (map fold_value vs) (map fold_value js) (fold_value d)"
| "fold_operands (Join m j args) = Join (fold_mem m) (fold_value j) (map fold_value args)"
| "fold_operands (MergeContinue m args) = MergeContinue (fold_mem m) (map fold_value args)"
| "fold_operands (MergeBreak m args) = MergeBreak (fold_mem m) (map fold_value args)"
| "fold_operands (MergeSelection m args) = MergeSelection (fold_mem m) (map fold_value args)"
| "fold_operands (Return m args) = Return (fold_mem m) (map fold_value args)"
| "fold_operands (Unreachable m) = Unreachable (fold_mem m)"
| "fold_operands p = p"

fun is_node_nominal :: "payload \<Rightarrow> bool" where
  "is_node_nominal (Param _ _) = True"
| "is_node_nominal (Call _ _ _) = True"
| "is_node_nominal (MergeContinue _ _) = True"
| "is_node_nominal (MergeBreak _ _) = True"
| "is_node_nominal (MergeSelection _ _) = True"
| "is_node_nominal (Return _ _) = True"
| "is_node_nominal _ = False"

text \<open>
  \<open>fresh\<close> numbers the node if it is a nominal one. A structural node that exists already is the same
  node here (the C looks it up before it folds, so that a node stays as it was first folded even if a
  constant or block it refers to is filled in later).
\<close>

primrec create_node :: "nat \<Rightarrow> 'd float_ops \<Rightarrow> arena \<Rightarrow> nat \<Rightarrow> constructor" where
  "create_node 0 F a fresh = (\<lambda>p. Inl OutOfFuel)"
| "create_node (Suc fuel) F a fresh = (\<lambda>p.
     let p = fold_operands p
     in bind_res (if check_types (config a) then check_type_generated a p else Inr None) (\<lambda>t.
        let node = Node (if is_node_nominal p then fresh else 0) p t
        in if allow_fold (config a) then fold_node F a (create_node fuel F a fresh) node else Inr node))"

text \<open>
  The rules call constructors at most this deep: a rebuilt memory operation, its cast, the operand
  folded inside it, and a literal or poison value.
\<close>

definition fold_depth :: nat where
  "fold_depth = 8"

definition shd_create_node_helper :: "'d float_ops \<Rightarrow> arena \<Rightarrow> nat \<Rightarrow> constructor" where
  "shd_create_node_helper F a fresh = create_node fold_depth F a fresh"

end
