(* ===== verification/IrFoldProps.thy ===== *)
theory IrFoldProps
  imports IrFold
begin

text \<open>
  What folding does to the nodes it is given: integer arithmetic on literals agrees with arithmetic
  at the width of the type, simplifications keep the value, and the cases where it goes wrong.
\<close>

unbundle bit_operations_syntax

subsection \<open>Literals are created as they are\<close>

definition folds :: "arena \<Rightarrow> bool" where
  "folds a \<longleftrightarrow> check_types (config a) \<and> allow_fold (config a)"

lemma create_unfold:
  "shd_create_node_helper F a fresh p =
     (let p = fold_operands p
      in bind_res (if check_types (config a) then check_type_generated a p else Inr None) (\<lambda>t.
         let node = Node (if is_node_nominal p then fresh else 0) p t
         in if allow_fold (config a) then fold_node F a (create_node 7 F a fresh) node else Inr node))"
proof -
  have depth: "fold_depth = Suc 7" by (simp add: fold_depth_def)
  show ?thesis unfolding shd_create_node_helper_def depth create_node.simps by (rule refl)
qed

text \<open>A node of a kind no rule applies to.\<close>

definition inert :: "payload \<Rightarrow> bool" where
  "inert p = (case p of IntLiteral _ _ _ \<Rightarrow> True | FloatLiteral _ _ \<Rightarrow> True | TrueLit \<Rightarrow> True | FalseLit \<Rightarrow> True
     | Undef _ \<Rightarrow> True | _ \<Rightarrow> False)"

lemma fold_inert: "inert (pl n) \<Longrightarrow> fold_node F a mk n = Inr n"
  by (cases n; cases "ntype n"; cases "pl n")
    (auto simp: inert_def fold_node_def fold_memory_poison_def fold_simplify_ptr_operand_def check_folded_def)

lemma int_type_checks: "mk_type a (Int_type w s) = Inr (Int_type w s)" "mk_type a (Float_type fw) = Inr (Float_type fw)"
  "mk_type a Bool_type = Inr Bool_type"
  by (simp_all add: mk_type_def check_type_node_def)

lemma qualified_scalar_checks:
  "check_types (config a) \<Longrightarrow> shd_is_data_type a t = Inr True \<Longrightarrow> mk_type a (QualifiedType True t) = Inr (QualifiedType True t)"
  by (auto simp: mk_type_def check_type_node_def shd_check_type_qualified_type_def require_data_type_def)

lemma scalar_data [simp]:
  "shd_is_data_type a (Int_type w s) = Inr True" "shd_is_data_type a (Float_type fw) = Inr True"
  "shd_is_data_type a Bool_type = Inr True"
  by (simp_all add: shd_is_data_type_def)

lemma create_int_literal:
  assumes "folds a"
  shows "create_node (Suc k) F a fresh (IntLiteral w s v) = Inr (int_literal a w s v)"
  using assms by (simp add: folds_def shd_check_type_int_literal_def with_type_def int_type_checks qualified_scalar_checks
      fold_inert inert_def int_literal_def)

lemma create_bool_literals:
  assumes "folds a"
  shows "create_node (Suc k) F a fresh TrueLit = Inr (Node 0 TrueLit (Some (QualifiedType True Bool_type)))"
    "create_node (Suc k) F a fresh FalseLit = Inr (Node 0 FalseLit (Some (QualifiedType True Bool_type)))"
  using assms by (simp_all add: folds_def shd_check_type_bool_lit_def with_type_def int_type_checks qualified_scalar_checks
      fold_inert inert_def)

definition float_literal :: "FloatSizes \<Rightarrow> u64 \<Rightarrow> node" where
  "float_literal w v = Node 0 (FloatLiteral w v) (Some (QualifiedType True (Float_type w)))"

lemma create_float_literal:
  assumes "folds a"
  shows "create_node (Suc k) F a fresh (FloatLiteral w v) = Inr (float_literal w v)"
  using assms by (simp add: folds_def shd_check_type_float_literal_def with_type_def int_type_checks qualified_scalar_checks
      fold_inert inert_def float_literal_def)

lemma resolve_literal:
  "pl n = IntLiteral w s v \<Longrightarrow> shd_resolve_to_int_literal a (Some n) = Inr (Some (w, s, v))"
  "pl n = IntLiteral w s v \<Longrightarrow> shd_resolve_to_float_literal a (Some n) = Inr None"
  "pl n = FloatLiteral fw v \<Longrightarrow> shd_resolve_to_float_literal a (Some n) = Inr (Some (fw, v))"
  "pl n = FloatLiteral fw v \<Longrightarrow> shd_resolve_to_int_literal a (Some n) = Inr None"
  by (simp_all add: shd_resolve_to_int_literal_def shd_resolve_to_float_literal_def resolve_default_def chase_depth_def)

lemma pl_int_literal [simp]: "pl (int_literal a w s v) = IntLiteral w s v"
  by (simp add: int_literal_def)

lemma pl_float_literal [simp]: "pl (float_literal w v) = FloatLiteral w v"
  by (simp add: float_literal_def)

lemma type_int_literal: "check_types (config a) \<Longrightarrow> ntype (int_literal a w s v) = Some (QualifiedType True (Int_type w s))"
  by (simp add: int_literal_def)

lemma fold_value_literal [simp]: "fold_value (int_literal a w s v) = int_literal a w s v" "fold_value (float_literal fw v) = float_literal fw v"
  by (simp_all add: shd_fold_node_operand_def)

lemmas check_arith_eval = check_arith_def check_same_operands_def check_operand_def counts_def
  shd_get_maybe_packed_type_element_def shd_deconstruct_maybe_packed_type_def require_data_type_def
  shd_deconstruct_qualified_type_def shd_get_unqualified_type_def shd_as_qualified_type_def

lemma check_binary_literals:
  assumes "folds a" and "op \<in> {add_op, sub_op, mul_op, div_op, mod_op}"
  shows "shd_check_type_prim_op a op [] [int_literal a w s x, int_literal a w s y] = Inr (QualifiedType True (Int_type w s))"
  using assms
  by (auto simp: folds_def shd_check_type_prim_op_def check_arith_eval type_int_literal qualified_scalar_checks)

text \<open>Creating an operation on two literals is folding it.\<close>

lemma create_binary:
  assumes "folds a" and op: "op \<in> {add_op, sub_op, mul_op, div_op, mod_op}"
    and v: "(case op of add_op \<Rightarrow> Inr (x + y) | sub_op \<Rightarrow> Inr (x - y) | mul_op \<Rightarrow> Inr (x * y)
             | div_op \<Rightarrow> div_u64 x y | _ \<Rightarrow> mod_u64 x y) = v"
  shows "shd_create_node_helper F a fresh (PrimOp op [] [int_literal a w s x, int_literal a w s y])
    = bind_res v (\<lambda>v. Inr (int_literal a w s v))"
proof -
  let ?args = "[int_literal a w s x, int_literal a w s y]"
  let ?n = "Node 0 (PrimOp op [] ?args) (Some (QualifiedType True (Int_type w s)))"
  let ?mk = "create_node 7 F a fresh"
  have mk: "?mk (IntLiteral w s u) = Inr (int_literal a w s u)" for u
    using create_int_literal [OF assms(1), of 6 F fresh w s u] by simp
  have "fold_constant_math F a ?mk op [] ?args = bind_res v (\<lambda>v. Inr (Some (int_literal a w s v)))"
    using op v [symmetric] by (auto simp: fold_constant_math_def resolve_literal all_literals_def bin_op_def fold_int_def nth_res_def mk)
  then have "fold_prim_op F a ?mk ?n op [] ?args = bind_res v (\<lambda>v. Inr (int_literal a w s v))"
    by (cases v) (simp_all add: fold_prim_op_def)
  moreover have "shd_create_node_helper F a fresh (PrimOp op [] ?args) = bind_res (fold_prim_op F a ?mk ?n op [] ?args) (check_folded a ?n)"
    using assms(1,2) check_binary_literals [OF assms(1,2), of w s x y]
    by (auto simp: create_unfold Let_def folds_def with_type_def fold_node_def fold_memory_poison_def fold_simplify_ptr_operand_def)
  moreover have "check_folded a ?n (int_literal a w s u) = Inr (int_literal a w s u)" for u
    using assms(1) by (simp add: check_folded_def folds_def int_literal_def)
  ultimately show ?thesis by (cases v) simp_all
qed

subsection \<open>The value of a node\<close>

text \<open>
  What integer nodes compute: literals, and the sums, differences, products and negations of nodes, modulo the width of
  their type; \<open>\<rho>\<close> gives the value of every other node.
\<close>

fun arith :: "Op \<Rightarrow> int list \<Rightarrow> int option" where
  "arith neg_op [x] = Some (- x)"
| "arith add_op [x, y] = Some (x + y)"
| "arith sub_op [x, y] = Some (x - y)"
| "arith mul_op [x, y] = Some (x * y)"
| "arith _ _ = None"

lemma size_operand: "pl n = PrimOp op tys args \<Longrightarrow> x \<in> set args \<Longrightarrow> size x < size n"
  by (cases n) (auto dest!: split_list)

function int_value :: "arena \<Rightarrow> (node \<Rightarrow> int) \<Rightarrow> node \<Rightarrow> int" where
  "int_value a \<rho> n =
     (case shd_resolve_to_int_literal a (Some n) of
        Inr (Some (w, _, v)) \<Rightarrow> uint v mod 2 ^ int_bits w
      | _ \<Rightarrow>
          (case (pl n, ntype n) of
             (PrimOp op [] args, Some (QualifiedType _ (Int_type w _))) \<Rightarrow>
               (case arith op (map (int_value a \<rho>) args) of Some r \<Rightarrow> r mod 2 ^ int_bits w | None \<Rightarrow> \<rho> n)
           | _ \<Rightarrow> \<rho> n))"
  by pat_completeness auto
termination
  by (relation "measure (\<lambda>(_, _, n). size n)") (auto intro: size_operand [OF sym])

declare int_value.simps [simp del]

text \<open>
  An operand of an integer type, varying only where the arena has varying values, whose literal, if it
  has one, is of that type.
\<close>

definition int_operand :: "arena \<Rightarrow> IntSizes \<Rightarrow> bool \<Rightarrow> node \<Rightarrow> bool" where
  "int_operand a w s x \<longleftrightarrow>
     (case ntype x of Some (QualifiedType u t) \<Rightarrow> t = Int_type w s \<and> (u \<or> is_simt (config a)) | _ \<Rightarrow> False)
     \<and> is_value (pl x) \<and> fold_value x = x
     \<and> (case shd_resolve_to_int_literal a (Some x) of Inr (Some (w', s', _)) \<Rightarrow> w' = w \<and> s' = s | Inr None \<Rightarrow> True | _ \<Rightarrow> False)
     \<and> shd_resolve_to_float_literal a (Some x) = Inr None"

lemma int_operandE:
  assumes "int_operand a w s x"
  obtains u l where "ntype x = Some (QualifiedType u (Int_type w s))" "u \<or> is_simt (config a)" "is_value (pl x)" "fold_value x = x"
    "shd_resolve_to_int_literal a (Some x) = Inr (map_option (\<lambda>v. (w, s, v)) l)"
    "shd_resolve_to_float_literal a (Some x) = Inr None"
proof -
  from assms obtain u where "ntype x = Some (QualifiedType u (Int_type w s))" "u \<or> is_simt (config a)"
    unfolding int_operand_def by (cases "ntype x"; cases "the (ntype x)") simp_all
  moreover from assms obtain l where "shd_resolve_to_int_literal a (Some x) = Inr (map_option (\<lambda>v. (w, s, v)) l)"
  proof (cases "shd_resolve_to_int_literal a (Some x)")
    case (Inr l)
    with assms have "l = map_option (\<lambda>v. (w, s, v)) (map_option (\<lambda>(_, _, v). v) l)"
      unfolding int_operand_def by (cases l) auto
    with Inr that show thesis by metis
  qed (simp add: int_operand_def)
  ultimately show thesis using assms that unfolding int_operand_def by blast
qed

lemma literal_zero: "shd_get_int_literal_value (w, s, v) False = 0 \<longleftrightarrow> uint v mod 2 ^ int_bits w = 0"
  by (simp add: word_uint_eq_iff literal_unsigned take_bit_eq_mod)

lemma literal_one: "shd_get_int_literal_value (w, s, v) False = 1 \<longleftrightarrow> uint v mod 2 ^ int_bits w = 1"
  by (simp add: word_uint_eq_iff literal_unsigned take_bit_eq_mod)

lemma int_value_literal:
  "shd_resolve_to_int_literal a (Some x) = Inr (Some (w, s, v)) \<Longrightarrow> int_value a \<rho> x = uint v mod 2 ^ int_bits w"
  by (simp add: int_value.simps)

lemma int_value_arith:
  "arith op (map (int_value a \<rho>) args) = Some r \<Longrightarrow>
   int_value a \<rho> (Node i (PrimOp op [] args) (Some (QualifiedType u (Int_type w s)))) = r mod 2 ^ int_bits w"
  by (subst int_value.simps)
    (simp add: shd_resolve_to_int_literal_def resolve_default_def chase_depth_def shd_default_node_resolve_config_def)

subsection \<open>Folding keeps the value\<close>

lemma binary_type:
  assumes "folds a" "ntype x = Some (QualifiedType u1 (Int_type w s))" "ntype y = Some (QualifiedType u2 (Int_type w s))"
    "is_value (pl x)" "is_value (pl y)" "op \<in> {add_op, sub_op, mul_op}" "u1 \<or> is_simt (config a)" "u2 \<or> is_simt (config a)"
  shows "shd_check_type_prim_op a op [] [x, y] = Inr (QualifiedType (u1 \<and> u2) (Int_type w s))"
  using assms
  by (cases u1; cases u2) (auto simp: folds_def shd_check_type_prim_op_def check_arith_eval mk_type_def check_type_node_def
      shd_check_type_qualified_type_def)

lemma neg_type:
  assumes "ntype y = Some (QualifiedType u (Int_type w s))" "is_value (pl y)"
  shows "shd_check_type_prim_op a neg_op [] [y] = Inr (QualifiedType u (Int_type w s))"
  using assms by (simp add: shd_check_type_prim_op_def check_unary_def check_arith_eval)

lemma int_supertype [simp]:
  "shd_is_subtype a (QualifiedType u (Int_type w s)) (QualifiedType v (Int_type w s)) = Inr (u \<longrightarrow> v)"
  by (simp add: shd_is_subtype.simps [of _ "QualifiedType _ _"] shd_is_subtype.simps [of _ "Int_type _ _"])

lemma create_neg:
  assumes "folds a" "int_operand a w s y" "shd_resolve_to_int_literal a (Some y) = Inr None"
    and "ntype y = Some (QualifiedType u (Int_type w s))"
  shows "create_node (Suc k) F a fresh (PrimOp neg_op [] [y])
    = Inr (Node 0 (PrimOp neg_op [] [y]) (Some (QualifiedType u (Int_type w s))))"
proof -
  from assms have "is_value (pl y)" "fold_value y = y" "shd_resolve_to_float_literal a (Some y) = Inr None"
    by (auto elim: int_operandE)
  with assms show ?thesis
    by (simp add: folds_def with_type_def neg_type fold_node_def fold_memory_poison_def fold_simplify_ptr_operand_def
        fold_prim_op_def fold_constant_math_def all_literals_def fold_simplify_math_def check_folded_def)
qed

lemma constant_operands:
  assumes "int_operand a w s x" "int_operand a w s y" "op \<in> {add_op, sub_op, mul_op}" "folds a"
    and lits: "shd_resolve_to_int_literal a (Some x) = Inr (map_option (\<lambda>v. (w, s, v)) lx)"
      "shd_resolve_to_int_literal a (Some y) = Inr (map_option (\<lambda>v. (w, s, v)) ly)"
  shows "fold_constant_math F a (create_node (Suc k) F a fresh) op [] [x, y] =
    Inr (case (lx, ly) of
           (Some v, Some v') \<Rightarrow> Some (int_literal a w s (case op of add_op \<Rightarrow> v + v' | sub_op \<Rightarrow> v - v' | _ \<Rightarrow> v * v'))
         | _ \<Rightarrow> None)"
proof -
  from assms have "shd_resolve_to_float_literal a (Some x) = Inr None" "shd_resolve_to_float_literal a (Some y) = Inr None"
    by (auto elim: int_operandE)
  with assms show ?thesis
    by (cases lx; cases ly) (auto simp: fold_constant_math_def all_literals_def bin_op_def fold_int_def nth_res_def
        create_int_literal simp del: create_node.simps)
qed

text \<open>A node stands for an operation.\<close>

definition computes :: "arena \<Rightarrow> (node \<Rightarrow> int) \<Rightarrow> IntSizes \<Rightarrow> bool \<Rightarrow> bool \<Rightarrow> int \<Rightarrow> node \<Rightarrow> bool" where
  "computes a \<rho> w s u r n \<longleftrightarrow>
     int_value a \<rho> n = r mod 2 ^ int_bits w \<and> is_value (pl n)
     \<and> (\<exists>v. ntype n = Some (QualifiedType v (Int_type w s)) \<and> (u \<longrightarrow> v))"

lemma check_folded_computes:
  assumes "computes a \<rho> w s u r n"
  shows "check_folded a (Node i (PrimOp op tys args) (Some (QualifiedType u (Int_type w s)))) n = Inr n"
  using assms by (auto simp: computes_def check_folded_def)

lemma literal_zero_operand:
  assumes "shd_resolve_to_int_literal a (Some x) = Inr (map_option (\<lambda>v. (w, s, v)) l)"
  shows "is_zero a x = Inr (\<exists>v. l = Some v \<and> uint v mod 2 ^ int_bits w = 0)"
    "is_one a x = Inr (\<exists>v. l = Some v \<and> uint v mod 2 ^ int_bits w = 1)"
  using assms by (cases l; simp add: is_zero_def is_one_def literal_is_def literal_zero literal_one)+

lemma residues:
  "uint (v + v') mod 2 ^ int_bits w = (uint v + uint v') mod 2 ^ int_bits w"
  "uint (v - v') mod 2 ^ int_bits w = (uint v - uint v') mod 2 ^ int_bits w"
  "uint (v * v') mod 2 ^ int_bits w = (uint v * uint v') mod 2 ^ int_bits w"
  for v v' :: u64
  by (cases w; simp add: uint_word_ariths int_bits_def int_size_in_bytes_def mod_mod_cancel)+

definition in_range :: "IntSizes \<Rightarrow> int \<Rightarrow> bool" where
  "in_range w i \<longleftrightarrow> 0 \<le> i \<and> i < 2 ^ int_bits w"

lemma in_range_mod: "in_range w i \<Longrightarrow> i mod 2 ^ int_bits w = i"
  by (simp add: in_range_def)

lemma operand_computes:
  assumes "ntype n = Some (QualifiedType v (Int_type w s))" "is_value (pl n)" "u \<longrightarrow> v" "int_value a \<rho> n = r mod 2 ^ int_bits w"
  shows "computes a \<rho> w s u r n"
  using assms by (simp add: computes_def)

lemma simplify_computes:
  assumes a: "folds a" and ops: "int_operand a w s x" "int_operand a w s y"
    and ty: "ntype x = Some (QualifiedType u1 (Int_type w s))" "ntype y = Some (QualifiedType u2 (Int_type w s))"
    and lits: "shd_resolve_to_int_literal a (Some x) = Inr (map_option (\<lambda>v. (w, s, v)) lx)"
      "shd_resolve_to_int_literal a (Some y) = Inr (map_option (\<lambda>v. (w, s, v)) ly)"
    and nc: "lx = None \<or> ly = None" and range: "in_range w (int_value a \<rho> x)" "in_range w (int_value a \<rho> y)"
    and op: "op \<in> {add_op, sub_op, mul_op}"
  obtains m where "fold_simplify_math a (create_node (Suc k) F a fresh) op [x, y] = Inr m"
    "\<And>n. m = Some n \<Longrightarrow> computes a \<rho> w s (u1 \<and> u2) (the (arith op [int_value a \<rho> x, int_value a \<rho> y])) n"
proof -
  have vals: "is_value (pl x)" "is_value (pl y)" using ops by (auto simp: int_operand_def)
  have vx: "int_value a \<rho> x = uint v mod 2 ^ int_bits w" if "lx = Some v" for v using lits that by (simp add: int_value_literal)
  have vy: "int_value a \<rho> y = uint v mod 2 ^ int_bits w" if "ly = Some v" for v using lits that by (simp add: int_value_literal)
  note zeros = literal_zero_operand [OF lits(1)] literal_zero_operand [OF lits(2)]
  note comps = operand_computes [OF ty(1) vals(1)] operand_computes [OF ty(2) vals(2)]
  note mods = in_range_mod [OF range(1)] in_range_mod [OF range(2)]
  consider "op = add_op" | "op = mul_op" | "op = sub_op" "\<And>v. lx = Some v \<Longrightarrow> uint v mod 2 ^ int_bits w \<noteq> 0"
    | v where "op = sub_op" "lx = Some v" "uint v mod 2 ^ int_bits w = 0" "ly = None"
    using op nc by (cases "\<exists>v. lx = Some v \<and> uint v mod 2 ^ int_bits w = 0") auto
  then show thesis
  proof cases
    case 1
    show thesis
      by (rule that [of "if \<exists>v. lx = Some v \<and> uint v mod 2 ^ int_bits w = 0 then Some y
            else if \<exists>v. ly = Some v \<and> uint v mod 2 ^ int_bits w = 0 then Some x else None"])
        (auto simp: 1 fold_simplify_math_def simplify_add_def nth_res_def zeros vx vy mods split: if_splits intro!: comps)
  next
    case 2
    show thesis
      by (rule that [of "if \<exists>v. lx = Some v \<and> uint v mod 2 ^ int_bits w = 0 then Some x
            else if \<exists>v. ly = Some v \<and> uint v mod 2 ^ int_bits w = 0 then Some y
            else if \<exists>v. lx = Some v \<and> uint v mod 2 ^ int_bits w = 1 then Some y
            else if \<exists>v. ly = Some v \<and> uint v mod 2 ^ int_bits w = 1 then Some x else None"])
        (auto simp: 2 fold_simplify_math_def simplify_mul_def nth_res_def zeros vx vy mods split: if_splits intro!: comps)
  next
    case 3
    show thesis
      by (rule that [of "if \<exists>v. ly = Some v \<and> uint v mod 2 ^ int_bits w = 0 then Some x else None"])
        (use 3 in \<open>auto simp: fold_simplify_math_def simplify_sub_def nth_res_def zeros vx vy mods split: if_splits intro!: comps\<close>)
  next
    case 4
    let ?n = "Node 0 (PrimOp neg_op [] [y]) (Some (QualifiedType u2 (Int_type w s)))"
    from 4 lits have "shd_resolve_to_int_literal a (Some y) = Inr None" by simp
    then have "create_node (Suc k) F a fresh (PrimOp neg_op [] [y]) = Inr ?n"
      by (rule create_neg [OF a ops(2) _ ty(2)])
    moreover have "is_zero a x = Inr True" "is_zero a y = Inr False" using 4 by (simp_all add: zeros)
    ultimately have "fold_simplify_math a (create_node (Suc k) F a fresh) op [x, y] = Inr (Some ?n)"
      by (simp add: 4 fold_simplify_math_def simplify_sub_def nth_res_def del: create_node.simps)
    moreover have "int_value a \<rho> ?n = (- int_value a \<rho> y) mod 2 ^ int_bits w" by (rule int_value_arith) simp
    ultimately show thesis using that [of "Some ?n"] 4 vx [of v] by (simp add: computes_def)
  qed
qed

lemma fold_prim_op_computes:
  assumes a: "folds a" and ops: "int_operand a w s x" "int_operand a w s y"
    and ty: "ntype x = Some (QualifiedType u1 (Int_type w s))" "ntype y = Some (QualifiedType u2 (Int_type w s))"
    and range: "in_range w (int_value a \<rho> x)" "in_range w (int_value a \<rho> y)"
    and op: "op \<in> {add_op, sub_op, mul_op}"
  defines "node \<equiv> Node 0 (PrimOp op [] [x, y]) (Some (QualifiedType (u1 \<and> u2) (Int_type w s)))"
  obtains n where "fold_prim_op F a (create_node (Suc k) F a fresh) node op [] [x, y] = Inr n"
    "computes a \<rho> w s (u1 \<and> u2) (the (arith op [int_value a \<rho> x, int_value a \<rho> y])) n"
proof -
  obtain lx ly where lits: "shd_resolve_to_int_literal a (Some x) = Inr (map_option (\<lambda>v. (w, s, v)) lx)"
      "shd_resolve_to_int_literal a (Some y) = Inr (map_option (\<lambda>v. (w, s, v)) ly)"
    using ops by (metis int_operandE)
  note const = constant_operands [OF ops op a lits, where F = F and k = k and fresh = fresh]
  have node: "computes a \<rho> w s (u1 \<and> u2) (the (arith op [int_value a \<rho> x, int_value a \<rho> y])) node"
    using op by (auto simp: computes_def node_def int_value_arith)
  show thesis
  proof (cases "lx = None \<or> ly = None")
    case True
    obtain m where m: "fold_simplify_math a (create_node (Suc k) F a fresh) op [x, y] = Inr m"
      "\<And>n. m = Some n \<Longrightarrow> computes a \<rho> w s (u1 \<and> u2) (the (arith op [int_value a \<rho> x, int_value a \<rho> y])) n"
      by (rule simplify_computes [OF a ops ty lits True range op, where k = k and F = F and fresh = fresh]) (rule that)
    have "fold_prim_op F a (create_node (Suc k) F a fresh) node op [] [x, y] = Inr (case m of Some n \<Rightarrow> n | None \<Rightarrow> node)"
      using const True m(1) op by (auto simp: fold_prim_op_def simp del: create_node.simps split: option.split)
    with that m(2) node show thesis by (cases m) simp_all
  next
    case False
    then obtain v v' where "lx = Some v" "ly = Some v'" by auto
    let ?n = "int_literal a w s (case op of add_op \<Rightarrow> v + v' | sub_op \<Rightarrow> v - v' | _ \<Rightarrow> v * v')"
    have "fold_prim_op F a (create_node (Suc k) F a fresh) node op [] [x, y] = Inr ?n"
      using const \<open>lx = Some v\<close> \<open>ly = Some v'\<close> by (simp add: fold_prim_op_def del: create_node.simps)
    moreover have "computes a \<rho> w s (u1 \<and> u2) (the (arith op [int_value a \<rho> x, int_value a \<rho> y])) ?n"
      by (rule operand_computes [OF type_int_literal])
        (use a op lits \<open>lx = Some v\<close> \<open>ly = Some v'\<close> in
          \<open>auto simp: folds_def int_value_literal resolve_literal residues mod_simps\<close>)
    ultimately show thesis by (rule that)
  qed
qed

text \<open>
  C37: Folding keeps the value of integer arithmetic: the node that creating a sum, difference or product returns,
  be it a literal, one of the operands, a negation or the operation itself, computes that operation
  modulo the width of the type, whatever the values of the nodes that are not constants.
\<close>

theorem fold_keeps_value:
  assumes "folds a" and "int_operand a w s x" and "int_operand a w s y" and "op \<in> {add_op, sub_op, mul_op}"
    and "in_range w (int_value a \<rho> x)" and "in_range w (int_value a \<rho> y)"
  shows "\<exists>n. shd_create_node_helper F a fresh (PrimOp op [] [x, y]) = Inr n
    \<and> int_value a \<rho> n = the (arith op [int_value a \<rho> x, int_value a \<rho> y]) mod 2 ^ int_bits w"
proof -
  obtain u1 u2 where x: "ntype x = Some (QualifiedType u1 (Int_type w s))" "u1 \<or> is_simt (config a)" "is_value (pl x)" "fold_value x = x"
    and y: "ntype y = Some (QualifiedType u2 (Int_type w s))" "u2 \<or> is_simt (config a)" "is_value (pl y)" "fold_value y = y"
    using assms(2,3) by (metis int_operandE)
  let ?n = "Node 0 (PrimOp op [] [x, y]) (Some (QualifiedType (u1 \<and> u2) (Int_type w s)))"
  obtain n where n: "fold_prim_op F a (create_node (Suc 6) F a fresh) ?n op [] [x, y] = Inr n"
    "computes a \<rho> w s (u1 \<and> u2) (the (arith op [int_value a \<rho> x, int_value a \<rho> y])) n"
    by (rule fold_prim_op_computes [OF assms(1-3) x(1) y(1) assms(5,6,4), where k = 6 and F = F and fresh = fresh]) (rule that)
  have "shd_create_node_helper F a fresh (PrimOp op [] [x, y])
      = bind_res (fold_prim_op F a (create_node 7 F a fresh) ?n op [] [x, y]) (check_folded a ?n)"
    using assms(1,4) binary_type [OF assms(1) x(1) y(1) x(3) y(3) assms(4) x(2) y(2)] x(4) y(4)
    by (auto simp: create_unfold Let_def folds_def with_type_def fold_node_def fold_memory_poison_def fold_simplify_ptr_operand_def)
  with n check_folded_computes [OF n(2)] show ?thesis by (simp add: computes_def del: create_node.simps)
qed

subsection \<open>Division\<close>

text \<open>
  C40: Dividing an integer literal by another, or taking the remainder, is an unsigned 64-bit division of the stored
  numbers, whatever the width and the sign of their type; with a divisor of zero creating the node traps.
\<close>

theorem fold_division:
  assumes "folds a"
  shows "shd_create_node_helper F a fresh (PrimOp div_op [] [int_literal a w s x, int_literal a w s y]) =
      (if y = 0 then Inl DivisionByZero else Inr (int_literal a w s (x div y)))
    \<and> shd_create_node_helper F a fresh (PrimOp mod_op [] [int_literal a w s x, int_literal a w s y]) =
      (if y = 0 then Inl DivisionByZero else Inr (int_literal a w s (x mod y)))"
  using create_binary [OF assms, of div_op x y _ F fresh w s] create_binary [OF assms, of mod_op x y _ F fresh w s]
  by (simp_all add: div_u64_def mod_u64_def)

text \<open>
  Folded divisions of the values that a program computes are wrong: the 32-bit sum of \<open>2 ^ 32 - 1\<close> and 1 is zero, but half
  of it is folded to \<open>2 ^ 31\<close>, and half of the signed number -4 is folded to a positive one.
\<close>

theorem fold_division_wrong:
  assumes "folds a"
  shows "bind_res (shd_create_node_helper F a fresh
             (PrimOp add_op [] [int_literal a IntTy32 False 0xFFFFFFFF, int_literal a IntTy32 False 1]))
           (\<lambda>total. bind_res (shd_create_node_helper F a fresh (PrimOp div_op [] [total, int_literal a IntTy32 False 2]))
             (\<lambda>half. Inr (int_value a \<rho> total, int_value a \<rho> half))) = Inr (0, 0x80000000)
    \<and> bind_res (shd_create_node_helper F a fresh
             (PrimOp div_op [] [int_literal a IntTy32 True 0xFFFFFFFC, int_literal a IntTy32 True 2]))
           (\<lambda>half. Inr (int_value a \<rho> half)) = Inr 0x7FFFFFFE"
proof -
  have add: "shd_create_node_helper F a fresh (PrimOp add_op [] [int_literal a IntTy32 False 0xFFFFFFFF, int_literal a IntTy32 False 1])
      = Inr (int_literal a IntTy32 False 0x100000000)"
    using create_binary [OF assms, of add_op "0xFFFFFFFF" 1 "Inr 0x100000000" F fresh IntTy32 False] by simp
  have lit: "int_value a \<rho> (int_literal a w s v) = uint v mod 2 ^ int_bits w" for w s v
    by (rule int_value_literal) (simp add: resolve_literal)
  have div: "shd_create_node_helper F a fresh (PrimOp div_op [] [int_literal a IntTy32 s x, int_literal a IntTy32 s 2])
      = Inr (int_literal a IntTy32 s (x div 2))" for s x
    using create_binary [OF assms, of div_op x 2 _ F fresh IntTy32 s] by (simp add: div_u64_def)
  show ?thesis by (simp add: add div lit int_bits_def int_size_in_bytes_def)
qed

subsection \<open>Conversions\<close>

lemma mask_complement: "NOT (push_bit n (- 1)) = (mask n :: u64)"
  by (rule bit_word_eqI) (auto simp: bit_simps)

lemma width_mask_of_nat:
  assumes "n \<le> 64"
  shows "width_mask (of_nat n) = Inr (mask n)"
proof (cases "n = 64")
  case True
  then show ?thesis by (simp add: width_mask_def mask_full [where ?'a = 64, simplified])
next
  case False
  with assms have n: "unat (of_nat n :: u64) = n" "n < 64" by (simp_all add: unat_of_nat)
  then have "(of_nat n :: u64) < 64" "(of_nat n :: u64) \<noteq> 64" by (auto simp: word_less_nat_alt)
  then show ?thesis by (simp only: width_mask_def n mask_complement if_True if_False)
qed

lemma int_width_mask: "width_mask (shd_get_type_bitwidth a (Int_type w s)) = Inr (mask (int_bits w))"
  using width_mask_of_nat [of "int_bits w"]
  by (cases w) (simp_all add: shd_get_type_bitwidth_def int_bits_def int_size_in_bytes_def)

lemma and_mask_value: "uint (v AND mask n) = uint v mod 2 ^ n" for v :: u64
  by (simp add: take_bit_eq_mask [symmetric] unsigned_take_bit_eq flip: take_bit_eq_mod)

lemma int_conversion_type:
  assumes "folds a" and "s' = s \<or> w' = w"
  shows "shd_check_type_prim_op a convert_op [Int_type w' s'] [int_literal a w s v] = Inr (QualifiedType True (Int_type w' s'))"
  using assms
  by (auto simp: shd_check_type_prim_op_def check_cast_def counts_def folds_def type_int_literal shd_deconstruct_qualified_type_def
      require_data_type_def shd_is_conversion_legal_def convertible_def qualified_scalar_checks)

text \<open>The number an integer literal stands for.\<close>

definition literal_number :: "IntSizes \<Rightarrow> bool \<Rightarrow> u64 \<Rightarrow> int" where
  "literal_number w s v =
     (if s then sint (shd_get_int_literal_value (w, s, v) True) else uint (shd_get_int_literal_value (w, s, v) False))"

lemma literal_number_bits: "uint (shd_get_int_literal_value (w, s, v) s) mod 2 ^ int_bits w' = literal_number w s v mod 2 ^ int_bits w'"
proof -
  have "int_bits w' \<le> 64" by (cases w') (simp_all add: int_bits_def int_size_in_bytes_def)
  then have "take_bit (int_bits w') (sint u) = take_bit (int_bits w') (uint u)" for u :: u64
    by (simp add: sint_uint take_bit_signed_take_bit min_def)
  then show ?thesis by (simp add: literal_number_def take_bit_eq_mod)
qed

lemma create_convert:
  assumes a: "folds a" and "s' = s \<or> w' = w"
  shows "shd_create_node_helper F a fresh (PrimOp convert_op [Int_type w' s'] [int_literal a w s v])
    = Inr (int_literal a w' s' (shd_get_int_literal_value (w, s, v) s AND mask (int_bits w')))"
proof -
  let ?args = "[int_literal a w s v]" and ?tys = "[Int_type w' s']"
  let ?n = "Node 0 (PrimOp convert_op ?tys ?args) (Some (QualifiedType True (Int_type w' s')))"
  let ?mk = "create_node 7 F a fresh"
  have mk: "?mk (IntLiteral w' s' u) = Inr (int_literal a w' s' u)" for u
    using create_int_literal [OF a, of 6 F fresh w' s' u] by simp
  have "fold_constant_math F a ?mk convert_op ?tys ?args
      = Inr (Some (int_literal a w' s' (shd_get_int_literal_value (w, s, v) s AND mask (int_bits w'))))"
    by (simp add: fold_constant_math_def resolve_literal all_literals_def fold_convert_def shd_first_def int_width_mask nth_res_def Let_def mk)
  then have "fold_prim_op F a ?mk ?n convert_op ?tys ?args
      = Inr (int_literal a w' s' (shd_get_int_literal_value (w, s, v) s AND mask (int_bits w')))"
    by (simp add: fold_prim_op_def)
  moreover have "shd_create_node_helper F a fresh (PrimOp convert_op ?tys ?args)
      = bind_res (fold_prim_op F a ?mk ?n convert_op ?tys ?args) (check_folded a ?n)"
    using a int_conversion_type [OF assms, of v]
    by (simp add: create_unfold Let_def folds_def with_type_def fold_node_def fold_memory_poison_def is_undef_def shd_first_def
        fold_simplify_ptr_operand_def)
  moreover have "check_folded a ?n (int_literal a w' s' u) = Inr (int_literal a w' s' u)" for u
    using a by (simp add: check_folded_def folds_def int_literal_def)
  ultimately show ?thesis by simp
qed

text \<open>
  C39: Converting an integer literal to another width or sign that the type checker allows gives the literal congruent to
  the number it stands for, sign-extended if its own type is signed, modulo the width of the new type.
\<close>

theorem fold_convert_sound:
  assumes "folds a" and "s' = s \<or> w' = w"
  shows "\<exists>v'. shd_create_node_helper F a fresh (PrimOp convert_op [Int_type w' s'] [int_literal a w s v]) = Inr (int_literal a w' s' v')
    \<and> uint v' = literal_number w s v mod 2 ^ int_bits w'"
  by (intro exI conjI, rule create_convert [OF assms]) (simp add: and_mask_value literal_number_bits)

text \<open>
  A float literal converted to another float type: the number cast to an integer becomes the bits of the result. A
  negative integer converted to a float: the number of its 64-bit two's complement.
\<close>

theorem fold_float_conversion:
  assumes "folds a"
  shows "fold_constant_math F a (create_node 7 F a fresh) convert_op [Float_type FloatTy64] [float_literal FloatTy32 v]
      = Inr (Some (float_literal FloatTy64 (d_to_u64 F (d_of_float F (ucast v)))))"
    and "fold_constant_math F a (create_node 7 F a fresh) convert_op [Float_type FloatTy64] [int_literal a IntTy32 True 0xFFFFFFFF]
      = Inr (Some (float_literal FloatTy64 (bits_of_d F (d_of_u64 F (2 ^ 64 - 1)))))"
proof -
  have mk: "create_node 7 F a fresh (FloatLiteral FloatTy64 u) = Inr (float_literal FloatTy64 u)" for u
    using create_float_literal [OF assms, of 6 F fresh FloatTy64 u] by simp
  have width: "width_mask (shd_get_type_bitwidth a (Float_type FloatTy64)) = Inr (- 1)"
    by (simp add: shd_get_type_bitwidth_def float_size_in_bytes_def width_mask_def)
  show "fold_constant_math F a (create_node 7 F a fresh) convert_op [Float_type FloatTy64] [float_literal FloatTy32 v]
      = Inr (Some (float_literal FloatTy64 (d_to_u64 F (d_of_float F (ucast v)))))"
    by (simp add: fold_constant_math_def resolve_literal all_literals_def fold_convert_def shd_first_def width nth_res_def Let_def mk
        shd_get_float_literal_value_def)
  have "shd_get_int_literal_value (IntTy32, True, 0xFFFFFFFF) True = 2 ^ 64 - 1"
    by (simp add: shd_get_int_literal_value_def)
  then show "fold_constant_math F a (create_node 7 F a fresh) convert_op [Float_type FloatTy64] [int_literal a IntTy32 True 0xFFFFFFFF]
      = Inr (Some (float_literal FloatTy64 (bits_of_d F (d_of_u64 F (2 ^ 64 - 1)))))"
    by (simp add: fold_constant_math_def resolve_literal all_literals_def fold_convert_def shd_first_def width nth_res_def Let_def mk
        shd_fp_literal_helper_def)
qed

subsection \<open>Witnesses\<close>

text \<open>A host whose numbers are integers.\<close>

definition example_floats :: "int float_ops" where
  "example_floats =
     \<lparr>d_of_float = uint, float_of_d = word_of_int, d_of_bits = uint, bits_of_d = word_of_int, d_neg = uminus,
      d_add = plus, d_sub = minus, d_mul = times, d_div = divide, d_fmod = modulo, d_of_u64 = uint,
      d_to_i64 = word_of_int, d_to_u64 = word_of_int\<rparr>"

lemma example_folds: "folds example_arena"
  by (simp add: folds_def example_arena_def example_config_def)

lemma resolve_param:
  "shd_resolve_to_int_literal a (Some (u32_value u)) = Inr None" "shd_resolve_to_float_literal a (Some (u32_value u)) = Inr None"
  by (simp_all add: shd_resolve_to_int_literal_def shd_resolve_to_float_literal_def resolve_default_def chase_depth_def u32_value_def)

lemma example_int_operands:
  "int_operand example_arena IntTy32 False (u32_value u)"
  "int_operand example_arena IntTy32 False (int_literal example_arena IntTy32 False v)"
proof -
  show "int_operand example_arena IntTy32 False (u32_value u)"
    using resolve_param by (simp add: int_operand_def u32_value_def shd_fold_node_operand_def example_arena_def example_config_def)
  show "int_operand example_arena IntTy32 False (int_literal example_arena IntTy32 False v)"
    using resolve_literal(1,2) [OF pl_int_literal]
    by (simp add: int_operand_def type_int_literal [OF example_check_types])
qed

lemma example_values:
  "int_value a \<rho> (u32_value u) = \<rho> (u32_value u)"
  "int_value a \<rho> (int_literal a w s v) = uint v mod 2 ^ int_bits w"
  using resolve_param by (simp_all add: int_value.simps [of a \<rho>] u32_value_def resolve_literal)

theorem fold_keeps_value_witness:
  "\<exists>n. shd_create_node_helper example_floats example_arena 9
         (PrimOp add_op [] [u32_value True, int_literal example_arena IntTy32 False 0]) = Inr n
     \<and> int_value example_arena (\<lambda>_. 5) n = 5"
  using fold_keeps_value [OF example_folds example_int_operands(1) [of True] example_int_operands(2) [of 0],
      of add_op "\<lambda>_. 5" example_floats 9]
  by (simp add: example_values in_range_def int_bits_def int_size_in_bytes_def)

theorem fold_division_witness:
  "shd_create_node_helper example_floats example_arena 9
     (PrimOp div_op [] [int_literal example_arena IntTy32 False 7, int_literal example_arena IntTy32 False 0]) = Inl DivisionByZero"
  using fold_division [OF example_folds, of example_floats 9 IntTy32 False 7 0] by simp

theorem fold_division_wrong_witness:
  "bind_res (shd_create_node_helper example_floats example_arena 9
       (PrimOp div_op [] [int_literal example_arena IntTy32 True 0xFFFFFFFC, int_literal example_arena IntTy32 True 2]))
     (\<lambda>half. Inr (int_value example_arena (\<lambda>_. 0) half)) = Inr 0x7FFFFFFE"
  by (rule fold_division_wrong [OF example_folds, THEN conjunct2])

theorem fold_convert_sound_witness:
  "\<exists>v'. shd_create_node_helper example_floats example_arena 9 (PrimOp convert_op [Int_type IntTy64 True]
         [int_literal example_arena IntTy32 True 0xFFFFFFFF]) = Inr (int_literal example_arena IntTy64 True v')
     \<and> uint v' = 2 ^ 64 - 1"
  using fold_convert_sound [OF example_folds, of True True IntTy64 IntTy32 example_floats 9 "0xFFFFFFFF"]
  by (simp add: literal_number_def shd_get_int_literal_value_def int_bits_def int_size_in_bytes_def)

end
