(* ===== verification/IrCfg.thy ===== *)
theory IrCfg
  imports IrFold
begin

text \<open>
  Control flow graphs: \<^verbatim>\<open>src/shady/analysis/cfg.c\<close>. A graph is a list of nodes, the pointers to
  them are positions in it; the hash tables from abstractions to nodes are association lists. The
  graph is built by a depth-first walk, numbered in reverse post-order and given its dominator tree.

  Recursions that follow the graph run on fuel: every nested call enters a node that was not entered
  before, so that one more than the number of nodes is enough.
\<close>

subsection \<open>Data\<close>

datatype CFEdgeType =
    JumpEdge | StructuredEnterBodyEdge | StructuredLoopContinue | StructuredLeaveBodyEdge | StructuredTailEdge

record CFEdge =
  etype :: CFEdgeType
  esrc :: nat
  edst :: nat
  ejump :: "node option"
  eterminator :: "node option"

record CFNode =
  cnode :: "abstraction option"
  reachable :: bool
  succ_edges :: "CFEdge list"
  pred_edges :: "CFEdge list"
  rpo_index :: nat
  idom :: "nat option"
  structured_idom :: "nat option"
  structured_idom_edge :: "CFEdge option"
  dominates :: "nat list"
  structurally_dominates :: "abstraction list"

text \<open>Loop trees, which restrict a graph to a loop.\<close>

datatype LTNodeType = LF_HEAD | LF_LEAF

record LTNode =
  ltype :: LTNodeType
  lparent :: "nat option"
  lcf_nodes :: "nat list"
  ldepth :: nat
  lf_children :: "nat list"

text \<open>The nodes of the tree, the root first, its leaves by abstraction, and the graph it was built from.\<close>

record LoopTree =
  lnodes :: "LTNode list"
  lmap :: "(abstraction option \<times> nat) list"
  lcfg :: "CFNode list"

record CFGBuildConfig =
  include_structured_exits :: bool
  include_structured_tails :: bool
  lt :: "LoopTree option"
  flipped :: bool

definition default_forward_cfg_build :: CFGBuildConfig where
  "default_forward_cfg_build =
     \<lparr>include_structured_exits = True, include_structured_tails = True, lt = None, flipped = False\<rparr>"

definition structured_scope_cfg_build :: CFGBuildConfig where
  "structured_scope_cfg_build =
     \<lparr>include_structured_exits = False, include_structured_tails = True, lt = None, flipped = False\<rparr>"

definition flipped_cfg_build :: CFGBuildConfig where
  "flipped_cfg_build =
     \<lparr>include_structured_exits = False, include_structured_tails = False, lt = None, flipped = True\<rparr>"

record CFG =
  cconfig :: CFGBuildConfig
  csize :: nat
  contents :: "nat list"
  cmap :: "(abstraction \<times> nat) list"
  centry :: nat
  rpo :: "nat option list"
  cnodes :: "CFNode list"

definition SIZE_MAX :: nat where
  "SIZE_MAX = 2 ^ 64 - 1"

text \<open>Following a pointer into a list.\<close>

definition at :: "'a list \<Rightarrow> nat \<Rightarrow> 'a result" where
  "at xs i = (if i < length xs then Inr (xs ! i) else Inl OutOfBounds)"

text \<open>The body of a function or basic block.\<close>

definition get_abstraction_body :: "arena \<Rightarrow> abstraction \<Rightarrow> node option result" where
  "get_abstraction_body a absn =
     (case absn of
        AbsBlock b \<Rightarrow> bind_res (get_block a b) (\<lambda>bb. Inr (bb_body bb))
      | AbsFn f \<Rightarrow>
          bind_res (get_decl a f) (\<lambda>d. case d of Function _ _ _ _ body \<Rightarrow> Inr body | _ \<Rightarrow> Inl AssertFailed))"

subsection \<open>Construction\<close>

record CfgBuildContext =
  cfg_function :: decl_id
  ctx_entry :: abstraction
  cfg_config :: CFGBuildConfig
  selection_construct_tail :: "block_id option"
  loop_construct_head :: "block_id option"
  loop_construct_tail :: "block_id option"

text \<open>What all contexts share.\<close>

record build_state =
  bnodes :: "CFNode list"
  bmap :: "(abstraction \<times> nat) list"
  bcontents :: "nat list"
  join_point_values :: "(node \<times> block_id) list"

definition new_cfnode :: "abstraction option \<Rightarrow> CFNode" where
  "new_cfnode absn =
     \<lparr>cnode = absn, reachable = False, succ_edges = [], pred_edges = [], rpo_index = SIZE_MAX, idom = None,
      structured_idom = None, structured_idom_edge = None, dominates = [], structurally_dominates = []\<rparr>"

definition shd_loop_tree_lookup :: "LoopTree \<Rightarrow> abstraction \<Rightarrow> nat result" where
  "shd_loop_tree_lookup t block = (case map_of (lmap t) (Some block) of Some n \<Rightarrow> Inr n | None \<Rightarrow> Inl AssertFailed)"

text \<open>The walk up the parents of a node; every one of them is another node of the tree.\<close>

fun in_loop_from :: "nat \<Rightarrow> LoopTree \<Rightarrow> abstraction \<Rightarrow> abstraction \<Rightarrow> nat option \<Rightarrow> bool result" where
  "in_loop_from fuel t fn loopentry None = Inr False"
| "in_loop_from 0 t fn loopentry (Some p) = Inl OutOfFuel"
| "in_loop_from (Suc fuel) t fn loopentry (Some p) =
     bind_res (at (lnodes t) p) (\<lambda>parent.
     bind_res (case lcf_nodes parent of
                 [] \<Rightarrow> Inr (loopentry = fn)
               | [h] \<Rightarrow> bind_res (at (lcfg t) h) (\<lambda>h. Inr (cnode h = Some loopentry))
               | _ \<Rightarrow> Inr False) (\<lambda>b.
       if b then Inr True else in_loop_from fuel t fn loopentry (lparent parent)))"

definition in_loop :: "LoopTree \<Rightarrow> abstraction \<Rightarrow> abstraction \<Rightarrow> abstraction \<Rightarrow> bool result" where
  "in_loop t fn loopentry block =
     bind_res (shd_loop_tree_lookup t block) (\<lambda>lt_node.
     bind_res (at (lnodes t) lt_node) (\<lambda>lt_node.
       require (lparent lt_node \<noteq> None)
         (in_loop_from (length (lnodes t)) t fn loopentry (lparent lt_node))))"

text \<open>An edge that processing a node asks for: its context, target, type and terminator.\<close>

record edge_request =
  rcontext :: CfgBuildContext
  rdst :: block_id
  rtype :: CFEdgeType
  rterm :: node
  rdominance :: bool      \<comment> \<open>also enters the target in \<^verbatim>\<open>structurally_dominates\<close>\<close>

definition jump_edge :: "CfgBuildContext \<Rightarrow> node \<Rightarrow> edge_request result" where
  "jump_edge ctx j =
     (case pl j of
        Jump _ target _ \<Rightarrow> Inr \<lparr>rcontext = ctx, rdst = target, rtype = JumpEdge, rterm = j, rdominance = False\<rparr>
      | _ \<Rightarrow> Inl AssertFailed)"

definition structural_edge :: "CfgBuildContext \<Rightarrow> block_id \<Rightarrow> CFEdgeType \<Rightarrow> node \<Rightarrow> edge_request" where
  "structural_edge ctx dst t term = \<lparr>rcontext = ctx, rdst = dst, rtype = t, rterm = term, rdominance = False\<rparr>"

definition structural_dominance_edge :: "CfgBuildContext \<Rightarrow> block_id \<Rightarrow> CFEdgeType \<Rightarrow> node \<Rightarrow> edge_request" where
  "structural_dominance_edge ctx dst t term = (structural_edge ctx dst t term)\<lparr>rdominance := True\<rparr>"

definition tail_edges :: "CfgBuildContext \<Rightarrow> block_id \<Rightarrow> node \<Rightarrow> edge_request list" where
  "tail_edges ctx tail term =
     (if include_structured_tails (cfg_config ctx)
      then [structural_dominance_edge ctx tail StructuredTailEdge term] else [])"

definition exit_edge :: "CfgBuildContext \<Rightarrow> block_id option \<Rightarrow> CFEdgeType \<Rightarrow> node \<Rightarrow> edge_request list result" where
  "exit_edge ctx dst t term =
     require (dst \<noteq> None)
       (Inr (if include_structured_exits (cfg_config ctx) then [structural_edge ctx (the dst) t term] else []))"

text \<open>The edges out of a node by its terminator, in the order they are added, and the join points known afterwards.\<close>

definition terminator_edges ::
  "arena \<Rightarrow> CfgBuildContext \<Rightarrow> (node \<times> block_id) list \<Rightarrow> node \<Rightarrow> (edge_request list \<times> (node \<times> block_id) list) result" where
  "terminator_edges a ctx joins term =
     (case pl term of
        Jump _ _ _ \<Rightarrow> bind_res (jump_edge ctx term) (\<lambda>e. Inr ([e], joins))
      | Branch _ _ true_jump false_jump \<Rightarrow>
          bind_res (jump_edge ctx true_jump) (\<lambda>e1. bind_res (jump_edge ctx false_jump) (\<lambda>e2. Inr ([e1, e2], joins)))
      | Switch _ _ _ case_jumps default_jump \<Rightarrow>
          bind_res (map_res (jump_edge ctx) case_jumps) (\<lambda>es.
          bind_res (jump_edge ctx default_jump) (\<lambda>e. Inr (es @ [e], joins)))
      | If _ _ _ if_true if_false tail \<Rightarrow>
          let if_ctx = ctx\<lparr>selection_construct_tail := Some tail\<rparr>
          in Inr (tail_edges ctx tail term
                  @ [structural_edge if_ctx if_true StructuredEnterBodyEdge term]
                  @ [case if_false of
                       Some f \<Rightarrow> structural_edge if_ctx f StructuredEnterBodyEdge term
                     | None \<Rightarrow> structural_edge ctx tail StructuredLeaveBodyEdge term], joins)
      | Match _ _ _ _ cases default_case tail \<Rightarrow>
          let match_ctx = ctx\<lparr>selection_construct_tail := Some tail\<rparr>
          in Inr (tail_edges ctx tail term
                  @ map (\<lambda>c. structural_edge match_ctx c StructuredEnterBodyEdge term) (cases @ [default_case]), joins)
      | Loop _ _ body _ tail \<Rightarrow>
          let loop_ctx = ctx\<lparr>loop_construct_head := Some body, loop_construct_tail := Some tail\<rparr>
          in Inr (tail_edges ctx tail term @ [structural_edge loop_ctx body StructuredEnterBodyEdge term], joins)
      | Control _ _ inside tail \<Rightarrow>
          bind_res (get_block a inside) (\<lambda>bb. bind_res (shd_first (bb_params bb)) (\<lambda>param.
            Inr (structural_dominance_edge ctx inside StructuredEnterBodyEdge term # tail_edges ctx tail term,
                 (param, tail) # joins)))
      | Join _ join_point _ \<Rightarrow>
          Inr (case (include_structured_exits (cfg_config ctx), map_of joins join_point) of
                 (True, Some dst) \<Rightarrow> [structural_edge ctx dst StructuredLeaveBodyEdge term]
               | _ \<Rightarrow> [], joins)
      | MergeSelection _ _ \<Rightarrow>
          bind_res (exit_edge ctx (selection_construct_tail ctx) StructuredLeaveBodyEdge term) (\<lambda>es. Inr (es, joins))
      | MergeContinue _ _ \<Rightarrow>
          bind_res (exit_edge ctx (loop_construct_head ctx) StructuredLoopContinue term) (\<lambda>es. Inr (es, joins))
      | MergeBreak _ _ \<Rightarrow>
          bind_res (exit_edge ctx (loop_construct_tail ctx) StructuredLeaveBodyEdge term) (\<lambda>es. Inr (es, joins))
      | TailCall _ _ _ \<Rightarrow> Inr ([], joins)
      | Return _ _ \<Rightarrow> Inr ([], joins)
      | Unreachable _ \<Rightarrow> Inr ([], joins)
      | _ \<Rightarrow> Inl (ShdError ''Grammar problem''))"

type_synonym enqueue = "CfgBuildContext \<Rightarrow> build_state \<Rightarrow> abstraction \<Rightarrow> (nat \<times> build_state) result"

text \<open>Both ends are entered, then the edge is appended to the lists of both.\<close>

definition link_edge :: "CFEdge \<Rightarrow> CFNode list \<Rightarrow> CFNode list" where
  "link_edge e ns =
     (let ns = ns[esrc e := (ns ! esrc e)\<lparr>succ_edges := succ_edges (ns ! esrc e) @ [e]\<rparr>]
      in ns[edst e := (ns ! edst e)\<lparr>pred_edges := pred_edges (ns ! edst e) @ [e]\<rparr>])"

definition edge_wanted :: "edge_request \<Rightarrow> bool result" where
  "edge_wanted r =
     (let ctx = rcontext r in
      require (is_terminator (pl (rterm r)))
        (case lt (cfg_config ctx) of
           None \<Rightarrow> Inr True
         | Some t \<Rightarrow>
             bind_res (in_loop t (AbsFn (cfg_function ctx)) (ctx_entry ctx) (AbsBlock (rdst r))) (\<lambda>b.
               Inr (b \<and> AbsBlock (rdst r) \<noteq> ctx_entry ctx))))"

definition add_edge :: "enqueue \<Rightarrow> abstraction \<Rightarrow> edge_request \<Rightarrow> build_state \<Rightarrow> build_state result" where
  "add_edge get_or_enqueue src r s =
     bind_res (edge_wanted r) (\<lambda>wanted.
       if wanted
       then bind_res (get_or_enqueue (rcontext r) s src) (\<lambda>(src_node, s).
            bind_res (get_or_enqueue (rcontext r) s (AbsBlock (rdst r))) (\<lambda>(dst_node, s).
              Inr (s\<lparr>bnodes := link_edge
                       \<lparr>etype = rtype r, esrc = src_node, edst = dst_node,
                        ejump = (case pl (rterm r) of Jump _ _ _ \<Rightarrow> Some (rterm r) | _ \<Rightarrow> None),
                        eterminator = Some (rterm r)\<rparr> (bnodes s)\<rparr>)))
       else Inr s)"

definition add_structural_dominance :: "nat \<Rightarrow> edge_request \<Rightarrow> build_state \<Rightarrow> build_state" where
  "add_structural_dominance parent r s =
     (if rdominance r
      then s\<lparr>bnodes := (bnodes s)[parent := (bnodes s ! parent)\<lparr>structurally_dominates :=
               List.insert (AbsBlock (rdst r)) (structurally_dominates (bnodes s ! parent))\<rparr>]\<rparr>
      else s)"

definition process_cf_node :: "arena \<Rightarrow> enqueue \<Rightarrow> CfgBuildContext \<Rightarrow> nat \<Rightarrow> abstraction \<Rightarrow> build_state \<Rightarrow> build_state result" where
  "process_cf_node a get_or_enqueue ctx node absn s =
     bind_res (get_abstraction_body a absn) (\<lambda>body.
       case body of
         None \<Rightarrow> Inr s
       | Some term \<Rightarrow>
           bind_res (terminator_edges a ctx (join_point_values s) term) (\<lambda>(es, joins).
             fold_res (\<lambda>r s. bind_res (add_edge get_or_enqueue absn r s) (\<lambda>s. Inr (add_structural_dominance node r s)))
               es (s\<lparr>join_point_values := joins\<rparr>)))"

primrec get_or_enqueue :: "nat \<Rightarrow> arena \<Rightarrow> enqueue" where
  "get_or_enqueue 0 a = (\<lambda>ctx s absn. Inl OutOfFuel)"
| "get_or_enqueue (Suc fuel) a = (\<lambda>ctx s absn.
     require (case absn of AbsFn f \<Rightarrow> f = cfg_function ctx | AbsBlock _ \<Rightarrow> True)
       (case map_of (bmap s) absn of
          Some found \<Rightarrow> Inr (found, s)
        | None \<Rightarrow>
            let new = length (bnodes s);
                s = s\<lparr>bnodes := bnodes s @ [new_cfnode (Some absn)], bmap := (absn, new) # bmap s\<rparr>
            in bind_res (process_cf_node a (get_or_enqueue fuel a) ctx new absn s) (\<lambda>s.
                 Inr (new, s\<lparr>bcontents := bcontents s @ [new]\<rparr>))))"

subsection \<open>Marking and validating\<close>

primrec mark_reachable :: "nat \<Rightarrow> nat \<Rightarrow> CFNode list \<Rightarrow> CFNode list result" where
  "mark_reachable 0 n ns = Inl OutOfFuel"
| "mark_reachable (Suc fuel) n ns =
     bind_res (at ns n) (\<lambda>cur.
       if reachable cur then Inr ns
       else fold_res (\<lambda>e ns. if etype e = StructuredTailEdge then Inr ns else mark_reachable fuel (edst e) ns)
              (succ_edges cur) (ns[n := cur\<lparr>reachable := True\<rparr>]))"

definition count_edges :: "CFEdgeType set \<Rightarrow> CFNode \<Rightarrow> nat" where
  "count_edges ts n = length (filter (\<lambda>e. etype e \<in> ts) (pred_edges n))"

definition validate_cfg :: "CFG \<Rightarrow> unit result" where
  "validate_cfg cfg =
     bind_res (map_res (\<lambda>i.
       bind_res (at (cnodes cfg) i) (\<lambda>n.
       let structured_body_uses = count_edges {StructuredEnterBodyEdge, StructuredTailEdge} n;
           num_jumps = count_edges {JumpEdge} n;
           num_exits = count_edges {StructuredLeaveBodyEdge} n;
           is_tail = (count_edges {StructuredTailEdge} n > 0)
       in if i \<noteq> centry cfg \<and> structured_body_uses > 0
             \<and> (structured_body_uses > 1 \<or> num_jumps > 0 \<or> \<not> is_tail \<and> num_exits > 0)
          then Inl (ShdError ''Basic block is used as structural target more than once or is jumped into'')
          else Inr ())) (contents cfg)) (\<lambda>_. Inr ())"

subsection \<open>Inverting the edges\<close>

definition flip_edge :: "CFEdge \<Rightarrow> CFEdge" where
  "flip_edge e = e\<lparr>esrc := edst e, edst := esrc e\<rparr>"

definition flip_node :: "CFNode \<Rightarrow> CFNode" where
  "flip_node n = n\<lparr>succ_edges := map flip_edge (pred_edges n), pred_edges := map flip_edge (succ_edges n)\<rparr>"

definition entry_edge :: "nat \<Rightarrow> nat \<Rightarrow> CFEdge" where
  "entry_edge src dst = \<lparr>etype = JumpEdge, esrc = src, edst = dst, ejump = None, eterminator = None\<rparr>"

text \<open>One turn of the loop: the nodes and the entry found so far. A second exit is given a new entry in front of both.\<close>

definition flip_step :: "nat \<Rightarrow> CFNode list \<times> nat option \<Rightarrow> (CFNode list \<times> nat option) result" where
  "flip_step cur s =
     (case s of (ns, found) \<Rightarrow>
       bind_res (at ns cur) (\<lambda>n.
         let n = flip_node n; ns = ns[cur := n]
         in if pred_edges n \<noteq> [] then Inr (ns, found)
            else case found of
              None \<Rightarrow> Inr (ns, Some cur)
            | Some e \<Rightarrow>
                bind_res (at ns e) (\<lambda>en.
                let (ns, e) =
                      (if cnode en \<noteq> None
                       then (let new = length ns in (link_edge (entry_edge new e) (ns @ [new_cfnode None]), new))
                       else (ns, e))
                in Inr (link_edge (entry_edge e cur) ns, Some e))))"

definition flip_cfg :: "CFG \<Rightarrow> CFG result" where
  "flip_cfg cfg =
     bind_res (fold_res flip_step (contents cfg) (cnodes cfg, None)) (\<lambda>(ns, found).
       case found of
         None \<Rightarrow> Inl AssertFailed
       | Some e \<Rightarrow>
           bind_res (at ns e) (\<lambda>en.
             if cnode en = None
             then Inr (cfg\<lparr>cnodes := ns, centry := e, csize := csize cfg + 1, contents := contents cfg @ [e]\<rparr>)
             else Inr (cfg\<lparr>cnodes := ns, centry := e\<rparr>)))"

subsection \<open>Reverse post-order\<close>

text \<open>The edges out of a node in the order of the visit: structured tails last.\<close>

definition tails_last :: "CFEdge list \<Rightarrow> CFEdge list" where
  "tails_last es = filter (\<lambda>e. etype e \<noteq> StructuredTailEdge) es @ filter (\<lambda>e. etype e = StructuredTailEdge) es"

type_synonym rpo_state = "nat \<times> CFNode list \<times> nat option list"

definition post_order_succ :: "(nat \<Rightarrow> rpo_state \<Rightarrow> rpo_state result) \<Rightarrow> CFEdge \<Rightarrow> rpo_state \<Rightarrow> rpo_state result" where
  "post_order_succ visit e s =
     (case s of (i, ns, order) \<Rightarrow>
       bind_res (at ns (edst e)) (\<lambda>d. if rpo_index d = SIZE_MAX then visit (edst e) s else Inr s))"

primrec post_order_visit :: "nat \<Rightarrow> nat \<Rightarrow> rpo_state \<Rightarrow> rpo_state result" where
  "post_order_visit 0 n s = Inl OutOfFuel"
| "post_order_visit (Suc fuel) n s =
     (case s of (i, ns, order) \<Rightarrow>
       bind_res (at ns n) (\<lambda>cur.
       bind_res (fold_res (post_order_succ (post_order_visit fuel)) (tails_last (succ_edges cur))
                  (i, ns[n := cur\<lparr>rpo_index := SIZE_MAX - 1\<rparr>], order)) (\<lambda>(i, ns, order).
         if 0 < i \<and> i \<le> length order
         then Inr (i - 1, ns[n := (ns ! n)\<lparr>rpo_index := i - 1\<rparr>], order[i - 1 := Some n])
         else Inl OutOfBounds)))"

definition shd_cfg_compute_rpo :: "CFG \<Rightarrow> CFG result" where
  "shd_cfg_compute_rpo cfg =
     bind_res (post_order_visit (length (cnodes cfg) + 1) (centry cfg) (csize cfg, cnodes cfg, replicate (csize cfg) None))
       (\<lambda>(index, ns, order). require (index = 0) (Inr (cfg\<lparr>cnodes := ns, rpo := order\<rparr>)))"

subsection \<open>Dominators\<close>

text \<open>
  The two inner loops climb from the node with the larger index; every step climbs, so that as many steps as both have
  ancestors are enough.
\<close>

primrec lca_from :: "nat \<Rightarrow> CFNode list \<Rightarrow> nat \<Rightarrow> nat \<Rightarrow> nat result" where
  "lca_from 0 ns i j = Inl OutOfFuel"
| "lca_from (Suc fuel) ns i j =
     bind_res (at ns i) (\<lambda>ni. bind_res (at ns j) (\<lambda>nj.
       if rpo_index ni = rpo_index nj then Inr i
       else if rpo_index ni < rpo_index nj then bind_res (deref (idom nj)) (\<lambda>j. lca_from fuel ns i j)
       else bind_res (deref (idom ni)) (\<lambda>i. lca_from fuel ns i j)))"

definition shd_cfg_least_common_ancestor :: "CFNode list \<Rightarrow> nat \<Rightarrow> nat \<Rightarrow> nat result" where
  "shd_cfg_least_common_ancestor ns i j = lca_from (2 * length ns + 1) ns i j"

definition last_tail_edge :: "CFEdge list \<Rightarrow> CFEdge option" where
  "last_tail_edge es = fold (\<lambda>e r. if etype e = StructuredTailEdge then Some e else r) es None"

fun earlier_pred :: "CFNode list \<Rightarrow> nat \<Rightarrow> CFEdge list \<Rightarrow> nat option result" where
  "earlier_pred ns index [] = Inr None"
| "earlier_pred ns index (e # es) =
     bind_res (at ns (esrc e)) (\<lambda>p. if rpo_index p < index then Inr (Some (esrc e)) else earlier_pred ns index es)"

text \<open>The first approximation: a predecessor that comes earlier.\<close>

definition init_idom :: "nat \<Rightarrow> nat \<Rightarrow> CFNode list \<Rightarrow> CFNode list result" where
  "init_idom entry i ns =
     (if i = entry then Inr ns
      else bind_res (at ns i) (\<lambda>n.
           let n = (case last_tail_edge (pred_edges n) of
                      Some e \<Rightarrow> n\<lparr>structured_idom := Some (esrc e), structured_idom_edge := Some e\<rparr>
                    | None \<Rightarrow> n)
           in bind_res (earlier_pred ns (rpo_index n) (pred_edges n)) (\<lambda>p.
                case p of
                  Some p \<Rightarrow> Inr (ns[i := n\<lparr>idom := Some p\<rparr>])
                | None \<Rightarrow>
                    if last_tail_edge (pred_edges n) \<noteq> None then Inr (ns[i := n])
                    else Inl (ShdError ''no idom found''))))"

definition meet_pred :: "CFNode list \<Rightarrow> CFEdge \<Rightarrow> nat option \<Rightarrow> nat option result" where
  "meet_pred ns e new_idom =
     (if etype e = StructuredTailEdge then Inr new_idom
      else case new_idom of
        Some d \<Rightarrow> bind_res (shd_cfg_least_common_ancestor ns d (esrc e)) (\<lambda>d. Inr (Some d))
      | None \<Rightarrow> Inr (Some (esrc e)))"

text \<open>One turn of the inner loop, with the flag \<^verbatim>\<open>todo\<close>.\<close>

definition update_idom :: "nat \<Rightarrow> nat \<Rightarrow> bool \<times> CFNode list \<Rightarrow> (bool \<times> CFNode list) result" where
  "update_idom entry i s =
     (case s of (todo, ns) \<Rightarrow>
       bind_res (at ns i) (\<lambda>n.
         if i = entry \<or> structured_idom n \<noteq> None then Inr (todo, ns)
         else bind_res (fold_res (meet_pred ns) (pred_edges n) None) (\<lambda>new_idom.
              require (new_idom \<noteq> None)
                (if idom n \<noteq> new_idom then Inr (True, ns[i := n\<lparr>idom := new_idom\<rparr>]) else Inr (todo, ns)))))"

definition idom_sweep :: "nat \<Rightarrow> nat list \<Rightarrow> CFNode list \<Rightarrow> (bool \<times> CFNode list) result" where
  "idom_sweep entry nodes ns = fold_res (update_idom entry) nodes (False, ns)"

text \<open>The loop goes on until a sweep changes nothing.\<close>

partial_function (option) idom_loop :: "nat \<Rightarrow> nat list \<Rightarrow> CFNode list \<Rightarrow> CFNode list result option" where
  "idom_loop entry nodes ns =
     (case idom_sweep entry nodes ns of
        Inl err \<Rightarrow> Some (Inl err)
      | Inr (todo, ns) \<Rightarrow> if todo then idom_loop entry nodes ns else Some (Inr ns))"

declare idom_loop.simps [code]

definition record_dominated :: "nat \<Rightarrow> CFNode list \<Rightarrow> CFNode list result" where
  "record_dominated i ns =
     bind_res (at ns i) (\<lambda>n.
       case idom n of
         None \<Rightarrow> Inr ns
       | Some d \<Rightarrow> bind_res (at ns d) (\<lambda>dn. Inr (ns[d := dn\<lparr>dominates := dominates dn @ [i]\<rparr>])))"

definition shd_cfg_compute_domtree :: "CFG \<Rightarrow> CFG result" where
  "shd_cfg_compute_domtree cfg =
     bind_res (fold_res (init_idom (centry cfg)) (contents cfg) (cnodes cfg)) (\<lambda>ns.
     bind_res (case idom_loop (centry cfg) (contents cfg) ns of None \<Rightarrow> Inl OutOfFuel | Some r \<Rightarrow> r) (\<lambda>ns.
     bind_res (map_res deref (rpo cfg)) (\<lambda>order.
     bind_res (fold_res (\<lambda>i ns. bind_res (at ns i) (\<lambda>n. Inr (ns[i := n\<lparr>dominates := []\<rparr>]))) order ns) (\<lambda>ns.
     bind_res (fold_res record_dominated order ns) (\<lambda>ns.
       Inr (cfg\<lparr>cnodes := ns\<rparr>))))))"

subsection \<open>The whole graph\<close>

definition shd_new_cfg :: "arena \<Rightarrow> decl_id \<Rightarrow> abstraction \<Rightarrow> CFGBuildConfig \<Rightarrow> CFG result" where
  "shd_new_cfg a function entry conf =
     bind_res (get_decl a function) (\<lambda>d.
     require (case d of Function _ _ _ _ _ \<Rightarrow> True | _ \<Rightarrow> False)
       (let ctx = \<lparr>cfg_function = function, ctx_entry = entry, cfg_config = conf, selection_construct_tail = None,
                   loop_construct_head = None, loop_construct_tail = None\<rparr>;
            s = \<lparr>bnodes = [], bmap = [], bcontents = [], join_point_values = []\<rparr>
        in bind_res (get_or_enqueue (length (blocks a) + 2) a ctx s entry) (\<lambda>(entry_node, s).
           bind_res (mark_reachable (length (bnodes s) + 1) entry_node (bnodes s)) (\<lambda>ns.
           let cfg = \<lparr>cconfig = conf, csize = length (bcontents s), contents = bcontents s, cmap = bmap s,
                      centry = entry_node, rpo = [], cnodes = ns\<rparr>
           in bind_res (validate_cfg cfg) (\<lambda>_.
              bind_res (if flipped conf then flip_cfg cfg else Inr cfg) (\<lambda>cfg.
              bind_res (shd_cfg_compute_rpo cfg) shd_cfg_compute_domtree))))))"

definition shd_build_cfgs :: "arena \<Rightarrow> decl_id list \<Rightarrow> CFGBuildConfig \<Rightarrow> CFG list result" where
  "shd_build_cfgs a declarations conf =
     bind_res (map_res (\<lambda>d. bind_res (get_decl a d) (\<lambda>decl. Inr (d, decl))) declarations) (\<lambda>ds.
       map_res (\<lambda>(d, _). shd_new_cfg a d (AbsFn d) conf)
         (filter (\<lambda>(_, decl). case decl of Function _ _ _ _ _ \<Rightarrow> True | _ \<Rightarrow> False) ds))"

subsection \<open>Queries\<close>

definition shd_cfg_lookup :: "CFG \<Rightarrow> abstraction \<Rightarrow> nat result" where
  "shd_cfg_lookup cfg absn =
     (case map_of (cmap cfg) absn of
        Some i \<Rightarrow> bind_res (at (cnodes cfg) i) (\<lambda>n. require (cnode n = Some absn) (Inr i))
      | None \<Rightarrow> Inl AssertFailed)"

definition shd_cfg_is_node_structural_target :: "CFNode \<Rightarrow> bool" where
  "shd_cfg_is_node_structural_target cfn = (\<exists>e \<in> set (pred_edges cfn). etype e \<noteq> JumpEdge)"

primrec is_dominated_from :: "nat \<Rightarrow> CFNode list \<Rightarrow> nat \<Rightarrow> nat \<Rightarrow> bool result" where
  "is_dominated_from 0 ns a b = Inl OutOfFuel"
| "is_dominated_from (Suc fuel) ns a b =
     (if a = b then Inr True
      else bind_res (at ns a) (\<lambda>n.
        case idom n of
          Some d \<Rightarrow> is_dominated_from fuel ns d b
        | None \<Rightarrow> (case structured_idom n of Some d \<Rightarrow> is_dominated_from fuel ns d b | None \<Rightarrow> Inr False)))"

definition shd_cfg_is_dominated :: "CFG \<Rightarrow> nat \<Rightarrow> nat \<Rightarrow> bool result" where
  "shd_cfg_is_dominated cfg a b = is_dominated_from (length (cnodes cfg) + 1) (cnodes cfg) a b"

end
