(* ===== verification/IrLoop.thy ===== *)
theory IrLoop
  imports IrCfg
begin

text \<open>
  Loop trees: \<^verbatim>\<open>src/shady/analysis/looptree.c\<close>. A tree is a list of nodes, the root first; pointers to them are
  positions. The states of the builder are indexed by the reverse post-order of the graph, as in the code.
\<close>

record lt_state =
  in_scc :: bool
  on_stack :: bool
  is_head :: bool
  in_set :: bool
  dfs :: nat
  low_link :: nat

text \<open>The builder, and the nodes of the tree made so far.\<close>

record LoopTreeBuilder =
  states :: "lt_state list"
  lstack :: "nat list"
  ltree :: "LTNode list"

text \<open>The state of a node of the graph \<open>ns\<close>.\<close>

definition state_of :: "CFNode list \<Rightarrow> LoopTreeBuilder \<Rightarrow> nat \<Rightarrow> lt_state result" where
  "state_of ns b n = bind_res (at ns n) (\<lambda>c. at (states b) (rpo_index c))"

definition set_state :: "CFNode list \<Rightarrow> nat \<Rightarrow> (lt_state \<Rightarrow> lt_state) \<Rightarrow> LoopTreeBuilder \<Rightarrow> LoopTreeBuilder result" where
  "set_state ns n f b =
     bind_res (at ns n) (\<lambda>c. bind_res (at (states b) (rpo_index c)) (\<lambda>s. Inr (b\<lparr>states := (states b)[rpo_index c := f s]\<rparr>)))"

definition new_lf_node :: "LTNodeType \<Rightarrow> nat option \<Rightarrow> nat \<Rightarrow> nat list \<Rightarrow> LTNode list \<Rightarrow> LTNode list result" where
  "new_lf_node t parent dep nodes tree =
     (let n = \<lparr>ltype = t, lparent = parent, lcf_nodes = nodes, ldepth = dep, lf_children = []\<rparr>
      in case parent of
           None \<Rightarrow> Inr (tree @ [n])
         | Some p \<Rightarrow>
             bind_res (at tree p) (\<lambda>pn. Inr (tree[p := pn\<lparr>lf_children := lf_children pn @ [length tree]\<rparr>] @ [n])))"

text \<open>Whether a component of one node is not a loop: it has no edge to itself, unless it is known as a head.\<close>

definition is_leaf :: "CFNode list \<Rightarrow> LoopTreeBuilder \<Rightarrow> nat \<Rightarrow> nat \<Rightarrow> bool result" where
  "is_leaf ns b n num =
     (if num = 1
      then bind_res (at ns n) (\<lambda>c.
             all_res (\<lambda>e. bind_res (state_of ns b (edst e)) (\<lambda>s. Inr (\<not> (\<not> is_head s \<and> n = edst e)))) (succ_edges c))
      else Inr False)"

definition visit :: "CFNode list \<Rightarrow> nat \<Rightarrow> nat \<Rightarrow> LoopTreeBuilder \<Rightarrow> (nat \<times> LoopTreeBuilder) result" where
  "visit ns n counter b =
     bind_res (set_state ns n (\<lambda>s. s\<lparr>in_set := True, dfs := counter, low_link := counter, on_stack := True\<rparr>) b) (\<lambda>b.
       Inr (counter + 1, b\<lparr>lstack := lstack b @ [n]\<rparr>))"

text \<open>The walk down the stack to \<open>cur\<close>: where the component starts.\<close>

fun scc_start :: "nat list \<Rightarrow> nat \<Rightarrow> nat \<Rightarrow> nat result" where
  "scc_start stack cur 0 = Inl OutOfBounds"
| "scc_start stack cur (Suc b) = bind_res (at stack b) (\<lambda>n. if n = cur then Inr b else scc_start stack cur b)"

definition set_states :: "CFNode list \<Rightarrow> nat list \<Rightarrow> (lt_state \<Rightarrow> lt_state) \<Rightarrow> LoopTreeBuilder \<Rightarrow> LoopTreeBuilder result" where
  "set_states ns vs f b = fold_res (\<lambda>v. set_state ns v f) vs b"

text \<open>Whether a node of the component is entered from outside of it.\<close>

definition scc_head :: "CFNode list \<Rightarrow> nat \<Rightarrow> LoopTreeBuilder \<Rightarrow> nat \<Rightarrow> bool result" where
  "scc_head ns entry b n =
     (if entry = n then Inr True
      else bind_res (at ns n) (\<lambda>c.
           bind_res (all_res (\<lambda>e. require (n = edst e) (bind_res (state_of ns b (esrc e)) (\<lambda>s. Inr (in_scc s)))) (pred_edges c))
             (\<lambda>inner. Inr (\<not> inner))))"

fun filter_res :: "('a \<Rightarrow> bool result) \<Rightarrow> 'a list \<Rightarrow> 'a list result" where
  "filter_res p [] = Inr []"
| "filter_res p (x # xs) = bind_res (p x) (\<lambda>b. bind_res (filter_res p xs) (\<lambda>ys. Inr (if b then x # ys else ys)))"

definition pop_scc :: "CFNode list \<Rightarrow> nat \<Rightarrow> nat \<Rightarrow> nat \<Rightarrow> nat \<Rightarrow> LoopTreeBuilder \<Rightarrow> LoopTreeBuilder result" where
  "pop_scc ns entry cur parent dep b =
     bind_res (scc_start (lstack b) cur (length (lstack b))) (\<lambda>start.
     let scc = drop start (lstack b) in
     bind_res (set_states ns scc (\<lambda>s. s\<lparr>in_scc := True\<rparr>) b) (\<lambda>b.
     bind_res (filter_res (scc_head ns entry b) scc) (\<lambda>heads.
     bind_res (is_leaf ns b cur (length scc)) (\<lambda>leaf.
     bind_res (if leaf then require (length heads = 1) (new_lf_node LF_LEAF (Some parent) dep heads (ltree b))
               else new_lf_node LF_HEAD (Some parent) dep heads (ltree b)) (\<lambda>tree.
     bind_res (set_states ns scc (\<lambda>s. s\<lparr>in_scc := False, on_stack := False\<rparr>) (b\<lparr>ltree := tree\<rparr>)) (\<lambda>b.
       Inr (b\<lparr>lstack := take start (lstack b)\<rparr>)))))))"

text \<open>The dep-first walk; every nested call enters a node that was not in the set.\<close>

definition lower_link :: "CFNode list \<Rightarrow> nat \<Rightarrow> nat \<Rightarrow> LoopTreeBuilder \<Rightarrow> LoopTreeBuilder result" where
  "lower_link ns cur succ b =
     bind_res (state_of ns b succ) (\<lambda>s. set_state ns cur (\<lambda>c. c\<lparr>low_link := min (low_link c) (low_link s)\<rparr>) b)"

definition walk_succ ::
  "(nat \<Rightarrow> nat \<Rightarrow> LoopTreeBuilder \<Rightarrow> (nat \<times> LoopTreeBuilder) result) \<Rightarrow> CFNode list \<Rightarrow> nat \<Rightarrow> CFEdge \<Rightarrow>
   nat \<times> LoopTreeBuilder \<Rightarrow> (nat \<times> LoopTreeBuilder) result" where
  "walk_succ walk ns cur e cb =
     (case cb of (counter, b) \<Rightarrow>
        bind_res (state_of ns b (edst e)) (\<lambda>s.
          if is_head s then Inr (counter, b)
          else if \<not> in_set s
          then bind_res (walk (edst e) counter b) (\<lambda>(counter, b). bind_res (lower_link ns cur (edst e) b) (\<lambda>b. Inr (counter, b)))
          else if on_stack s then bind_res (lower_link ns cur (edst e) b) (\<lambda>b. Inr (counter, b))
          else Inr (counter, b)))"

primrec walk_scc ::
  "nat \<Rightarrow> CFNode list \<Rightarrow> nat \<Rightarrow> nat \<Rightarrow> nat \<Rightarrow> nat \<Rightarrow> nat \<Rightarrow> LoopTreeBuilder \<Rightarrow> (nat \<times> LoopTreeBuilder) result" where
  "walk_scc 0 ns entry parent dep cur counter b = Inl OutOfFuel"
| "walk_scc (Suc fuel) ns entry parent dep cur counter b =
     bind_res (visit ns cur counter b) (\<lambda>cb.
     bind_res (at ns cur) (\<lambda>c.
     bind_res (fold_res (walk_succ (walk_scc fuel ns entry parent dep) ns cur) (succ_edges c) cb) (\<lambda>(counter, b).
     bind_res (state_of ns b cur) (\<lambda>s.
       if low_link s = dfs s then bind_res (pop_scc ns entry cur parent dep b) (\<lambda>b. Inr (counter, b))
       else Inr (counter, b)))))"

definition clear_set :: "LoopTreeBuilder \<Rightarrow> LoopTreeBuilder" where
  "clear_set b = b\<lparr>states := map (\<lambda>s. s\<lparr>in_set := False\<rparr>) (states b)\<rparr>"

text \<open>One head of a loop: the nodes it leads to become children; then their heads are known as heads.\<close>

definition walk_head :: "CFNode list \<Rightarrow> nat \<Rightarrow> nat \<Rightarrow> nat \<Rightarrow> nat \<Rightarrow> LoopTreeBuilder \<Rightarrow> LoopTreeBuilder result" where
  "walk_head ns entry parent dep head b =
     bind_res (at (ltree b) parent) (\<lambda>p0.
     bind_res (walk_scc (length ns + 1) ns entry parent dep head 0 (clear_set b)) (\<lambda>(_, b).
     bind_res (at (ltree b) parent) (\<lambda>p.
     bind_res (map_res (at (ltree b)) (drop (length (lf_children p0)) (lf_children p))) (\<lambda>children.
       set_states ns (concat (map lcf_nodes children)) (\<lambda>s. s\<lparr>is_head := True\<rparr>) b))))"

text \<open>Every nested call is for a loop with fewer nodes that are not known as heads.\<close>

primrec recurse :: "nat \<Rightarrow> CFNode list \<Rightarrow> nat \<Rightarrow> nat \<Rightarrow> nat list \<Rightarrow> nat \<Rightarrow> LoopTreeBuilder \<Rightarrow> LoopTreeBuilder result" where
  "recurse 0 ns entry parent heads dep b = Inl OutOfFuel"
| "recurse (Suc fuel) ns entry parent heads dep b =
     bind_res (at (ltree b) parent) (\<lambda>p. require (ltype p = LF_HEAD)
     (bind_res (fold_res (walk_head ns entry parent dep) heads b) (\<lambda>b.
      bind_res (at (ltree b) parent) (\<lambda>p.
        fold_res (\<lambda>i b. bind_res (at (ltree b) i) (\<lambda>n.
            if ltype n = LF_HEAD then recurse fuel ns entry i (lcf_nodes n) (dep + 1) b else Inr b))
          (lf_children p) b))))"

text \<open>The leaves by abstraction, the last one first; children come after their parents.\<close>

primrec build_map_recursive ::
  "nat \<Rightarrow> CFNode list \<Rightarrow> LTNode list \<Rightarrow> nat \<Rightarrow> (abstraction option \<times> nat) list \<Rightarrow> (abstraction option \<times> nat) list result" where
  "build_map_recursive 0 ns tree i m = Inl OutOfFuel"
| "build_map_recursive (Suc fuel) ns tree i m =
     bind_res (at tree i) (\<lambda>n.
       if ltype n = LF_LEAF
       then require (length (lcf_nodes n) = 1)
              (bind_res (at (lcf_nodes n) 0) (\<lambda>v. bind_res (at ns v) (\<lambda>c. Inr ((cnode c, i) # m))))
       else fold_res (build_map_recursive fuel ns tree) (lf_children n) m)"

definition shd_new_loop_tree :: "CFG \<Rightarrow> LoopTree result" where
  "shd_new_loop_tree s =
     (let ns = cnodes s;
          st = \<lparr>in_scc = False, on_stack = False, is_head = False, in_set = False, dfs = SIZE_MAX, low_link = SIZE_MAX\<rparr>
      in bind_res (new_lf_node LF_HEAD None 0 [] []) (\<lambda>tree.
         bind_res (recurse (length ns + 1) ns (centry s) 0 [centry s] 1
                     \<lparr>states = replicate (csize s) st, lstack = [], ltree = tree\<rparr>) (\<lambda>b.
         bind_res (build_map_recursive (length (ltree b)) ns (ltree b) 0 []) (\<lambda>m.
           Inr \<lparr>lnodes = ltree b, lmap = m, lcfg = ns\<rparr>))))"

end
