(* ===== verification/FlowGraph.thy ===== *)
theory FlowGraph
  imports Main
begin

text \<open>
  Dominators of a flow graph whose nodes are numbered, and trees that approximate the dominator tree:
  what one round of the iteration of \<^verbatim>\<open>shd_cfg_compute_domtree\<close> does, what its fixpoints are, and that
  every fair sequence of rounds reaches one. The rounds are not monotone: the parent of a node may move
  to a node that was not above it.
\<close>

subsection \<open>Graphs and dominators\<close>

record flow_graph =
  verts :: "nat set"
  start :: nat
  preds :: "nat \<Rightarrow> nat set"
  num :: "nat \<Rightarrow> nat"

text \<open>Every node but the first has a predecessor with a smaller number, as a depth-first numbering has.\<close>

definition numbered :: "flow_graph \<Rightarrow> bool" where
  "numbered g \<longleftrightarrow> start g \<in> verts g \<and> inj_on (num g) (verts g) \<and> (\<forall>n \<in> verts g. preds g n \<subseteq> verts g)
     \<and> (\<forall>n \<in> verts g. n \<noteq> start g \<longrightarrow> (\<exists>p \<in> preds g n. num g p < num g n))"

lemma numberedD:
  assumes "numbered g"
  shows "start g \<in> verts g" "n \<in> verts g \<Longrightarrow> p \<in> preds g n \<Longrightarrow> p \<in> verts g"
    "m \<in> verts g \<Longrightarrow> n \<in> verts g \<Longrightarrow> num g m = num g n \<Longrightarrow> m = n"
    "n \<in> verts g \<Longrightarrow> n \<noteq> start g \<Longrightarrow> \<exists>p \<in> preds g n. num g p < num g n"
  using assms by (auto simp: numbered_def inj_on_def)

text \<open>The nodes that some path from the first one reaches without passing \<open>x\<close>.\<close>

inductive avoids :: "flow_graph \<Rightarrow> nat \<Rightarrow> nat \<Rightarrow> bool" for g x where
  at_start: "x \<noteq> start g \<Longrightarrow> avoids g x (start g)"
| step: "avoids g x p \<Longrightarrow> n \<in> verts g \<Longrightarrow> p \<in> preds g n \<Longrightarrow> n \<noteq> x \<Longrightarrow> avoids g x n"

definition dom_by :: "flow_graph \<Rightarrow> nat \<Rightarrow> nat \<Rightarrow> bool" where
  "dom_by g x n \<longleftrightarrow> \<not> avoids g x n"

lemma dom_by_refl: "dom_by g n n"
  by (auto simp: dom_by_def elim: avoids.cases)

lemma dom_by_start: "dom_by g x (start g) \<longleftrightarrow> x = start g"
  by (auto simp: dom_by_def intro: at_start elim: avoids.cases)

lemma dom_by_preds:
  assumes "n \<in> verts g" "n \<noteq> start g"
  shows "dom_by g x n \<longleftrightarrow> x = n \<or> (\<forall>p \<in> preds g n. dom_by g x p)"
  using assms by (auto simp: dom_by_def intro: step elim: avoids.cases)

subsection \<open>Trees of parents\<close>

inductive ancestor :: "flow_graph \<Rightarrow> (nat \<Rightarrow> nat) \<Rightarrow> nat \<Rightarrow> nat \<Rightarrow> bool" for g f x where
  self: "ancestor g f x x"
| up: "ancestor g f x (f n) \<Longrightarrow> n \<noteq> start g \<Longrightarrow> ancestor g f x n"

inductive_simps ancestor_start: "ancestor g f x (start g)"

lemma ancestor_unfold: "n \<noteq> start g \<Longrightarrow> ancestor g f x n \<longleftrightarrow> x = n \<or> ancestor g f x (f n)"
  by (auto intro: ancestor.intros elim: ancestor.cases)

lemma ancestor_start_iff [simp]: "ancestor g f x (start g) \<longleftrightarrow> x = start g"
  by (auto simp: ancestor_start)

definition rising :: "flow_graph \<Rightarrow> (nat \<Rightarrow> nat) \<Rightarrow> bool" where
  "rising g f \<longleftrightarrow> (\<forall>n \<in> verts g. n \<noteq> start g \<longrightarrow> f n \<in> verts g \<and> num g (f n) < num g n)"

lemma risingD:
  "rising g f \<Longrightarrow> n \<in> verts g \<Longrightarrow> n \<noteq> start g \<Longrightarrow> f n \<in> verts g"
  "rising g f \<Longrightarrow> n \<in> verts g \<Longrightarrow> n \<noteq> start g \<Longrightarrow> num g (f n) < num g n"
  by (auto simp: rising_def)

lemma climb_induct [consumes 2, case_names start above]:
  assumes "rising g f" "n \<in> verts g"
    and "P (start g)" and "\<And>n. n \<in> verts g \<Longrightarrow> n \<noteq> start g \<Longrightarrow> P (f n) \<Longrightarrow> P n"
  shows "P n"
  using assms(2)
proof (induction "num g n" arbitrary: n rule: less_induct)
  case less
  show ?case
  proof (cases "n = start g")
    case False
    then show ?thesis using less risingD [OF assms(1), of n] assms(4) [of n] by blast
  qed (use assms(3) in simp)
qed

lemma ancestor_num:
  assumes "rising g f" "n \<in> verts g" "ancestor g f x n"
  shows "x \<in> verts g \<and> (x = n \<or> num g x < num g n)"
  using assms(3,2)
proof induction
  case (up n)
  with risingD [OF assms(1), of n] show ?case by auto
qed simp

lemma ancestor_of_start:
  assumes "rising g f" "n \<in> verts g"
  shows "ancestor g f (start g) n"
  using assms by (induction rule: climb_induct) (auto intro: ancestor.intros)

lemma ancestor_trans: "ancestor g f y n \<Longrightarrow> ancestor g f x y \<Longrightarrow> ancestor g f x n"
  by (induction rule: ancestor.induct) (auto intro: ancestor.intros)

text \<open>The ancestors of a node are in a line.\<close>

lemma ancestor_linear:
  assumes r: "rising g f" and n: "n \<in> verts g" and z: "ancestor g f z n" and x: "ancestor g f x n"
    and le: "num g x \<le> num g z"
  shows "ancestor g f x z"
  using z n x
proof induction
  case (up n)
  then have fn: "f n \<in> verts g" "num g (f n) < num g n" using risingD [OF r] by auto
  show ?case
  proof (cases "x = n")
    case True
    then show ?thesis using ancestor_num [OF r fn(1) up.hyps(1)] le fn(2) by auto
  next
    case False
    then show ?thesis using up fn by (simp add: ancestor_unfold)
  qed
qed simp

lemma ancestor_antisym:
  assumes "rising g f" "x \<in> verts g" "y \<in> verts g" "ancestor g f x y" "ancestor g f y x"
  shows "x = y"
  using ancestor_num [OF assms(1,3,4)] ancestor_num [OF assms(1,2,5)] by auto

subsection \<open>One round\<close>

text \<open>A tree keeps the dominators if a proper dominator of a node dominates its parent.\<close>

definition keeps :: "flow_graph \<Rightarrow> (nat \<Rightarrow> nat) \<Rightarrow> bool" where
  "keeps g f \<longleftrightarrow> (\<forall>n \<in> verts g. n \<noteq> start g \<longrightarrow> (\<forall>x. dom_by g x n \<and> x \<noteq> n \<longrightarrow> dom_by g x (f n)))"

lemma keeps_parent_pred:
  assumes "\<And>n. n \<in> verts g \<Longrightarrow> n \<noteq> start g \<Longrightarrow> f n \<in> preds g n"
  shows "keeps g f"
  using assms by (auto simp: keeps_def dom_by_preds)

lemma keeps_ancestor:
  assumes "rising g f" "keeps g f" "n \<in> verts g" "dom_by g x n"
  shows "ancestor g f x n"
  using assms(1,3,4)
proof (induction rule: climb_induct)
  case (above n)
  then show ?case using assms(2) by (cases "x = n") (auto simp: keeps_def intro: ancestor.intros)
qed (simp add: dom_by_start)

lemma keeps_between:
  assumes r: "rising g f" and k: "keeps g f" and p: "p \<in> verts g"
    and y: "ancestor g f y p" and xy: "ancestor g f x y" and d: "dom_by g x p"
  shows "dom_by g x y"
  using y p d
proof induction
  case (up n)
  show ?case
  proof (cases "x = n")
    case True
    have fn: "f n \<in> verts g" "num g (f n) < num g n" using up risingD [OF r] by auto
    have "ancestor g f x (f n)" by (rule ancestor_trans [OF up.hyps(1) xy])
    from ancestor_num [OF r fn(1) this] fn(2) True show ?thesis by auto
  next
    case False
    then show ?thesis using up k risingD [OF r] by (auto simp: keeps_def)
  qed
qed

text \<open>The meet of the predecessors: its ancestors are those they have in common.\<close>

definition is_meet :: "flow_graph \<Rightarrow> (nat \<Rightarrow> nat) \<Rightarrow> nat \<Rightarrow> nat \<Rightarrow> bool" where
  "is_meet g f n m \<longleftrightarrow> m \<in> verts g \<and> (\<forall>x. ancestor g f x m \<longleftrightarrow> (\<forall>p \<in> preds g n. ancestor g f x p))"

lemma round_rising:
  assumes g: "numbered g" and r: "rising g f" and m: "is_meet g f n m"
  shows "rising g (f(n := m))"
  unfolding rising_def
proof (intro ballI impI)
  fix v assume v: "v \<in> verts g" "v \<noteq> start g"
  show "(f(n := m)) v \<in> verts g \<and> num g ((f(n := m)) v) < num g v"
  proof (cases "v = n")
    case True
    obtain p where p: "p \<in> preds g n" "num g p < num g n" using numberedD(4) [OF g v] True by auto
    have "ancestor g f m p" using m p(1) by (auto simp: is_meet_def intro: self)
    then have "num g m \<le> num g p" using ancestor_num [OF r] numberedD(2) [OF g v(1)] p(1) True by fastforce
    then show ?thesis using p m True by (simp add: is_meet_def)
  qed (use v r in \<open>auto simp: rising_def\<close>)
qed

lemma round_keeps:
  assumes g: "numbered g" and r: "rising g f" and k: "keeps g f" and m: "is_meet g f n m"
  shows "keeps g (f(n := m))"
  unfolding keeps_def
proof (intro ballI impI allI)
  fix v x assume v: "v \<in> verts g" "v \<noteq> start g" and x: "dom_by g x v \<and> x \<noteq> v"
  show "dom_by g x ((f(n := m)) v)"
  proof (cases "v = n")
    case True
    have d: "dom_by g x p" "p \<in> verts g" if "p \<in> preds g n" for p
      using x v True that dom_by_preds [OF v] numberedD(2) [OF g v(1)] by auto
    then have "ancestor g f x p" if "p \<in> preds g n" for p using keeps_ancestor [OF r k] that by blast
    then have xm: "ancestor g f x m" using m by (simp add: is_meet_def)
    obtain p where p: "p \<in> preds g n" using numberedD(4) [OF g v] True by auto
    then have "ancestor g f m p" using m by (auto simp: is_meet_def intro: self)
    with p d xm have "dom_by g x m" using keeps_between [OF r k] by blast
    then show ?thesis using True by simp
  qed (use v x k in \<open>auto simp: keeps_def\<close>)
qed

subsection \<open>Fixpoints\<close>

definition exact :: "flow_graph \<Rightarrow> (nat \<Rightarrow> nat) \<Rightarrow> bool" where
  "exact g f \<longleftrightarrow> (\<forall>n \<in> verts g. \<forall>x. ancestor g f x n \<longleftrightarrow> dom_by g x n)"

lemma fixpoint_exact:
  assumes g: "numbered g" and r: "rising g f" and k: "keeps g f"
    and fix_point: "\<And>n. n \<in> verts g \<Longrightarrow> n \<noteq> start g \<Longrightarrow> is_meet g f n (f n)"
  shows "exact g f"
proof -
  have "\<not> ancestor g f x n" if "avoids g x n" for x n
    using that
  proof induction
    case (step p n)
    then show ?case using fix_point [of n] by (cases "n = start g") (auto simp: ancestor_unfold is_meet_def)
  qed simp
  then show ?thesis using keeps_ancestor [OF r k] by (auto simp: exact_def dom_by_def)
qed

lemma exact_meet:
  assumes g: "numbered g" and r: "rising g f" and e: "exact g f" and n: "n \<in> verts g" "n \<noteq> start g"
    and m: "is_meet g f n m"
  shows "m = f n"
proof -
  have fn: "f n \<in> verts g" "num g (f n) < num g n" using risingD [OF r n] by auto
  have pv: "p \<in> verts g" if "p \<in> preds g n" for p using numberedD(2) [OF g n(1) that] .
  have "ancestor g f x m \<longleftrightarrow> ancestor g f x (f n)" for x
  proof
    assume "ancestor g f x m"
    then have "\<forall>p \<in> preds g n. dom_by g x p" using m e pv by (auto simp: is_meet_def exact_def)
    moreover have "x \<noteq> n"
    proof
      assume "x = n"
      obtain p where p: "p \<in> preds g n" "num g p < num g n" using numberedD(4) [OF g n] by auto
      then have "ancestor g f n p" using \<open>ancestor g f x m\<close> \<open>x = n\<close> m by (simp add: is_meet_def)
      from ancestor_num [OF r pv [OF p(1)] this] p show False by auto
    qed
    ultimately have "dom_by g x n" "x \<noteq> n" using dom_by_preds [OF n] by auto
    then have "ancestor g f x n" using e n by (simp add: exact_def)
    with \<open>x \<noteq> n\<close> show "ancestor g f x (f n)" using n by (simp add: ancestor_unfold)
  next
    assume x: "ancestor g f x (f n)"
    from ancestor_num [OF r fn(1) x] fn(2) have "x \<noteq> n" by auto
    moreover have "ancestor g f x n" using x n by (simp add: ancestor_unfold)
    then have "dom_by g x n" using e n by (simp add: exact_def)
    ultimately have "\<forall>p \<in> preds g n. dom_by g x p" using dom_by_preds [OF n] by auto
    then show "ancestor g f x m" using m e pv by (auto simp: is_meet_def exact_def)
  qed
  then have "ancestor g f m (f n)" "ancestor g f (f n) m" using self [of g f] by blast+
  then show ?thesis using ancestor_antisym [OF r _ fn(1)] m by (simp add: is_meet_def)
qed

subsection \<open>Every fair sequence of rounds ends\<close>

text \<open>A sequence of trees, each from the one before by a round at a node, such that every node has its turn again and again.\<close>

definition fair_rounds :: "flow_graph \<Rightarrow> (nat \<Rightarrow> nat \<Rightarrow> nat) \<Rightarrow> (nat \<Rightarrow> nat) \<Rightarrow> bool" where
  "fair_rounds g s u \<longleftrightarrow>
     (\<forall>i. u i \<in> verts g \<and> u i \<noteq> start g \<and> (\<exists>m. is_meet g (s i) (u i) m \<and> s (Suc i) = (s i)(u i := m)))
     \<and> (\<forall>n \<in> verts g. n \<noteq> start g \<longrightarrow> (\<forall>i. \<exists>j \<ge> i. u j = n))"

lemma fair_round:
  assumes "fair_rounds g s u"
  obtains m where "is_meet g (s i) (u i) m" "s (Suc i) = (s i)(u i := m)" "u i \<in> verts g" "u i \<noteq> start g"
  using assms unfolding fair_rounds_def by blast

lemma fair_turn:
  assumes "fair_rounds g s u" "n \<in> verts g" "n \<noteq> start g"
  obtains j where "i \<le> j" "u j = n"
  using assms unfolding fair_rounds_def by blast

lemma rounds_keep:
  assumes g: "numbered g" and s: "fair_rounds g s u" and "rising g (s 0)" "keeps g (s 0)"
  shows "rising g (s i) \<and> keeps g (s i)"
proof (induction i)
  case (Suc i)
  obtain m where "is_meet g (s i) (u i) m" "s (Suc i) = (s i)(u i := m)" using fair_round [OF s] by metis
  then show ?case
    using Suc round_rising [OF g, of "s i" "u i" m] round_keeps [OF g, of "s i" "u i" m] by metis
qed (use assms in simp)

definition eventually_always :: "(nat \<Rightarrow> bool) \<Rightarrow> bool" where
  "eventually_always P \<longleftrightarrow> (\<exists>t. \<forall>i \<ge> t. P i)"

lemma eventually_alwaysI: "(\<And>i. t \<le> i \<Longrightarrow> P i) \<Longrightarrow> eventually_always P"
  by (auto simp: eventually_always_def)

lemma eventually_always_mono: "eventually_always P \<Longrightarrow> (\<And>i. P i \<Longrightarrow> Q i) \<Longrightarrow> eventually_always Q"
  by (auto simp: eventually_always_def)

lemma eventually_always_conj: "eventually_always P \<Longrightarrow> eventually_always Q \<Longrightarrow> eventually_always (\<lambda>i. P i \<and> Q i)"
  unfolding eventually_always_def by (metis max.bounded_iff)

lemma eventually_always_ball:
  assumes "finite A" "\<And>a. a \<in> A \<Longrightarrow> eventually_always (P a)"
  shows "eventually_always (\<lambda>i. \<forall>a \<in> A. P a i)"
  using assms
proof (induction rule: finite_induct)
  case (insert a A)
  then have "eventually_always (\<lambda>i. P a i \<and> (\<forall>a \<in> A. P a i))" by (intro eventually_always_conj) auto
  then show ?case by (rule eventually_always_mono) simp
qed (simp add: eventually_always_def)

text \<open>Ancestors numbered \<open>k\<close> or more are dominators.\<close>

definition clean :: "flow_graph \<Rightarrow> nat \<Rightarrow> (nat \<Rightarrow> nat) \<Rightarrow> bool" where
  "clean g k f \<longleftrightarrow> (\<forall>n \<in> verts g. \<forall>x. ancestor g f x n \<and> k \<le> num g x \<longrightarrow> dom_by g x n)"

text \<open>
  The step: when the ancestors with larger numbers are dominators for good, so are eventually those with the number
  of \<open>x\<close>. Along a path that avoids \<open>x\<close> every node loses \<open>x\<close> in its turn, and with it every
  node of the path that dominates it.
\<close>

lemma loses_ancestor:
  assumes g: "numbered g" and s: "fair_rounds g s u" and tree: "\<And>i. rising g (s i)" "\<And>i. keeps g (s i)"
    and c: "eventually_always (\<lambda>i. clean g (Suc (num g x)) (s i))" and y: "avoids g x y"
  shows "\<forall>z \<in> verts g. dom_by g z y \<longrightarrow> eventually_always (\<lambda>i. \<not> ancestor g (s i) x z)"
  using y
proof induction
  case at_start
  then show ?case by (auto simp: dom_by_start eventually_always_def)
next
  case (step p y)
  show ?case
  proof (intro ballI impI)
    fix z assume z: "z \<in> verts g" "dom_by g z y"
    show "eventually_always (\<lambda>i. \<not> ancestor g (s i) x z)"
    proof (cases "z = y")
      case False
      then have "y \<noteq> start g" using z dom_by_start by auto
      then show ?thesis using step z False dom_by_preds [of y g z] by auto
    next
      case True
      have p: "eventually_always (\<lambda>i. \<not> ancestor g (s i) x p)"
        using step.IH numberedD(2) [OF g step.hyps(2,3)] dom_by_refl by blast
      consider "y = start g" | "num g y < num g x" | d where "y \<noteq> start g" "d \<in> verts g" "d \<noteq> y" "dom_by g d y" "num g x < num g d"
        | "y \<noteq> start g" "\<And>d. d \<in> verts g \<Longrightarrow> d \<noteq> y \<Longrightarrow> dom_by g d y \<Longrightarrow> num g d \<le> num g x"
        by (meson not_le)
      then show ?thesis
      proof cases
        case 1
        then show ?thesis using True step.hyps(4) by (auto simp: eventually_always_def)
      next
        case 2
        have "\<not> ancestor g (s i) x z" for i using ancestor_num [OF tree(1) z(1)] 2 True by fastforce
        then show ?thesis by (auto simp: eventually_always_def)
      next
        case 3
        then have "dom_by g d p" using dom_by_preds [OF step.hyps(2), of d] step.hyps(3) by auto
        then have "eventually_always (\<lambda>i. \<not> ancestor g (s i) x d)" using step.IH 3 by blast
        then show ?thesis
        proof (rule eventually_always_mono)
          fix i assume "\<not> ancestor g (s i) x d"
          moreover have "ancestor g (s i) d y" using keeps_ancestor [OF tree step.hyps(2)] 3 by blast
          ultimately show "\<not> ancestor g (s i) x z"
            using ancestor_linear [OF tree(1) step.hyps(2)] 3 True by (meson less_imp_le)
        qed
      next
        case 4
        obtain t where t: "\<And>i. t \<le> i \<Longrightarrow> clean g (Suc (num g x)) (s i) \<and> \<not> ancestor g (s i) x p"
          using eventually_always_conj [OF c p] by (auto simp: eventually_always_def)
        obtain j where j: "t \<le> j" "u j = y" by (rule fair_turn [OF s step.hyps(2) 4(1)])
        have low: "num g (s i y) \<le> num g x" if "t \<le> i" for i
        proof (rule ccontr)
          assume "\<not> num g (s i y) \<le> num g x"
          then have big: "num g x < num g (s i y)" by simp
          moreover have "ancestor g (s i) (s i y) y" using 4 by (auto simp: ancestor_unfold intro: self)
          ultimately have "dom_by g (s i y) y" using t [OF that] step.hyps(2) by (auto simp: clean_def)
          moreover have "s i y \<noteq> y" using risingD(2) [OF tree(1) step.hyps(2) 4(1), of i] by auto
          ultimately show False
            using 4(2) [of "s i y"] risingD [OF tree(1) step.hyps(2) 4(1), of i] big by auto
        qed
        have parent: "ancestor g (s i) x y \<longleftrightarrow> s i y = x" if "t \<le> i" for i
        proof -
          have sy: "s i y \<in> verts g" by (rule risingD(1) [OF tree(1) step.hyps(2) 4(1)])
          have "s i y = x" if "ancestor g (s i) x (s i y)"
            using ancestor_num [OF tree(1) sy that] low [OF \<open>t \<le> i\<close>] by auto
          then show ?thesis using 4 step.hyps(4) by (auto simp: ancestor_unfold intro: self)
        qed
        have keep: "s (Suc i) y \<noteq> x" if "t \<le> i" "u i = y \<or> s i y \<noteq> x" for i
        proof (cases "u i = y")
          case True
          obtain m where m: "is_meet g (s i) y m" "s (Suc i) = (s i)(y := m)" using fair_round [OF s, of i] True by metis
          have "m \<noteq> x" using m(1) t [OF that(1)] step.hyps(3) by (auto simp: is_meet_def intro: self)
          then show ?thesis using m by simp
        next
          case False
          then show ?thesis using that fair_round [OF s, of i] by (metis fun_upd_other)
        qed
        have "s i y \<noteq> x" if "Suc j \<le> i" for i
          using that
        proof (induction i rule: dec_induct)
          case base
          show ?case using keep [of j] j by simp
        next
          case (step n)
          then show ?case using keep [of n] j by simp
        qed
        then show ?thesis using parent j True by (intro eventually_alwaysI [of "Suc j"]) simp
      qed
    qed
  qed
qed

lemma eventually_clean:
  assumes g: "numbered g" "finite (verts g)" and s: "fair_rounds g s u" and tree: "\<And>i. rising g (s i)" "\<And>i. keeps g (s i)"
  shows "eventually_always (\<lambda>i. clean g k (s i))"
proof -
  define b where "b = Suc (Max (num g ` verts g))"
  have large: "clean g k (s i)" if "b \<le> k" for k i
  proof -
    have "num g x < b" if "x \<in> verts g" for x using that g(2) by (simp add: b_def less_Suc_eq_le)
    then show ?thesis using that ancestor_num [OF tree(1)] by (fastforce simp: clean_def)
  qed
  have next_one: "eventually_always (\<lambda>i. clean g k (s i))" if IH: "eventually_always (\<lambda>i. clean g (Suc k) (s i))" for k
  proof -
    let ?A = "{(x, n). x \<in> verts g \<and> n \<in> verts g \<and> num g x = k \<and> avoids g x n}"
    have "?A \<subseteq> verts g \<times> verts g" by auto
    then have fin: "finite ?A" using g(2) by (meson finite_SigmaI finite_subset)
    have "eventually_always (\<lambda>i. \<not> ancestor g (s i) (fst a) (snd a))" if "a \<in> ?A" for a
      using loses_ancestor [OF g(1) s tree, of "fst a" "snd a"] that IH dom_by_refl by auto
    then have "eventually_always (\<lambda>i. \<forall>a \<in> ?A. \<not> ancestor g (s i) (fst a) (snd a))"
      by (rule eventually_always_ball [OF fin])
    from eventually_always_conj [OF this IH] show ?thesis
    proof (rule eventually_always_mono)
      fix i assume *: "(\<forall>a \<in> ?A. \<not> ancestor g (s i) (fst a) (snd a)) \<and> clean g (Suc k) (s i)"
      show "clean g k (s i)"
        unfolding clean_def
      proof (intro ballI allI impI)
        fix n x assume n: "n \<in> verts g" and x: "ancestor g (s i) x n \<and> k \<le> num g x"
        then have "x \<in> verts g" using ancestor_num [OF tree(1) n] by blast
        with * n x show "dom_by g x n" by (cases "num g x = k") (auto simp: clean_def dom_by_def)
      qed
    qed
  qed
  have "eventually_always (\<lambda>i. clean g (b - k) (s i))" for k
  proof (induction k)
    case 0
    show ?case using large [of b] by (simp add: eventually_always_def)
  next
    case (Suc k)
    show ?case
    proof (cases "k < b")
      case True
      then have "Suc (b - Suc k) = b - k" by simp
      then show ?thesis using Suc next_one [of "b - Suc k"] by simp
    qed (use Suc in simp)
  qed
  from this [of "b - k"] show ?thesis
    using large [of k] by (cases "b \<le> k") (auto simp: eventually_always_def)
qed

theorem rounds_reach_dominators:
  assumes g: "numbered g" "finite (verts g)" and s: "fair_rounds g s u" and "rising g (s 0)" "keeps g (s 0)"
  shows "\<exists>t. \<forall>i \<ge> t. exact g (s i) \<and> s (Suc i) = s i"
proof -
  have tree: "rising g (s i)" "keeps g (s i)" for i using rounds_keep [OF g(1) s assms(4,5)] by auto
  obtain t where t: "\<And>i. t \<le> i \<Longrightarrow> clean g 0 (s i)"
    using eventually_clean [OF g s tree, of 0] by (auto simp: eventually_always_def)
  have e: "exact g (s i)" if "t \<le> i" for i
    using t [OF that] keeps_ancestor [OF tree] by (auto simp: clean_def exact_def)
  have "s (Suc i) = s i" if "t \<le> i" for i
  proof -
    obtain m where m: "is_meet g (s i) (u i) m" "s (Suc i) = (s i)(u i := m)" and ui: "u i \<in> verts g" "u i \<noteq> start g"
      by (rule fair_round [OF s])
    then show ?thesis using exact_meet [OF g(1) tree(1) e [OF that] ui m(1)] by simp
  qed
  with e show ?thesis by blast
qed

end
