(* ===== verification/IrCfgDom.thy ===== *)
theory IrCfgDom
  imports IrCfg FlowGraph
begin

text \<open>
  The dominator tree of a control flow graph: on a graph numbered in reverse post-order
  \<^verbatim>\<open>shd_cfg_compute_domtree\<close> returns, and the parents it leaves are the immediate dominators of the flow
  graph in which a structured tail has its parent as only predecessor.
\<close>

subsection \<open>The flow graph of a list of nodes\<close>

definition dom_graph :: "nat \<Rightarrow> CFNode list \<Rightarrow> flow_graph" where
  "dom_graph e ns =
     \<lparr>verts = {..<length ns}, start = e,
      preds = (\<lambda>n. if structured_idom (ns ! n) = None then esrc ` set (pred_edges (ns ! n)) else set_option (idom (ns ! n))),
      num = (\<lambda>n. rpo_index (ns ! n))\<rparr>"

lemma dom_graph_simps [simp]:
  "verts (dom_graph e ns) = {..<length ns}" "start (dom_graph e ns) = e" "num (dom_graph e ns) = (\<lambda>n. rpo_index (ns ! n))"
  by (simp_all add: dom_graph_def)

definition parent :: "CFNode list \<Rightarrow> nat \<Rightarrow> nat" where
  "parent ns n = the (idom (ns ! n))"

text \<open>What holds of the nodes from the first approximation on.\<close>

definition dom_inv :: "nat \<Rightarrow> CFNode list \<Rightarrow> bool" where
  "dom_inv e ns \<longleftrightarrow>
     numbered (dom_graph e ns) \<and> rising (dom_graph e ns) (parent ns) \<and> keeps (dom_graph e ns) (parent ns)
     \<and> idom (ns ! e) = None \<and> structured_idom (ns ! e) = None
     \<and> (\<forall>n < length ns. n \<noteq> e \<longrightarrow> idom (ns ! n) \<noteq> None)
     \<and> (\<forall>n < length ns. n \<noteq> e \<and> structured_idom (ns ! n) = None \<longrightarrow>
          (\<forall>x \<in> set (pred_edges (ns ! n)). etype x \<noteq> StructuredTailEdge))"

lemma dom_invD:
  assumes "dom_inv e ns"
  shows "numbered (dom_graph e ns)" "rising (dom_graph e ns) (parent ns)" "keeps (dom_graph e ns) (parent ns)"
    "e < length ns" "idom (ns ! e) = None" "structured_idom (ns ! e) = None"
    "n < length ns \<Longrightarrow> n \<noteq> e \<Longrightarrow> idom (ns ! n) = Some (parent ns n)"
    "n < length ns \<Longrightarrow> n \<noteq> e \<Longrightarrow> structured_idom (ns ! n) = None \<Longrightarrow> x \<in> set (pred_edges (ns ! n)) \<Longrightarrow> etype x \<noteq> StructuredTailEdge"
  using assms by (auto simp: dom_inv_def parent_def numbered_def)

subsection \<open>Least common ancestors\<close>

definition rank :: "CFNode list \<Rightarrow> nat \<Rightarrow> nat" where
  "rank ns n = card {v. v < length ns \<and> rpo_index (ns ! v) < rpo_index (ns ! n)}"

lemma rank_less: "m < length ns \<Longrightarrow> rpo_index (ns ! m) < rpo_index (ns ! n) \<Longrightarrow> rank ns m < rank ns n"
  unfolding rank_def by (rule psubset_card_mono) auto

lemma rank_le: "rank ns n \<le> length ns"
  using card_mono [of "{..<length ns}" "{v. v < length ns \<and> rpo_index (ns ! v) < rpo_index (ns ! n)}"]
  by (auto simp: rank_def)

lemma at_Inr [simp]: "at xs i = Inr x \<longleftrightarrow> i < length xs \<and> x = xs ! i"
  by (auto simp: at_def)

lemma at_less [simp]: "i < length xs \<Longrightarrow> at xs i = Inr (xs ! i)"
  by simp

lemma lca_from_spec:
  assumes inv: "dom_inv e ns" and i: "i < length ns" and j: "j < length ns" and "rank ns i + rank ns j < fuel"
  shows "\<exists>m. lca_from fuel ns i j = Inr m \<and> m < length ns
    \<and> (\<forall>x. ancestor (dom_graph e ns) (parent ns) x m \<longleftrightarrow>
           ancestor (dom_graph e ns) (parent ns) x i \<and> ancestor (dom_graph e ns) (parent ns) x j)"
  using i j assms(4)
proof (induction fuel arbitrary: i j)
  case (Suc fuel)
  note r = dom_invD(2) [OF inv]
  have climb: "n \<noteq> e \<and> parent ns n < length ns \<and> rank ns (parent ns n) < rank ns n" and
    common: "ancestor (dom_graph e ns) (parent ns) x m \<and> ancestor (dom_graph e ns) (parent ns) x (parent ns n)
         \<longleftrightarrow> ancestor (dom_graph e ns) (parent ns) x m \<and> ancestor (dom_graph e ns) (parent ns) x n"
    if "m < length ns" "n < length ns" "rpo_index (ns ! m) < rpo_index (ns ! n)" for m n x
  proof -
    have ne: "n \<noteq> e"
      using ancestor_num [OF r, of m e] ancestor_of_start [OF r, of m] that by auto
    have p: "parent ns n < length ns" "rpo_index (ns ! parent ns n) < rpo_index (ns ! n)"
      using risingD [OF r, of n] that ne by auto
    show "n \<noteq> e \<and> parent ns n < length ns \<and> rank ns (parent ns n) < rank ns n" using ne p rank_less [OF p] by simp
    have "\<not> ancestor (dom_graph e ns) (parent ns) n m" using ancestor_num [OF r, of m n] that by auto
    then show "ancestor (dom_graph e ns) (parent ns) x m \<and> ancestor (dom_graph e ns) (parent ns) x (parent ns n)
         \<longleftrightarrow> ancestor (dom_graph e ns) (parent ns) x m \<and> ancestor (dom_graph e ns) (parent ns) x n"
      using ne ancestor_unfold [of n "dom_graph e ns" "parent ns" x] by auto
  qed
  consider "rpo_index (ns ! i) = rpo_index (ns ! j)" | "rpo_index (ns ! i) < rpo_index (ns ! j)"
    | "rpo_index (ns ! j) < rpo_index (ns ! i)" by linarith
  then show ?case
  proof cases
    case 1
    then have "i = j" using numberedD(3) [OF dom_invD(1) [OF inv], of i j] Suc.prems by simp
    then show ?thesis using Suc.prems by auto
  next
    case 2
    have c: "j \<noteq> e" "parent ns j < length ns" "rank ns i + rank ns (parent ns j) < fuel"
      using climb [OF Suc.prems(1,2) 2] Suc.prems(3) by auto
    show ?thesis
      using Suc.IH [OF Suc.prems(1) c(2,3)] 2 Suc.prems(1,2) dom_invD(7) [OF inv Suc.prems(2) c(1)]
        common [OF Suc.prems(1,2) 2] by auto
  next
    case 3
    have c: "i \<noteq> e" "parent ns i < length ns" "rank ns (parent ns i) + rank ns j < fuel"
      using climb [OF Suc.prems(2,1) 3] Suc.prems(3) by auto
    show ?thesis
      using Suc.IH [OF c(2) Suc.prems(2) c(3)] 3 Suc.prems(1,2) dom_invD(7) [OF inv Suc.prems(1) c(1)]
        common [OF Suc.prems(2,1) 3] by auto
  qed
qed simp

lemma lca_spec:
  assumes "dom_inv e ns" "i < length ns" "j < length ns"
  obtains m where "shd_cfg_least_common_ancestor ns i j = Inr m" "m < length ns"
    "\<And>x. ancestor (dom_graph e ns) (parent ns) x m \<longleftrightarrow>
       ancestor (dom_graph e ns) (parent ns) x i \<and> ancestor (dom_graph e ns) (parent ns) x j"
  using lca_from_spec [OF assms, of "2 * length ns + 1"] rank_le [of ns i] rank_le [of ns j]
  unfolding shd_cfg_least_common_ancestor_def by auto

lemma meet_preds_spec:
  assumes inv: "dom_inv e ns" and es: "\<forall>x \<in> set es. etype x \<noteq> StructuredTailEdge \<and> esrc x < length ns" and d: "d < length ns"
  shows "\<exists>m < length ns. fold_res (meet_pred ns) es (Some d) = Inr (Some m)
    \<and> (\<forall>x. ancestor (dom_graph e ns) (parent ns) x m \<longleftrightarrow>
           ancestor (dom_graph e ns) (parent ns) x d \<and> (\<forall>p \<in> set es. ancestor (dom_graph e ns) (parent ns) x (esrc p)))"
  using es d
proof (induction es arbitrary: d)
  case (Cons y es)
  obtain m where m: "shd_cfg_least_common_ancestor ns d (esrc y) = Inr m" "m < length ns"
    "\<And>x. ancestor (dom_graph e ns) (parent ns) x m \<longleftrightarrow>
       ancestor (dom_graph e ns) (parent ns) x d \<and> ancestor (dom_graph e ns) (parent ns) x (esrc y)"
    by (rule lca_spec [OF inv, of d "esrc y"]) (use Cons.prems in auto)
  show ?case using Cons.IH [of m] Cons.prems m by (auto simp: meet_pred_def)
qed auto

subsection \<open>One round\<close>

lemma update_idom_spec:
  assumes inv: "dom_inv e ns" and i: "i < length ns"
  shows "\<exists>ns'. update_idom e i (todo, ns) = Inr (todo \<or> parent ns' i \<noteq> parent ns i, ns')
    \<and> (if i = e then ns' = ns
       else \<exists>m. is_meet (dom_graph e ns) (parent ns) i m \<and> ns' = ns[i := (ns ! i)\<lparr>idom := Some m\<rparr>]
              \<and> (structured_idom (ns ! i) \<noteq> None \<longrightarrow> m = parent ns i))"
proof (cases "i = e \<or> structured_idom (ns ! i) \<noteq> None")
  case True
  have self: "ns[i := (ns ! i)\<lparr>idom := Some (parent ns i)\<rparr>] = ns" if "i \<noteq> e"
    using dom_invD(7) [OF inv i that] by (metis CFNode.surjective CFNode.update_convs(6) list_update_id)
  have "preds (dom_graph e ns) i = {parent ns i}" if "i \<noteq> e"
  proof -
    from True that have "structured_idom (ns ! i) \<noteq> None" by blast
    then show ?thesis using dom_invD(7) [OF inv i that] by (cases "structured_idom (ns ! i)") (simp_all add: dom_graph_def)
  qed
  then have "is_meet (dom_graph e ns) (parent ns) i (parent ns i)" if "i \<noteq> e"
    using risingD(1) [OF dom_invD(2) [OF inv], of i] i that by (simp add: is_meet_def)
  with self True i show ?thesis by (auto simp: update_idom_def)
next
  case False
  then have ne: "i \<noteq> e" "structured_idom (ns ! i) = None" by auto
  have preds: "preds (dom_graph e ns) i = esrc ` set (pred_edges (ns ! i))" using ne by (simp add: dom_graph_def)
  have src: "\<forall>x \<in> set (pred_edges (ns ! i)). etype x \<noteq> StructuredTailEdge \<and> esrc x < length ns"
    using dom_invD(8) [OF inv i ne] numberedD(2) [OF dom_invD(1) [OF inv], of i] i preds by auto
  obtain y es where es: "pred_edges (ns ! i) = y # es"
    using numberedD(4) [OF dom_invD(1) [OF inv], of i] i ne preds by (cases "pred_edges (ns ! i)") auto
  obtain m where m: "m < length ns" "fold_res (meet_pred ns) es (Some (esrc y)) = Inr (Some m)"
    "\<forall>x. ancestor (dom_graph e ns) (parent ns) x m \<longleftrightarrow>
       ancestor (dom_graph e ns) (parent ns) x (esrc y) \<and> (\<forall>p \<in> set es. ancestor (dom_graph e ns) (parent ns) x (esrc p))"
    using meet_preds_spec [OF inv, of es "esrc y"] src es by auto
  have "fold_res (meet_pred ns) (pred_edges (ns ! i)) None = Inr (Some m)"
    using es src m(2) by (simp add: meet_pred_def)
  moreover have "is_meet (dom_graph e ns) (parent ns) i m" using m(1,3) preds es by (auto simp: is_meet_def)
  moreover have "ns[i := (ns ! i)\<lparr>idom := Some (parent ns i)\<rparr>] = ns"
    using dom_invD(7) [OF inv i ne(1)] by (metis CFNode.surjective CFNode.update_convs(6) list_update_id)
  moreover have "parent (ns[i := (ns ! i)\<lparr>idom := Some m\<rparr>]) i = m" using i by (simp add: parent_def)
  ultimately show ?thesis
    using ne i dom_invD(7) [OF inv i ne(1)]
    by (intro exI [of _ "ns[i := (ns ! i)\<lparr>idom := Some m\<rparr>]"]) (auto simp: update_idom_def)
qed

text \<open>What a round leaves alone.\<close>

definition same_but_idom :: "CFNode list \<Rightarrow> CFNode list \<Rightarrow> bool" where
  "same_but_idom ns ns' \<longleftrightarrow> map (idom_update (\<lambda>_. None)) ns' = map (idom_update (\<lambda>_. None)) ns"

lemma same_but_idomD:
  assumes "same_but_idom ns ns'"
  shows "length ns' = length ns" "n < length ns \<Longrightarrow> ns' ! n = (ns ! n)\<lparr>idom := idom (ns' ! n)\<rparr>"
proof -
  show len: "length ns' = length ns" using assms unfolding same_but_idom_def by (metis length_map)
  assume "n < length ns"
  then have "(ns' ! n)\<lparr>idom := None\<rparr> = (ns ! n)\<lparr>idom := None\<rparr>"
    using assms len unfolding same_but_idom_def by (metis nth_map)
  then show "ns' ! n = (ns ! n)\<lparr>idom := idom (ns' ! n)\<rparr>"
    by (metis CFNode.surjective CFNode.update_convs(6))
qed

lemma same_but_idom_trans: "same_but_idom ns ns' \<Longrightarrow> same_but_idom ns' ns'' \<Longrightarrow> same_but_idom ns ns''"
  by (simp add: same_but_idom_def)

lemma same_but_idom_update: "same_but_idom ns (ns[i := (ns ! i)\<lparr>idom := d\<rparr>])"
  unfolding same_but_idom_def
proof (rule nth_equalityI)
  fix n assume "n < length (map (idom_update (\<lambda>_. None)) (ns[i := (ns ! i)\<lparr>idom := d\<rparr>]))"
  then show "map (idom_update (\<lambda>_. None)) (ns[i := (ns ! i)\<lparr>idom := d\<rparr>]) ! n = map (idom_update (\<lambda>_. None)) ns ! n"
    by (cases "n = i") simp_all
qed simp

lemma dom_graph_same:
  assumes "same_but_idom ns ns'" "\<And>n. n < length ns \<Longrightarrow> structured_idom (ns ! n) \<noteq> None \<Longrightarrow> idom (ns' ! n) = idom (ns ! n)"
    and "\<And>n. \<not> n < length ns \<Longrightarrow> ns' ! n = ns ! n"
  shows "dom_graph e ns' = dom_graph e ns"
proof -
  have "rpo_index (ns' ! n) = rpo_index (ns ! n) \<and> structured_idom (ns' ! n) = structured_idom (ns ! n)
      \<and> pred_edges (ns' ! n) = pred_edges (ns ! n)" for n
    using same_but_idomD(2) [OF assms(1), of n] assms(3) [of n]
    by (cases "n < length ns") (metis CFNode.select_convs CFNode.update_convs(6) CFNode.surjective, simp)
  moreover have "structured_idom (ns ! n) \<noteq> None \<Longrightarrow> idom (ns' ! n) = idom (ns ! n)" for n
    using assms(2,3) by (cases "n < length ns") auto
  ultimately show ?thesis using same_but_idomD(1) [OF assms(1)] by (auto simp: dom_graph_def intro!: ext)
qed

lemma round_spec:
  assumes inv: "dom_inv e ns" and i: "i < length ns"
  obtains ns' where "update_idom e i (todo, ns) = Inr (todo \<or> parent ns' i \<noteq> parent ns i, ns')"
    "dom_inv e ns'" "dom_graph e ns' = dom_graph e ns" "same_but_idom ns ns'"
    "i = e \<Longrightarrow> ns' = ns"
    "i \<noteq> e \<Longrightarrow> \<exists>m. is_meet (dom_graph e ns) (parent ns) i m \<and> parent ns' = (parent ns)(i := m)"
proof -
  obtain ns' where u: "update_idom e i (todo, ns) = Inr (todo \<or> parent ns' i \<noteq> parent ns i, ns')"
    and ns': "if i = e then ns' = ns
      else \<exists>m. is_meet (dom_graph e ns) (parent ns) i m \<and> ns' = ns[i := (ns ! i)\<lparr>idom := Some m\<rparr>]
             \<and> (structured_idom (ns ! i) \<noteq> None \<longrightarrow> m = parent ns i)"
    using update_idom_spec [OF inv i, of todo] by blast
  show thesis
  proof (cases "i = e")
    case True
    with u ns' inv show thesis by (intro that [of ns']) (auto simp: same_but_idom_def)
  next
    case False
    with ns' obtain m where m: "is_meet (dom_graph e ns) (parent ns) i m" "ns' = ns[i := (ns ! i)\<lparr>idom := Some m\<rparr>]"
      "structured_idom (ns ! i) \<noteq> None \<longrightarrow> m = parent ns i" by auto
    have same: "same_but_idom ns ns'" unfolding m(2) by (rule same_but_idom_update)
    have other: "n \<noteq> i \<Longrightarrow> ns' ! n = ns ! n" for n by (simp add: m(2))
    have graph: "dom_graph e ns' = dom_graph e ns"
    proof (rule dom_graph_same [OF same])
      fix n assume n: "n < length ns" "structured_idom (ns ! n) \<noteq> None"
      show "idom (ns' ! n) = idom (ns ! n)"
        using n m(3) dom_invD(7) [OF inv i False] by (cases "n = i") (auto simp: m(2))
    qed (use other i in auto)
    have p: "parent ns' = (parent ns)(i := m)" using i by (auto simp: parent_def m(2) nth_list_update)
    note g = dom_invD(1) [OF inv] and r = dom_invD(2) [OF inv] and k = dom_invD(3) [OF inv]
    have "rising (dom_graph e ns') (parent ns')" "keeps (dom_graph e ns') (parent ns')"
      using round_rising [OF g r m(1)] round_keeps [OF g r k m(1)] by (simp_all only: graph p)
    moreover have "idom (ns' ! e) = None" "structured_idom (ns' ! e) = None"
      using dom_invD(5,6) [OF inv] other [of e] False by auto
    moreover have "\<forall>n < length ns'. n \<noteq> e \<longrightarrow> idom (ns' ! n) \<noteq> None"
      using dom_invD(7) [OF inv] i by (auto simp: m(2) nth_list_update)
    moreover have "\<forall>n < length ns'. n \<noteq> e \<and> structured_idom (ns' ! n) = None \<longrightarrow> (\<forall>x \<in> set (pred_edges (ns' ! n)). etype x \<noteq> StructuredTailEdge)"
      using dom_invD(8) [OF inv] i by (auto simp: m(2) nth_list_update)
    ultimately have "dom_inv e ns'" using g by (simp add: dom_inv_def graph)
    with u graph same False m(1) p show thesis by (intro that [of ns']) auto
  qed
qed

subsection \<open>Sweeps\<close>

definition round_at :: "nat \<Rightarrow> nat \<Rightarrow> CFNode list \<Rightarrow> CFNode list" where
  "round_at e i ns = (case update_idom e i (False, ns) of Inr (_, ns') \<Rightarrow> ns' | Inl _ \<Rightarrow> ns)"

lemma update_idom_todo:
  "update_idom e i (todo, ns) = map_sum id (\<lambda>(b, ns'). (todo \<or> b, ns')) (update_idom e i (False, ns))"
proof (cases "at ns i")
  case (Inr n)
  then show ?thesis
    by (cases "fold_res (meet_pred ns) (pred_edges n) None") (simp_all add: update_idom_def require_def)
qed (simp add: update_idom_def)

lemma round_at_spec:
  assumes inv: "dom_inv e ns" and i: "i < length ns"
  shows "update_idom e i (todo, ns) = Inr (todo \<or> parent (round_at e i ns) \<noteq> parent ns, round_at e i ns)"
    "dom_inv e (round_at e i ns)" "dom_graph e (round_at e i ns) = dom_graph e ns" "same_but_idom ns (round_at e i ns)"
    "i = e \<Longrightarrow> round_at e i ns = ns"
    "i \<noteq> e \<Longrightarrow> \<exists>m. is_meet (dom_graph e ns) (parent ns) i m \<and> parent (round_at e i ns) = (parent ns)(i := m)"
proof -
  obtain ns' where u: "update_idom e i (False, ns) = Inr (parent ns' i \<noteq> parent ns i, ns')"
    and *: "dom_inv e ns'" "dom_graph e ns' = dom_graph e ns" "same_but_idom ns ns'" "i = e \<Longrightarrow> ns' = ns"
      "i \<noteq> e \<Longrightarrow> \<exists>m. is_meet (dom_graph e ns) (parent ns) i m \<and> parent ns' = (parent ns)(i := m)"
    by (rule round_spec [OF inv i, of False]) simp
  have r: "round_at e i ns = ns'" by (simp add: round_at_def u)
  have "parent ns' i \<noteq> parent ns i \<longleftrightarrow> parent ns' \<noteq> parent ns"
    using *(4,5) by (cases "i = e") (auto simp: fun_upd_idem_iff)
  then show "update_idom e i (todo, ns) = Inr (todo \<or> parent (round_at e i ns) \<noteq> parent ns, round_at e i ns)"
    using u by (subst update_idom_todo) (simp add: r)
  show "dom_inv e (round_at e i ns)" "dom_graph e (round_at e i ns) = dom_graph e ns" "same_but_idom ns (round_at e i ns)"
    "i = e \<Longrightarrow> round_at e i ns = ns"
    "i \<noteq> e \<Longrightarrow> \<exists>m. is_meet (dom_graph e ns) (parent ns) i m \<and> parent (round_at e i ns) = (parent ns)(i := m)"
    unfolding r by fact+
qed

lemma round_at_same:
  assumes inv: "dom_inv e ns" and i: "i < length ns" and same: "parent (round_at e i ns) = parent ns"
  shows "round_at e i ns = ns"
proof (rule nth_equalityI)
  note s = same_but_idomD [OF round_at_spec(4) [OF inv i]]
  show "length (round_at e i ns) = length ns" by (rule s)
  fix n assume n: "n < length (round_at e i ns)"
  then have "n < length ns" using s by simp
  moreover have "idom (round_at e i ns ! n) = idom (ns ! n)"
    using dom_invD(5,7) [OF inv] dom_invD(5,7) [OF round_at_spec(2) [OF inv i]] same n s by (cases "n = e") auto
  ultimately show "round_at e i ns ! n = ns ! n" using s(2) [of n] by simp
qed

fun changes :: "nat \<Rightarrow> nat list \<Rightarrow> CFNode list \<Rightarrow> bool" where
  "changes e [] ns = False"
| "changes e (i # is) ns = (parent (round_at e i ns) \<noteq> parent ns \<or> changes e is (round_at e i ns))"

lemma rounds_spec:
  assumes "dom_inv e ns" "\<forall>i \<in> set is. i < length ns"
  shows "fold_res (update_idom e) is (todo, ns) = Inr (todo \<or> changes e is ns, fold (round_at e) is ns)"
    "dom_inv e (fold (round_at e) is ns)" "dom_graph e (fold (round_at e) is ns) = dom_graph e ns"
    "same_but_idom ns (fold (round_at e) is ns)"
  using assms
proof (induction "is" arbitrary: ns todo)
  case (Cons i "is")
  {
    case 1
    then show ?case using Cons.IH(1) [of "round_at e i ns"] round_at_spec [of e ns i] same_but_idomD(1) by auto
  next
    case 2
    then show ?case using Cons.IH(2) [of "round_at e i ns"] round_at_spec [of e ns i] same_but_idomD(1) by auto
  next
    case 3
    then show ?case using Cons.IH(3) [of "round_at e i ns"] round_at_spec [of e ns i] same_but_idomD(1) by auto
  next
    case 4
    then have i: "dom_inv e ns" "i < length ns" by simp_all
    then have "same_but_idom (round_at e i ns) (fold (round_at e) is (round_at e i ns))"
      using Cons.IH(4) [of "round_at e i ns"] round_at_spec(2,4) [OF i] 4 same_but_idomD(1) by auto
    with round_at_spec(4) [OF i] show ?case by (simp add: same_but_idom_trans [of ns])
  }
qed (simp_all add: same_but_idom_def)

lemma no_changes:
  assumes "dom_inv e ns" "\<forall>i \<in> set is. i < length ns" "\<not> changes e is ns"
  shows "fold (round_at e) is ns = ns \<and> (\<forall>i \<in> set is. i \<noteq> e \<longrightarrow> is_meet (dom_graph e ns) (parent ns) i (parent ns i))"
  using assms
proof (induction "is")
  case (Cons i "is")
  have same: "round_at e i ns = ns" using round_at_same [of e ns i] Cons.prems by simp
  have "is_meet (dom_graph e ns) (parent ns) i (parent ns i)" if ne: "i \<noteq> e"
  proof -
    obtain m where "is_meet (dom_graph e ns) (parent ns) i m" "parent ns = (parent ns)(i := m)"
      using round_at_spec(6) [of e ns i, OF _ _ ne] Cons.prems same by (metis list.set_intros(1))
    then show ?thesis by (metis fun_upd_same)
  qed
  with Cons same show ?case by simp
qed simp

lemma changes_steps:
  assumes "\<And>j. j < length is \<Longrightarrow>
    parent (fold (round_at e) (take (Suc j) is) ns) = parent (fold (round_at e) (take j is) ns)"
  shows "\<not> changes e is ns"
  using assms
proof (induction "is" arbitrary: ns)
  case (Cons i "is")
  have "parent (round_at e i ns) = parent ns" using Cons.prems [of 0] by simp
  moreover have "\<not> changes e is (round_at e i ns)"
    by (rule Cons.IH) (use Cons.prems [of "Suc j" for j] in simp)
  ultimately show ?case by simp
qed simp

text \<open>The rounds of all sweeps, one after the other.\<close>

primrec round_seq :: "nat \<Rightarrow> nat list \<Rightarrow> CFNode list \<Rightarrow> nat \<Rightarrow> CFNode list" where
  "round_seq e is ns 0 = ns"
| "round_seq e is ns (Suc k) = round_at e (is ! (k mod length is)) (round_seq e is ns k)"

lemma round_seq_take:
  "j \<le> length is \<Longrightarrow> round_seq e is ns (q * length is + j) = fold (round_at e) (take j is) (round_seq e is ns (q * length is))"
proof (induction j)
  case (Suc j)
  then show ?case by (simp add: take_Suc_conv_app_nth)
qed simp

lemma round_seq_inv:
  assumes "dom_inv e ns" "\<forall>i \<in> set is. i < length ns" "is \<noteq> []"
  shows "dom_inv e (round_seq e is ns k) \<and> dom_graph e (round_seq e is ns k) = dom_graph e ns \<and> same_but_idom ns (round_seq e is ns k)"
proof (induction k)
  case (Suc k)
  have "is ! (k mod length is) < length (round_seq e is ns k)"
    using assms Suc same_but_idomD(1) by (metis length_greater_0_conv mod_less_divisor nth_mem)
  note r = round_at_spec(2-4) [OF conjunct1 [OF Suc] this]
  show ?case using r Suc same_but_idom_trans [OF _ r(3), of ns] by simp
qed (use assms in \<open>simp add: same_but_idom_def\<close>)

subsection \<open>The loop returns the dominator tree\<close>

lemma rounds_fair:
  assumes inv: "dom_inv e ns" and cs: "set is = {..<length ns} - {e}" and ne: "is \<noteq> []"
  shows "fair_rounds (dom_graph e ns) (\<lambda>k. parent (round_seq e is ns k)) (\<lambda>k. is ! (k mod length is))"
proof -
  have mem: "is ! (k mod length is) \<in> set is" for k using ne by simp
  have turns: "\<exists>j \<ge> i. is ! (j mod length is) = n" if n: "n \<in> set is" for n i
  proof -
    obtain j where j: "j < length is" "is ! j = n" using n by (auto simp: in_set_conv_nth)
    then have "i \<le> i * length is + j" "is ! ((i * length is + j) mod length is) = n" using ne by (simp_all add: le_add1 trans_le_add1)
    then show ?thesis by blast
  qed
  have round: "\<exists>m. is_meet (dom_graph e ns) (parent (round_seq e is ns k)) (is ! (k mod length is)) m
      \<and> parent (round_seq e is ns (Suc k)) = (parent (round_seq e is ns k))(is ! (k mod length is) := m)" for k
  proof -
    have i: "dom_inv e (round_seq e is ns k)" "dom_graph e (round_seq e is ns k) = dom_graph e ns" "same_but_idom ns (round_seq e is ns k)"
      using round_seq_inv [OF inv _ ne, of k] cs by auto
    have "is ! (k mod length is) < length (round_seq e is ns k)" "is ! (k mod length is) \<noteq> e"
      using mem [of k] cs same_but_idomD(1) [OF i(3)] by auto
    from round_at_spec(6) [OF i(1) this] show ?thesis by (simp add: i(2))
  qed
  show ?thesis unfolding fair_rounds_def using mem cs turns round by auto
qed

text \<open>The entry is passed over.\<close>

lemma rounds_skip:
  assumes "dom_inv e ns" "\<forall>i \<in> set is. i < length ns"
  shows "fold (round_at e) is ns = fold (round_at e) (filter (\<lambda>i. i \<noteq> e) is) ns
    \<and> changes e is ns = changes e (filter (\<lambda>i. i \<noteq> e) is) ns"
  using assms
proof (induction "is" arbitrary: ns)
  case (Cons i "is")
  then show ?case using round_at_spec(2,4,5) [of e ns i] same_but_idomD(1) [of ns "round_at e i ns"] by auto
qed simp

lemma idom_loop_spec:
  assumes inv: "dom_inv e ns" and cs: "set is = {..<length ns}"
  shows "\<exists>r. idom_loop e is ns = Some (Inr r) \<and> dom_inv e r \<and> dom_graph e r = dom_graph e ns \<and> same_but_idom ns r
    \<and> exact (dom_graph e ns) (parent r)"
proof -
  define is' where "is' = filter (\<lambda>i. i \<noteq> e) is"
  have cs': "set is' = {..<length ns} - {e}" using cs by (auto simp: is'_def)
  have final: "idom_loop e is t = Some (Inr t) \<and> exact (dom_graph e t) (parent t)"
    if t: "dom_inv e t" "length t = length ns" "\<not> changes e is' t" for t
  proof -
    have c: "\<forall>i \<in> set is. i < length t" "\<not> changes e is t"
      using cs t rounds_skip [OF t(1), of "is"] by (auto simp: is'_def)
    note n = no_changes [OF t(1) c]
    have "idom_loop e is t = Some (Inr t)"
      using rounds_spec(1) [OF t(1) c(1), of False] n c(2) by (simp add: idom_loop.simps idom_sweep_def)
    moreover have "exact (dom_graph e t) (parent t)"
      by (rule fixpoint_exact [OF dom_invD(1-3) [OF t(1)]]) (use n cs t(2) in auto)
    ultimately show ?thesis by simp
  qed
  show ?thesis
  proof (cases "is' = []")
    case True
    then show ?thesis using final [OF inv] inv by (auto simp: same_but_idom_def)
  next
    case False
    let ?t = "round_seq e is' ns" and ?L = "length is'"
    have lt: "\<forall>i \<in> set is'. i < length ns" using cs' by auto
    note seq = round_seq_inv [OF inv lt False]
    have len: "length (?t k) = length ns" for k using seq [of k] same_but_idomD(1) by blast
    obtain T where T: "\<And>k. T \<le> k \<Longrightarrow> parent (?t (Suc k)) = parent (?t k)"
      using rounds_reach_dominators [OF dom_invD(1) [OF inv] _ rounds_fair [OF inv cs' False]] dom_invD(2,3) [OF inv] by auto
    have stop: "\<not> changes e is' (?t (q * ?L))" if "T \<le> q" for q
    proof (rule changes_steps)
      fix j assume j: "j < ?L"
      have "q \<le> q * ?L" using False by (cases ?L) simp_all
      then have "T \<le> q * ?L + j" using that by linarith
      then show "parent (fold (round_at e) (take (Suc j) is') (?t (q * ?L))) = parent (fold (round_at e) (take j is') (?t (q * ?L)))"
        using T [of "q * ?L + j"] j round_seq_take [of "Suc j" is' e ns q] round_seq_take [of j is' e ns q] by simp
    qed
    have "\<exists>r. idom_loop e is (?t (q * ?L)) = Some (Inr r) \<and> dom_inv e r \<and> dom_graph e r = dom_graph e ns \<and> same_but_idom ns r
      \<and> exact (dom_graph e ns) (parent r)" for q
    proof (induction "T - q" arbitrary: q rule: less_induct)
      case less
      show ?case
      proof (cases "changes e is' (?t (q * ?L))")
        case False
        then show ?thesis using final [of "?t (q * ?L)"] seq [of "q * ?L"] len by auto
      next
        case True
        with stop have "T - Suc q < T - q" by (meson diff_less_mono2 lessI not_le)
        note IH = less.hyps [OF this]
        have c: "\<forall>i \<in> set is. i < length (?t (q * ?L))" using cs len by simp
        have "?t (Suc q * ?L) = fold (round_at e) is (?t (q * ?L))"
          using round_seq_take [of ?L is' e ns q] rounds_skip [OF conjunct1 [OF seq] c] by (simp add: is'_def add.commute)
        then have "idom_loop e is (?t (q * ?L)) = idom_loop e is (?t (Suc q * ?L))"
          using rounds_spec(1) [OF conjunct1 [OF seq] c, of False] rounds_skip [OF conjunct1 [OF seq] c] True
          by (subst idom_loop.simps) (simp add: idom_sweep_def is'_def)
        with IH show ?thesis by simp
      qed
    qed
    from this [of 0] show ?thesis by simp
  qed
qed

subsection \<open>The first approximation\<close>

text \<open>What the computation of dominators leaves alone in a node.\<close>

definition core :: "CFNode \<Rightarrow> abstraction option \<times> bool \<times> CFEdge list \<times> CFEdge list \<times> nat" where
  "core n = (cnode n, reachable n, succ_edges n, pred_edges n, rpo_index n)"

lemma core_eq:
  "core m = core n \<longleftrightarrow> cnode m = cnode n \<and> reachable m = reachable n \<and> succ_edges m = succ_edges n \<and> pred_edges m = pred_edges n \<and> rpo_index m = rpo_index n"
  by (auto simp: core_def)

lemma same_but_idom_core: "same_but_idom ns ns' \<Longrightarrow> n < length ns \<Longrightarrow> core (ns' ! n) = core (ns ! n)"
  by (subst same_but_idomD(2)) (auto simp: core_eq)

text \<open>A numbered graph, before its dominators are computed.\<close>

definition numbered_nodes :: "nat \<Rightarrow> CFNode list \<Rightarrow> bool" where
  "numbered_nodes e ns \<longleftrightarrow>
     e < length ns \<and> inj_on (\<lambda>n. rpo_index (ns ! n)) {..<length ns}
     \<and> (\<forall>n < length ns. (\<forall>x \<in> set (pred_edges (ns ! n)). esrc x < length ns)
          \<and> (n \<noteq> e \<longrightarrow> (\<exists>x \<in> set (pred_edges (ns ! n)). rpo_index (ns ! esrc x) < rpo_index (ns ! n)))
          \<and> idom (ns ! n) = None \<and> structured_idom (ns ! n) = None)"

definition approximated :: "CFNode list \<Rightarrow> nat \<Rightarrow> CFNode \<Rightarrow> bool" where
  "approximated ns i n \<longleftrightarrow>
     core n = core (ns ! i)
     \<and> (\<exists>x \<in> set (pred_edges (ns ! i)). idom n = Some (esrc x) \<and> rpo_index (ns ! esrc x) < rpo_index (ns ! i))
     \<and> (structured_idom n = None \<longleftrightarrow> (\<forall>x \<in> set (pred_edges (ns ! i)). etype x \<noteq> StructuredTailEdge))"

lemma earlier_pred_spec:
  "\<forall>x \<in> set es. esrc x < length ns \<Longrightarrow> \<exists>x \<in> set es. rpo_index (ns ! esrc x) < index \<Longrightarrow>
   \<exists>x \<in> set es. earlier_pred ns index es = Inr (Some (esrc x)) \<and> rpo_index (ns ! esrc x) < index"
  by (induction es) auto

lemma last_tail_edge_None: "last_tail_edge es = None \<longleftrightarrow> (\<forall>x \<in> set es. etype x \<noteq> StructuredTailEdge)"
proof -
  have "fold (\<lambda>e r. if etype e = StructuredTailEdge then Some e else r) es r = None
      \<longleftrightarrow> r = None \<and> (\<forall>x \<in> set es. etype x \<noteq> StructuredTailEdge)" for r
    by (induction es arbitrary: r) auto
  then show ?thesis by (simp add: last_tail_edge_def)
qed

lemma init_idom_spec:
  assumes "i < length ns" "i \<noteq> e" "\<forall>x \<in> set (pred_edges (ns ! i)). esrc x < length ns"
    "\<exists>x \<in> set (pred_edges (ns ! i)). rpo_index (ns ! esrc x) < rpo_index (ns ! i)" "structured_idom (ns ! i) = None"
  obtains n where "init_idom e i ns = Inr (ns[i := n])" "approximated ns i n"
proof -
  obtain x where x: "x \<in> set (pred_edges (ns ! i))" "rpo_index (ns ! esrc x) < rpo_index (ns ! i)"
    "earlier_pred ns (rpo_index (ns ! i)) (pred_edges (ns ! i)) = Inr (Some (esrc x))"
    using earlier_pred_spec [OF assms(3,4)] by blast
  show thesis
  proof (cases "last_tail_edge (pred_edges (ns ! i))")
    case None
    then have "approximated ns i ((ns ! i)\<lparr>idom := Some (esrc x)\<rparr>)"
      using x assms(5) by (auto simp: approximated_def core_eq last_tail_edge_None)
    then show thesis
      using assms(1,2) x None by (intro that [of "(ns ! i)\<lparr>idom := Some (esrc x)\<rparr>"]) (simp_all add: init_idom_def)
  next
    case (Some y)
    then have "\<not> (\<forall>x \<in> set (pred_edges (ns ! i)). etype x \<noteq> StructuredTailEdge)"
      using last_tail_edge_None [of "pred_edges (ns ! i)"] by simp
    with Some show thesis
      using assms(1,2) x
      by (intro that [of "(ns ! i)\<lparr>structured_idom := Some (esrc y), structured_idom_edge := Some y, idom := Some (esrc x)\<rparr>"])
        (auto simp: init_idom_def approximated_def core_eq)
  qed
qed

lemma approximated_cong:
  assumes "\<And>n. n < length ns \<Longrightarrow> core (ns' ! n) = core (ns ! n)" "i < length ns" "\<forall>x \<in> set (pred_edges (ns ! i)). esrc x < length ns"
  shows "approximated ns' i n \<longleftrightarrow> approximated ns i n"
proof -
  have "core (ns' ! i) = core (ns ! i)" using assms by simp
  moreover have "rpo_index (ns' ! esrc x) = rpo_index (ns ! esrc x)" if "x \<in> set (pred_edges (ns ! i))" for x
    using assms(1) [of "esrc x"] assms(3) that by (auto simp: core_eq)
  ultimately show ?thesis by (auto simp: approximated_def core_eq)
qed

lemma init_idoms_spec:
  assumes "\<forall>i \<in> set is. i < length ns \<and> structured_idom (ns ! i) = None" "distinct is"
    "\<forall>n < length ns. (\<forall>x \<in> set (pred_edges (ns ! n)). esrc x < length ns)
          \<and> (n \<noteq> e \<longrightarrow> (\<exists>x \<in> set (pred_edges (ns ! n)). rpo_index (ns ! esrc x) < rpo_index (ns ! n)))"
  shows "\<exists>ns'. fold_res (init_idom e) is ns = Inr ns' \<and> length ns' = length ns
    \<and> (\<forall>i < length ns. if i \<in> set is \<and> i \<noteq> e then approximated ns i (ns' ! i) else ns' ! i = ns ! i)"
  using assms
proof (induction "is" arbitrary: ns)
  case (Cons i "is")
  show ?case
  proof (cases "i = e")
    case True
    then have init: "init_idom e i ns = Inr ns" by (simp add: init_idom_def)
    obtain ns' where "fold_res (init_idom e) is ns = Inr ns'" "length ns' = length ns"
      "\<forall>j < length ns. if j \<in> set is \<and> j \<noteq> e then approximated ns j (ns' ! j) else ns' ! j = ns ! j"
      using Cons.IH [of ns] Cons.prems by auto
    with init True show ?thesis by (intro exI [of _ ns']) auto
  next
    case False
    from Cons.prems have i: "i < length ns" "i \<notin> set is" "structured_idom (ns ! i) = None" by simp_all
    obtain n where n: "init_idom e i ns = Inr (ns[i := n])" "approximated ns i n"
      using init_idom_spec [OF i(1) False _ _ i(3)] Cons.prems(3) i(1) False by metis
    have c: "core (ns[i := n] ! m) = core (ns ! m)" for m
      using n(2) i(1) by (cases "m = i") (simp_all add: approximated_def)
    then have p: "pred_edges (ns[i := n] ! m) = pred_edges (ns ! m)" "rpo_index (ns[i := n] ! m) = rpo_index (ns ! m)" for m
      by (simp_all add: core_eq)
    have st: "\<forall>j \<in> set is. j < length (ns[i := n]) \<and> structured_idom (ns[i := n] ! j) = None"
      using Cons.prems(1) i(2) by (metis length_list_update list.set_intros(2) nth_list_update_neq)
    obtain ns' where ns': "fold_res (init_idom e) is (ns[i := n]) = Inr ns'" "length ns' = length ns"
      "\<forall>j < length ns. if j \<in> set is \<and> j \<noteq> e then approximated (ns[i := n]) j (ns' ! j) else ns' ! j = ns[i := n] ! j"
      using Cons.IH [OF st] Cons.prems p by auto
    have "if j \<in> set (i # is) \<and> j \<noteq> e then approximated ns j (ns' ! j) else ns' ! j = ns ! j" if j: "j < length ns" for j
      using ns'(3) j approximated_cong [of ns "ns[i := n]" j "ns' ! j"] c Cons.prems(3) n(2) i False by (cases "j = i") (auto split: if_splits)
    with n(1) ns'(1,2) show ?thesis by (intro exI [of _ ns']) simp
  qed
qed auto

lemma init_inv:
  assumes ok: "numbered_nodes e ns" and cs: "set is = {..<length ns}" "distinct is"
  obtains ns' where "fold_res (init_idom e) is ns = Inr ns'" "length ns' = length ns" "\<And>n. n < length ns \<Longrightarrow> core (ns' ! n) = core (ns ! n)"
    "dom_inv e ns'"
    "\<And>n. n < length ns \<Longrightarrow> \<forall>x \<in> set (pred_edges (ns ! n)). etype x \<noteq> StructuredTailEdge \<Longrightarrow> structured_idom (ns' ! n) = None"
proof -
  from ok have e: "e < length ns" by (simp add: numbered_nodes_def)
  obtain ns' where r: "fold_res (init_idom e) is ns = Inr ns'" and len: "length ns' = length ns"
    and s: "\<And>i. i < length ns \<Longrightarrow> i \<noteq> e \<Longrightarrow> approximated ns i (ns' ! i)" "ns' ! e = ns ! e"
    using init_idoms_spec [of "is" ns e] ok cs by (auto simp: numbered_nodes_def)
  have c: "core (ns' ! n) = core (ns ! n)" if "n < length ns" for n using s that by (cases "n = e") (auto simp: approximated_def)
  then have p: "pred_edges (ns' ! n) = pred_edges (ns ! n)" "rpo_index (ns' ! n) = rpo_index (ns ! n)" if "n < length ns" for n
    using that by (auto simp: core_eq)
  have par: "\<exists>x \<in> set (pred_edges (ns ! n)). parent ns' n = esrc x \<and> idom (ns' ! n) = Some (esrc x) \<and> rpo_index (ns ! esrc x) < rpo_index (ns ! n)"
    if "n < length ns" "n \<noteq> e" for n
    using s(1) [OF that] by (auto simp: approximated_def parent_def)
  have preds: "parent ns' n \<in> preds (dom_graph e ns') n" "preds (dom_graph e ns') n \<subseteq> {..<length ns}"
      "rpo_index (ns ! parent ns' n) < rpo_index (ns ! n)" if n: "n < length ns" "n \<noteq> e" for n
    using par [OF n] p [OF n(1)] ok n by (auto simp: dom_graph_def numbered_nodes_def)
  have pe: "preds (dom_graph e ns') e \<subseteq> {..<length ns}"
    using ok p [OF e] s(2) e by (auto simp: dom_graph_def numbered_nodes_def)
  have lt: "parent ns' n < length ns" if "n < length ns" "n \<noteq> e" for n using preds(1,2) [OF that] by auto
  have "inj_on (\<lambda>n. rpo_index (ns' ! n)) {..<length ns}"
    using ok p(2) by (simp add: numbered_nodes_def inj_on_def)
  moreover have "preds (dom_graph e ns') n \<subseteq> {..<length ns}" if "n < length ns" for n
    using preds(2) [OF that] pe by (cases "n = e") auto
  moreover have "\<exists>q \<in> preds (dom_graph e ns') n. rpo_index (ns' ! q) < rpo_index (ns' ! n)" if n: "n < length ns" "n \<noteq> e" for n
    using preds [OF n] p(2) lt [OF n] n by (intro bexI [of _ "parent ns' n"]) auto
  ultimately have "numbered (dom_graph e ns')"
    using e len by (auto simp: numbered_def)
  moreover have "rising (dom_graph e ns') (parent ns')"
    using preds lt p(2) len by (auto simp: rising_def)
  moreover have "keeps (dom_graph e ns') (parent ns')"
    by (rule keeps_parent_pred) (use preds(1) len in auto)
  moreover have "structured_idom (ns' ! n) = None \<Longrightarrow> x \<in> set (pred_edges (ns' ! n)) \<Longrightarrow> n \<noteq> e \<Longrightarrow> etype x \<noteq> StructuredTailEdge"
    if "n < length ns" for n x
    using s(1) [OF that] p [OF that] by (auto simp: approximated_def)
  moreover have "idom (ns' ! n) \<noteq> None" if "n < length ns" "n \<noteq> e" for n using par [OF that] by auto
  moreover have "idom (ns' ! e) = None" "structured_idom (ns' ! e) = None" using s(2) ok e by (auto simp: numbered_nodes_def)
  ultimately have "dom_inv e ns'" using len by (auto simp: dom_inv_def)
  moreover have "structured_idom (ns' ! n) = None"
    if "n < length ns" "\<forall>x \<in> set (pred_edges (ns ! n)). etype x \<noteq> StructuredTailEdge" for n
    using s(1) [OF that(1)] s(2) ok e that(2) by (cases "n = e") (auto simp: approximated_def numbered_nodes_def)
  ultimately show thesis using r len c by (intro that) auto
qed

subsection \<open>The finished tree\<close>

definition set_dominates :: "CFNode list \<Rightarrow> (nat \<Rightarrow> nat list) \<Rightarrow> CFNode list" where
  "set_dominates ns h = map (\<lambda>n. (ns ! n)\<lparr>dominates := h n\<rparr>) [0..<length ns]"

lemma set_dominates_simps [simp]:
  "length (set_dominates ns h) = length ns" "n < length ns \<Longrightarrow> set_dominates ns h ! n = (ns ! n)\<lparr>dominates := h n\<rparr>"
  by (simp_all add: set_dominates_def)

lemma set_dominates_twice [simp]: "set_dominates (set_dominates ns h) k = set_dominates ns k"
  by (rule nth_equalityI) simp_all

lemma set_dominates_update:
  "i < length ns \<Longrightarrow> (set_dominates ns h)[i := (set_dominates ns h ! i)\<lparr>dominates := x\<rparr>] = set_dominates ns (h(i := x))"
  by (rule nth_equalityI) (auto simp: nth_list_update)

lemma set_dominates_self: "ns = set_dominates ns (\<lambda>n. dominates (ns ! n))"
  by (rule nth_equalityI) simp_all

lemma clear_dominates:
  assumes "set order \<subseteq> {..<length ns}"
  shows "fold_res (\<lambda>i ns. bind_res (at ns i) (\<lambda>n. Inr (ns[i := n\<lparr>dominates := []\<rparr>]))) order (set_dominates ns h)
    = Inr (set_dominates ns (\<lambda>n. if n \<in> set order then [] else h n))"
  using assms
proof (induction order arbitrary: h)
  case (Cons i order)
  then show ?case
    using set_dominates_update [of i ns h "[]"] Cons.IH [of "h(i := [])"]
    by (auto simp: fun_upd_def intro!: arg_cong [where f = "set_dominates ns"])
qed simp

lemma record_dominates:
  assumes "set order \<subseteq> {..<length ns}" "\<forall>i < length ns. \<forall>d. idom (ns ! i) = Some d \<longrightarrow> d < length ns"
  shows "fold_res record_dominated order (set_dominates ns h)
    = Inr (set_dominates ns (\<lambda>d. h d @ filter (\<lambda>i. idom (ns ! i) = Some d) order))"
  using assms(1)
proof (induction order arbitrary: h)
  case (Cons i order)
  then have i: "i < length ns" by simp
  show ?case
  proof (cases "idom (ns ! i)")
    case None
    with Cons i show ?thesis by (simp add: record_dominated_def)
  next
    case (Some d)
    then have d: "d < length ns" using assms(2) i by blast
    have "record_dominated i (set_dominates ns h) = Inr (set_dominates ns (h(d := h d @ [i])))"
      using i d Some set_dominates_update [OF d, of h "h d @ [i]"] by (simp add: record_dominated_def)
    moreover have "(\<lambda>b. (h(d := h d @ [i])) b @ filter (\<lambda>i. idom (ns ! i) = Some b) order)
        = (\<lambda>b. h b @ filter (\<lambda>i. idom (ns ! i) = Some b) (i # order))"
      using Some by (auto simp: fun_eq_iff)
    ultimately show ?thesis using Cons.IH [of "h(d := h d @ [i])"] Cons.prems by (simp del: fun_upd_apply)
  qed
qed simp

lemma dom_by_cong:
  assumes "verts g = verts g'" "start g = start g'" "\<And>n. n \<in> verts g \<Longrightarrow> preds g n = preds g' n"
  shows "dom_by g x n \<longleftrightarrow> dom_by g' x n"
proof -
  have "avoids g' x n" if "avoids g x n" "verts g = verts g'" "start g = start g'" "\<And>n. n \<in> verts g \<Longrightarrow> preds g n = preds g' n" for g g'
    using that(1)
  proof induction
    case at_start
    then show ?case using avoids.at_start [of x g'] that by simp
  next
    case (step p n)
    then show ?case using avoids.step [of g' x p n] that by simp
  qed
  from this [of g g'] this [of g' g] assms show ?thesis by (auto simp: dom_by_def)
qed

lemma dom_by_set_dominates:
  "dom_by (dom_graph e (set_dominates ns h)) x n \<longleftrightarrow> dom_by (dom_graph e ns) x n"
  by (rule dom_by_cong) (auto simp: dom_graph_def)

lemma is_dominated_set_dominates: "is_dominated_from fuel (set_dominates ns h) a b = is_dominated_from fuel ns a b"
proof (induction fuel arbitrary: a)
  case (Suc fuel)
  then show ?case by (cases "a < length ns") (auto simp: at_def split: option.split)
qed simp

lemma is_dominated_from_spec:
  assumes inv: "dom_inv e ns" and "a < length ns" "rank ns a < fuel"
  shows "is_dominated_from fuel ns a b = Inr (ancestor (dom_graph e ns) (parent ns) b a)"
  using assms(2,3)
proof (induction fuel arbitrary: a)
  case (Suc fuel)
  show ?case
  proof (cases "a = e")
    case True
    then show ?thesis using dom_invD(5,6) [OF inv] Suc.prems ancestor_start_iff [of "dom_graph e ns" "parent ns" b] by auto
  next
    case False
    note d = dom_invD(7) [OF inv Suc.prems(1) False]
    have p: "parent ns a < length ns" "rpo_index (ns ! parent ns a) < rpo_index (ns ! a)"
      using risingD [OF dom_invD(2) [OF inv], of a] Suc.prems False by auto
    show ?thesis
      using Suc.IH [OF p(1)] rank_less [OF p] Suc.prems d ancestor_unfold [of a "dom_graph e ns" "parent ns" b] False
      by (auto intro: self)
  qed
qed simp

text \<open>The other dominators of a node dominate the closest.\<close>

definition closest_dominator :: "flow_graph \<Rightarrow> nat \<Rightarrow> nat option \<Rightarrow> bool" where
  "closest_dominator g n r \<longleftrightarrow> (\<exists>d \<in> verts g. r = Some d \<and> d \<noteq> n \<and> (\<forall>x. dom_by g x n \<longleftrightarrow> x = n \<or> dom_by g x d))"

text \<open>
  The computation returns; domination is decided by the parents, and every node lists the nodes it is the
  parent of in the order of their numbers.
\<close>

lemma domtree_spec:
  assumes ok: "numbered_nodes (centry cfg) (cnodes cfg)" and cs: "set (contents cfg) = {..<length (cnodes cfg)}" "distinct (contents cfg)"
    and order: "rpo cfg = map Some order" "set order = {..<length (cnodes cfg)}"
  obtains cfg' where "shd_cfg_compute_domtree cfg = Inr cfg'" "cfg' = cfg\<lparr>cnodes := cnodes cfg'\<rparr>"
    "length (cnodes cfg') = length (cnodes cfg)" "\<And>n. n < length (cnodes cfg) \<Longrightarrow> core (cnodes cfg' ! n) = core (cnodes cfg ! n)"
    "\<And>a b. a < length (cnodes cfg) \<Longrightarrow> shd_cfg_is_dominated cfg' a b = Inr (dom_by (dom_graph (centry cfg) (cnodes cfg')) b a)"
    "\<And>d. d < length (cnodes cfg) \<Longrightarrow> dominates (cnodes cfg' ! d) = filter (\<lambda>i. idom (cnodes cfg' ! i) = Some d) order"
    "\<And>n. n < length (cnodes cfg) \<Longrightarrow> \<forall>x \<in> set (pred_edges (cnodes cfg ! n)). etype x \<noteq> StructuredTailEdge \<Longrightarrow>
       structured_idom (cnodes cfg' ! n) = None"
    "\<And>n. n < length (cnodes cfg) \<Longrightarrow> n \<noteq> centry cfg \<Longrightarrow> closest_dominator (dom_graph (centry cfg) (cnodes cfg')) n (idom (cnodes cfg' ! n))"
proof -
  let ?e = "centry cfg" and ?ns = "cnodes cfg"
  obtain ns1 where ns1: "fold_res (init_idom ?e) (contents cfg) ?ns = Inr ns1" "length ns1 = length ?ns"
    "\<And>n. n < length ?ns \<Longrightarrow> core (ns1 ! n) = core (?ns ! n)" "dom_inv ?e ns1"
    and tails: "\<And>n. n < length ?ns \<Longrightarrow> \<forall>x \<in> set (pred_edges (?ns ! n)). etype x \<noteq> StructuredTailEdge \<Longrightarrow> structured_idom (ns1 ! n) = None"
    by (rule init_inv [OF ok cs]) metis
  obtain ns2 where ns2: "idom_loop ?e (contents cfg) ns1 = Some (Inr ns2)" "dom_inv ?e ns2" "dom_graph ?e ns2 = dom_graph ?e ns1"
    "same_but_idom ns1 ns2" "exact (dom_graph ?e ns1) (parent ns2)"
    using idom_loop_spec [OF ns1(4), of "contents cfg"] cs ns1(2) by auto
  have len: "length ns2 = length ?ns" using same_but_idomD(1) [OF ns2(4)] ns1(2) by simp
  have c: "core (ns2 ! n) = core (?ns ! n)" if "n < length ?ns" for n
    using same_but_idom_core [OF ns2(4), of n] ns1(2,3) that by simp
  let ?h = "\<lambda>d. filter (\<lambda>i. idom (ns2 ! i) = Some d) order"
  let ?ns' = "set_dominates ns2 ?h"
  have ords: "set order \<subseteq> {..<length ns2}" using order len by simp
  have id: "\<forall>i < length ns2. \<forall>d. idom (ns2 ! i) = Some d \<longrightarrow> d < length ns2"
    using dom_invD(5,7) [OF ns2(2)] risingD(1) [OF dom_invD(2) [OF ns2(2)]] by (metis dom_graph_simps(1,2) lessThan_iff option.distinct(1) option.inject)
  have derefs: "map_res deref (map Some xs) = Inr xs" for xs :: "nat list" by (induction xs) simp_all
  have clear: "fold_res (\<lambda>i ns. bind_res (at ns i) (\<lambda>n. Inr (ns[i := n\<lparr>dominates := []\<rparr>]))) order ns2
      = Inr (set_dominates ns2 (\<lambda>n. if n \<in> set order then [] else dominates (ns2 ! n)))"
    using clear_dominates [OF ords, of "\<lambda>n. dominates (ns2 ! n)"] set_dominates_self [of ns2] by simp
  have "set_dominates ns2 (\<lambda>n. if n \<in> set order then [] else dominates (ns2 ! n)) = set_dominates ns2 (\<lambda>_. [])"
    using order(2) len by (intro nth_equalityI) simp_all
  with clear record_dominates [OF ords id, of "\<lambda>_. []"]
  have run: "shd_cfg_compute_domtree cfg = Inr (cfg\<lparr>cnodes := ?ns'\<rparr>)"
    by (simp add: shd_cfg_compute_domtree_def ns1(1) ns2(1) order(1) derefs)
  have dominated: "shd_cfg_is_dominated (cfg\<lparr>cnodes := ?ns'\<rparr>) a b = Inr (dom_by (dom_graph ?e ?ns') b a)" if "a < length ?ns" for a b
  proof -
    have "is_dominated_from (length ns2 + 1) ns2 a b = Inr (ancestor (dom_graph ?e ns2) (parent ns2) b a)"
      by (rule is_dominated_from_spec [OF ns2(2)]) (use rank_le [of ns2 a] that len in auto)
    moreover have "ancestor (dom_graph ?e ns2) (parent ns2) b a \<longleftrightarrow> dom_by (dom_graph ?e ns2) b a"
      using ns2(3,5) that len by (metis exact_def dom_graph_simps(1) lessThan_iff)
    ultimately show ?thesis
      by (simp add: shd_cfg_is_dominated_def is_dominated_set_dominates dom_by_set_dominates del: is_dominated_from.simps)
  qed
  have plain: "structured_idom (ns2 ! n) = None" if "n < length ?ns" "\<forall>x \<in> set (pred_edges (?ns ! n)). etype x \<noteq> StructuredTailEdge" for n
    using tails [OF that] same_but_idomD(2) [OF ns2(4), of n] that(1) ns1(2) by (metis CFNode.select_convs(7) CFNode.surjective CFNode.update_convs(6))
  have closest: "closest_dominator (dom_graph ?e ?ns') n (idom (?ns' ! n))" if n: "n < length ?ns" "n \<noteq> ?e" for n
  proof -
    let ?g = "dom_graph ?e ns2"
    have d: "parent ns2 n < length ns2" "rpo_index (ns2 ! parent ns2 n) < rpo_index (ns2 ! n)" "idom (ns2 ! n) = Some (parent ns2 n)"
      using risingD [OF dom_invD(2) [OF ns2(2)], of n] dom_invD(7) [OF ns2(2), of n] n len by auto
    have ex: "ancestor ?g (parent ns2) x m \<longleftrightarrow> dom_by ?g x m" if "m < length ns2" for x m
      using ns2(3,5) that len ns1(2) by (simp add: exact_def)
    have "dom_by ?g x n \<longleftrightarrow> x = n \<or> dom_by ?g x (parent ns2 n)" for x
      using ancestor_unfold [of n ?g "parent ns2" x] n len ex d(1) by simp
    moreover have "parent ns2 n \<noteq> n" using d(2) by auto
    ultimately show ?thesis
      using d n len by (auto simp: closest_dominator_def dom_by_set_dominates)
  qed
  have lists: "filter (\<lambda>i. idom (ns2 ! i) = Some d) order = filter (\<lambda>i. idom (?ns' ! i) = Some d) order" for d
    using ords by (intro filter_cong) auto
  show thesis
  proof (rule that [of "cfg\<lparr>cnodes := ?ns'\<rparr>"])
    show "core (cnodes (cfg\<lparr>cnodes := ?ns'\<rparr>) ! n) = core (?ns ! n)" if "n < length ?ns" for n
      using c [OF that] that len by (simp add: core_eq)
    show "shd_cfg_is_dominated (cfg\<lparr>cnodes := ?ns'\<rparr>) a b = Inr (dom_by (dom_graph ?e (cnodes (cfg\<lparr>cnodes := ?ns'\<rparr>))) b a)"
      if "a < length ?ns" for a b using dominated [OF that] by simp
    show "dominates (cnodes (cfg\<lparr>cnodes := ?ns'\<rparr>) ! d) = filter (\<lambda>i. idom (cnodes (cfg\<lparr>cnodes := ?ns'\<rparr>) ! i) = Some d) order"
      if "d < length ?ns" for d using lists [of d, symmetric] that len by simp
    show "structured_idom (cnodes (cfg\<lparr>cnodes := ?ns'\<rparr>) ! n) = None"
      if "n < length ?ns" "\<forall>x \<in> set (pred_edges (?ns ! n)). etype x \<noteq> StructuredTailEdge" for n
      using plain [OF that] that(1) len by simp
    show "closest_dominator (dom_graph ?e (cnodes (cfg\<lparr>cnodes := ?ns'\<rparr>))) n (idom (cnodes (cfg\<lparr>cnodes := ?ns'\<rparr>) ! n))"
      if "n < length ?ns" "n \<noteq> ?e" for n using closest [OF that] by simp
  qed (use run len in simp_all)
qed

end
