(* ===== verification/IrCfgRpo.thy ===== *)
theory IrCfgRpo
  imports IrCfgDom
begin

text \<open>
  The numbering of a control flow graph: the depth-first visit of \<^verbatim>\<open>post_order_visit\<close> ends, numbers the nodes it
  reaches from the end without gaps, and gives the node through which another was reached the smaller number.
\<close>

subsection \<open>Unvisited nodes\<close>

definition unvisited :: "CFNode list \<Rightarrow> nat set" where
  "unvisited ns = {n. n < length ns \<and> rpo_index (ns ! n) = SIZE_MAX}"

lemma finite_unvisited [simp]: "finite (unvisited ns)"
  by (simp add: unvisited_def)

lemma card_unvisited: "card (unvisited ns) \<le> length ns"
  using card_mono [of "{..<length ns}" "unvisited ns"] by (auto simp: unvisited_def)

definition successors :: "CFNode list \<Rightarrow> nat \<Rightarrow> nat set" where
  "successors ns n = edst ` set (succ_edges (ns ! n))"

text \<open>A visit changes nothing but numbers.\<close>

definition same_but_rpo :: "CFNode list \<Rightarrow> CFNode list \<Rightarrow> bool" where
  "same_but_rpo ns ns' \<longleftrightarrow> length ns' = length ns \<and> (\<forall>n < length ns. ns' ! n = (ns ! n)\<lparr>rpo_index := rpo_index (ns' ! n)\<rparr>)"

lemma same_but_rpo_refl [simp]: "same_but_rpo ns ns"
  by (simp add: same_but_rpo_def)

lemma same_but_rpoD:
  assumes "same_but_rpo ns ns'"
  shows "length ns' = length ns" "n < length ns \<Longrightarrow> succ_edges (ns' ! n) = succ_edges (ns ! n)"
    "n < length ns \<Longrightarrow> pred_edges (ns' ! n) = pred_edges (ns ! n)" "n < length ns \<Longrightarrow> successors ns' n = successors ns n"
    "n < length ns \<Longrightarrow> cnode (ns' ! n) = cnode (ns ! n)" "n < length ns \<Longrightarrow> idom (ns' ! n) = idom (ns ! n)"
    "n < length ns \<Longrightarrow> structured_idom (ns' ! n) = structured_idom (ns ! n)"
proof -
  show len: "length ns' = length ns" using assms by (simp add: same_but_rpo_def)
  assume "n < length ns"
  then have eq: "ns' ! n = (ns ! n)\<lparr>rpo_index := rpo_index (ns' ! n)\<rparr>" using assms by (simp add: same_but_rpo_def)
  show "succ_edges (ns' ! n) = succ_edges (ns ! n)" "pred_edges (ns' ! n) = pred_edges (ns ! n)"
    "cnode (ns' ! n) = cnode (ns ! n)" "idom (ns' ! n) = idom (ns ! n)" "structured_idom (ns' ! n) = structured_idom (ns ! n)"
    by (subst eq, simp)+
  then show "successors ns' n = successors ns n" by (simp add: successors_def)
qed

lemma same_but_rpo_trans:
  assumes "same_but_rpo ns ns'" "same_but_rpo ns' ns''"
  shows "same_but_rpo ns ns''"
  unfolding same_but_rpo_def
proof (intro conjI allI impI)
  show "length ns'' = length ns" using assms by (simp add: same_but_rpo_def)
  fix n assume "n < length ns"
  then have "ns'' ! n = (ns' ! n)\<lparr>rpo_index := rpo_index (ns'' ! n)\<rparr>" "ns' ! n = (ns ! n)\<lparr>rpo_index := rpo_index (ns' ! n)\<rparr>"
    using assms by (simp_all add: same_but_rpo_def)
  then show "ns'' ! n = (ns ! n)\<lparr>rpo_index := rpo_index (ns'' ! n)\<rparr>"
    by (metis CFNode.surjective CFNode.update_convs(5))
qed

lemma same_but_rpo_update: "n < length ns \<Longrightarrow> same_but_rpo ns (ns[n := (ns ! n)\<lparr>rpo_index := k\<rparr>])"
  by (simp add: same_but_rpo_def nth_list_update)

subsection \<open>What a visit does\<close>

text \<open>
  The nodes \<open>N\<close> that were visited are numbered \<open>i'\<close> to \<open>i - 1\<close>; their successors have been visited; those
  not among the roots \<open>R\<close> were reached through a node with a smaller number.
\<close>

definition run_facts :: "nat set \<Rightarrow> nat set \<Rightarrow> rpo_state \<Rightarrow> rpo_state \<Rightarrow> bool" where
  "run_facts R N s s' \<longleftrightarrow>
     (case (s, s') of ((i, ns, order), (i', ns', order')) \<Rightarrow>
        same_but_rpo ns ns' \<and> length order' = length order
        \<and> N \<subseteq> unvisited ns \<and> unvisited ns' = unvisited ns - N \<and> i = i' + card N
        \<and> (\<forall>m < length ns. m \<notin> N \<longrightarrow> rpo_index (ns' ! m) = rpo_index (ns ! m))
        \<and> (\<forall>m \<in> N. i' \<le> rpo_index (ns' ! m) \<and> rpo_index (ns' ! m) < i \<and> order' ! rpo_index (ns' ! m) = Some m)
        \<and> (\<forall>k. i' \<le> k \<and> k < i \<longrightarrow> (\<exists>m \<in> N. rpo_index (ns' ! m) = k))
        \<and> (\<forall>k. k < i' \<or> i \<le> k \<longrightarrow> order' ! k = order ! k)
        \<and> (\<forall>m \<in> N. successors ns m \<inter> unvisited ns' = {})
        \<and> (\<forall>m \<in> N - R. \<exists>p \<in> N. m \<in> successors ns p \<and> rpo_index (ns' ! p) < rpo_index (ns' ! m)))"

lemma run_facts_refl: "run_facts R {} s s"
  by (auto simp: run_facts_def split: prod.split)

lemma run_factsD:
  assumes "run_facts R N (i, ns, order) (i', ns', order')"
  shows "same_but_rpo ns ns'" "length order' = length order" "N \<subseteq> unvisited ns" "unvisited ns' = unvisited ns - N" "i = i' + card N"
    "m < length ns \<Longrightarrow> m \<notin> N \<Longrightarrow> rpo_index (ns' ! m) = rpo_index (ns ! m)"
    "m \<in> N \<Longrightarrow> i' \<le> rpo_index (ns' ! m)" "m \<in> N \<Longrightarrow> rpo_index (ns' ! m) < i" "m \<in> N \<Longrightarrow> order' ! rpo_index (ns' ! m) = Some m"
    "i' \<le> k \<Longrightarrow> k < i \<Longrightarrow> \<exists>m \<in> N. rpo_index (ns' ! m) = k"
    "k < i' \<or> i \<le> k \<Longrightarrow> order' ! k = order ! k"
    "m \<in> N \<Longrightarrow> successors ns m \<inter> unvisited ns' = {}"
    "m \<in> N \<Longrightarrow> m \<notin> R \<Longrightarrow> \<exists>p \<in> N. m \<in> successors ns p \<and> rpo_index (ns' ! p) < rpo_index (ns' ! m)"
  using assms [unfolded run_facts_def prod.case] by blast+

lemma run_facts_trans:
  assumes 1: "run_facts R N s s'" and 2: "run_facts R' N' s' s''"
  shows "run_facts (R \<union> R') (N \<union> N') s s''"
proof -
  obtain i ns order where s: "s = (i, ns, order)" by (cases s)
  obtain i' ns' order' where s': "s' = (i', ns', order')" by (cases s')
  obtain i'' ns'' order'' where s'': "s'' = (i'', ns'', order'')" by (cases s'')
  note f = run_factsD [OF 1 [unfolded s s']] and g = run_factsD [OF 2 [unfolded s' s'']]
  have len: "length ns' = length ns" by (rule same_but_rpoD [OF f(1)])
  have N: "N \<subseteq> unvisited ns" "N' \<subseteq> unvisited ns - N" "unvisited ns'' = unvisited ns - (N \<union> N')" using f(3,4) g(3,4) by auto
  then have sub: "m < length ns" if "m \<in> N \<union> N'" for m using that by (auto simp: unvisited_def)
  have fin: "finite N" "finite N'" using N by (auto intro: finite_subset [OF _ finite_unvisited])
  then have card: "card (N \<union> N') = card N + card N'" using N by (intro card_Un_disjoint) auto
  have old: "rpo_index (ns'' ! m) = rpo_index (ns' ! m)" if "m \<in> N" for m
    using g(6) [of m] N(2) that sub [of m] len by auto
  have succ: "successors ns' m = successors ns m" if "m \<in> N \<union> N'" for m
    by (rule same_but_rpoD(4) [OF f(1) sub [OF that]])
  have low: "i'' \<le> rpo_index (ns'' ! m) \<and> rpo_index (ns'' ! m) < i \<and> order'' ! rpo_index (ns'' ! m) = Some m"
    if "m \<in> N \<union> N'" for m
  proof (cases "m \<in> N")
    case True
    then show ?thesis using f(5) f(7-9) [of m] g(5) g(11) [of "rpo_index (ns' ! m)"] old by auto
  next
    case False
    then have "m \<in> N'" using that by simp
    then show ?thesis using f(5) g(7-9) [of m] by auto
  qed
  have onto: "\<exists>m \<in> N \<union> N'. rpo_index (ns'' ! m) = k" if "i'' \<le> k \<and> k < i" for k
  proof (cases "k < i'")
    case True
    with g(10) [of k] that show ?thesis by blast
  next
    case False
    with f(10) [of k] that obtain m where "m \<in> N" "rpo_index (ns' ! m) = k" by auto
    with old show ?thesis by auto
  qed
  have closed: "successors ns m \<inter> unvisited ns'' = {}" if "m \<in> N \<union> N'" for m
    using f(12) [of m] g(12) [of m] g(4) succ [OF that] that by auto
  have reached: "\<exists>p \<in> N \<union> N'. m \<in> successors ns p \<and> rpo_index (ns'' ! p) < rpo_index (ns'' ! m)" if "m \<in> N \<union> N' - (R \<union> R')" for m
  proof (cases "m \<in> N")
    case True
    with f(13) [of m] that obtain p where "p \<in> N" "m \<in> successors ns p" "rpo_index (ns' ! p) < rpo_index (ns' ! m)" by auto
    then show ?thesis using old True by auto
  next
    case False
    with g(13) [of m] that obtain p where "p \<in> N'" "m \<in> successors ns' p" "rpo_index (ns'' ! p) < rpo_index (ns'' ! m)" by auto
    then show ?thesis using succ [of p] by auto
  qed
  show ?thesis
    unfolding run_facts_def s s'' prod.case
  proof (intro conjI allI impI ballI)
    show "same_but_rpo ns ns''" by (rule same_but_rpo_trans [OF f(1) g(1)])
    show "length order'' = length order" using f(2) g(2) by simp
    show "i = i'' + card (N \<union> N')" using f(5) g(5) card by simp
    show "rpo_index (ns'' ! m) = rpo_index (ns ! m)" if "m < length ns" "m \<notin> N \<union> N'" for m
      using f(6) [of m] g(6) [of m] that len by simp
    show "order'' ! k = order ! k" if "k < i'' \<or> i \<le> k" for k
      using f(11) [of k] g(11) [of k] f(5) g(5) that by auto
  qed (use N low onto closed reached in blast)+
qed

subsection \<open>The visit\<close>

definition edges_inside :: "CFNode list \<Rightarrow> bool" where
  "edges_inside ns \<longleftrightarrow> (\<forall>m < length ns. successors ns m \<subseteq> {..<length ns})"

lemma edges_inside_same: "same_but_rpo ns ns' \<Longrightarrow> edges_inside ns' = edges_inside ns"
  using same_but_rpoD by (auto simp: edges_inside_def)

lemma set_tails_last [simp]: "set (tails_last es) = set es"
  by (auto simp: tails_last_def)

text \<open>A visitor that does its work on graphs with at most \<open>fuel\<close> unvisited nodes.\<close>

definition visits_well :: "nat \<Rightarrow> (nat \<Rightarrow> rpo_state \<Rightarrow> rpo_state result) \<Rightarrow> bool" where
  "visits_well fuel visit \<longleftrightarrow>
     (\<forall>n i ns order. n \<in> unvisited ns \<and> edges_inside ns \<and> card (unvisited ns) \<le> fuel \<and> card (unvisited ns) \<le> i
        \<and> i \<le> length order \<and> i \<le> SIZE_MAX \<longrightarrow>
        (\<exists>N i' ns' order'. visit n (i, ns, order) = Inr (i', ns', order') \<and> run_facts {n} N (i, ns, order) (i', ns', order')
           \<and> n \<in> N \<and> rpo_index (ns' ! n) = i'))"

lemma run_facts_room:
  assumes "run_facts R N (i, ns, order) (i', ns', order')" "card (unvisited ns) \<le> fuel" "card (unvisited ns) \<le> i"
    "edges_inside ns" "i \<le> length order" "i \<le> SIZE_MAX"
  shows "card (unvisited ns') \<le> fuel" "card (unvisited ns') \<le> i'" "edges_inside ns'" "i' \<le> length order'" "i' \<le> SIZE_MAX"
proof -
  note f = run_factsD [OF assms(1)]
  have "finite N" using f(3) by (rule finite_subset) simp
  then have c: "card (unvisited ns') = card (unvisited ns) - card N" using f(3,4) by (simp add: card_Diff_subset)
  then show "card (unvisited ns') \<le> fuel" using assms(2) by simp
  show "card (unvisited ns') \<le> i'" using c f(5) assms(3) by linarith
  show "edges_inside ns'" using edges_inside_same [OF f(1)] assms(4) by simp
  show "i' \<le> length order'" "i' \<le> SIZE_MAX" using f(2,5) assms(5,6) by simp_all
qed

lemma visit_succs:
  assumes visit: "visits_well fuel visit"
  shows "edges_inside ns \<Longrightarrow> card (unvisited ns) \<le> fuel \<Longrightarrow> card (unvisited ns) \<le> i \<Longrightarrow> i \<le> length order \<Longrightarrow> i \<le> SIZE_MAX \<Longrightarrow>
    edst ` set es \<subseteq> {..<length ns} \<Longrightarrow>
    \<exists>N i' ns' order'. fold_res (post_order_succ visit) es (i, ns, order) = Inr (i', ns', order')
      \<and> run_facts (edst ` set es) N (i, ns, order) (i', ns', order') \<and> edst ` set es \<inter> unvisited ns' = {}"
proof (induction es arbitrary: i ns order)
  case Nil
  then show ?case using run_facts_refl by fastforce
next
  case (Cons e es)
  then have e: "edst e < length ns" by simp
  obtain N i1 ns1 order1 where step: "post_order_succ visit e (i, ns, order) = Inr (i1, ns1, order1)"
    and r: "run_facts {edst e} N (i, ns, order) (i1, ns1, order1)" and seen: "edst e \<notin> unvisited ns1"
  proof (cases "rpo_index (ns ! edst e) = SIZE_MAX")
    case True
    then have "edst e \<in> unvisited ns" using e by (simp add: unvisited_def)
    then obtain N i' ns' order' where v: "visit (edst e) (i, ns, order) = Inr (i', ns', order')"
      "run_facts {edst e} N (i, ns, order) (i', ns', order')" "edst e \<in> N"
      using visit Cons.prems unfolding visits_well_def by blast
    show thesis
      by (rule that [OF _ v(2)]) (use v e True run_factsD(4) [OF v(2)] in \<open>auto simp: post_order_succ_def\<close>)
  next
    case False
    then show thesis
      using that [OF _ run_facts_refl] e by (simp add: post_order_succ_def unvisited_def)
  qed
  note f = run_factsD [OF r] and room = run_facts_room [OF r Cons.prems(2,3,1,4,5)]
  have "edst ` set es \<subseteq> {..<length ns1}" using Cons.prems(6) same_but_rpoD(1) [OF f(1)] by auto
  from Cons.IH [OF room(3,1,2,4,5) this] obtain N' i' ns' order' where
    rest: "fold_res (post_order_succ visit) es (i1, ns1, order1) = Inr (i', ns', order')"
      "run_facts (edst ` set es) N' (i1, ns1, order1) (i', ns', order')" "edst ` set es \<inter> unvisited ns' = {}" by blast
  have "run_facts (edst ` set (e # es)) (N \<union> N') (i, ns, order) (i', ns', order')"
    using run_facts_trans [OF r rest(2)] by simp
  moreover have "edst e \<notin> unvisited ns'" using seen run_factsD(4) [OF rest(2)] by auto
  ultimately show ?case using step rest(1,3) by fastforce
qed

lemma SIZE_MAX_pos: "0 < SIZE_MAX" "SIZE_MAX - 1 \<noteq> SIZE_MAX"
  by (simp_all add: SIZE_MAX_def)

lemma post_order_visit_well: "visits_well fuel (post_order_visit fuel)"
proof (induction fuel)
  case 0
  have "card (unvisited ns) > 0" if "n \<in> unvisited ns" for n ns using that card_gt_0_iff finite_unvisited by blast
  then show ?case by (auto simp: visits_well_def)
next
  case (Suc fuel)
  show ?case
    unfolding visits_well_def
  proof (intro allI impI, elim conjE)
    fix n i ns and order :: "nat option list"
    assume n: "n \<in> unvisited ns" and inside: "edges_inside ns" and c: "card (unvisited ns) \<le> Suc fuel" "card (unvisited ns) \<le> i"
      and order: "i \<le> length order" "i \<le> SIZE_MAX"
    let ?ns = "ns[n := (ns ! n)\<lparr>rpo_index := SIZE_MAX - 1\<rparr>]"
    from n have len: "n < length ns" and max: "rpo_index (ns ! n) = SIZE_MAX" by (auto simp: unvisited_def)
    have same: "same_but_rpo ns ?ns" by (rule same_but_rpo_update [OF len])
    have u: "unvisited ?ns = unvisited ns - {n}" using len SIZE_MAX_pos by (auto simp: unvisited_def nth_list_update)
    then have cu: "card (unvisited ?ns) = card (unvisited ns) - 1" using n by simp
    have pos: "0 < card (unvisited ns)" using n card_gt_0_iff finite_unvisited by blast
    have succ: "edst ` set (tails_last (succ_edges (ns ! n))) \<subseteq> {..<length ?ns}"
      using inside len by (auto simp: edges_inside_def successors_def)
    have inside': "edges_inside ?ns" using inside edges_inside_same [OF same] by simp
    have c': "card (unvisited ?ns) \<le> fuel" "card (unvisited ?ns) \<le> i" using c cu by linarith+
    obtain N i' ns' order' where fold: "fold_res (post_order_succ (post_order_visit fuel)) (tails_last (succ_edges (ns ! n))) (i, ?ns, order)
        = Inr (i', ns', order')"
      and r: "run_facts (edst ` set (tails_last (succ_edges (ns ! n)))) N (i, ?ns, order) (i', ns', order')"
      and seen: "edst ` set (tails_last (succ_edges (ns ! n))) \<inter> unvisited ns' = {}"
      using visit_succs [OF Suc inside' c' order succ] by blast
    note f = run_factsD [OF r]
    have nN: "n \<notin> N" using f(3) u by auto
    have lens: "length ns' = length ns" "length order' = length order" using same_but_rpoD(1) [OF f(1)] f(2) by simp_all
    have fin: "finite N" using f(3) by (rule finite_subset) simp
    then have "card N \<le> card (unvisited ns) - 1" using f(3) cu card_mono by (metis finite_unvisited)
    then have i': "0 < i'" "i' \<le> length order'" using f(5) c(2) pos order(1) lens by linarith+
    define j where "j = i' - 1"
    have j: "i' = Suc j" using i' by (simp add: j_def)
    let ?ns' = "ns'[n := (ns' ! n)\<lparr>rpo_index := j\<rparr>]" and ?order' = "order'[j := Some n]"
    have same': "same_but_rpo ns ?ns'"
      using same_but_rpo_trans [OF same_but_rpo_trans [OF same f(1)] same_but_rpo_update] len lens by simp
    have "j \<noteq> SIZE_MAX" using j order(2) f(5) by linarith
    then have "unvisited ?ns' = unvisited ns' - {n}" using len lens by (auto simp: unvisited_def nth_list_update)
    then have u': "unvisited ?ns' = unvisited ns - insert n N" using f(4) u by auto
    have other: "rpo_index (?ns' ! m) = rpo_index (ns' ! m)" if "m \<noteq> n" for m using that by simp
    have sN: "successors ?ns m = successors ns m" for m using len by (cases "m = n") (simp_all add: successors_def)
    have at_n: "rpo_index (?ns' ! n) = j" using len lens by simp
    have "run_facts {n} (insert n N) (i, ns, order) (j, ?ns', ?order')"
      unfolding run_facts_def prod.case
    proof (intro conjI allI impI ballI)
      show "insert n N \<subseteq> unvisited ns" using n f(3) u by auto
      show "i = j + card (insert n N)" using f(5) fin nN j by simp
      show "rpo_index (?ns' ! m) = rpo_index (ns ! m)" if "m < length ns" "m \<notin> insert n N" for m
        using that f(6) [of m] by simp
      show "j \<le> rpo_index (?ns' ! m)" "rpo_index (?ns' ! m) < i" "?order' ! rpo_index (?ns' ! m) = Some m" if "m \<in> insert n N" for m
        using that at_n other f(5) f(7-9) [of m] i' j lens nN by (cases "m = n"; fastforce)+
      show "\<exists>m \<in> insert n N. rpo_index (?ns' ! m) = k" if "j \<le> k \<and> k < i" for k
      proof (cases "k = j")
        case False
        with that have "i' \<le> k" "k < i" using j by linarith+
        from f(10) [OF this] obtain m where m: "m \<in> N" "rpo_index (ns' ! m) = k" by blast
        with nN have "m \<noteq> n" by blast
        then show ?thesis using other [of m] m by (intro bexI [of _ m]) simp_all
      qed (use at_n in auto)
      show "?order' ! k = order ! k" if "k < j \<or> i \<le> k" for k
        using that f(11) [of k] f(5) j by auto
      show "successors ns m \<inter> unvisited ?ns' = {}" if "m \<in> insert n N" for m
        using that f(12) [of m] seen f(4) u u' sN by (cases "m = n") (auto simp: successors_def)
      show "\<exists>p \<in> insert n N. m \<in> successors ns p \<and> rpo_index (?ns' ! p) < rpo_index (?ns' ! m)" if "m \<in> insert n N - {n}" for m
      proof (cases "m \<in> edst ` set (tails_last (succ_edges (ns ! n)))")
        case True
        then have "m \<in> successors ns n" by (simp add: successors_def)
        moreover have "rpo_index (?ns' ! n) < rpo_index (?ns' ! m)" using at_n other [of m] that f(7) [of m] j by auto
        ultimately show ?thesis by blast
      next
        case False
        with that f(13) [of m] obtain p where "p \<in> N" "m \<in> successors ?ns p" "rpo_index (ns' ! p) < rpo_index (ns' ! m)" by auto
        then show ?thesis using other nN sN that by (metis insertCI insertE singletonD DiffD1 DiffD2)
      qed
    qed (use same' u' lens in simp_all)
    moreover have "post_order_visit (Suc fuel) n (i, ns, order) = Inr (j, ?ns', ?order')"
      using len fold i' j by simp
    ultimately show "\<exists>N i' ns' order'. post_order_visit (Suc fuel) n (i, ns, order) = Inr (i', ns', order')
        \<and> run_facts {n} N (i, ns, order) (i', ns', order') \<and> n \<in> N \<and> rpo_index (ns' ! n) = i'"
      using at_n by blast
  qed
qed

subsection \<open>The whole numbering\<close>

text \<open>The nodes that paths from a node lead to.\<close>

inductive reaches :: "CFNode list \<Rightarrow> nat \<Rightarrow> nat \<Rightarrow> bool" for ns n where
  here: "reaches ns n n"
| further: "reaches ns n m \<Longrightarrow> k \<in> successors ns m \<Longrightarrow> reaches ns n k"

lemma reaches_trans: "reaches ns m k \<Longrightarrow> reaches ns n m \<Longrightarrow> reaches ns n k"
  by (induction rule: reaches.induct) (auto intro: reaches.intros)

definition unnumbered :: "CFG \<Rightarrow> bool" where
  "unnumbered cfg \<longleftrightarrow> centry cfg < length (cnodes cfg) \<and> csize cfg = length (cnodes cfg) \<and> csize cfg \<le> SIZE_MAX
     \<and> edges_inside (cnodes cfg) \<and> (\<forall>n \<in> set (cnodes cfg). rpo_index n = SIZE_MAX)"

definition numbering :: "CFG \<Rightarrow> CFG \<Rightarrow> bool" where
  "numbering cfg cfg' \<longleftrightarrow>
     same_but_rpo (cnodes cfg) (cnodes cfg') \<and> cfg' = cfg\<lparr>cnodes := cnodes cfg', rpo := rpo cfg'\<rparr>
     \<and> (\<exists>order. rpo cfg' = map Some order \<and> set order = {..<length (cnodes cfg)} \<and> length order = length (cnodes cfg)
          \<and> (\<forall>k < length order. rpo_index (cnodes cfg' ! (order ! k)) = k))
     \<and> rpo_index (cnodes cfg' ! centry cfg) = 0
     \<and> (\<forall>n < length (cnodes cfg). n \<noteq> centry cfg \<longrightarrow>
          (\<exists>p < length (cnodes cfg). n \<in> successors (cnodes cfg) p \<and> rpo_index (cnodes cfg' ! p) < rpo_index (cnodes cfg' ! n)))"

lemma compute_rpo_spec:
  assumes ok: "unnumbered cfg"
  shows "if \<forall>n < length (cnodes cfg). reaches (cnodes cfg) (centry cfg) n
    then \<exists>cfg'. shd_cfg_compute_rpo cfg = Inr cfg' \<and> numbering cfg cfg'
    else shd_cfg_compute_rpo cfg = Inl AssertFailed"
proof -
  let ?ns = "cnodes cfg" and ?e = "centry cfg"
  from ok have e: "?e < length ?ns" "csize cfg = length ?ns" "csize cfg \<le> SIZE_MAX" "edges_inside ?ns"
    and all: "unvisited ?ns = {..<length ?ns}"
    by (auto simp: unnumbered_def unvisited_def)
  obtain N i' ns' order' where v: "post_order_visit (length ?ns + 1) ?e (csize cfg, ?ns, replicate (csize cfg) None) = Inr (i', ns', order')"
    and r: "run_facts {?e} N (csize cfg, ?ns, replicate (csize cfg) None) (i', ns', order')" "?e \<in> N" "rpo_index (ns' ! ?e) = i'"
    using post_order_visit_well [of "length ?ns + 1"] e all card_unvisited [of ?ns] unfolding visits_well_def
    by (metis (no_types, lifting) card_lessThan le_add1 le_refl length_replicate lessThan_iff)
  note f = run_factsD [OF r(1)]
  have N: "N \<subseteq> {..<length ?ns}" "unvisited ns' = {..<length ?ns} - N" using f(3,4) all by auto
  then have fin: "finite N" using finite_subset by blast
  have into: "m \<in> N" if "reaches ?ns ?e m" for m
    using that
  proof (induction rule: reaches.induct)
    case here
    show ?case by (rule r)
  next
    case (further m k)
    then have "k < length ?ns" "k \<notin> unvisited ns'" using N e(4) f(12) [of m] by (auto simp: edges_inside_def)
    then show ?case using N by auto
  qed
  have onto: "reaches ?ns ?e m" if "m \<in> N" for m
    using that
  proof (induction "rpo_index (ns' ! m)" arbitrary: m rule: less_induct)
    case less
    then show ?case using f(13) [of m] by (cases "m = ?e") (auto intro: reaches.intros)
  qed
  show ?thesis
  proof (cases "\<forall>n < length ?ns. reaches ?ns ?e n")
    case True
    with into N have NV: "N = {..<length ?ns}" by auto
    then have i': "i' = 0" using f(5) e(2) by simp
    have len: "length order' = length ?ns" using f(2) e(2) by simp
    define order where "order = map the order'"
    have nth: "order ! k < length ?ns \<and> order' ! k = Some (order ! k) \<and> rpo_index (ns' ! (order ! k)) = k" if "k < length ?ns" for k
    proof -
      from f(10) [of k] i' e(2) that obtain m where m: "m \<in> N" "rpo_index (ns' ! m) = k" by auto
      then have "order' ! k = Some m" using f(9) by blast
      then show ?thesis using m NV len that by (simp add: order_def)
    qed
    then have "order' = map Some order" using len by (intro nth_equalityI) (simp_all add: order_def)
    moreover have "set order = {..<length ?ns}"
    proof
      show "set order \<subseteq> {..<length ?ns}" using nth len by (auto simp: in_set_conv_nth order_def)
      show "{..<length ?ns} \<subseteq> set order"
      proof
        fix m assume m: "m \<in> {..<length ?ns}"
        then have k: "rpo_index (ns' ! m) < length ?ns" "order' ! rpo_index (ns' ! m) = Some m" using f(8,9) [of m] NV e(2) by auto
        then have "order ! rpo_index (ns' ! m) = m" using nth by auto
        then show "m \<in> set order" using k(1) len by (metis nth_mem order_def length_map)
      qed
    qed
    moreover have "\<exists>p < length ?ns. n \<in> successors ?ns p \<and> rpo_index (ns' ! p) < rpo_index (ns' ! n)"
      if "n < length ?ns" "n \<noteq> ?e" for n
      using f(13) [of n] that NV by auto
    moreover have "length order = length ?ns" using len by (simp add: order_def)
    ultimately have "numbering cfg (cfg\<lparr>cnodes := ns', rpo := order'\<rparr>)"
      using f(1) nth r(3) i' by (simp add: numbering_def)
    then show ?thesis using True v i' by (simp add: shd_cfg_compute_rpo_def del: post_order_visit.simps)
  next
    case False
    with onto have "N \<subset> {..<length ?ns}" using N(1) by auto
    then have "card N < length ?ns" using psubset_card_mono [of "{..<length ?ns}" N] by simp
    then have "i' \<noteq> 0" using f(5) e(2) by simp
    then have "shd_cfg_compute_rpo cfg = Inl AssertFailed"
      using v by (simp add: shd_cfg_compute_rpo_def require_def del: post_order_visit.simps)
    then show ?thesis using False by simp
  qed
qed

subsection \<open>Both lists of edges\<close>

text \<open>An edge is listed at both its ends.\<close>

definition linked :: "CFNode list \<Rightarrow> bool" where
  "linked ns \<longleftrightarrow>
     (\<forall>m < length ns. \<forall>x \<in> set (succ_edges (ns ! m)). esrc x = m \<and> edst x < length ns \<and> x \<in> set (pred_edges (ns ! edst x)))
     \<and> (\<forall>n < length ns. \<forall>x \<in> set (pred_edges (ns ! n)). edst x = n \<and> esrc x < length ns \<and> x \<in> set (succ_edges (ns ! esrc x)))"

lemma linked_inside: "linked ns \<Longrightarrow> edges_inside ns"
  by (auto simp: linked_def edges_inside_def successors_def)

definition fresh_node :: "CFNode \<Rightarrow> bool" where
  "fresh_node n \<longleftrightarrow> rpo_index n = SIZE_MAX \<and> idom n = None \<and> structured_idom n = None"

lemma numbering_nodes:
  assumes l: "linked (cnodes cfg)" and e: "centry cfg < length (cnodes cfg)" and fresh: "\<forall>n \<in> set (cnodes cfg). fresh_node n"
    and n: "numbering cfg cfg'"
  shows "numbered_nodes (centry cfg') (cnodes cfg')"
proof -
  let ?ns = "cnodes cfg" and ?ns' = "cnodes cfg'"
  have same: "same_but_rpo ?ns ?ns'" and upd: "cfg' = cfg\<lparr>cnodes := ?ns', rpo := rpo cfg'\<rparr>"
    using n unfolding numbering_def by blast+
  from upd have eq: "centry cfg' = centry cfg" by (metis CFG.ext_inject CFG.surjective CFG.update_convs(7,6))
  note s = same_but_rpoD [OF same]
  obtain order where o: "set order = {..<length ?ns}" "length order = length ?ns" "\<forall>k < length order. rpo_index (?ns' ! (order ! k)) = k"
    using n unfolding numbering_def by blast
  have inj: "inj_on (\<lambda>n. rpo_index (?ns' ! n)) {..<length ?ns'}"
  proof (rule inj_onI)
    fix a b assume "a \<in> {..<length ?ns'}" "b \<in> {..<length ?ns'}" and ab: "rpo_index (?ns' ! a) = rpo_index (?ns' ! b)"
    then have "a \<in> set order" "b \<in> set order" using o s(1) by auto
    then obtain i j where "i < length order" "j < length order" "a = order ! i" "b = order ! j" by (auto simp: in_set_conv_nth)
    with o ab show "a = b" by auto
  qed
  have "\<exists>x \<in> set (pred_edges (?ns' ! m)). rpo_index (?ns' ! esrc x) < rpo_index (?ns' ! m)" if m: "m < length ?ns'" "m \<noteq> centry cfg" for m
  proof -
    obtain p where p: "p < length ?ns" "m \<in> successors ?ns p" "rpo_index (?ns' ! p) < rpo_index (?ns' ! m)"
      using n m s(1) unfolding numbering_def by (metis (no_types))
    then obtain x where "x \<in> set (succ_edges (?ns ! p))" "edst x = m" by (auto simp: successors_def)
    then have "x \<in> set (pred_edges (?ns ! m))" "esrc x = p" using l p(1) by (auto simp: linked_def)
    then show ?thesis using p s(3) [of m] m s(1) by auto
  qed
  moreover have "esrc x < length ?ns'" if "m < length ?ns'" "x \<in> set (pred_edges (?ns' ! m))" for m x
    using that l s(1,3) by (auto simp: linked_def)
  moreover have "idom (?ns' ! m) = None" "structured_idom (?ns' ! m) = None" if "m < length ?ns'" for m
    using that fresh s(1,6,7) by (auto simp: fresh_node_def)
  moreover have "centry cfg < length ?ns'" using e s(1) by simp
  ultimately show ?thesis using inj unfolding numbered_nodes_def eq by blast
qed

end
