(* ===== verification/IrCfgBuild.thy ===== *)
theory IrCfgBuild
  imports IrCfgRpo
begin

text \<open>
  The construction of a control flow graph: \<^verbatim>\<open>get_or_enqueue\<close> enters every abstraction once, lists every edge at
  both its ends, reaches every node it enters from the entry, and ends. From this, what \<^verbatim>\<open>shd_new_cfg\<close> returns.
\<close>

subsection \<open>Growing node lists\<close>

text \<open>Nodes are only appended, successors only added.\<close>

definition extends :: "CFNode list \<Rightarrow> CFNode list \<Rightarrow> bool" where
  "extends ns ns' \<longleftrightarrow> length ns \<le> length ns'
     \<and> (\<forall>m < length ns. successors ns m \<subseteq> successors ns' m \<and> cnode (ns' ! m) = cnode (ns ! m))"

lemma extendsD:
  assumes "extends ns ns'"
  shows "length ns \<le> length ns'" "m < length ns \<Longrightarrow> k \<in> successors ns m \<Longrightarrow> k \<in> successors ns' m"
    "m < length ns \<Longrightarrow> cnode (ns' ! m) = cnode (ns ! m)"
  using assms unfolding extends_def by blast+

lemma extends_refl [simp]: "extends ns ns"
  by (simp add: extends_def)

lemma extends_trans: "extends ns ns' \<Longrightarrow> extends ns' ns'' \<Longrightarrow> extends ns ns''"
  by (auto simp: extends_def) (meson less_le_trans subsetD)

lemma extends_append: "extends ns (ns @ xs)"
  by (auto simp: extends_def successors_def nth_append)

lemma reaches_inside: "reaches ns n m \<Longrightarrow> edges_inside ns \<Longrightarrow> n < length ns \<Longrightarrow> m < length ns"
  by (induction rule: reaches.induct) (auto simp: edges_inside_def)

lemma reaches_extends:
  assumes "reaches ns n m" "edges_inside ns" "n < length ns" "extends ns ns'"
  shows "reaches ns' n m"
  using assms(1)
proof (induction rule: reaches.induct)
  case (further m k)
  have "m < length ns" using reaches_inside [OF further.hyps(1) assms(2,3)] .
  then have "k \<in> successors ns' m" using extendsD(2) [OF assms(4)] further.hyps(2) by blast
  with further.IH show ?case by (rule reaches.further)
qed (rule reaches.here)

text \<open>Adding an edge.\<close>

definition new_node :: "CFNode \<Rightarrow> bool" where
  "new_node n \<longleftrightarrow> fresh_node n \<and> \<not> reachable n"

lemma linkedD:
  assumes "linked ns" "m < length ns"
  shows "x \<in> set (succ_edges (ns ! m)) \<Longrightarrow> esrc x = m" "x \<in> set (succ_edges (ns ! m)) \<Longrightarrow> edst x < length ns"
    "x \<in> set (succ_edges (ns ! m)) \<Longrightarrow> x \<in> set (pred_edges (ns ! edst x))"
    "x \<in> set (pred_edges (ns ! m)) \<Longrightarrow> edst x = m" "x \<in> set (pred_edges (ns ! m)) \<Longrightarrow> esrc x < length ns"
    "x \<in> set (pred_edges (ns ! m)) \<Longrightarrow> x \<in> set (succ_edges (ns ! esrc x))"
  using assms unfolding linked_def by blast+

lemma link_edge_simps [simp]:
  assumes "esrc e < length ns" "edst e < length ns"
  shows "length (link_edge e ns) = length ns"
    "m < length ns \<Longrightarrow> succ_edges (link_edge e ns ! m) = (if m = esrc e then succ_edges (ns ! m) @ [e] else succ_edges (ns ! m))"
    "m < length ns \<Longrightarrow> pred_edges (link_edge e ns ! m) = (if m = edst e then pred_edges (ns ! m) @ [e] else pred_edges (ns ! m))"
    "m < length ns \<Longrightarrow> cnode (link_edge e ns ! m) = cnode (ns ! m)"
    "m < length ns \<Longrightarrow> new_node (link_edge e ns ! m) = new_node (ns ! m)"
  using assms by (auto simp: link_edge_def nth_list_update new_node_def fresh_node_def)

lemma linked_link_edge: "linked ns \<Longrightarrow> esrc e < length ns \<Longrightarrow> edst e < length ns \<Longrightarrow> linked (link_edge e ns)"
proof -
  assume l: "linked ns" and e: "esrc e < length ns" "edst e < length ns"
  show "linked (link_edge e ns)"
    unfolding linked_def
  proof (intro conjI allI impI ballI; (simp only: link_edge_simps [OF e])?)
    fix m x assume m: "m < length ns"
    show "esrc x = m" "edst x < length ns" "x \<in> set (pred_edges (link_edge e ns ! edst x))"
      if "x \<in> set (if m = esrc e then succ_edges (ns ! m) @ [e] else succ_edges (ns ! m))"
      using linkedD(1-3) [OF l m, of x] that e by (auto split: if_splits)
    show "edst x = m" "esrc x < length ns" "x \<in> set (succ_edges (link_edge e ns ! esrc x))"
      if "x \<in> set (if m = edst e then pred_edges (ns ! m) @ [e] else pred_edges (ns ! m))"
      using linkedD(4-6) [OF l m, of x] that e by (auto split: if_splits)
  qed
qed

lemma linked_append: "linked ns \<Longrightarrow> linked (ns @ [new_cfnode absn])"
  unfolding linked_def by (auto simp: nth_append new_cfnode_def less_Suc_eq)

lemma extends_link_edge: "esrc e < length ns \<Longrightarrow> edst e < length ns \<Longrightarrow> extends ns (link_edge e ns)"
  by (auto simp: extends_def successors_def)

subsection \<open>The state of the construction\<close>

definition tails_wanted :: "CFGBuildConfig \<Rightarrow> CFNode list \<Rightarrow> bool" where
  "tails_wanted c ns \<longleftrightarrow> (\<forall>n < length ns. \<forall>x \<in> set (pred_edges (ns ! n)). etype x = StructuredTailEdge \<longrightarrow> include_structured_tails c)"

definition built :: "CFGBuildConfig \<Rightarrow> build_state \<Rightarrow> bool" where
  "built c s \<longleftrightarrow> linked (bnodes s) \<and> (\<forall>n < length (bnodes s). new_node (bnodes s ! n)) \<and> tails_wanted c (bnodes s)
     \<and> (\<forall>absn n. map_of (bmap s) absn = Some n \<longleftrightarrow> n < length (bnodes s) \<and> cnode (bnodes s ! n) = Some absn)
     \<and> (\<forall>n < length (bnodes s). cnode (bnodes s ! n) \<noteq> None)"

lemma builtD:
  assumes "built c s"
  shows "linked (bnodes s)" "n < length (bnodes s) \<Longrightarrow> new_node (bnodes s ! n)" "tails_wanted c (bnodes s)"
    "map_of (bmap s) absn = Some n \<longleftrightarrow> n < length (bnodes s) \<and> cnode (bnodes s ! n) = Some absn"
    "n < length (bnodes s) \<Longrightarrow> cnode (bnodes s ! n) \<noteq> None"
  using assms unfolding built_def by blast+

text \<open>Between two states nodes, map and contents grow; the contents by the new nodes.\<close>

definition grows :: "build_state \<Rightarrow> build_state \<Rightarrow> bool" where
  "grows s s' \<longleftrightarrow> extends (bnodes s) (bnodes s') \<and> dom (map_of (bmap s)) \<subseteq> dom (map_of (bmap s'))
     \<and> (\<exists>xs. bcontents s' = bcontents s @ xs \<and> distinct xs \<and> set xs = {length (bnodes s)..<length (bnodes s')})"

lemma growsD:
  assumes "grows s s'"
  shows "extends (bnodes s) (bnodes s')" "length (bnodes s) \<le> length (bnodes s')" "dom (map_of (bmap s)) \<subseteq> dom (map_of (bmap s'))"
  using assms by (auto simp: grows_def extends_def)

lemma grows_refl [simp]: "grows s s"
  by (auto simp: grows_def)

lemma grows_trans:
  assumes "grows s s'" "grows s' s''"
  shows "grows s s''"
proof -
  from assms obtain xs ys where "bcontents s' = bcontents s @ xs" "distinct xs" "set xs = {length (bnodes s)..<length (bnodes s')}"
    "bcontents s'' = bcontents s' @ ys" "distinct ys" "set ys = {length (bnodes s')..<length (bnodes s'')}"
    by (auto simp: grows_def)
  moreover have "length (bnodes s) \<le> length (bnodes s')" "length (bnodes s') \<le> length (bnodes s'')" using assms by (auto dest: growsD)
  ultimately have "bcontents s'' = bcontents s @ xs @ ys \<and> distinct (xs @ ys) \<and> set (xs @ ys) = {length (bnodes s)..<length (bnodes s'')}"
    by auto
  then show ?thesis using assms extends_trans unfolding grows_def by blast
qed

text \<open>All new nodes are reached from one of them.\<close>

definition new_reached :: "nat \<Rightarrow> build_state \<Rightarrow> build_state \<Rightarrow> bool" where
  "new_reached n s s' \<longleftrightarrow> (\<forall>m \<in> {length (bnodes s)..<length (bnodes s')}. reaches (bnodes s') n m)"

text \<open>The abstractions that can still be entered.\<close>

definition remaining :: "arena \<Rightarrow> decl_id \<Rightarrow> build_state \<Rightarrow> nat" where
  "remaining a f s = card (insert (AbsFn f) (AbsBlock ` fst ` set (blocks a)) - dom (map_of (bmap s)))"

text \<open>Every new node takes one of them.\<close>

definition counts :: "arena \<Rightarrow> decl_id \<Rightarrow> build_state \<Rightarrow> build_state \<Rightarrow> bool" where
  "counts a f s s' \<longleftrightarrow> length (bnodes s') + remaining a f s' \<le> length (bnodes s) + remaining a f s"

lemma counts_refl [simp]: "counts a f s s"
  by (simp add: counts_def)

lemma counts_trans: "counts a f s s' \<Longrightarrow> counts a f s' s'' \<Longrightarrow> counts a f s s''"
  by (simp add: counts_def)

lemma remaining_le: "remaining a f s \<le> length (blocks a) + 1"
proof -
  let ?A = "insert (AbsFn f) (AbsBlock ` fst ` set (blocks a))"
  have "card ?A \<le> Suc (card (AbsBlock ` fst ` set (blocks a)))" by (simp add: card_insert_if)
  also have "\<dots> \<le> Suc (length (blocks a))"
    using card_image_le [of "fst ` set (blocks a)" AbsBlock] card_image_le [of "set (blocks a)" fst] card_length [of "blocks a"]
    by simp
  finally have "card ?A \<le> length (blocks a) + 1" by simp
  then show ?thesis using card_mono [of ?A "?A - dom (map_of (bmap s))"] by (simp add: remaining_def)
qed

lemma remaining_mono: "dom (map_of (bmap s)) \<subseteq> dom (map_of (bmap s')) \<Longrightarrow> remaining a f s' \<le> remaining a f s"
  unfolding remaining_def by (intro card_mono) auto

lemma remaining_enter:
  assumes "map_of (bmap s) absn = None" "absn \<in> insert (AbsFn f) (AbsBlock ` fst ` set (blocks a))"
  shows "remaining a f (s\<lparr>bnodes := ns, bmap := (absn, n) # bmap s\<rparr>) < remaining a f s"
  unfolding remaining_def by (rule psubset_card_mono) (use assms in \<open>auto simp: domIff\<close>)

subsection \<open>The edges of a terminator\<close>

text \<open>The contexts of the edges share function and configuration; structured tails are only there when they are asked for.\<close>

definition requests_ok :: "CfgBuildContext \<Rightarrow> edge_request list \<Rightarrow> bool" where
  "requests_ok ctx es \<longleftrightarrow> (\<forall>r \<in> set es. cfg_function (rcontext r) = cfg_function ctx \<and> cfg_config (rcontext r) = cfg_config ctx
     \<and> (rtype r = StructuredTailEdge \<longrightarrow> include_structured_tails (cfg_config ctx)))"

lemma requests_ok_simps [simp]:
  "requests_ok ctx []"
  "requests_ok ctx (r # es) \<longleftrightarrow> cfg_function (rcontext r) = cfg_function ctx \<and> cfg_config (rcontext r) = cfg_config ctx
     \<and> (rtype r = StructuredTailEdge \<longrightarrow> include_structured_tails (cfg_config ctx)) \<and> requests_ok ctx es"
  "requests_ok ctx (es @ es') \<longleftrightarrow> requests_ok ctx es \<and> requests_ok ctx es'"
  "requests_ok ctx (map f xs) \<longleftrightarrow> (\<forall>x \<in> set xs. requests_ok ctx [f x])"
  by (auto simp: requests_ok_def)

lemma jump_edge_facts:
  "terminates (jump_edge ctx j)"
  "jump_edge ctx j = Inr r \<Longrightarrow> rcontext r = ctx \<and> rtype r = JumpEdge"
  by (auto simp: jump_edge_def split: payload.splits)

lemma jump_edges_facts: "map_res (jump_edge ctx) js = Inr es \<Longrightarrow> requests_ok ctx es"
  by (induction js arbitrary: es) (auto elim!: bind_res_InrE dest!: jump_edge_facts(2))

lemma tail_edges_ok [simp]: "cfg_config ctx' = cfg_config ctx \<Longrightarrow> cfg_function ctx' = cfg_function ctx \<Longrightarrow> requests_ok ctx (tail_edges ctx' tail t)"
  by (simp add: tail_edges_def structural_dominance_edge_def structural_edge_def)

lemma exit_edge_facts:
  "terminates (exit_edge ctx dst t term)"
  "exit_edge ctx dst t term = Inr es \<Longrightarrow> t \<noteq> StructuredTailEdge \<Longrightarrow> requests_ok ctx es"
  by (auto simp: exit_edge_def structural_edge_def)

lemma get_block_terminates [simp]: "terminates (get_block a b)"
  by (simp add: get_block_def split: option.split)

lemma get_decl_terminates [simp]: "terminates (get_decl a d)"
  by (simp add: get_decl_def split: option.split)

lemma shd_first_terminates [simp]: "terminates (shd_first xs)"
  by (cases xs) simp_all

lemmas edge_defs = structural_dominance_edge_def structural_edge_def

lemma terminator_edges_terminates: "terminates (terminator_edges a ctx joins term)"
  unfolding terminator_edges_def Let_def
  by (cases "pl term") (auto intro!: terminates_map_res terminates_bind jump_edge_facts(1) exit_edge_facts(1))

lemma terminator_edges_ok: "terminator_edges a ctx joins term = Inr (es, joins') \<Longrightarrow> requests_ok ctx es"
  unfolding terminator_edges_def Let_def
  by (cases "pl term")
    (auto elim!: bind_res_InrE dest!: jump_edge_facts(2) jump_edges_facts exit_edge_facts(2)
      simp: edge_defs split: option.splits bool.splits)

subsection \<open>Loop trees\<close>

text \<open>In a loop tree the parents come before their children.\<close>

definition tree_rises :: "CFGBuildConfig \<Rightarrow> bool" where
  "tree_rises c = (case lt c of None \<Rightarrow> True | Some t \<Rightarrow> list_all (\<lambda>(i, n). case lparent n of None \<Rightarrow> True | Some p \<Rightarrow> p < i) (enumerate 0 (lnodes t)))"

lemma tree_risesD: "tree_rises c \<Longrightarrow> lt c = Some t \<Longrightarrow> i < length (lnodes t) \<Longrightarrow> lparent (lnodes t ! i) = Some p \<Longrightarrow> p < i"
  by (auto simp: tree_rises_def list_all_length nth_enumerate_eq)

lemma at_terminates [simp]: "terminates (at xs i)"
  by (simp add: at_def)

lemma in_loop_from_terminates:
  assumes "tree_rises c" "lt c = Some t"
  shows "(case q of None \<Rightarrow> True | Some p \<Rightarrow> p < fuel) \<Longrightarrow> terminates (in_loop_from fuel t fn loopentry q)"
proof (induction fuel arbitrary: q)
  case (Suc fuel)
  show ?case
  proof (cases q)
    case (Some p)
    have "terminates (in_loop_from fuel t fn loopentry (lparent (lnodes t ! p)))" if "p < length (lnodes t)"
    proof (rule Suc.IH)
      show "case lparent (lnodes t ! p) of None \<Rightarrow> True | Some p \<Rightarrow> p < fuel"
        using tree_risesD [OF assms that] Suc.prems Some by (force split: option.split)
    qed
    then show ?thesis using Some by (auto split: list.split intro!: terminates_bind)
  qed simp
qed (simp split: option.splits)

lemma in_loop_terminates:
  assumes "tree_rises c" "lt c = Some t"
  shows "terminates (in_loop t fn loopentry block)"
proof -
  have "terminates (in_loop_from (length (lnodes t)) t fn loopentry (lparent (lnodes t ! n)))" if "n < length (lnodes t)" for n
    by (rule in_loop_from_terminates [OF assms]) (use tree_risesD [OF assms that] that in \<open>force split: option.split\<close>)
  then show ?thesis by (auto simp: in_loop_def shd_loop_tree_lookup_def split: option.split intro!: terminates_bind)
qed

lemma edge_wanted_terminates: "tree_rises (cfg_config (rcontext r)) \<Longrightarrow> terminates (edge_wanted r)"
  by (auto simp: edge_wanted_def Let_def split: option.split intro!: terminates_bind in_loop_terminates)

subsection \<open>Entering nodes\<close>

text \<open>
  What \<^verbatim>\<open>get_or_enqueue\<close> does on a state that is \<open>built\<close>: it answers the node of the abstraction, from which all new nodes
  are reached, and it ends when less than \<open>k\<close> abstractions remain.
\<close>

definition enqueues :: "nat \<Rightarrow> arena \<Rightarrow> CFGBuildConfig \<Rightarrow> decl_id \<Rightarrow> enqueue \<Rightarrow> bool" where
  "enqueues k a c f en \<longleftrightarrow> (\<forall>ctx s absn. cfg_function ctx = f \<and> cfg_config ctx = c \<and> built c s \<longrightarrow>
     (remaining a f s < k \<longrightarrow> terminates (en ctx s absn))
     \<and> (\<forall>n s'. en ctx s absn = Inr (n, s') \<longrightarrow>
          built c s' \<and> grows s s' \<and> map_of (bmap s') absn = Some n \<and> new_reached n s s' \<and> counts a f s s'
          \<and> (map_of (bmap s) absn \<noteq> None \<longrightarrow> s' = s)))"

lemma enqueuesD:
  assumes "enqueues k a c f en" "cfg_function ctx = f" "cfg_config ctx = c" "built c s"
  shows "remaining a f s < k \<Longrightarrow> terminates (en ctx s absn)"
    "en ctx s absn = Inr (n, s') \<Longrightarrow> built c s'" "en ctx s absn = Inr (n, s') \<Longrightarrow> grows s s'"
    "en ctx s absn = Inr (n, s') \<Longrightarrow> map_of (bmap s') absn = Some n" "en ctx s absn = Inr (n, s') \<Longrightarrow> new_reached n s s'"
    "en ctx s absn = Inr (n, s') \<Longrightarrow> map_of (bmap s) absn \<noteq> None \<Longrightarrow> s' = s"
    "en ctx s absn = Inr (n, s') \<Longrightarrow> counts a f s s'"
  using assms unfolding enqueues_def by blast+

lemma new_reached_trans:
  assumes "new_reached n s s'" "new_reached d s' s''" "reaches (bnodes s'') n d" "extends (bnodes s') (bnodes s'')"
    "linked (bnodes s')" "n < length (bnodes s')"
  shows "new_reached n s s''"
  unfolding new_reached_def
proof
  fix m assume m: "m \<in> {length (bnodes s)..<length (bnodes s'')}"
  show "reaches (bnodes s'') n m"
  proof (cases "m < length (bnodes s')")
    case True
    then show ?thesis using m assms(1) reaches_extends [OF _ linked_inside assms(6,4)] assms(5) by (auto simp: new_reached_def)
  next
    case False
    then have "reaches (bnodes s'') d m" using m assms(2) by (auto simp: new_reached_def)
    then show ?thesis by (rule reaches_trans) (rule assms(3))
  qed
qed

lemma built_link_edge:
  assumes "built c s" "esrc e < length (bnodes s)" "edst e < length (bnodes s)" "etype e = StructuredTailEdge \<longrightarrow> include_structured_tails c"
  shows "built c (s\<lparr>bnodes := link_edge e (bnodes s)\<rparr>)"
  unfolding built_def
proof (intro conjI allI impI)
  let ?s' = "s\<lparr>bnodes := link_edge e (bnodes s)\<rparr>"
  note b = builtD [OF assms(1)] and l = link_edge_simps [OF assms(2,3)]
  show "linked (bnodes ?s')" using linked_link_edge [OF b(1) assms(2,3)] by simp
  show "new_node (bnodes ?s' ! n)" "cnode (bnodes ?s' ! n) \<noteq> None" if "n < length (bnodes ?s')" for n
    using b(2,5) that l by simp_all
  show "tails_wanted c (bnodes ?s')" using b(3) assms(4) l by (auto simp: tails_wanted_def)
  show "map_of (bmap ?s') absn = Some n \<longleftrightarrow> n < length (bnodes ?s') \<and> cnode (bnodes ?s' ! n) = Some absn" for absn n
    using b(4) l by auto
qed

text \<open>What an edge out of \<open>node\<close> adds.\<close>

definition adds :: "arena \<Rightarrow> decl_id \<Rightarrow> CFGBuildConfig \<Rightarrow> nat \<Rightarrow> build_state \<Rightarrow> build_state \<Rightarrow> bool" where
  "adds a f c node s s' \<longleftrightarrow> built c s' \<and> grows s s' \<and> new_reached node s s' \<and> counts a f s s'"

lemma adds_refl: "built c s \<Longrightarrow> adds a f c node s s"
  by (simp add: adds_def new_reached_def)

lemma map_of_grows: "built c s \<Longrightarrow> built c s' \<Longrightarrow> extends (bnodes s) (bnodes s') \<Longrightarrow> map_of (bmap s) absn = Some n \<Longrightarrow> map_of (bmap s') absn = Some n"
  using extendsD(1,3) [of "bnodes s" "bnodes s'"] by (simp add: builtD(4))

lemma adds_trans:
  assumes "adds a f c node s s'" "adds a f c node s' s''" "map_of (bmap s') absn = Some node"
  shows "adds a f c node s s''"
proof -
  have "built c s'" "extends (bnodes s') (bnodes s'')" "node < length (bnodes s')"
    using assms builtD(4) [of c s'] growsD(1) by (auto simp: adds_def)
  then have "new_reached node s s''"
    using assms new_reached_trans [of node s s' node s''] builtD(1) [of c s'] by (auto simp: adds_def intro: reaches.here)
  then show ?thesis using assms by (auto simp: adds_def intro: grows_trans counts_trans)
qed

lemma add_edge_adds:
  assumes en: "enqueues k a c f en" and r: "cfg_function (rcontext r) = f" "cfg_config (rcontext r) = c"
    "rtype r = StructuredTailEdge \<longrightarrow> include_structured_tails c"
    and s: "built c s" "map_of (bmap s) src = Some node"
  shows "tree_rises c \<Longrightarrow> remaining a f s < k \<Longrightarrow> terminates (add_edge en src r s)"
    "add_edge en src r s = Inr s' \<Longrightarrow> adds a f c node s s'"
proof -
  note e = enqueuesD [OF en r(1,2)]
  have src: "s1 = s \<and> n = node" if "en (rcontext r) s src = Inr (n, s1)" for n s1
    using e(4,6) [OF s(1) that] s(2) by simp
  show "terminates (add_edge en src r s)" if "tree_rises c" "remaining a f s < k"
  proof -
    have "terminates (edge_wanted r)" using edge_wanted_terminates that(1) r(2) by simp
    moreover have "terminates (en (rcontext r) s absn)" for absn by (rule e(1) [OF s(1) that(2)])
    ultimately show ?thesis using src by (auto simp: add_edge_def intro!: terminates_bind split: prod.split)
  qed
  assume added: "add_edge en src r s = Inr s'"
  then obtain w where w: "edge_wanted r = Inr w" by (auto simp: add_edge_def elim: bind_res_InrE)
  have "s' = s \<or> (\<exists>d s2 x. en (rcontext r) s (AbsBlock (rdst r)) = Inr (d, s2)
      \<and> s' = s2\<lparr>bnodes := link_edge x (bnodes s2)\<rparr> \<and> etype x = rtype r \<and> esrc x = node \<and> edst x = d)"
  proof (cases w)
    case True
    with added w obtain d s2 n s1 where "en (rcontext r) s src = Inr (n, s1)" "en (rcontext r) s1 (AbsBlock (rdst r)) = Inr (d, s2)"
      and s': "s' = s2\<lparr>bnodes := link_edge \<lparr>etype = rtype r, esrc = n, edst = d, ejump = (case pl (rterm r) of Jump _ _ _ \<Rightarrow> Some (rterm r) | _ \<Rightarrow> None),
                        eterminator = Some (rterm r)\<rparr> (bnodes s2)\<rparr>"
      by (force simp: add_edge_def elim!: bind_res_InrE)
    moreover from this src have "s1 = s" "n = node" by blast+
    ultimately show ?thesis by (metis CFEdge.select_convs(1-3))
  qed (use added w in \<open>simp add: add_edge_def\<close>)
  then consider "s' = s" | d s2 where "en (rcontext r) s (AbsBlock (rdst r)) = Inr (d, s2)"
      "\<exists>x. s' = s2\<lparr>bnodes := link_edge x (bnodes s2)\<rparr> \<and> etype x = rtype r \<and> esrc x = node \<and> edst x = d"
    by blast
  then show "adds a f c node s s'"
  proof cases
    case 1
    then show ?thesis using adds_refl s(1) by simp
  next
    case 2
    then obtain x where x: "s' = s2\<lparr>bnodes := link_edge x (bnodes s2)\<rparr>" "etype x = rtype r" "esrc x = node" "edst x = d" by blast
    note e2 = e(2-5) [OF s(1) 2(1)]
    have ext: "extends (bnodes s) (bnodes s2)" using growsD(1) [OF e2(2)] .
    have node: "node < length (bnodes s)" "node < length (bnodes s2)"
      using builtD(4) [OF s(1)] s(2) extendsD(1) [OF ext] by auto
    have d: "d < length (bnodes s2)" using builtD(4) [OF e2(1)] e2(3) by auto
    note l = link_edge_simps [of x "bnodes s2"]
    have b: "built c s'" unfolding x(1) by (rule built_link_edge) (use e2(1) node d x r(3) in auto)
    have ext2: "extends (bnodes s2) (bnodes s')" using extends_link_edge [of x "bnodes s2"] node d x by simp
    have g: "grows s s'" using e2(2) extends_trans [OF ext ext2] l node d x by (auto simp: grows_def)
    have "d \<in> successors (bnodes s') node" using l(2) [of node] node d x by (auto simp: successors_def)
    then have "reaches (bnodes s') node d" by (rule reaches.further [OF reaches.here])
    moreover have "reaches (bnodes s') d m" if "m \<in> {length (bnodes s)..<length (bnodes s2)}" for m
      by (rule reaches_extends [OF _ linked_inside [OF builtD(1) [OF e2(1)]] d ext2]) (use e2(4) that in \<open>simp add: new_reached_def\<close>)
    moreover have "length (bnodes s') = length (bnodes s2)" using l(1) node d x by simp
    ultimately have "new_reached node s s'" unfolding new_reached_def using reaches_trans [of "bnodes s'" d _ node] by simp
    moreover have "counts a f s s'" using e(7) [OF s(1) 2(1)] l(1) node d x by (simp add: counts_def remaining_def)
    ultimately show ?thesis using b g by (simp add: adds_def)
  qed
qed

lemma add_structural_dominance_keeps:
  assumes "built c s" "node < length (bnodes s)"
  shows "built c (add_structural_dominance node r s)" "extends (bnodes s) (bnodes (add_structural_dominance node r s))"
    "grows s (add_structural_dominance node r s)" "bmap (add_structural_dominance node r s) = bmap s"
    "length (bnodes (add_structural_dominance node r s)) = length (bnodes s)"
proof -
  let ?s' = "add_structural_dominance node r s"
  have same: "length (bnodes ?s') = length (bnodes s)" "bmap ?s' = bmap s" "bcontents ?s' = bcontents s"
    and at_m: "succ_edges (bnodes ?s' ! m) = succ_edges (bnodes s ! m)" "pred_edges (bnodes ?s' ! m) = pred_edges (bnodes s ! m)"
      "cnode (bnodes ?s' ! m) = cnode (bnodes s ! m)" "new_node (bnodes ?s' ! m) = new_node (bnodes s ! m)" for m
    using assms(2) by (auto simp: add_structural_dominance_def nth_list_update new_node_def fresh_node_def)
  show "length (bnodes ?s') = length (bnodes s)" "bmap ?s' = bmap s" by (fact same)+
  show ext: "extends (bnodes s) (bnodes ?s')" unfolding extends_def successors_def by (simp add: same at_m)
  then show "grows s ?s'" unfolding grows_def by (simp add: same)
  have "linked (bnodes ?s')" using builtD(1) [OF assms(1)] unfolding linked_def by (simp add: same at_m)
  then show "built c ?s'" using assms(1) unfolding built_def tails_wanted_def by (simp add: same at_m)
qed

lemma add_structural_dominance_adds:
  assumes "built c s" "node < length (bnodes s)"
  shows "adds a f c node s (add_structural_dominance node r s)"
  using add_structural_dominance_keeps [OF assms] by (simp add: adds_def new_reached_def counts_def remaining_def)

abbreviation add_edges :: "enqueue \<Rightarrow> abstraction \<Rightarrow> nat \<Rightarrow> edge_request list \<Rightarrow> build_state \<Rightarrow> build_state result" where
  "add_edges en src node \<equiv>
     fold_res (\<lambda>r s. bind_res (add_edge en src r s) (\<lambda>s. Inr (add_structural_dominance node r s)))"

lemma add_edges_adds:
  assumes en: "enqueues k a c f en" and c: "cfg_function ctx = f" "cfg_config ctx = c" and "requests_ok ctx es"
    and s: "built c s" "map_of (bmap s) src = Some node"
  shows "(tree_rises c \<and> remaining a f s < k \<longrightarrow> terminates (add_edges en src node es s))
     \<and> (\<forall>s'. add_edges en src node es s = Inr s' \<longrightarrow> adds a f c node s s')"
  using assms(4) s
proof (induction es arbitrary: s)
  case (Cons r es)
  have r: "cfg_function (rcontext r) = f" "cfg_config (rcontext r) = c" "rtype r = StructuredTailEdge \<longrightarrow> include_structured_tails c"
    and es: "requests_ok ctx es" using Cons.prems(1) c by (auto simp: requests_ok_def)
  note e = add_edge_adds [OF en r Cons.prems(2,3)]
  { fix s1 assume s1: "add_edge en src r s = Inr s1"
    let ?s2 = "add_structural_dominance node r s1"
    have b: "built c s1" "map_of (bmap s1) src = Some node"
      using e(2) [OF s1] map_of_grows [OF Cons.prems(2)] Cons.prems(3) growsD(1) by (auto simp: adds_def)
    then have n: "node < length (bnodes s1)" using builtD(4) by blast
    have "adds a f c node s ?s2" by (rule adds_trans [OF e(2) [OF s1] add_structural_dominance_adds [OF b(1) n] b(2)])
    moreover have "map_of (bmap ?s2) src = Some node" "built c ?s2" using add_structural_dominance_keeps [OF b(1) n] b(2) by simp_all
    ultimately have "adds a f c node s ?s2" "map_of (bmap ?s2) src = Some node" "built c ?s2" by blast+ }
  note step = this
  note IH = Cons.IH [OF es step(3,2)]
  show ?case
  proof (intro conjI impI allI)
    assume k: "tree_rises c \<and> remaining a f s < k"
    have "remaining a f (add_structural_dominance node r s1) < k" if "add_edge en src r s = Inr s1" for s1
      using step(1) [OF that] remaining_mono growsD(3) k le_less_trans unfolding adds_def by blast
    then have "terminates (add_edges en src node es (add_structural_dominance node r s1))" if "add_edge en src r s = Inr s1" for s1
      using IH [OF that that] k that by blast
    then show "terminates (add_edges en src node (r # es) s)"
      using e(1) k by (auto intro!: terminates_bind elim!: bind_res_InrE)
  next
    fix s' assume "add_edges en src node (r # es) s = Inr s'"
    then obtain s1 where s1: "add_edge en src r s = Inr s1" and rest: "add_edges en src node es (add_structural_dominance node r s1) = Inr s'"
      by (auto elim!: bind_res_InrE)
    then have "adds a f c node (add_structural_dominance node r s1) s'" using IH [OF s1 s1] by blast
    then show "adds a f c node s s'" by (rule adds_trans [OF step(1) [OF s1] _ step(2) [OF s1]])
  qed
qed (simp add: adds_refl)

lemma built_joins [simp]: "built c (s\<lparr>join_point_values := j\<rparr>) = built c s" "remaining a f (s\<lparr>join_point_values := j\<rparr>) = remaining a f s"
  "adds a f c node (s\<lparr>join_point_values := j\<rparr>) s' = adds a f c node s s'"
  by (simp_all add: built_def remaining_def adds_def grows_def new_reached_def counts_def)

lemma process_cf_node_adds:
  assumes en: "enqueues k a c f en" and c: "cfg_function ctx = f" "cfg_config ctx = c" "tree_rises c"
    and s: "built c s" "map_of (bmap s) absn = Some node"
  shows "absn \<in> insert (AbsFn f) (AbsBlock ` fst ` set (blocks a)) \<longrightarrow> remaining a f s < k \<Longrightarrow> absn = AbsFn f \<or> (\<exists>b. absn = AbsBlock b) \<Longrightarrow>
      terminates (process_cf_node a en ctx node absn s)"
    "process_cf_node a en ctx node absn s = Inr s' \<Longrightarrow> adds a f c node s s'"
    "process_cf_node a en ctx node absn s = Inr s' \<Longrightarrow> absn = AbsFn f \<or> (\<exists>b. absn = AbsBlock b) \<Longrightarrow> absn \<in> insert (AbsFn f) (AbsBlock ` fst ` set (blocks a))"
proof -
  have es: "(remaining a f s < k \<longrightarrow> terminates (add_edges en absn node es (s\<lparr>join_point_values := joins\<rparr>)))
      \<and> (\<forall>s'. add_edges en absn node es (s\<lparr>join_point_values := joins\<rparr>) = Inr s' \<longrightarrow> adds a f c node s s')"
    if "terminator_edges a ctx (join_point_values s) term = Inr (es, joins)" for es joins "term"
    using add_edges_adds [OF en c(1,2) terminator_edges_ok [OF that], of "s\<lparr>join_point_values := joins\<rparr>" absn node] s c(3) by simp
  have known: "absn \<in> insert (AbsFn f) (AbsBlock ` fst ` set (blocks a))"
    if body: "get_abstraction_body a absn = Inr body" and absn: "absn = AbsFn f \<or> (\<exists>b. absn = AbsBlock b)" for body
  proof -
    have "\<exists>bb. (b, bb) \<in> set (blocks a)" if "absn = AbsBlock b" for b
      using body that by (auto simp: get_abstraction_body_def get_block_def split: option.splits dest: map_of_SomeD)
    then show ?thesis using absn by (force simp: image_iff)
  qed
  { assume r: "absn \<in> insert (AbsFn f) (AbsBlock ` fst ` set (blocks a)) \<longrightarrow> remaining a f s < k" and absn: "absn = AbsFn f \<or> (\<exists>b. absn = AbsBlock b)"
    have "terminates (get_abstraction_body a absn)"
      by (auto simp: get_abstraction_body_def split: abstraction.split decl.split intro!: terminates_bind)
    moreover have "remaining a f s < k" if "get_abstraction_body a absn = Inr body" for body
      using known [OF that absn] r by blast
    ultimately show "terminates (process_cf_node a en ctx node absn s)"
      using es terminator_edges_terminates unfolding process_cf_node_def
      by (auto intro!: terminates_bind split: option.split) }
  assume done': "process_cf_node a en ctx node absn s = Inr s'"
  then show "absn \<in> insert (AbsFn f) (AbsBlock ` fst ` set (blocks a))" if "absn = AbsFn f \<or> (\<exists>b. absn = AbsBlock b)"
    using known that unfolding process_cf_node_def by (auto elim!: bind_res_InrE)
  from done' show "adds a f c node s s'"
    using es adds_refl [OF s(1)] unfolding process_cf_node_def by (auto elim!: bind_res_InrE split: option.splits)
qed

lemma built_enter:
  assumes s: "built c s" and absn: "map_of (bmap s) absn = None"
  shows "built c (s\<lparr>bnodes := bnodes s @ [new_cfnode (Some absn)], bmap := (absn, length (bnodes s)) # bmap s\<rparr>)"
  unfolding built_def
proof (intro conjI allI impI)
  let ?s' = "s\<lparr>bnodes := bnodes s @ [new_cfnode (Some absn)], bmap := (absn, length (bnodes s)) # bmap s\<rparr>"
  note b = builtD [OF s]
  show "linked (bnodes ?s')" using linked_append [OF b(1)] by simp
  show "new_node (bnodes ?s' ! n)" "cnode (bnodes ?s' ! n) \<noteq> None" if "n < length (bnodes ?s')" for n
    using that b(2,5) by (auto simp: nth_append less_Suc_eq new_cfnode_def new_node_def fresh_node_def)
  show "tails_wanted c (bnodes ?s')" using b(3) by (auto simp: tails_wanted_def nth_append new_cfnode_def)
  show "map_of (bmap ?s') x = Some n \<longleftrightarrow> n < length (bnodes ?s') \<and> cnode (bnodes ?s' ! n) = Some x" for x n
    using b(4) [of x n] b(4) [of absn n] absn by (auto simp: nth_append new_cfnode_def less_Suc_eq)
qed

lemma get_or_enqueue_enqueues:
  assumes c: "tree_rises c"
  shows "enqueues k a c f (get_or_enqueue k a)"
proof (induction k)
  case 0
  show ?case by (simp add: enqueues_def)
next
  case (Suc k)
  show ?case
    unfolding enqueues_def
  proof (intro allI impI)
    fix ctx :: CfgBuildContext and s :: build_state and absn assume "cfg_function ctx = f \<and> cfg_config ctx = c \<and> built c s"
    then have ctx: "cfg_function ctx = f" "cfg_config ctx = c" and s: "built c s" by blast+
    let ?ok = "case absn of AbsFn f \<Rightarrow> f = cfg_function ctx | AbsBlock _ \<Rightarrow> True"
    let ?new = "length (bnodes s)"
    let ?s1 = "s\<lparr>bnodes := bnodes s @ [new_cfnode (Some absn)], bmap := (absn, ?new) # bmap s\<rparr>"
    show "(remaining a f s < Suc k \<longrightarrow> terminates (get_or_enqueue (Suc k) a ctx s absn)) \<and>
       (\<forall>n s'. get_or_enqueue (Suc k) a ctx s absn = Inr (n, s') \<longrightarrow>
          built c s' \<and> grows s s' \<and> map_of (bmap s') absn = Some n \<and> new_reached n s s' \<and> counts a f s s' \<and> (map_of (bmap s) absn \<noteq> None \<longrightarrow> s' = s))"
    proof (cases "map_of (bmap s) absn")
      case (Some found)
      then show ?thesis using s by (auto simp: new_reached_def)
    next
      case None
      have b: "built c ?s1" by (rule built_enter [OF s None])
      have m: "map_of (bmap ?s1) absn = Some ?new" by simp
      note p = process_cf_node_adds [OF Suc.IH ctx c b m]
      have "terminates (process_cf_node a (get_or_enqueue k a) ctx ?new absn ?s1)" if "remaining a f s < Suc k" ?ok
      proof (rule p(1))
        show "absn \<in> insert (AbsFn f) (AbsBlock ` fst ` set (blocks a)) \<longrightarrow> remaining a f ?s1 < k"
        proof
          assume "absn \<in> insert (AbsFn f) (AbsBlock ` fst ` set (blocks a))"
          from remaining_enter [OF None this, where ns = "bnodes s @ [new_cfnode (Some absn)]" and n = ?new] that(1)
          show "remaining a f ?s1 < k" by linarith
        qed
        show "absn = AbsFn f \<or> (\<exists>b. absn = AbsBlock b)" using that(2) ctx(1) by (cases absn) auto
      qed
      then have "remaining a f s < Suc k \<longrightarrow> terminates (get_or_enqueue (Suc k) a ctx s absn)"
        using None by (auto simp: Let_def intro!: terminates_bind)
      moreover have "built c s' \<and> grows s s' \<and> map_of (bmap s') absn = Some n \<and> new_reached n s s' \<and> counts a f s s'"
        if "get_or_enqueue (Suc k) a ctx s absn = Inr (n, s')" for n s'
      proof -
        from that None obtain s2 where s2: "process_cf_node a (get_or_enqueue k a) ctx ?new absn ?s1 = Inr s2"
          and n: "n = ?new" and s': "s' = s2\<lparr>bcontents := bcontents s2 @ [?new]\<rparr>"
          by (auto simp: Let_def elim!: bind_res_InrE)
        note q = p(2) [OF s2]
        have g: "built c s2" "grows ?s1 s2" "new_reached ?new ?s1 s2" using q by (auto simp: adds_def)
        have b': "built c s'" using g(1) s' by (simp add: built_def)
        have ext: "extends (bnodes s) (bnodes s2)"
          using extends_trans [OF extends_append [of "bnodes s" "[new_cfnode (Some absn)]"]] growsD(1) [OF g(2)] by simp
        obtain xs where "bcontents s2 = bcontents s @ xs" "distinct xs" "set xs = {Suc ?new..<length (bnodes s2)}"
          using g(2) by (auto simp: grows_def)
        moreover have "?new < length (bnodes s2)" using growsD(2) [OF g(2)] by simp
        ultimately have "bcontents s' = bcontents s @ (xs @ [?new])" "distinct (xs @ [?new])" "set (xs @ [?new]) = {?new..<length (bnodes s')}"
          using s' by auto
        moreover have "dom (map_of (bmap s)) \<subseteq> dom (map_of (bmap s'))" using growsD(3) [OF g(2)] s' by auto
        ultimately have "grows s s'" using ext s' by (simp only: grows_def) auto
        moreover have "map_of (bmap s') absn = Some n" using map_of_grows [OF b g(1) growsD(1) [OF g(2)] m] s' n by simp
        moreover have "reaches (bnodes s') n m" if "m \<in> {?new..<length (bnodes s')}" for m
        proof (cases "m = ?new")
          case True
          then show ?thesis using n by (simp add: reaches.here)
        next
          case False
          then have "m \<in> {length (bnodes ?s1)..<length (bnodes s2)}" using that s' by simp
          then have "reaches (bnodes s2) ?new m" using g(3) unfolding new_reached_def by (rule bspec [rotated])
          then show ?thesis using n s' by simp
        qed
        then have "new_reached n s s'" by (simp add: new_reached_def)
        moreover have "counts a f s s'"
        proof -
          have "absn \<in> insert (AbsFn f) (AbsBlock ` fst ` set (blocks a))"
            by (rule p(3) [OF s2]) (use that ctx(1) in \<open>cases absn; auto simp: Let_def\<close>)
          then have "remaining a f ?s1 < remaining a f s" by (rule remaining_enter [OF None])
          moreover have "length (bnodes s2) + remaining a f s2 \<le> length (bnodes ?s1) + remaining a f ?s1"
            using q by (simp add: adds_def counts_def)
          moreover have "remaining a f s' = remaining a f s2" using s' by (simp add: remaining_def)
          ultimately show ?thesis using s' by (simp add: counts_def)
        qed
        ultimately show ?thesis using b' by blast
      qed
      ultimately show ?thesis using None by simp
    qed
  qed
qed

subsection \<open>Marking\<close>

text \<open>The nodes that control can flow to: along any edge but a structured tail.\<close>

definition flow_succs :: "CFNode list \<Rightarrow> nat \<Rightarrow> nat set" where
  "flow_succs ns n = edst ` {x \<in> set (succ_edges (ns ! n)). etype x \<noteq> StructuredTailEdge}"

inductive flows_to :: "CFNode list \<Rightarrow> nat \<Rightarrow> nat \<Rightarrow> bool" for ns n where
  flow_here: "flows_to ns n n"
| flow_on: "flows_to ns n m \<Longrightarrow> k \<in> flow_succs ns m \<Longrightarrow> flows_to ns n k"

lemma flows_to_trans: "flows_to ns m k \<Longrightarrow> flows_to ns n m \<Longrightarrow> flows_to ns n k"
  by (induction rule: flows_to.induct) (auto intro: flows_to.intros)

definition marked :: "CFNode list \<Rightarrow> nat set" where
  "marked ns = {n. n < length ns \<and> reachable (ns ! n)}"

definition unmarked :: "CFNode list \<Rightarrow> nat" where
  "unmarked ns = card ({..<length ns} - marked ns)"

definition same_but_mark :: "CFNode list \<Rightarrow> CFNode list \<Rightarrow> bool" where
  "same_but_mark ns ns' \<longleftrightarrow> length ns' = length ns \<and> (\<forall>n < length ns. ns' ! n = (ns ! n)\<lparr>reachable := reachable (ns' ! n)\<rparr>)"

lemma same_but_markD:
  assumes "same_but_mark ns ns'"
  shows "length ns' = length ns" "n < length ns \<Longrightarrow> succ_edges (ns' ! n) = succ_edges (ns ! n)"
    "n < length ns \<Longrightarrow> pred_edges (ns' ! n) = pred_edges (ns ! n)" "n < length ns \<Longrightarrow> cnode (ns' ! n) = cnode (ns ! n)"
    "n < length ns \<Longrightarrow> fresh_node (ns' ! n) = fresh_node (ns ! n)"
    "n < length ns \<Longrightarrow> flow_succs ns' n = flow_succs ns n" "n < length ns \<Longrightarrow> successors ns' n = successors ns n"
proof -
  show "length ns' = length ns" using assms by (simp add: same_but_mark_def)
  assume "n < length ns"
  then have eq: "ns' ! n = (ns ! n)\<lparr>reachable := reachable (ns' ! n)\<rparr>" using assms by (simp add: same_but_mark_def)
  show "succ_edges (ns' ! n) = succ_edges (ns ! n)" "pred_edges (ns' ! n) = pred_edges (ns ! n)"
    "cnode (ns' ! n) = cnode (ns ! n)" "fresh_node (ns' ! n) = fresh_node (ns ! n)"
    unfolding fresh_node_def by (subst eq, simp)+
  then show "flow_succs ns' n = flow_succs ns n" "successors ns' n = successors ns n" by (simp_all add: flow_succs_def successors_def)
qed

lemma same_but_mark_refl [simp]: "same_but_mark ns ns"
  by (simp add: same_but_mark_def)

lemma same_but_mark_trans:
  assumes "same_but_mark ns ns'" "same_but_mark ns' ns''"
  shows "same_but_mark ns ns''"
  unfolding same_but_mark_def
proof (intro conjI allI impI)
  show "length ns'' = length ns" using assms by (simp add: same_but_mark_def)
  fix n assume "n < length ns"
  then have "ns'' ! n = (ns' ! n)\<lparr>reachable := reachable (ns'' ! n)\<rparr>" "ns' ! n = (ns ! n)\<lparr>reachable := reachable (ns' ! n)\<rparr>"
    using assms by (simp_all add: same_but_mark_def)
  then show "ns'' ! n = (ns ! n)\<lparr>reachable := reachable (ns'' ! n)\<rparr>"
    by (metis CFNode.surjective CFNode.update_convs(2))
qed

lemma same_but_mark_inside: "same_but_mark ns ns' \<Longrightarrow> edges_inside ns \<Longrightarrow> edges_inside ns'"
  using same_but_markD(1,7) [of ns ns'] by (simp add: edges_inside_def)

text \<open>What marking from some roots adds: nodes they flow to, whose successors are marked as well.\<close>

definition marks :: "nat set \<Rightarrow> CFNode list \<Rightarrow> CFNode list \<Rightarrow> bool" where
  "marks R ns ns' \<longleftrightarrow> same_but_mark ns ns' \<and> marked ns \<subseteq> marked ns' \<and> R \<subseteq> marked ns'
     \<and> (\<forall>m \<in> marked ns' - marked ns. flow_succs ns m \<subseteq> marked ns' \<and> (\<exists>r \<in> R. flows_to ns r m))"

lemma marksD:
  assumes "marks R ns ns'"
  shows "same_but_mark ns ns'" "marked ns \<subseteq> marked ns'" "R \<subseteq> marked ns'"
    "m \<in> marked ns' \<Longrightarrow> m \<notin> marked ns \<Longrightarrow> flow_succs ns m \<subseteq> marked ns'"
    "m \<in> marked ns' \<Longrightarrow> m \<notin> marked ns \<Longrightarrow> \<exists>r \<in> R. flows_to ns r m"
  using assms unfolding marks_def by blast+

lemma flows_to_same:
  assumes "flows_to ns' r m" "same_but_mark ns ns'" "edges_inside ns" "r < length ns"
  shows "flows_to ns r m"
proof -
  have "flows_to ns r m \<and> m < length ns" using assms(1)
  proof (induction rule: flows_to.induct)
    case (flow_on m k)
    then have k: "k \<in> flow_succs ns m" using same_but_markD(6) [OF assms(2)] by blast
    then have "k \<in> successors ns m" by (auto simp: flow_succs_def successors_def)
    then show ?case using flow_on.IH k assms(3) by (auto simp: edges_inside_def intro: flows_to.flow_on)
  qed (use assms(4) in \<open>simp add: flow_here\<close>)
  then show ?thesis by blast
qed

lemma marks_trans:
  assumes "marks R ns ns'" "marks R' ns' ns''" "edges_inside ns" "R' \<subseteq> {..<length ns}"
  shows "marks (R \<union> R') ns ns''"
proof -
  note a = marksD [OF assms(1)] and b = marksD [OF assms(2)]
  have "flow_succs ns m \<subseteq> marked ns'' \<and> (\<exists>r \<in> R \<union> R'. flows_to ns r m)" if m: "m \<in> marked ns''" "m \<notin> marked ns" for m
  proof (cases "m \<in> marked ns'")
    case True
    then show ?thesis using a(4,5) [of m] m b(2) by blast
  next
    case False
    then obtain r where r: "r \<in> R'" "flows_to ns' r m" using b(5) [OF m(1) False] by blast
    then have "flows_to ns r m" using flows_to_same [OF _ a(1) assms(3)] assms(4) by blast
    moreover have "m < length ns" using m(1) same_but_markD(1) [OF a(1)] same_but_markD(1) [OF b(1)] by (simp add: marked_def)
    then have "flow_succs ns m \<subseteq> marked ns''" using b(4) [OF m(1) False] same_but_markD(6) [OF a(1)] by simp
    ultimately show ?thesis using r(1) by blast
  qed
  then show ?thesis using a b same_but_mark_trans [OF a(1) b(1)] unfolding marks_def by blast
qed

lemma unmarked_mono: "marked ns \<subseteq> marked ns' \<Longrightarrow> length ns' = length ns \<Longrightarrow> unmarked ns' \<le> unmarked ns"
  unfolding unmarked_def by (intro card_mono) auto

lemma mark_edges:
  assumes visit: "\<And>n ns. n < length ns \<Longrightarrow> edges_inside ns \<Longrightarrow> unmarked ns < fuel \<Longrightarrow> \<exists>ns'. mark_reachable fuel n ns = Inr ns' \<and> marks {n} ns ns'"
    and ok: "edges_inside ns" "unmarked ns < fuel" "edst ` set es \<subseteq> {..<length ns}"
  shows "\<exists>ns'. fold_res (\<lambda>e ns. if etype e = StructuredTailEdge then Inr ns else mark_reachable fuel (edst e) ns) es ns = Inr ns'
     \<and> marks (edst ` {x \<in> set es. etype x \<noteq> StructuredTailEdge}) ns ns'"
  using ok
proof (induction es arbitrary: ns)
  case Nil
  show ?case by (simp add: marks_def)
next
  case (Cons e es)
  show ?case
  proof (cases "etype e = StructuredTailEdge")
    case True
    then have "{x \<in> set (e # es). etype x \<noteq> StructuredTailEdge} = {x \<in> set es. etype x \<noteq> StructuredTailEdge}" by auto
    then show ?thesis using Cons.IH [OF Cons.prems(1,2)] Cons.prems(3) True by simp
  next
    case False
    obtain ns' where ns': "mark_reachable fuel (edst e) ns = Inr ns'" "marks {edst e} ns ns'"
      using visit [of "edst e" ns] Cons.prems by auto
    note a = marksD [OF ns'(2)]
    have len: "length ns' = length ns" using same_but_markD(1) [OF a(1)] .
    have ok: "edges_inside ns'" "unmarked ns' < fuel" "edst ` set es \<subseteq> {..<length ns'}"
      using same_but_mark_inside [OF a(1) Cons.prems(1)] unmarked_mono [OF a(2) len] Cons.prems(2,3) len by auto
    obtain ns'' where ns'': "fold_res (\<lambda>e ns. if etype e = StructuredTailEdge then Inr ns else mark_reachable fuel (edst e) ns) es ns' = Inr ns''"
        "marks (edst ` {x \<in> set es. etype x \<noteq> StructuredTailEdge}) ns' ns''"
      using Cons.IH [OF ok] by blast
    have "marks ({edst e} \<union> edst ` {x \<in> set es. etype x \<noteq> StructuredTailEdge}) ns ns''"
      by (rule marks_trans [OF ns'(2) ns''(2) Cons.prems(1)]) (use ok(3) len in auto)
    moreover have "{edst e} \<union> edst ` {x \<in> set es. etype x \<noteq> StructuredTailEdge} = edst ` {x \<in> set (e # es). etype x \<noteq> StructuredTailEdge}"
      using False by auto
    ultimately show ?thesis using ns'(1) ns''(1) False by simp
  qed
qed

lemma mark_reachable_marks:
  "n < length ns \<Longrightarrow> edges_inside ns \<Longrightarrow> unmarked ns < fuel \<Longrightarrow> \<exists>ns'. mark_reachable fuel n ns = Inr ns' \<and> marks {n} ns ns'"
proof (induction fuel arbitrary: n ns)
  case (Suc fuel)
  show ?case
  proof (cases "reachable (ns ! n)")
    case True
    then show ?thesis using Suc.prems(1) by (simp add: marks_def marked_def)
  next
    case False
    let ?ns = "ns[n := (ns ! n)\<lparr>reachable := True\<rparr>]"
    let ?R = "edst ` {x \<in> set (succ_edges (ns ! n)). etype x \<noteq> StructuredTailEdge}"
    have same: "same_but_mark ns ?ns" using Suc.prems(1) by (simp add: same_but_mark_def nth_list_update)
    have m: "marked ?ns = insert n (marked ns)" using Suc.prems(1) by (auto simp: marked_def nth_list_update)
    have "n \<notin> marked ns" using False by (simp add: marked_def)
    then have "{..<length ns} - insert n (marked ns) \<subset> {..<length ns} - marked ns" using Suc.prems(1) by auto
    then have "unmarked ?ns < unmarked ns" unfolding unmarked_def m by (simp add: psubset_card_mono)
    then have u: "unmarked ?ns < fuel" using Suc.prems(3) by simp
    have R: "edst ` set (succ_edges (ns ! n)) \<subseteq> {..<length ?ns}" using Suc.prems(1,2) by (auto simp: edges_inside_def successors_def)
    obtain ns' where ns': "fold_res (\<lambda>e ns. if etype e = StructuredTailEdge then Inr ns else mark_reachable fuel (edst e) ns) (succ_edges (ns ! n)) ?ns = Inr ns'"
        "marks ?R ?ns ns'"
      using mark_edges [OF Suc.IH same_but_mark_inside [OF same Suc.prems(2)] u R] by blast
    note b = marksD [OF ns'(2)]
    have R': "?R = flow_succs ns n" by (simp add: flow_succs_def)
    have "flow_succs ns k \<subseteq> marked ns' \<and> flows_to ns n k" if km: "k \<in> marked ns'" "k \<notin> marked ns" for k
    proof (cases "k = n")
      case True
      then show ?thesis using b(3) R' by (auto intro: flow_here)
    next
      case False
      then have k: "k \<notin> marked ?ns" using km(2) m by simp
      obtain r where r: "r \<in> ?R" "flows_to ?ns r k" using b(5) [OF km(1) k] by blast
      then have "flows_to ns r k" using flows_to_same [OF _ same Suc.prems(2)] R by auto
      moreover have "flows_to ns n r" using flow_on [OF flow_here] r(1) R' by blast
      moreover have "k < length ns" using km(1) same_but_markD(1) [OF b(1)] by (simp add: marked_def)
      then have "flow_succs ns k \<subseteq> marked ns'" using b(4) [OF km(1) k] same_but_markD(6) [OF same] by simp
      ultimately show ?thesis using flows_to_trans by blast
    qed
    then have "marks {n} ns ns'" using b same_but_mark_trans [OF same b(1)] m unfolding marks_def by auto
    then show ?thesis using ns'(1) False Suc.prems(1) by simp
  qed
qed simp

text \<open>From a clean state exactly the nodes that control can flow to are marked.\<close>

lemma mark_reachable_exact:
  assumes "n < length ns" "edges_inside ns" "\<forall>m < length ns. \<not> reachable (ns ! m)"
  obtains ns' where "mark_reachable (length ns + 1) n ns = Inr ns'" "same_but_mark ns ns'"
    "\<And>m. m < length ns \<Longrightarrow> reachable (ns' ! m) \<longleftrightarrow> flows_to ns n m"
proof -
  have "unmarked ns < length ns + 1" unfolding unmarked_def using card_mono [of "{..<length ns}" "{..<length ns} - marked ns"] by simp
  then obtain ns' where ns': "mark_reachable (length ns + 1) n ns = Inr ns'" "marks {n} ns ns'"
    using mark_reachable_marks [OF assms(1,2)] by blast
  note a = marksD [OF ns'(2)]
  have none: "marked ns = {}" using assms(3) by (simp add: marked_def)
  have all: "m \<in> marked ns'" if "flows_to ns n m" for m
    using that
  proof (induction rule: flows_to.induct)
    case (flow_on m k)
    then show ?case using a(4) [of m] none by blast
  qed (use a(3) in simp)
  have "reachable (ns' ! m) \<longleftrightarrow> flows_to ns n m" if m: "m < length ns" for m
  proof
    show "flows_to ns n m" if "reachable (ns' ! m)"
      using a(5) [of m] that m same_but_markD(1) [OF a(1)] none by (simp add: marked_def)
    show "reachable (ns' ! m)" if "flows_to ns n m" using all [OF that] by (simp add: marked_def)
  qed
  with ns'(1) a(1) show thesis by (rule that)
qed

subsection \<open>The whole construction\<close>

lemma get_or_enqueue_start:
  assumes c: "tree_rises c" and ctx: "cfg_function ctx = f" "cfg_config ctx = c"
    and s0: "s0 = \<lparr>bnodes = [], bmap = [], bcontents = [], join_point_values = []\<rparr>"
  shows "terminates (get_or_enqueue (length (blocks a) + 2) a ctx s0 entry)"
    "get_or_enqueue (length (blocks a) + 2) a ctx s0 entry = Inr (n, s) \<Longrightarrow>
       built c s \<and> map_of (bmap s) entry = Some n \<and> (\<forall>m < length (bnodes s). reaches (bnodes s) n m)
       \<and> set (bcontents s) = {..<length (bnodes s)} \<and> distinct (bcontents s) \<and> length (bnodes s) \<le> length (blocks a) + 1"
proof -
  note e = enqueuesD [OF get_or_enqueue_enqueues [OF c] ctx, of s0]
  have b: "built c s0" by (simp add: s0 built_def linked_def tails_wanted_def)
  have r: "remaining a f s0 \<le> length (blocks a) + 1" by (rule remaining_le)
  then show "terminates (get_or_enqueue (length (blocks a) + 2) a ctx s0 entry)" by (intro e(1) b) simp
  assume s: "get_or_enqueue (length (blocks a) + 2) a ctx s0 entry = Inr (n, s)"
  have "length (bnodes s) \<le> length (blocks a) + 1" using e(7) [OF b s] r by (simp add: counts_def s0)
  moreover obtain xs where "bcontents s = bcontents s0 @ xs" "distinct xs" "set xs = {length (bnodes s0)..<length (bnodes s)}"
    using e(3) [OF b s] unfolding grows_def by blast
  then have "set (bcontents s) = {..<length (bnodes s)}" "distinct (bcontents s)" by (simp_all add: s0 lessThan_atLeast0)
  moreover have "\<forall>m < length (bnodes s). reaches (bnodes s) n m" using e(5) [OF b s] by (simp add: new_reached_def s0)
  ultimately show "built c s \<and> map_of (bmap s) entry = Some n \<and> (\<forall>m < length (bnodes s). reaches (bnodes s) n m)
       \<and> set (bcontents s) = {..<length (bnodes s)} \<and> distinct (bcontents s) \<and> length (bnodes s) \<le> length (blocks a) + 1"
    using e(2,4) [OF b s] by blast
qed

lemma validate_cfg_terminates: "terminates (validate_cfg cfg)"
  unfolding validate_cfg_def Let_def
  by (intro terminates_bind terminates_map_res) simp_all

text \<open>The graph that is returned: its lists and map agree, its edges are listed at both ends.\<close>

definition wf_cfg :: "abstraction \<Rightarrow> CFG \<Rightarrow> bool" where
  "wf_cfg entry cfg \<longleftrightarrow> linked (cnodes cfg) \<and> distinct (contents cfg) \<and> set (contents cfg) = {..<length (cnodes cfg)}
     \<and> csize cfg = length (cnodes cfg) \<and> centry cfg < length (cnodes cfg) \<and> cnode (cnodes cfg ! centry cfg) = Some entry
     \<and> (\<forall>absn n. map_of (cmap cfg) absn = Some n \<longleftrightarrow> n < length (cnodes cfg) \<and> cnode (cnodes cfg ! n) = Some absn)
     \<and> (\<forall>n < length (cnodes cfg). cnode (cnodes cfg ! n) \<noteq> None)"

definition rpo_order :: "CFG \<Rightarrow> nat list \<Rightarrow> bool" where
  "rpo_order cfg order \<longleftrightarrow> rpo cfg = map Some order \<and> distinct order \<and> set order = {..<length (cnodes cfg)}
     \<and> order ! 0 = centry cfg \<and> (\<forall>k < length order. rpo_index (cnodes cfg ! (order ! k)) = k)
     \<and> (\<forall>n < length (cnodes cfg). n \<noteq> centry cfg \<longrightarrow>
          (\<exists>p < length (cnodes cfg). n \<in> successors (cnodes cfg) p \<and> rpo_index (cnodes cfg ! p) < rpo_index (cnodes cfg ! n)))"

text \<open>How a node is entered as far as domination goes: a structured tail only from its parent.\<close>

definition enters :: "CFNode list \<Rightarrow> nat \<Rightarrow> nat \<Rightarrow> bool" where
  "enters ns m n \<longleftrightarrow> n < length ns \<and> (if structured_idom (ns ! n) = None then m < length ns \<and> n \<in> successors ns m else idom (ns ! n) = Some m)"

definition path_to :: "(nat \<Rightarrow> nat \<Rightarrow> bool) \<Rightarrow> nat \<Rightarrow> nat \<Rightarrow> nat list \<Rightarrow> bool" where
  "path_to E e n ps \<longleftrightarrow> ps \<noteq> [] \<and> hd ps = e \<and> last ps = n \<and> successively E ps"

lemma path_to_snoc: "path_to E e p ps \<Longrightarrow> E p n \<Longrightarrow> path_to E e n (ps @ [n])"
  by (auto simp: path_to_def successively_append_iff)

lemma avoids_path:
  assumes "\<And>m n. n < length ns \<Longrightarrow> E m n \<longleftrightarrow> m \<in> preds (dom_graph e ns) n" "\<And>m n. E m n \<Longrightarrow> m < length ns \<Longrightarrow> n < length ns" "e < length ns"
  shows "avoids (dom_graph e ns) x n \<longleftrightarrow> (\<exists>ps. path_to E e n ps \<and> x \<notin> set ps)"
proof
  show "\<exists>ps. path_to E e n ps \<and> x \<notin> set ps" if "avoids (dom_graph e ns) x n"
    using that
  proof (induction rule: avoids.induct)
    case at_start
    then show ?case by (intro exI [of _ "[e]"]) (simp add: path_to_def)
  next
    case (step p n)
    then obtain ps where "path_to E e p ps" "x \<notin> set ps" by blast
    then show ?case using step assms(1) [of n p] by (intro exI [of _ "ps @ [n]"]) (auto intro: path_to_snoc)
  qed
  have "avoids (dom_graph e ns) x (last ps) \<and> last ps < length ns" if "ps \<noteq> []" "hd ps = e" "successively E ps" "x \<notin> set ps" for ps
    using that
  proof (induction ps rule: rev_induct)
    case (snoc n ps)
    show ?case
    proof (cases "ps = []")
      case True
      then show ?thesis using snoc.prems assms(3) avoids.at_start [of x "dom_graph e ns"] by auto
    next
      case False
      then have IH: "avoids (dom_graph e ns) x (last ps)" "last ps < length ns" and E: "E (last ps) n"
        using snoc by (auto simp: successively_append_iff)
      then have n: "n < length ns" using assms(2) by blast
      then show ?thesis using avoids.step [OF IH(1), of n] assms(1) [OF n] E snoc.prems(4) by simp
    qed
  qed simp
  then show "avoids (dom_graph e ns) x n" if "\<exists>ps. path_to E e n ps \<and> x \<notin> set ps"
    using that by (auto simp: path_to_def)
qed

text \<open>Lists of nodes with the same abstractions and edges.\<close>

definition same_edges :: "CFNode list \<Rightarrow> CFNode list \<Rightarrow> bool" where
  "same_edges ns ns' \<longleftrightarrow> length ns' = length ns \<and> (\<forall>n < length ns. cnode (ns' ! n) = cnode (ns ! n)
     \<and> succ_edges (ns' ! n) = succ_edges (ns ! n) \<and> pred_edges (ns' ! n) = pred_edges (ns ! n))"

lemma same_edgesD:
  assumes "same_edges ns ns'"
  shows "length ns' = length ns" "n < length ns \<Longrightarrow> cnode (ns' ! n) = cnode (ns ! n)"
    "n < length ns \<Longrightarrow> succ_edges (ns' ! n) = succ_edges (ns ! n)" "n < length ns \<Longrightarrow> pred_edges (ns' ! n) = pred_edges (ns ! n)"
    "n < length ns \<Longrightarrow> successors ns' n = successors ns n" "n < length ns \<Longrightarrow> flow_succs ns' n = flow_succs ns n"
  using assms by (simp_all add: same_edges_def successors_def flow_succs_def)

lemma same_edges_sym: "same_edges ns ns' \<Longrightarrow> same_edges ns' ns"
  by (simp add: same_edges_def)

lemma same_edges_trans: "same_edges ns ns' \<Longrightarrow> same_edges ns' ns'' \<Longrightarrow> same_edges ns ns''"
  by (simp add: same_edges_def)

lemma same_edges_linked: "same_edges ns ns' \<Longrightarrow> linked ns \<Longrightarrow> linked ns'"
  unfolding linked_def using same_edgesD(1,3,4) [of ns ns'] by simp

lemma same_edges_reaches: "reaches ns n m \<Longrightarrow> same_edges ns ns' \<Longrightarrow> linked ns \<Longrightarrow> n < length ns \<Longrightarrow> reaches ns' n m"
  by (erule reaches_extends) (simp_all add: linked_inside extends_def same_edgesD)

lemma flows_to_edges:
  assumes "flows_to ns n m" "same_edges ns ns'" "linked ns" "n < length ns"
  shows "flows_to ns' n m \<and> m < length ns"
  using assms(1)
proof (induction rule: flows_to.induct)
  case (flow_on m k)
  then have "k < length ns" using linkedD(2) [OF assms(3), of m] by (auto simp: flow_succs_def)
  then show ?case using flow_on same_edgesD(6) [OF assms(2)] by (auto intro: flows_to.flow_on)
qed (use assms(4) in \<open>simp add: flow_here\<close>)

lemma flows_to_same_edges: "same_edges ns ns' \<Longrightarrow> linked ns \<Longrightarrow> n < length ns \<Longrightarrow> flows_to ns' n m = flows_to ns n m"
  using flows_to_edges [of ns n m ns'] flows_to_edges [of ns' n m ns] same_edges_linked same_edges_sym [of ns ns'] same_edgesD(1) by metis

lemma same_but_mark_edges: "same_but_mark ns ns' \<Longrightarrow> same_edges ns ns'"
  by (simp add: same_edges_def same_but_markD)

lemma same_but_rpo_edges: "same_but_rpo ns ns' \<Longrightarrow> same_edges ns ns'"
  by (simp add: same_edges_def same_but_rpoD)

lemma same_but_rpo_reachable: "same_but_rpo ns ns' \<Longrightarrow> n < length ns \<Longrightarrow> reachable (ns' ! n) = reachable (ns ! n)"
  unfolding same_but_rpo_def by (metis CFNode.select_convs(2) CFNode.surjective CFNode.update_convs(5))

text \<open>From the nodes that were entered to the graph.\<close>

lemma new_cfg_rest:
  assumes b: "built conf s" "map_of (bmap s) entry = Some e" and all: "\<forall>m < length (bnodes s). reaches (bnodes s) e m"
    and cs: "set (bcontents s) = {..<length (bnodes s)}" "distinct (bcontents s)" and max: "length (bnodes s) \<le> SIZE_MAX"
  obtains ns cfg order where "mark_reachable (length (bnodes s) + 1) e (bnodes s) = Inr ns"
    "bind_res (shd_cfg_compute_rpo \<lparr>cconfig = conf, csize = length (bcontents s), contents = bcontents s, cmap = bmap s,
       centry = e, rpo = [], cnodes = ns\<rparr>) shd_cfg_compute_domtree = Inr cfg"
    "cconfig cfg = conf" "wf_cfg entry cfg" "rpo_order cfg order" "tails_wanted conf (cnodes cfg)"
    "\<And>n. n < length (cnodes cfg) \<Longrightarrow> reachable (cnodes cfg ! n) \<longleftrightarrow> flows_to (cnodes cfg) (centry cfg) n"
    "\<And>x y. x < length (cnodes cfg) \<Longrightarrow> shd_cfg_is_dominated cfg x y = Inr (dom_by (dom_graph (centry cfg) (cnodes cfg)) y x)"
    "\<And>d. d < length (cnodes cfg) \<Longrightarrow> dominates (cnodes cfg ! d) = filter (\<lambda>i. idom (cnodes cfg ! i) = Some d) order"
    "\<And>n. n < length (cnodes cfg) \<Longrightarrow> \<forall>x \<in> set (pred_edges (cnodes cfg ! n)). etype x \<noteq> StructuredTailEdge \<Longrightarrow>
       structured_idom (cnodes cfg ! n) = None"
    "\<And>n. n < length (cnodes cfg) \<Longrightarrow> n \<noteq> centry cfg \<Longrightarrow> closest_dominator (dom_graph (centry cfg) (cnodes cfg)) n (idom (cnodes cfg ! n))"
proof -
  let ?ns0 = "bnodes s"
  note bd = builtD [OF b(1)]
  have e: "e < length ?ns0" "cnode (?ns0 ! e) = Some entry" using bd(4) b(2) by auto
  have clean: "\<forall>m < length ?ns0. \<not> reachable (?ns0 ! m)" using bd(2) by (simp add: new_node_def)
  obtain ns where ns: "mark_reachable (length ?ns0 + 1) e ?ns0 = Inr ns" "same_but_mark ?ns0 ns"
    "\<And>m. m < length ?ns0 \<Longrightarrow> reachable (ns ! m) \<longleftrightarrow> flows_to ?ns0 e m"
    by (rule mark_reachable_exact [OF e(1) linked_inside [OF bd(1)] clean]) (rule that)
  let ?cfg0 = "\<lparr>cconfig = conf, csize = length (bcontents s), contents = bcontents s, cmap = bmap s, centry = e, rpo = [], cnodes = ns\<rparr>"
  note same0 = same_but_mark_edges [OF ns(2)]
  have len: "length ns = length ?ns0" using same_edgesD(1) [OF same0] .
  have l: "linked ns" by (rule same_edges_linked [OF same0 bd(1)])
  have fresh: "\<forall>n \<in> set ns. fresh_node n"
    using bd(2) same_but_markD(5) [OF ns(2)] len by (auto simp: in_set_conv_nth new_node_def)
  have size: "length (bcontents s) = length ns" using cs len by (metis card_lessThan distinct_card)
  have "unnumbered ?cfg0"
    using e(1) len max fresh l size by (simp add: unnumbered_def linked_inside fresh_node_def)
  then obtain cfg1 where cfg1: "shd_cfg_compute_rpo ?cfg0 = Inr cfg1" "numbering ?cfg0 cfg1"
    using compute_rpo_spec [of ?cfg0] all len same_edges_reaches [OF _ same0 bd(1) e(1)] by auto
  have same1: "same_but_rpo ns (cnodes cfg1)" and upd: "cfg1 = ?cfg0\<lparr>cnodes := cnodes cfg1, rpo := rpo cfg1\<rparr>"
    using cfg1(2) unfolding numbering_def by simp_all
  have fields: "cconfig cfg1 = conf" "csize cfg1 = length ns" "contents cfg1 = bcontents s" "cmap cfg1 = bmap s" "centry cfg1 = e"
    by (subst upd, simp add: size)+
  obtain order where order: "rpo cfg1 = map Some order" "set order = {..<length ns}" "length order = length ns"
      "\<forall>k < length order. rpo_index (cnodes cfg1 ! (order ! k)) = k"
    using cfg1(2) unfolding numbering_def by auto
  have entry0: "rpo_index (cnodes cfg1 ! e) = 0" and earlier: "\<forall>n < length ns. n \<noteq> e \<longrightarrow>
      (\<exists>p < length ns. n \<in> successors ns p \<and> rpo_index (cnodes cfg1 ! p) < rpo_index (cnodes cfg1 ! n))"
    using cfg1(2) unfolding numbering_def by simp_all
  have nn: "numbered_nodes (centry cfg1) (cnodes cfg1)"
    by (rule numbering_nodes [OF _ _ _ cfg1(2)]) (use l e(1) len fresh in simp_all)
  have len1: "length (cnodes cfg1) = length ns" using same_but_rpoD(1) [OF same1] .
  obtain cfg where cfg: "shd_cfg_compute_domtree cfg1 = Inr cfg" "cfg = cfg1\<lparr>cnodes := cnodes cfg\<rparr>"
    "length (cnodes cfg) = length (cnodes cfg1)" "\<And>n. n < length (cnodes cfg1) \<Longrightarrow> core (cnodes cfg ! n) = core (cnodes cfg1 ! n)"
    "\<And>a b. a < length (cnodes cfg1) \<Longrightarrow> shd_cfg_is_dominated cfg a b = Inr (dom_by (dom_graph (centry cfg1) (cnodes cfg)) b a)"
    "\<And>d. d < length (cnodes cfg1) \<Longrightarrow> dominates (cnodes cfg ! d) = filter (\<lambda>i. idom (cnodes cfg ! i) = Some d) order"
    "\<And>n. n < length (cnodes cfg1) \<Longrightarrow> \<forall>x \<in> set (pred_edges (cnodes cfg1 ! n)). etype x \<noteq> StructuredTailEdge \<Longrightarrow>
       structured_idom (cnodes cfg ! n) = None"
    "\<And>n. n < length (cnodes cfg1) \<Longrightarrow> n \<noteq> centry cfg1 \<Longrightarrow> closest_dominator (dom_graph (centry cfg1) (cnodes cfg)) n (idom (cnodes cfg ! n))"
    by (rule domtree_spec [where cfg = cfg1 and order = order]) (use nn cs order fields len len1 in simp_all)
  have f: "cconfig cfg = conf" "csize cfg = length ns" "contents cfg = bcontents s" "cmap cfg = bmap s" "centry cfg = e" "rpo cfg = rpo cfg1"
    by (subst cfg(2), simp add: fields)+
  have core: "reachable (cnodes cfg ! n) = reachable (ns ! n)" "rpo_index (cnodes cfg ! n) = rpo_index (cnodes cfg1 ! n)" if "n < length ns" for n
    using cfg(4) [of n] that len1 same_but_rpo_reachable [OF same1 that] by (simp_all add: core_eq)
  have "same_edges (cnodes cfg1) (cnodes cfg)" using cfg(3,4) by (simp add: same_edges_def core_eq)
  then have same: "same_edges ns (cnodes cfg)" by (rule same_edges_trans [OF same_but_rpo_edges [OF same1]])
  note sm = same_edgesD [OF same] and sm0 = same_edgesD [OF same0]
  have wf: "wf_cfg entry cfg"
    unfolding wf_cfg_def f using same_edges_linked [OF same l] cs size len sm(1,2) sm0(2) e bd(4,5) by (simp cong: conj_cong)
  have od: "rpo_order cfg order"
    unfolding rpo_order_def f
  proof (intro conjI allI impI)
    show "distinct order" using order(2,3) by (metis card_lessThan card_distinct)
    have "e \<in> set order" using order(2) e(1) len by simp
    then show "order ! 0 = e" using order(4) entry0 by (auto simp: in_set_conv_nth)
    show "rpo_index (cnodes cfg ! (order ! k)) = k" if "k < length order" for k
      using order(2,4) core(2) [of "order ! k"] nth_mem [OF that] that by auto
    show "\<exists>p < length (cnodes cfg). n \<in> successors (cnodes cfg) p \<and> rpo_index (cnodes cfg ! p) < rpo_index (cnodes cfg ! n)"
      if n: "n < length (cnodes cfg)" "n \<noteq> e" for n
    proof -
      obtain p where "p < length ns" "n \<in> successors ns p" "rpo_index (cnodes cfg1 ! p) < rpo_index (cnodes cfg1 ! n)"
        using earlier n sm(1) by auto
      then show ?thesis using sm(1,5) core(2) n(1) by (intro exI [of _ p]) simp
    qed
  qed (use order sm(1) in simp_all)
  have tails: "tails_wanted conf (cnodes cfg)" using bd(3) sm(1,4) sm0(1,4) by (simp add: tails_wanted_def)
  have mk: "reachable (cnodes cfg ! n) \<longleftrightarrow> flows_to (cnodes cfg) (centry cfg) n" if "n < length (cnodes cfg)" for n
    using ns(3) [of n] core(1) [of n] that sm(1) len f(5) flows_to_same_edges [OF same l, of e n]
      flows_to_same_edges [OF same0 bd(1) e(1), of n] e(1) by simp
  have st: "structured_idom (cnodes cfg ! n) = None"
    if "n < length (cnodes cfg)" "\<forall>x \<in> set (pred_edges (cnodes cfg ! n)). etype x \<noteq> StructuredTailEdge" for n
    using cfg(7) [of n] cfg(3) cfg(4) [of n] that by (simp add: core_eq)
  have "bind_res (shd_cfg_compute_rpo ?cfg0) shd_cfg_compute_domtree = Inr cfg" using cfg1(1) cfg(1) by simp
  moreover have "shd_cfg_is_dominated cfg x y = Inr (dom_by (dom_graph (centry cfg) (cnodes cfg)) y x)" if "x < length (cnodes cfg)" for x y
    using cfg(5) [of x y] that cfg(3) f(5) fields(5) by simp
  moreover have "dominates (cnodes cfg ! d) = filter (\<lambda>i. idom (cnodes cfg ! i) = Some d) order" if "d < length (cnodes cfg)" for d
    using cfg(6) [of d] that cfg(3) by simp
  moreover have "closest_dominator (dom_graph (centry cfg) (cnodes cfg)) n (idom (cnodes cfg ! n))"
    if "n < length (cnodes cfg)" "n \<noteq> centry cfg" for n
    using cfg(8) [of n] that cfg(3) f(5) fields(5) by simp
  ultimately show thesis using that [OF ns(1) _ f(1) wf od tails mk] st by blast
qed

end
