(* ===== verification/IrLoopWalk.thy ===== *)
theory IrLoopWalk
  imports IrLoop IrCfgBuild
begin

text \<open>
  The walk of \<^verbatim>\<open>walk_scc\<close>: it enters the nodes that can be reached without going through heads, groups them, and
  appends a child to the tree for every group. Only what the builder relies on is shown of the groups: they are disjoint,
  they cover what was entered, and a head is a group of its own.
\<close>

subsection \<open>States of nodes\<close>

definition indexed :: "CFNode list \<Rightarrow> bool" where
  "indexed ns \<longleftrightarrow> linked ns \<and> inj_on (\<lambda>n. rpo_index (ns ! n)) {..<length ns} \<and> (\<forall>n < length ns. rpo_index (ns ! n) < length ns)"

lemma indexedD:
  assumes "indexed ns"
  shows "linked ns" "n < length ns \<Longrightarrow> rpo_index (ns ! n) < length ns"
    "n < length ns \<Longrightarrow> m < length ns \<Longrightarrow> rpo_index (ns ! n) = rpo_index (ns ! m) \<longleftrightarrow> n = m"
  using assms by (auto simp: indexed_def inj_on_def)

definition st :: "CFNode list \<Rightarrow> LoopTreeBuilder \<Rightarrow> nat \<Rightarrow> lt_state" where
  "st ns b n = states b ! rpo_index (ns ! n)"

definition upd :: "CFNode list \<Rightarrow> nat \<Rightarrow> (lt_state \<Rightarrow> lt_state) \<Rightarrow> LoopTreeBuilder \<Rightarrow> LoopTreeBuilder" where
  "upd ns n f b = b\<lparr>states := (states b)[rpo_index (ns ! n) := f (st ns b n)]\<rparr>"

lemma upd_simps [simp]:
  "lstack (upd ns n f b) = lstack b" "ltree (upd ns n f b) = ltree b" "length (states (upd ns n f b)) = length (states b)"
  by (simp_all add: upd_def)

lemma st_simps [simp]:
  "st ns (b\<lparr>lstack := s\<rparr>) = st ns b" "st ns (b\<lparr>ltree := t\<rparr>) = st ns b"
  by (auto simp: st_def)

lemma st_upd:
  assumes "indexed ns" and "length (states b) = length ns" and "n < length ns" and "m < length ns"
  shows "st ns (upd ns n f b) m = (if m = n then f (st ns b n) else st ns b m)"
  using assms indexedD(2,3) [OF assms(1)] by (auto simp: st_def upd_def nth_list_update)

lemma state_of_ok:
  assumes "indexed ns" and "length (states b) = length ns" and "n < length ns"
  shows "state_of ns b n = Inr (st ns b n)"
  using assms indexedD(2) [OF assms(1)] by (simp add: state_of_def at_def st_def)

lemma set_state_ok:
  assumes "indexed ns" and "length (states b) = length ns" and "n < length ns"
  shows "set_state ns n f b = Inr (upd ns n f b)"
  using assms indexedD(2) [OF assms(1)] by (simp add: set_state_def at_def st_def upd_def)

lemma set_states_ok:
  assumes "indexed ns" and "length (states b) = length ns" and "set vs \<subseteq> {..<length ns}" and "\<And>s. f (f s) = f s"
  obtains b' where "set_states ns vs f b = Inr b'" "lstack b' = lstack b" "ltree b' = ltree b" "length (states b') = length ns"
    "\<And>m. m < length ns \<Longrightarrow> st ns b' m = (if m \<in> set vs then f (st ns b m) else st ns b m)"
proof -
  have "\<exists>b'. set_states ns vs f b = Inr b' \<and> lstack b' = lstack b \<and> ltree b' = ltree b \<and> length (states b') = length ns
      \<and> (\<forall>m < length ns. st ns b' m = (if m \<in> set vs then f (st ns b m) else st ns b m))"
    using assms(2,3)
  proof (induction vs arbitrary: b)
    case (Cons v vs)
    from Cons.prems have v: "v < length ns" by simp
    have "length (states (upd ns v f b)) = length ns" using Cons.prems by simp
    from Cons.IH [OF this] Cons.prems obtain b' where b': "set_states ns vs f (upd ns v f b) = Inr b'"
      "lstack b' = lstack b" "ltree b' = ltree b" "length (states b') = length ns"
      "\<forall>m < length ns. st ns b' m = (if m \<in> set vs then f (st ns (upd ns v f b) m) else st ns (upd ns v f b) m)" by auto
    then show ?case
      using Cons.prems v assms(1,4) by (auto simp: set_states_def set_state_ok st_upd)
  qed (simp add: set_states_def)
  then show thesis using that by blast
qed

subsection \<open>What walks keep\<close>

definition hd_set :: "CFNode list \<Rightarrow> LoopTreeBuilder \<Rightarrow> nat set" where
  "hd_set ns b = {n. n < length ns \<and> is_head (st ns b n)}"

definition seen :: "CFNode list \<Rightarrow> LoopTreeBuilder \<Rightarrow> nat set" where
  "seen ns b = {n. n < length ns \<and> in_set (st ns b n)}"

definition wstate :: "CFNode list \<Rightarrow> LoopTreeBuilder \<Rightarrow> bool" where
  "wstate ns b \<longleftrightarrow> length (states b) = length ns \<and> distinct (lstack b) \<and> set (lstack b) \<subseteq> {..<length ns}
     \<and> set (lstack b) \<subseteq> seen ns b
     \<and> (\<forall>n < length ns. on_stack (st ns b n) = (n \<in> set (lstack b)) \<and> \<not> in_scc (st ns b n))"

lemma wstateD:
  assumes "wstate ns b"
  shows "length (states b) = length ns" "distinct (lstack b)" "set (lstack b) \<subseteq> {..<length ns}"
    "n < length ns \<Longrightarrow> on_stack (st ns b n) = (n \<in> set (lstack b))" "n < length ns \<Longrightarrow> \<not> in_scc (st ns b n)"
    "set (lstack b) \<subseteq> seen ns b"
  using assms by (auto simp: wstate_def)

text \<open>The node of the tree that a group becomes: \<open>H\<close> are the heads known so far.\<close>

definition group_heads :: "CFNode list \<Rightarrow> nat \<Rightarrow> nat list \<Rightarrow> nat list" where
  "group_heads ns entry G = filter (\<lambda>n. n = entry \<or> (\<exists>e \<in> set (pred_edges (ns ! n)). esrc e \<notin> set G)) G"

definition group_leaf :: "CFNode list \<Rightarrow> nat set \<Rightarrow> nat list \<Rightarrow> bool" where
  "group_leaf ns H G \<longleftrightarrow> (\<exists>v. G = [v] \<and> (v \<in> H \<or> v \<notin> successors ns v))"

definition group_node :: "CFNode list \<Rightarrow> nat \<Rightarrow> nat set \<Rightarrow> nat \<Rightarrow> nat \<Rightarrow> nat list \<Rightarrow> LTNode" where
  "group_node ns entry H par dep G =
     \<lparr>ltype = (if group_leaf ns H G then LF_LEAF else LF_HEAD), lparent = Some par, lcf_nodes = group_heads ns entry G,
      ldepth = dep, lf_children = []\<rparr>"

definition add_child :: "nat \<Rightarrow> LTNode \<Rightarrow> LTNode list \<Rightarrow> LTNode list" where
  "add_child par n tree = tree[par := (tree ! par)\<lparr>lf_children := lf_children (tree ! par) @ [length tree]\<rparr>] @ [n]"

definition add_groups :: "CFNode list \<Rightarrow> nat \<Rightarrow> nat set \<Rightarrow> nat \<Rightarrow> nat \<Rightarrow> nat list list \<Rightarrow> LTNode list \<Rightarrow> LTNode list" where
  "add_groups ns entry H par dep Gs tree = fold (\<lambda>G. add_child par (group_node ns entry H par dep G)) Gs tree"

lemma length_add_groups [simp]: "length (add_groups ns entry H par dep Gs tree) = length tree + length Gs"
  unfolding add_groups_def by (induction Gs arbitrary: tree) (auto simp: add_child_def)

text \<open>The entry and the nodes it reaches: a group of one node is entered from outside.\<close>

definition all_reached :: "CFNode list \<Rightarrow> nat \<Rightarrow> bool" where
  "all_reached ns entry \<longleftrightarrow> entry < length ns \<and> (\<forall>n < length ns. reaches ns entry n)"

lemma successors_pred:
  assumes "linked ns" and "m < length ns" and "n < length ns"
  shows "n \<in> successors ns m \<longleftrightarrow> (\<exists>e \<in> set (pred_edges (ns ! n)). esrc e = m)"
proof
  assume "n \<in> successors ns m"
  then obtain e where "e \<in> set (succ_edges (ns ! m))" "n = edst e" by (auto simp: successors_def)
  with linkedD(1,3) [OF assms(1,2), of e] show "\<exists>e \<in> set (pred_edges (ns ! n)). esrc e = m" by blast
next
  assume "\<exists>e \<in> set (pred_edges (ns ! n)). esrc e = m"
  then obtain e where "e \<in> set (pred_edges (ns ! n))" "esrc e = m" by blast
  with linkedD(4,6) [OF assms(1,3), of e] show "n \<in> successors ns m" by (auto simp: successors_def)
qed

lemma entered_from_outside:
  assumes l: "linked ns" and r: "reaches ns entry v" and e: "entry < length ns"
    and v: "v \<in> set G" and eg: "entry \<notin> set G"
  shows "\<exists>n \<in> set G. n < length ns \<and> (\<exists>e \<in> set (pred_edges (ns ! n)). esrc e \<notin> set G)"
  using r v
proof (induction rule: reaches.induct)
  case here
  with eg show ?case by simp
next
  case (further m k)
  show ?case
  proof (cases "m \<in> set G")
    case False
    have m: "m < length ns" using reaches_inside [OF further.hyps(1) linked_inside [OF l] e] .
    then have "k < length ns" using linked_inside [OF l] further.hyps(2) by (auto simp: edges_inside_def)
    with m False further successors_pred [OF l m] show ?thesis by blast
  qed (use further.IH in blast)
qed

lemma group_heads_ne:
  assumes "indexed ns" and "all_reached ns entry" and "G \<noteq> []" and "set G \<subseteq> {..<length ns}"
  shows "group_heads ns entry G \<noteq> []"
proof (cases "entry \<in> set G")
  case True
  then show ?thesis by (auto simp: group_heads_def filter_empty_conv)
next
  case False
  have "hd G \<in> set G" using assms(3) by simp
  moreover from this have "hd G < length ns" using assms(4) by blast
  ultimately have "\<exists>v. v \<in> set G \<and> v < length ns" by blast
  with entered_from_outside [OF indexedD(1) [OF assms(1)] _ _ _ False] assms(2) show ?thesis
    by (fastforce simp: group_heads_def filter_empty_conv all_reached_def)
qed

lemma group_heads_single:
  assumes "indexed ns" and "all_reached ns entry" and "v < length ns"
  shows "group_heads ns entry [v] = [v]"
  using group_heads_ne [OF assms(1,2), of "[v]"] assms(3) by (auto simp: group_heads_def split: if_splits)

text \<open>What a walk has done: \<open>Gs\<close> are the groups it closed, \<open>rest\<close> the nodes it left on the stack.\<close>

definition ran ::
  "CFNode list \<Rightarrow> nat \<Rightarrow> nat \<Rightarrow> nat \<Rightarrow> LoopTreeBuilder \<Rightarrow> LoopTreeBuilder \<Rightarrow> nat list list \<Rightarrow> nat list \<Rightarrow> bool" where
  "ran ns entry par dep b b' Gs rest \<longleftrightarrow>
     wstate ns b' \<and> hd_set ns b' = hd_set ns b \<and> lstack b' = lstack b @ rest
     \<and> seen ns b' = seen ns b \<union> set (concat Gs @ rest) \<and> distinct (concat Gs @ rest) \<and> set (concat Gs @ rest) \<inter> seen ns b = {}
     \<and> [] \<notin> set Gs \<and> ltree b' = add_groups ns entry (hd_set ns b) par dep Gs (ltree b)"

lemma ranD:
  assumes "ran ns entry par dep b b' Gs rest"
  shows "wstate ns b'" "hd_set ns b' = hd_set ns b" "lstack b' = lstack b @ rest"
    "seen ns b' = seen ns b \<union> set (concat Gs @ rest)" "distinct (concat Gs @ rest)" "set (concat Gs @ rest) \<inter> seen ns b = {}"
    "[] \<notin> set Gs" "ltree b' = add_groups ns entry (hd_set ns b) par dep Gs (ltree b)"
  using assms unfolding ran_def by blast+

lemma ran_trans:
  assumes a: "ran ns entry par dep b b1 Gs1 rest1" and b: "ran ns entry par dep b1 b2 Gs2 rest2"
  shows "ran ns entry par dep b b2 (Gs1 @ Gs2) (rest1 @ rest2)"
proof -
  note a = ranD [OF a] and b = ranD [OF b]
  have "set (concat Gs2 @ rest2) \<inter> set (concat Gs1 @ rest1) = {}" using b(6) a(4) by blast
  then show ?thesis
    unfolding ran_def using a b by (auto simp: add_groups_def)
qed

lemma ran_refl: "wstate ns b \<Longrightarrow> ran ns entry par dep b b [] []"
  by (simp add: ran_def add_groups_def)

subsection \<open>Closing a group\<close>

lemma scc_start_found:
  "cur \<notin> set rest \<Longrightarrow> scc_start (stk @ cur # rest) cur (length (stk @ cur # rest)) = Inr (length stk)"
proof -
  assume "cur \<notin> set rest"
  then have "scc_start (stk @ cur # rest) cur (Suc (length stk + k)) = Inr (length stk)" if "k \<le> length rest" for k
    using that
  proof (induction k)
    case 0
    then show ?case by (simp add: at_def)
  next
    case (Suc k)
    have "(stk @ cur # rest) ! Suc (length stk + k) = rest ! k" by (simp add: nth_append)
    moreover have "rest ! k \<noteq> cur" using Suc.prems by (metis Suc_le_lessD nth_mem)
    ultimately show ?case using Suc by (simp add: at_def)
  qed
  from this [of "length rest"] show ?thesis by simp
qed

lemma all_res_ok: "(\<And>x. x \<in> set xs \<Longrightarrow> f x = Inr (P x)) \<Longrightarrow> all_res f xs = Inr (\<forall>x \<in> set xs. P x)"
  by (induction xs) auto

lemma filter_res_ok: "(\<And>x. x \<in> set xs \<Longrightarrow> f x = Inr (P x)) \<Longrightarrow> filter_res f xs = Inr (filter P xs)"
  by (induction xs) auto

lemma scc_head_ok:
  assumes nb: "indexed ns" and len: "length (states b) = length ns" and n: "n < length ns"
    and scc: "\<And>m. m < length ns \<Longrightarrow> in_scc (st ns b m) = (m \<in> G)"
  shows "scc_head ns entry b n = Inr (n = entry \<or> (\<exists>e \<in> set (pred_edges (ns ! n)). esrc e \<notin> G))"
proof -
  have "require (n = edst e) (bind_res (state_of ns b (esrc e)) (\<lambda>s. Inr (in_scc s))) = Inr (esrc e \<in> G)"
    if "e \<in> set (pred_edges (ns ! n))" for e
    using linkedD(4,5) [OF indexedD(1) [OF nb] n that] scc by (simp add: state_of_ok [OF nb len])
  note all_res_ok [where P = "\<lambda>e. esrc e \<in> G", OF this]
  then show ?thesis using n by (auto simp: scc_head_def at_def)
qed

lemma is_leaf_ok:
  assumes nb: "indexed ns" and len: "length (states b) = length ns" and n: "n < length ns"
  shows "is_leaf ns b n k = Inr (k = 1 \<and> (is_head (st ns b n) \<or> n \<notin> successors ns n))"
proof -
  have "bind_res (state_of ns b (edst e)) (\<lambda>s. Inr (\<not> (\<not> is_head s \<and> n = edst e))) = Inr (\<not> (\<not> is_head (st ns b (edst e)) \<and> n = edst e))"
    if "e \<in> set (succ_edges (ns ! n))" for e
    using linkedD(2) [OF indexedD(1) [OF nb] n that] by (simp add: state_of_ok [OF nb len])
  from all_res_ok [where P = "\<lambda>e. \<not> (\<not> is_head (st ns b (edst e)) \<and> n = edst e)" and xs = "succ_edges (ns ! n)", OF this]
  show ?thesis using n by (auto simp: is_leaf_def at_def successors_def)
qed

lemma pop_scc_spec:
  assumes nb: "indexed ns" and ar: "all_reached ns entry" and w: "wstate ns b" and stk: "lstack b = stk @ cur # rest"
    and par: "par < length (ltree b)"
  obtains b' where "pop_scc ns entry cur par dep b = Inr b'" "wstate ns b'" "lstack b' = stk"
    "ltree b' = add_child par (group_node ns entry (hd_set ns b) par dep (cur # rest)) (ltree b)"
    "\<And>n. n < length ns \<Longrightarrow> is_head (st ns b' n) = is_head (st ns b n) \<and> in_set (st ns b' n) = in_set (st ns b n)
        \<and> dfs (st ns b' n) = dfs (st ns b n) \<and> low_link (st ns b' n) = low_link (st ns b n)"
proof -
  let ?G = "cur # rest"
  note wD = wstateD [OF w]
  have G: "set ?G \<subseteq> {..<length ns}" "distinct ?G" "set ?G \<inter> set stk = {}" using wD(2,3) stk by auto
  have start: "scc_start (lstack b) cur (length (lstack b)) = Inr (length stk)"
    unfolding stk by (rule scc_start_found) (use G(2) in simp)
  obtain b1 where b1: "set_states ns ?G (\<lambda>s. s\<lparr>in_scc := True\<rparr>) b = Inr b1" "lstack b1 = lstack b" "ltree b1 = ltree b"
    "length (states b1) = length ns"
    "\<And>m. m < length ns \<Longrightarrow> st ns b1 m = (if m \<in> set ?G then (st ns b m)\<lparr>in_scc := True\<rparr> else st ns b m)"
    by (rule set_states_ok [OF nb wD(1) G(1), of "\<lambda>s. s\<lparr>in_scc := True\<rparr>"]) auto
  have "in_scc (st ns b1 m) = (m \<in> set ?G)" if "m < length ns" for m using b1(5) [OF that] wD(5) [OF that] by simp
  note head = scc_head_ok [OF nb b1(4) _ this]
  have heads: "filter_res (scc_head ns entry b1) ?G = Inr (group_heads ns entry ?G)"
    unfolding group_heads_def by (rule filter_res_ok) (use head G(1) in auto)
  have cur: "cur < length ns" using G(1) by simp
  have leaf: "is_leaf ns b1 cur (length ?G) = Inr (group_leaf ns (hd_set ns b) ?G)"
    using is_leaf_ok [OF nb b1(4) cur, of "length ?G"] b1(5) [OF cur] cur by (auto simp: group_leaf_def hd_set_def)
  have one: "length (group_heads ns entry ?G) = 1" if "group_leaf ns (hd_set ns b) ?G"
    using that group_heads_single [OF nb ar cur] by (auto simp: group_leaf_def)
  let ?T = "add_child par (group_node ns entry (hd_set ns b) par dep ?G) (ltree b)"
  have tree: "(if group_leaf ns (hd_set ns b) ?G
      then require (length (group_heads ns entry ?G) = 1) (new_lf_node LF_LEAF (Some par) dep (group_heads ns entry ?G) (ltree b1))
      else new_lf_node LF_HEAD (Some par) dep (group_heads ns entry ?G) (ltree b1)) = Inr ?T"
    using one par by (auto simp: new_lf_node_def at_def add_child_def group_node_def b1(3))
  have "length (states (b1\<lparr>ltree := ?T\<rparr>)) = length ns" using b1(4) by simp
  obtain b2 where b2: "set_states ns ?G (\<lambda>s. s\<lparr>in_scc := False, on_stack := False\<rparr>) (b1\<lparr>ltree := ?T\<rparr>) = Inr b2"
    "lstack b2 = lstack b" "ltree b2 = ?T" "length (states b2) = length ns"
    "\<And>m. m < length ns \<Longrightarrow> st ns b2 m = (if m \<in> set ?G then (st ns b1 m)\<lparr>in_scc := False, on_stack := False\<rparr> else st ns b1 m)"
    by (rule set_states_ok [OF nb \<open>length (states (b1\<lparr>ltree := ?T\<rparr>)) = length ns\<close> G(1),
          of "\<lambda>s. s\<lparr>in_scc := False, on_stack := False\<rparr>"]) (auto simp: b1(2))
  show thesis
  proof
    show "pop_scc ns entry cur par dep b = Inr (b2\<lparr>lstack := stk\<rparr>)"
      using start heads leaf tree b1(1) b2(1,2) by (simp add: pop_scc_def Let_def stk)
    show "wstate ns (b2\<lparr>lstack := stk\<rparr>)"
      using wD b1(5) b2(4,5) stk G(3) by (auto simp: wstate_def seen_def)
  qed (use b2(3,5) b1(5) in auto)
qed

subsection \<open>The walk\<close>

text \<open>A set that the walk cannot leave.\<close>

definition closed_from :: "CFNode list \<Rightarrow> nat set \<Rightarrow> nat \<Rightarrow> nat set \<Rightarrow> bool" where
  "closed_from ns H cur Q \<longleftrightarrow> cur \<in> Q \<and> (\<forall>u \<in> Q. successors ns u - H \<subseteq> Q)"

definition low_bound :: "CFNode list \<Rightarrow> nat \<Rightarrow> LoopTreeBuilder \<Rightarrow> bool" where
  "low_bound ns m b \<longleftrightarrow> (\<forall>x \<in> set (lstack b) - hd_set ns b. m \<le> low_link (st ns b x))"

definition same_numbers :: "CFNode list \<Rightarrow> nat set \<Rightarrow> LoopTreeBuilder \<Rightarrow> LoopTreeBuilder \<Rightarrow> bool" where
  "same_numbers ns X b b' \<longleftrightarrow> (\<forall>x \<in> X. dfs (st ns b' x) = dfs (st ns b x) \<and> low_link (st ns b' x) = low_link (st ns b x))"

lemma same_numbersD: "same_numbers ns X b b' \<Longrightarrow> x \<in> X \<Longrightarrow> dfs (st ns b' x) = dfs (st ns b x)"
  "same_numbers ns X b b' \<Longrightarrow> x \<in> X \<Longrightarrow> low_link (st ns b' x) = low_link (st ns b x)"
  by (auto simp: same_numbers_def)

lemma same_numbers_trans:
  "same_numbers ns X b b1 \<Longrightarrow> same_numbers ns Y b1 b2 \<Longrightarrow> X \<subseteq> Y \<Longrightarrow> same_numbers ns X b b2"
  unfolding same_numbers_def by (metis subsetD)

text \<open>What a call has done when it returns: it entered \<open>cur\<close> with the number \<open>counter\<close>.\<close>

definition walk_post ::
  "CFNode list \<Rightarrow> nat \<Rightarrow> nat \<Rightarrow> nat \<Rightarrow> nat \<Rightarrow> nat \<Rightarrow> LoopTreeBuilder \<Rightarrow> nat \<Rightarrow> LoopTreeBuilder \<Rightarrow> nat list list \<Rightarrow> nat list \<Rightarrow> bool" where
  "walk_post ns entry par dep cur counter b counter' b' Gs rest \<longleftrightarrow>
     ran ns entry par dep b b' Gs rest \<and> counter < counter' \<and> cur \<in> set (concat Gs @ rest)
     \<and> (\<forall>u \<in> set (concat Gs @ rest). successors ns u \<subseteq> hd_set ns b \<union> seen ns b')
     \<and> (\<forall>Q. closed_from ns (hd_set ns b) cur Q \<longrightarrow> set (concat Gs @ rest) \<subseteq> Q)
     \<and> same_numbers ns (seen ns b) b b'
     \<and> low_link (st ns b' cur) \<le> counter \<and> (low_link (st ns b' cur) = counter \<longrightarrow> rest = [])
     \<and> (\<forall>m \<le> counter. low_bound ns m b \<longrightarrow> m \<le> low_link (st ns b' cur) \<and> low_bound ns m b')
     \<and> (cur \<in> hd_set ns b \<and> set (lstack b) \<subseteq> hd_set ns b \<longrightarrow> [cur] \<in> set Gs)"

lemma walk_postD:
  assumes "walk_post ns entry par dep cur counter b counter' b' Gs rest"
  shows "ran ns entry par dep b b' Gs rest" "counter < counter'" "cur \<in> set (concat Gs @ rest)"
    "u \<in> set (concat Gs @ rest) \<Longrightarrow> successors ns u \<subseteq> hd_set ns b \<union> seen ns b'"
    "closed_from ns (hd_set ns b) cur Q \<Longrightarrow> set (concat Gs @ rest) \<subseteq> Q"
    "same_numbers ns (seen ns b) b b'"
    "low_link (st ns b' cur) \<le> counter" "low_link (st ns b' cur) = counter \<Longrightarrow> rest = []"
    "m \<le> counter \<Longrightarrow> low_bound ns m b \<Longrightarrow> m \<le> low_link (st ns b' cur)"
    "m \<le> counter \<Longrightarrow> low_bound ns m b \<Longrightarrow> low_bound ns m b'"
    "cur \<in> hd_set ns b \<Longrightarrow> set (lstack b) \<subseteq> hd_set ns b \<Longrightarrow> [cur] \<in> set Gs"
  using assms unfolding walk_post_def by blast+

definition walk_pre :: "CFNode list \<Rightarrow> nat \<Rightarrow> nat \<Rightarrow> LoopTreeBuilder \<Rightarrow> nat \<Rightarrow> bool" where
  "walk_pre ns par cur b fuel \<longleftrightarrow> wstate ns b \<and> cur < length ns \<and> cur \<notin> seen ns b \<and> par < length (ltree b)
     \<and> card ({..<length ns} - seen ns b) \<le> fuel"

definition walks_well ::
  "CFNode list \<Rightarrow> nat \<Rightarrow> nat \<Rightarrow> nat \<Rightarrow> nat \<Rightarrow> (nat \<Rightarrow> nat \<Rightarrow> LoopTreeBuilder \<Rightarrow> (nat \<times> LoopTreeBuilder) result) \<Rightarrow> bool" where
  "walks_well ns entry par dep fuel walk \<longleftrightarrow>
     (\<forall>cur counter b. walk_pre ns par cur b fuel \<longrightarrow>
        (\<exists>counter' b' Gs rest. walk cur counter b = Inr (counter', b') \<and> walk_post ns entry par dep cur counter b counter' b' Gs rest))"

text \<open>Between two edges out of \<open>cur\<close>: \<open>b\<close> is the state before the call, \<open>b0\<close> that after entering \<open>cur\<close>.\<close>

definition going ::
  "CFNode list \<Rightarrow> nat \<Rightarrow> nat \<Rightarrow> nat \<Rightarrow> nat \<Rightarrow> nat \<Rightarrow> LoopTreeBuilder \<Rightarrow> LoopTreeBuilder \<Rightarrow> CFEdge list \<Rightarrow> nat \<Rightarrow> LoopTreeBuilder
   \<Rightarrow> nat list list \<Rightarrow> nat list \<Rightarrow> bool" where
  "going ns entry par dep cur counter b b0 es counter1 b1 Gs rest \<longleftrightarrow>
     ran ns entry par dep b0 b1 Gs rest \<and> counter < counter1
     \<and> (\<forall>u \<in> set (concat Gs @ rest). successors ns u \<subseteq> hd_set ns b \<union> seen ns b1)
     \<and> (\<forall>e \<in> set es. edst e \<in> hd_set ns b \<union> seen ns b1)
     \<and> (\<forall>Q. closed_from ns (hd_set ns b) cur Q \<longrightarrow> set (concat Gs @ rest) \<subseteq> Q)
     \<and> same_numbers ns (seen ns b) b b1 \<and> dfs (st ns b1 cur) = counter \<and> low_link (st ns b1 cur) \<le> counter
     \<and> (\<forall>m \<le> counter. low_bound ns m b \<longrightarrow> m \<le> low_link (st ns b1 cur) \<and> low_bound ns m b1)
     \<and> (cur \<in> hd_set ns b \<and> set (lstack b) \<subseteq> hd_set ns b \<longrightarrow> rest = [])"

lemma goingD:
  assumes "going ns entry par dep cur counter b b0 es counter1 b1 Gs rest"
  shows "ran ns entry par dep b0 b1 Gs rest" "counter < counter1"
    "u \<in> set (concat Gs @ rest) \<Longrightarrow> successors ns u \<subseteq> hd_set ns b \<union> seen ns b1"
    "e \<in> set es \<Longrightarrow> edst e \<in> hd_set ns b \<union> seen ns b1"
    "closed_from ns (hd_set ns b) cur Q \<Longrightarrow> set (concat Gs @ rest) \<subseteq> Q"
    "same_numbers ns (seen ns b) b b1" "dfs (st ns b1 cur) = counter" "low_link (st ns b1 cur) \<le> counter"
    "m \<le> counter \<Longrightarrow> low_bound ns m b \<Longrightarrow> m \<le> low_link (st ns b1 cur)"
    "m \<le> counter \<Longrightarrow> low_bound ns m b \<Longrightarrow> low_bound ns m b1"
    "cur \<in> hd_set ns b \<Longrightarrow> set (lstack b) \<subseteq> hd_set ns b \<Longrightarrow> rest = []"
  using assms unfolding going_def by blast+

text \<open>Lowering the number of a node changes nothing else.\<close>

lemma lower_facts:
  fixes k :: nat
  assumes nb: "indexed ns" and len: "length (states b) = length ns" and n: "n < length ns"
  defines "b' \<equiv> upd ns n (\<lambda>c. c\<lparr>low_link := k\<rparr>) b"
  shows "wstate ns b' = wstate ns b" "hd_set ns b' = hd_set ns b" "seen ns b' = seen ns b" "lstack b' = lstack b" "ltree b' = ltree b"
    "m < length ns \<Longrightarrow> dfs (st ns b' m) = dfs (st ns b m)"
    "m < length ns \<Longrightarrow> low_link (st ns b' m) = (if m = n then k else low_link (st ns b m))"
    "ran ns entry par dep b0 b Gs rest \<Longrightarrow> ran ns entry par dep b0 b' Gs rest"
proof -
  note u = st_upd [OF nb len n]
  show s: "hd_set ns b' = hd_set ns b" "seen ns b' = seen ns b" "lstack b' = lstack b" "ltree b' = ltree b"
    by (auto simp: b'_def hd_set_def seen_def u split: if_splits)
  show w: "wstate ns b' = wstate ns b"
    using s unfolding wstate_def by (auto simp: b'_def u len)
  show "m < length ns \<Longrightarrow> dfs (st ns b' m) = dfs (st ns b m)"
    "m < length ns \<Longrightarrow> low_link (st ns b' m) = (if m = n then k else low_link (st ns b m))"
    by (simp_all add: b'_def u)
  show "ran ns entry par dep b0 b Gs rest \<Longrightarrow> ran ns entry par dep b0 b' Gs rest"
    using s w unfolding ran_def by simp
qed

text \<open>After a call for a successor, or for one on the stack, the number of \<open>cur\<close> is lowered to that of the successor.\<close>

lemma going_lower:
  assumes nb: "indexed ns" and cur: "cur < length ns" "cur \<notin> seen ns b"
    and g: "going ns entry par dep cur counter b b0 es counter1 b1 Gs rest"
    and k: "\<And>m. m \<le> counter \<Longrightarrow> low_bound ns m b \<Longrightarrow> m \<le> k"
  shows "going ns entry par dep cur counter b b0 es counter1
           (upd ns cur (\<lambda>c. c\<lparr>low_link := min (low_link c) k\<rparr>) b1) Gs rest"
proof -
  note gD = goingD [OF g]
  have w: "wstate ns b1" using ranD(1) [OF gD(1)] .
  note len = wstateD(1) [OF w]
  let ?k = "min (low_link (st ns b1 cur)) k"
  have eq: "upd ns cur (\<lambda>c. c\<lparr>low_link := min (low_link c) k\<rparr>) b1 = upd ns cur (\<lambda>c. c\<lparr>low_link := ?k\<rparr>) b1"
    by (simp add: upd_def)
  note f = lower_facts [OF nb len cur(1), where k = ?k]
  let ?b = "upd ns cur (\<lambda>c. c\<lparr>low_link := ?k\<rparr>) b1"
  have inside: "\<And>x. x \<in> seen ns b \<Longrightarrow> x < length ns \<and> x \<noteq> cur" using cur by (auto simp: seen_def)
  have "same_numbers ns (seen ns b) b ?b"
    unfolding same_numbers_def
  proof
    show "dfs (st ns ?b x) = dfs (st ns b x) \<and> low_link (st ns ?b x) = low_link (st ns b x)" if "x \<in> seen ns b" for x
      using same_numbersD [OF gD(6) that] inside [OF that] f(6,7) [where m = x] by simp
  qed
  moreover have "m \<le> low_link (st ns ?b cur) \<and> low_bound ns m ?b" if "m \<le> counter" "low_bound ns m b" for m
  proof -
    have 1: "m \<le> ?k" using gD(9) [OF that] k [OF that] by simp
    have "m \<le> low_link (st ns ?b x)" if "x \<in> set (lstack b1) - hd_set ns b1" for x
    proof -
      have "x < length ns" using that wstateD(3) [OF w] by blast
      moreover have "m \<le> low_link (st ns b1 x)" using gD(10) [OF \<open>m \<le> counter\<close> \<open>low_bound ns m b\<close>] that by (simp add: low_bound_def)
      ultimately show ?thesis using 1 by (simp add: f(7))
    qed
    then have "low_bound ns m ?b" using f(2,4) by (simp add: low_bound_def)
    with 1 show ?thesis using f(7) [OF cur(1)] by simp
  qed
  moreover have "dfs (st ns ?b cur) = counter" "low_link (st ns ?b cur) \<le> counter"
    using gD(7,8) f(6,7) [OF cur(1)] by simp_all
  ultimately show ?thesis
    unfolding eq going_def f(3) using gD(2-5,11) f(8) [OF gD(1)] by blast
qed

lemma going_step:
  assumes "going ns entry par dep cur counter b b0 es counter1 b1 Gs rest" and "edst e \<in> hd_set ns b \<union> seen ns b1"
  shows "going ns entry par dep cur counter b b0 (es @ [e]) counter1 b1 Gs rest"
  using assms unfolding going_def by auto

lemma going_walk:
  assumes cur: "cur \<notin> seen ns b" and b0: "hd_set ns b0 = hd_set ns b" "seen ns b0 = insert cur (seen ns b)" "lstack b0 = lstack b @ [cur]"
    and g: "going ns entry par dep cur counter b b0 es counter1 b1 Gs rest"
    and w: "w \<in> successors ns cur" "w \<notin> hd_set ns b"
    and p: "walk_post ns entry par dep w counter1 b1 counter2 b2 Gs2 rest2"
  shows "going ns entry par dep cur counter b b0 es counter2 b2 (Gs @ Gs2) (rest @ rest2)"
    and "m \<le> counter \<Longrightarrow> low_bound ns m b \<Longrightarrow> m \<le> low_link (st ns b2 w)" and "w \<in> seen ns b2"
proof -
  note gD = goingD [OF g] and pD = walk_postD [OF p]
  note r1 = ranD [OF gD(1)] and r2 = ranD [OF pD(1)]
  have hd1: "hd_set ns b1 = hd_set ns b" using r1(2) b0(1) by simp
  have sub: "seen ns b \<subseteq> seen ns b1" "cur \<in> seen ns b1" "seen ns b1 \<subseteq> seen ns b2" using r1(4) r2(4) b0(2) by blast+
  show bound: "m \<le> low_link (st ns b2 w)" if "m \<le> counter" "low_bound ns m b" for m
    using pD(9) [of m] gD(10) [OF that] gD(2) that(1) by simp
  show "w \<in> seen ns b2" using pD(3) r2(4) by blast
  have closed: "closed_from ns (hd_set ns b1) w Q" if "closed_from ns (hd_set ns b) cur Q" for Q
    using that w unfolding closed_from_def hd1 by blast
  have set: "set (concat (Gs @ Gs2) @ rest @ rest2) = set (concat Gs @ rest) \<union> set (concat Gs2 @ rest2)" by auto
  have succ: "successors ns u \<subseteq> hd_set ns b \<union> seen ns b2" if "u \<in> set (concat (Gs @ Gs2) @ rest @ rest2)" for u
    using that unfolding set using gD(3) pD(4) sub(3) hd1 by blast
  have Q: "set (concat (Gs @ Gs2) @ rest @ rest2) \<subseteq> Q" if "closed_from ns (hd_set ns b) cur Q" for Q
    unfolding set using gD(5) [OF that] pD(5) [OF closed [OF that]] by blast
  have same: "same_numbers ns (seen ns b) b b2" using same_numbers_trans [OF gD(6) pD(6) sub(1)] .
  have num: "dfs (st ns b2 cur) = counter" "low_link (st ns b2 cur) = low_link (st ns b1 cur)"
    using same_numbersD [OF pD(6) sub(2)] gD(7) by simp_all
  have low: "m \<le> low_link (st ns b2 cur) \<and> low_bound ns m b2" if "m \<le> counter" "low_bound ns m b" for m
    using pD(10) [of m] gD(9,10) [OF that] gD(2) that(1) num(2) by simp
  have single: "rest @ rest2 = []" if "cur \<in> hd_set ns b" "set (lstack b) \<subseteq> hd_set ns b"
  proof -
    have r: "rest = []" using gD(11) that by blast
    then have "low_bound ns counter1 b1" using r1(3) b0(3) that hd1 by (auto simp: low_bound_def)
    then have "low_link (st ns b2 w) = counter1" using pD(7) pD(9) [of counter1] by simp
    then show ?thesis using pD(8) r by simp
  qed
  have edges: "\<forall>e \<in> set es. edst e \<in> hd_set ns b \<union> seen ns b2" using gD(4) sub(3) by blast
  show "going ns entry par dep cur counter b b0 es counter2 b2 (Gs @ Gs2) (rest @ rest2)"
    unfolding going_def
    using ran_trans [OF gD(1) pD(1)] gD(2,8) pD(2) succ edges Q same num low single by auto
qed

text \<open>Entering a node.\<close>

lemma visit_spec:
  assumes nb: "indexed ns" and w: "wstate ns b" and cur: "cur < length ns" "cur \<notin> seen ns b"
  obtains b0 where "visit ns cur counter b = Inr (counter + 1, b0)" "wstate ns b0" "hd_set ns b0 = hd_set ns b"
    "seen ns b0 = insert cur (seen ns b)" "lstack b0 = lstack b @ [cur]" "ltree b0 = ltree b"
    "dfs (st ns b0 cur) = counter" "low_link (st ns b0 cur) = counter" "same_numbers ns (seen ns b) b b0"
proof -
  let ?f = "\<lambda>s. s\<lparr>in_set := True, dfs := counter, low_link := counter, on_stack := True\<rparr>"
  let ?b0 = "(upd ns cur ?f b)\<lparr>lstack := lstack b @ [cur]\<rparr>"
  note wD = wstateD [OF w]
  note u = st_upd [OF nb wD(1) cur(1)]
  have new: "cur \<notin> set (lstack b)" using wD(6) cur(2) by blast
  have seen: "seen ns ?b0 = insert cur (seen ns b)" using cur(1) by (auto simp: seen_def u split: if_splits)
  show thesis
  proof
    show "visit ns cur counter b = Inr (counter + 1, ?b0)" by (simp add: visit_def set_state_ok [OF nb wD(1) cur(1)])
    show "wstate ns ?b0" unfolding wstate_def seen using wD new cur(1) by (auto simp: u)
    show "hd_set ns ?b0 = hd_set ns b" using cur(1) by (auto simp: hd_set_def u split: if_splits)
    show "same_numbers ns (seen ns b) b ?b0" using cur(2) by (auto simp: same_numbers_def seen_def u)
  qed (use seen cur(1) in \<open>simp_all add: u\<close>)
qed

lemma going_start:
  assumes nb: "indexed ns" and w: "wstate ns b" and cur: "cur < length ns" "cur \<notin> seen ns b"
    and b0: "wstate ns b0" "hd_set ns b0 = hd_set ns b" "lstack b0 = lstack b @ [cur]"
      "dfs (st ns b0 cur) = counter" "low_link (st ns b0 cur) = counter" "same_numbers ns (seen ns b) b b0"
  shows "going ns entry par dep cur counter b b0 [] (counter + 1) b0 [] []"
proof -
  have "low_bound ns m b0" if "m \<le> counter" "low_bound ns m b" for m
  proof -
    have "m \<le> low_link (st ns b0 x)" if "x \<in> set (lstack b) - hd_set ns b" for x
      using that \<open>low_bound ns m b\<close> same_numbersD(2) [OF b0(6), of x] wstateD(6) [OF w] by (auto simp: low_bound_def)
    then show ?thesis using b0(2,3,5) that(1) by (auto simp: low_bound_def)
  qed
  then show ?thesis unfolding going_def using ran_refl [OF b0(1)] b0(4-6) by auto
qed

lemma walk_succ_spec:
  assumes nb: "indexed ns" and walks: "walks_well ns entry par dep fuel walk" and cur: "cur < length ns" "cur \<notin> seen ns b"
    and b0: "hd_set ns b0 = hd_set ns b" "seen ns b0 = insert cur (seen ns b)" "lstack b0 = lstack b @ [cur]"
    and room: "card ({..<length ns} - seen ns b0) \<le> fuel" "par < length (ltree b0)"
    and g: "going ns entry par dep cur counter b b0 es counter1 b1 Gs rest" and e: "e \<in> set (succ_edges (ns ! cur))"
  shows "\<exists>counter2 b2 Gs2 rest2. walk_succ walk ns cur e (counter1, b1) = Inr (counter2, b2)
           \<and> going ns entry par dep cur counter b b0 (es @ [e]) counter2 b2 Gs2 rest2"
proof -
  let ?w = "edst e"
  note gD = goingD [OF g]
  note r = ranD [OF gD(1)]
  note len = wstateD(1) [OF r(1)]
  have w: "?w < length ns" using linkedD(2) [OF indexedD(1) [OF nb] cur(1) e] .
  have ws: "?w \<in> successors ns cur" using e by (auto simp: successors_def)
  have hd1: "hd_set ns b1 = hd_set ns b" using r(2) b0(1) by simp
  note so = state_of_ok [OF nb _ w] state_of_ok [OF nb _ cur(1)] set_state_ok [OF nb _ cur(1)]
  consider "is_head (st ns b1 ?w)" | "\<not> is_head (st ns b1 ?w)" "\<not> in_set (st ns b1 ?w)"
    | "\<not> is_head (st ns b1 ?w)" "in_set (st ns b1 ?w)" "on_stack (st ns b1 ?w)"
    | "\<not> is_head (st ns b1 ?w)" "in_set (st ns b1 ?w)" "\<not> on_stack (st ns b1 ?w)" by blast
  then show ?thesis
  proof cases
    case 1
    then have "?w \<in> hd_set ns b" using w hd1 by (auto simp: hd_set_def)
    with 1 going_step [OF g] show ?thesis by (auto simp: walk_succ_def so(1) [OF len])
  next
    case 2
    have wh: "?w \<notin> hd_set ns b" "?w \<notin> seen ns b1" using 2 w hd1 by (auto simp: hd_set_def seen_def)
    have "card ({..<length ns} - seen ns b1) \<le> card ({..<length ns} - seen ns b0)"
      using r(4) by (intro card_mono) auto
    moreover have "par < length (ltree b1)" using r(8) room(2) by simp
    ultimately have "walk_pre ns par ?w b1 fuel" using r(1) w wh(2) room(1) by (simp add: walk_pre_def)
    with walks obtain c2 b2 Gs2 rest2 where walk: "walk ?w counter1 b1 = Inr (c2, b2)"
      and post: "walk_post ns entry par dep ?w counter1 b1 c2 b2 Gs2 rest2"
      unfolding walks_well_def by blast
    note gw = going_walk [OF cur(2) b0 g ws wh(1) post]
    have len2: "length (states b2) = length ns" using wstateD(1) [OF ranD(1) [OF walk_postD(1) [OF post]]] .
    have "going ns entry par dep cur counter b b0 (es @ [e]) c2
        (upd ns cur (\<lambda>c. c\<lparr>low_link := min (low_link c) (low_link (st ns b2 ?w))\<rparr>) b2) (Gs @ Gs2) (rest @ rest2)"
      by (rule going_lower [OF nb cur going_step [OF gw(1)]]) (use gw(2,3) in auto)
    with 2 walk show ?thesis by (auto simp: walk_succ_def lower_link_def so(1) [OF len] so(1) [OF len2] so(3) [OF len2])
  next
    case 3
    then have "?w \<in> set (lstack b1) - hd_set ns b1" using wstateD(4) [OF r(1) w] by (simp add: hd_set_def)
    then have k: "m \<le> low_link (st ns b1 ?w)" if "m \<le> counter" "low_bound ns m b" for m
      using gD(10) [OF that] by (simp add: low_bound_def)
    have "?w \<in> seen ns b1" using 3(2) w by (simp add: seen_def)
    then have "going ns entry par dep cur counter b b0 (es @ [e]) counter1
        (upd ns cur (\<lambda>c. c\<lparr>low_link := min (low_link c) (low_link (st ns b1 ?w))\<rparr>) b1) Gs rest"
      by (intro going_lower [OF nb cur going_step [OF g]] k) auto
    with 3 show ?thesis by (auto simp: walk_succ_def lower_link_def so(1) [OF len] so(3) [OF len])
  next
    case 4
    then have "?w \<in> seen ns b1" using w by (simp add: seen_def)
    with 4 going_step [OF g] show ?thesis by (auto simp: walk_succ_def so(1) [OF len])
  qed
qed

lemma walk_succs_spec:
  assumes nb: "indexed ns" and walks: "walks_well ns entry par dep fuel walk" and cur: "cur < length ns" "cur \<notin> seen ns b"
    and b0: "hd_set ns b0 = hd_set ns b" "seen ns b0 = insert cur (seen ns b)" "lstack b0 = lstack b @ [cur]"
    and room: "card ({..<length ns} - seen ns b0) \<le> fuel" "par < length (ltree b0)"
  shows "going ns entry par dep cur counter b b0 es counter1 b1 Gs rest \<Longrightarrow> set es' \<subseteq> set (succ_edges (ns ! cur))
    \<Longrightarrow> \<exists>counter2 b2 Gs2 rest2. fold_res (walk_succ walk ns cur) es' (counter1, b1) = Inr (counter2, b2)
           \<and> going ns entry par dep cur counter b b0 (es @ es') counter2 b2 Gs2 rest2"
proof (induction es' arbitrary: es counter1 b1 Gs rest)
  case (Cons e es')
  have "e \<in> set (succ_edges (ns ! cur))" using Cons.prems(2) by simp
  from walk_succ_spec [OF nb walks cur b0 room Cons.prems(1) this] obtain c2 b2 Gs2 rest2 where
    s: "walk_succ walk ns cur e (counter1, b1) = Inr (c2, b2)"
    and g: "going ns entry par dep cur counter b b0 (es @ [e]) c2 b2 Gs2 rest2" by blast
  from Cons.IH [OF g] Cons.prems(2) show ?case by (simp add: s)
qed auto

text \<open>At the end of a call: the node stays on the stack, or it closes a group.\<close>

lemma going_ends:
  assumes cur: "cur < length ns" "cur \<notin> seen ns b"
    and b0: "hd_set ns b0 = hd_set ns b" "seen ns b0 = insert cur (seen ns b)" "lstack b0 = lstack b @ [cur]" "ltree b0 = ltree b"
    and g: "going ns entry par dep cur counter b b0 (succ_edges (ns ! cur)) counter1 b1 Gs rest"
    and r: "ran ns entry par dep b b' Gs' rest'" and set: "set (concat Gs' @ rest') = insert cur (set (concat Gs @ rest))"
    and same: "seen ns b' = seen ns b1" "same_numbers ns (insert cur (seen ns b \<union> set (lstack b'))) b1 b'" "set (lstack b') \<subseteq> set (lstack b1)"
    and rest: "low_link (st ns b1 cur) = counter \<Longrightarrow> rest' = []"
    and single: "cur \<in> hd_set ns b \<Longrightarrow> set (lstack b) \<subseteq> hd_set ns b \<Longrightarrow> [cur] \<in> set Gs'"
  shows "walk_post ns entry par dep cur counter b counter1 b' Gs' rest'"
proof -
  note gD = goingD [OF g] and rD = ranD [OF r]
  note r1 = ranD [OF gD(1)]
  have hd': "hd_set ns b' = hd_set ns b1" using rD(2) r1(2) b0(1) by simp
  have low: "low_link (st ns b' cur) = low_link (st ns b1 cur)" using same_numbersD(2) [OF same(2)] by simp
  have succ: "successors ns u \<subseteq> hd_set ns b \<union> seen ns b'" if "u \<in> set (concat Gs' @ rest')" for u
  proof (cases "u = cur")
    case True
    then show ?thesis using gD(4) same(1) by (auto simp: successors_def)
  next
    case False
    then show ?thesis using that gD(3) unfolding set same(1) by blast
  qed
  have Q: "set (concat Gs' @ rest') \<subseteq> Q" if "closed_from ns (hd_set ns b) cur Q" for Q
    using gD(5) [OF that] that unfolding set closed_from_def by blast
  have nums: "same_numbers ns (seen ns b) b b'"
    using gD(6) same(2) by (auto simp: same_numbers_def)
  have bound: "m \<le> low_link (st ns b' cur) \<and> low_bound ns m b'" if "m \<le> counter" "low_bound ns m b" for m
  proof -
    have "m \<le> low_link (st ns b' x)" if "x \<in> set (lstack b') - hd_set ns b1" for x
      using gD(10) [OF \<open>m \<le> counter\<close> \<open>low_bound ns m b\<close>] same_numbersD(2) [OF same(2), of x] that same(3)
      by (auto simp: low_bound_def)
    then show ?thesis using gD(9) [OF that] low hd' by (simp add: low_bound_def)
  qed
  show ?thesis
    unfolding walk_post_def using r gD(2) set succ Q nums low gD(8) rest bound single by auto
qed

lemma walk_scc_well:
  assumes nb: "indexed ns" and ar: "all_reached ns entry"
  shows "walks_well ns entry par dep fuel (walk_scc fuel ns entry par dep)"
proof (induction fuel)
  case 0
  have "False" if "walk_pre ns par cur b 0" for cur b
  proof -
    have "cur \<in> {..<length ns} - seen ns b" using that by (auto simp: walk_pre_def)
    moreover have "card ({..<length ns} - seen ns b) = 0" using that by (simp add: walk_pre_def)
    ultimately show False by (metis card_0_eq empty_iff finite_Diff finite_lessThan)
  qed
  then show ?case by (auto simp: walks_well_def)
next
  case (Suc fuel)
  have "\<exists>counter' b' Gs rest. walk_scc (Suc fuel) ns entry par dep cur counter b = Inr (counter', b')
      \<and> walk_post ns entry par dep cur counter b counter' b' Gs rest" if pre: "walk_pre ns par cur b (Suc fuel)" for cur counter b
  proof -
    have w: "wstate ns b" and cur: "cur < length ns" "cur \<notin> seen ns b" and par: "par < length (ltree b)"
      and room: "card ({..<length ns} - seen ns b) \<le> Suc fuel"
      using pre by (auto simp: walk_pre_def)
    obtain b0 where b0: "visit ns cur counter b = Inr (counter + 1, b0)" "wstate ns b0" "hd_set ns b0 = hd_set ns b"
      "seen ns b0 = insert cur (seen ns b)" "lstack b0 = lstack b @ [cur]" "ltree b0 = ltree b"
      "dfs (st ns b0 cur) = counter" "low_link (st ns b0 cur) = counter" "same_numbers ns (seen ns b) b b0"
      by (rule visit_spec [OF nb w cur])
    have "{..<length ns} - seen ns b0 \<subset> {..<length ns} - seen ns b" using b0(4) cur by blast
    then have "card ({..<length ns} - seen ns b0) < card ({..<length ns} - seen ns b)" by (intro psubset_card_mono) simp_all
    with room have room0: "card ({..<length ns} - seen ns b0) \<le> fuel" by linarith
    have par0: "par < length (ltree b0)" using par b0(6) by simp
    from walk_succs_spec [OF nb Suc.IH cur b0(3-5) room0 par0 going_start [OF nb w cur b0(2,3,5,7-9)], of "succ_edges (ns ! cur)"]
    obtain c1 b1 Gs rest where f: "fold_res (walk_succ (walk_scc fuel ns entry par dep) ns cur) (succ_edges (ns ! cur)) (counter + 1, b0)
        = Inr (c1, b1)" and g: "going ns entry par dep cur counter b b0 (succ_edges (ns ! cur)) c1 b1 Gs rest" by auto
    note gD = goingD [OF g]
    note r = ranD [OF gD(1)]
    have hd1: "hd_set ns b1 = hd_set ns b" using r(2) b0(3) by simp
    have stk: "lstack b1 = lstack b @ cur # rest" using r(3) b0(5) by simp
    have new: "cur \<notin> set (concat Gs @ rest)" "set (concat Gs @ rest) \<inter> seen ns b = {}" using r(6) b0(4) by blast+
    have so: "state_of ns b1 cur = Inr (st ns b1 cur)" using state_of_ok [OF nb wstateD(1) [OF r(1)] cur(1)] .
    note ends = going_ends [OF cur b0(3-6) g]
    show ?thesis
    proof (cases "low_link (st ns b1 cur) = counter")
      case True
      have "par < length (ltree b1)" using r(8) par0 by simp
      from pop_scc_spec [OF nb ar r(1) stk this, of dep] obtain b' where
        b': "pop_scc ns entry cur par dep b1 = Inr b'" "wstate ns b'" "lstack b' = lstack b"
        "ltree b' = add_child par (group_node ns entry (hd_set ns b1) par dep (cur # rest)) (ltree b1)"
        and fields: "\<And>n. n < length ns \<Longrightarrow> is_head (st ns b' n) = is_head (st ns b1 n) \<and> in_set (st ns b' n) = in_set (st ns b1 n)
          \<and> dfs (st ns b' n) = dfs (st ns b1 n) \<and> low_link (st ns b' n) = low_link (st ns b1 n)" by blast
      have hd': "hd_set ns b' = hd_set ns b1" "seen ns b' = seen ns b1" using fields by (auto simp: hd_set_def seen_def)
      have tree: "ltree b' = add_groups ns entry (hd_set ns b) par dep (Gs @ [cur # rest]) (ltree b)"
        using b'(4) r(8) hd1 b0(3,6) by (simp add: add_groups_def)
      have ran: "ran ns entry par dep b b' (Gs @ [cur # rest]) []"
        unfolding ran_def using b'(2,3) hd' hd1 r(4,5,7) b0(4) new tree cur(2) by auto
      have "insert cur (seen ns b \<union> set (lstack b')) \<subseteq> {..<length ns}"
        using cur(1) b'(3) wstateD(3) [OF w] by (auto simp: seen_def)
      then have "same_numbers ns (insert cur (seen ns b \<union> set (lstack b'))) b1 b'"
        using fields unfolding same_numbers_def by blast
      with ran b'(3) stk hd' gD(11) have "walk_post ns entry par dep cur counter b c1 b' (Gs @ [cur # rest]) []"
        by (intro ends) auto
      with True b0(1) cur(1) f so gD(7) b'(1) show ?thesis by (auto simp: at_def)
    next
      case False
      have "ran ns entry par dep b b1 Gs (cur # rest)"
        unfolding ran_def using r hd1 stk b0(3,4,6) new cur(2) by auto
      moreover have "\<not> (cur \<in> hd_set ns b \<and> set (lstack b) \<subseteq> hd_set ns b)"
      proof
        assume a: "cur \<in> hd_set ns b \<and> set (lstack b) \<subseteq> hd_set ns b"
        then have "low_bound ns counter b" by (auto simp: low_bound_def)
        then have "counter \<le> low_link (st ns b1 cur)" using gD(9) [of counter] by simp
        with gD(8) False show False by simp
      qed
      ultimately have "walk_post ns entry par dep cur counter b c1 b1 Gs (cur # rest)"
        using False by (intro ends) (auto simp: same_numbers_def)
      with False b0(1) cur(1) f so gD(7) show ?thesis by (auto simp: at_def)
    qed
  qed
  then show ?case unfolding walks_well_def by blast
qed

end
