(* ===== verification/IrLoopBuild.thy ===== *)
theory IrLoopBuild
  imports IrLoopWalk
begin

text \<open>
  The recursion of \<^verbatim>\<open>recurse\<close>: the walks from the heads of a loop split its body into groups; a group that is a loop has
  fewer nodes that are not known as heads, so the recursion ends, and in the end every node of the body has one leaf.
\<close>

subsection \<open>Appending children\<close>

text \<open>The children of one node: whether each is a leaf, and its group.\<close>

definition child_node :: "CFNode list \<Rightarrow> nat \<Rightarrow> nat \<Rightarrow> nat \<Rightarrow> bool \<times> nat list \<Rightarrow> LTNode" where
  "child_node ns entry par dep k =
     \<lparr>ltype = (if fst k then LF_LEAF else LF_HEAD), lparent = Some par, lcf_nodes = group_heads ns entry (snd k),
      ldepth = dep, lf_children = []\<rparr>"

definition add_kids :: "CFNode list \<Rightarrow> nat \<Rightarrow> nat \<Rightarrow> nat \<Rightarrow> (bool \<times> nat list) list \<Rightarrow> LTNode list \<Rightarrow> LTNode list" where
  "add_kids ns entry par dep ks tree =
     tree[par := (tree ! par)\<lparr>lf_children := lf_children (tree ! par) @ [length tree..<length tree + length ks]\<rparr>]
     @ map (child_node ns entry par dep) ks"

lemma add_kids_simps:
  assumes "par < length tree"
  shows "length (add_kids ns entry par dep ks tree) = length tree + length ks"
    "add_kids ns entry par dep ks tree ! par
       = (tree ! par)\<lparr>lf_children := lf_children (tree ! par) @ [length tree..<length tree + length ks]\<rparr>"
    "i < length tree \<Longrightarrow> i \<noteq> par \<Longrightarrow> add_kids ns entry par dep ks tree ! i = tree ! i"
    "k < length ks \<Longrightarrow> add_kids ns entry par dep ks tree ! (length tree + k) = child_node ns entry par dep (ks ! k)"
  using assms by (auto simp: add_kids_def nth_append)

lemma add_kids_append:
  assumes "par < length tree"
  shows "add_kids ns entry par dep ks2 (add_kids ns entry par dep ks1 tree) = add_kids ns entry par dep (ks1 @ ks2) tree"
proof -
  let ?n = "length tree" and ?m = "length ks1"
  have "[?n..<?n + ?m] @ [?n + ?m..<?n + (?m + length ks2)] = [?n..<?n + (?m + length ks2)]"
    using upt_add_eq_append [of ?n "?n + ?m" "length ks2"] by (simp add: add.assoc)
  then show ?thesis using assms by (simp add: add_kids_def nth_append list_update_append add.assoc)
qed

lemma add_groups_kids:
  assumes "par < length tree"
  shows "add_groups ns entry H par dep Gs tree = add_kids ns entry par dep (map (\<lambda>G. (group_leaf ns H G, G)) Gs) tree"
  using assms
proof (induction Gs arbitrary: tree)
  case Nil
  then show ?case by (simp add: add_groups_def add_kids_def)
next
  case (Cons G Gs)
  have "add_child par (group_node ns entry H par dep G) tree = add_kids ns entry par dep [(group_leaf ns H G, G)] tree"
    by (simp add: add_child_def add_kids_def child_node_def group_node_def)
  with Cons add_kids_append [of par tree ns entry dep _ "[(group_leaf ns H G, G)]"] show ?case
    by (simp add: add_groups_def add_kids_simps)
qed

subsection \<open>The walk from one head\<close>

definition idle :: "CFNode list \<Rightarrow> LoopTreeBuilder \<Rightarrow> bool" where
  "idle ns b \<longleftrightarrow> wstate ns b \<and> lstack b = []"

lemma clear_set_facts:
  assumes nb: "indexed ns" and i: "idle ns b"
  shows "wstate ns (clear_set b)" "seen ns (clear_set b) = {}" "hd_set ns (clear_set b) = hd_set ns b"
    "lstack (clear_set b) = []" "ltree (clear_set b) = ltree b"
proof -
  have len: "length (states b) = length ns" using i by (auto simp: idle_def wstate_def)
  have st: "st ns (clear_set b) n = (st ns b n)\<lparr>in_set := False\<rparr>" if "n < length ns" for n
    using indexedD(2) [OF nb that] len by (simp add: st_def clear_set_def)
  show "seen ns (clear_set b) = {}" "hd_set ns (clear_set b) = hd_set ns b" "lstack (clear_set b) = []" "ltree (clear_set b) = ltree b"
    using st i by (auto simp: seen_def hd_set_def clear_set_def idle_def)
  then show "wstate ns (clear_set b)"
    using st i len unfolding idle_def wstate_def by (auto simp: clear_set_def)
qed

lemma walk_top:
  assumes nb: "indexed ns" and ar: "all_reached ns entry" and i: "idle ns b" and h: "h < length ns" and par: "par < length (ltree b)"
  obtains c b' Gs where "walk_scc (length ns + 1) ns entry par dep h 0 (clear_set b) = Inr (c, b')" "idle ns b'"
    "hd_set ns b' = hd_set ns b"
    "ltree b' = add_kids ns entry par dep (map (\<lambda>G. (group_leaf ns (hd_set ns b) G, G)) Gs) (ltree b)"
    "distinct (concat Gs)" "[] \<notin> set Gs" "h \<in> set (concat Gs)" "set (concat Gs) \<subseteq> {..<length ns}"
    "\<And>u. u \<in> set (concat Gs) \<Longrightarrow> successors ns u \<subseteq> hd_set ns b \<union> set (concat Gs)"
    "\<And>Q. closed_from ns (hd_set ns b) h Q \<Longrightarrow> set (concat Gs) \<subseteq> Q"
    "h \<in> hd_set ns b \<Longrightarrow> [h] \<in> set Gs"
proof -
  note c = clear_set_facts [OF nb i]
  have "walk_pre ns par h (clear_set b) (length ns + 1)" using c h par by (simp add: walk_pre_def)
  with walk_scc_well [OF nb ar, of par dep "length ns + 1"] obtain c' b' Gs rest where
    w: "walk_scc (length ns + 1) ns entry par dep h 0 (clear_set b) = Inr (c', b')"
    and p: "walk_post ns entry par dep h 0 (clear_set b) c' b' Gs rest"
    unfolding walks_well_def by blast
  note pD = walk_postD [OF p, unfolded c]
  note r = ranD [OF pD(1), unfolded c]
  have rest: "rest = []" using pD(7,8) by simp
  have inside: "set (concat Gs) \<subseteq> {..<length ns}"
    using r(4) rest by (auto simp: seen_def)
  show thesis
  proof
    show "idle ns b'" using r(1,3) rest by (simp add: idle_def)
    show "ltree b' = add_kids ns entry par dep (map (\<lambda>G. (group_leaf ns (hd_set ns b) G, G)) Gs) (ltree b)"
      using r(8) add_groups_kids [OF par] by simp
    show "successors ns u \<subseteq> hd_set ns b \<union> set (concat Gs)" if "u \<in> set (concat Gs)" for u
      using pD(4) [of u] that r(4) rest by simp
    show "set (concat Gs) \<subseteq> Q" if "closed_from ns (hd_set ns b) h Q" for Q using pD(5) [OF that] rest by simp
  qed (use w r pD(3,11) rest inside in auto)
qed

text \<open>The heads of groups.\<close>

definition all_heads :: "CFNode list \<Rightarrow> nat \<Rightarrow> (bool \<times> nat list) list \<Rightarrow> nat set" where
  "all_heads ns entry ks = (\<Union>k \<in> set ks. set (group_heads ns entry (snd k)))"

lemma map_res_at_children:
  "map_res (at (xs @ ys)) [length xs..<length xs + length ys] = Inr ys"
proof -
  have "list_all2 (\<lambda>i y. at (xs @ ys) i = Inr y) [length xs..<length xs + length ys] ys"
    by (auto simp: list_all2_conv_all_nth at_def nth_append)
  then show ?thesis by (simp add: map_res_Inr)
qed

lemma walk_head_spec:
  assumes nb: "indexed ns" and ar: "all_reached ns entry" and i: "idle ns b" and h: "h < length ns" and par: "par < length (ltree b)"
  obtains b' Gs ks where "walk_head ns entry par dep h b = Inr b'" "idle ns b'"
    "ks = map (\<lambda>G. (group_leaf ns (hd_set ns b) G, G)) Gs"
    "hd_set ns b' = hd_set ns b \<union> all_heads ns entry ks" "ltree b' = add_kids ns entry par dep ks (ltree b)"
    "distinct (concat Gs)" "[] \<notin> set Gs" "h \<in> set (concat Gs)" "set (concat Gs) \<subseteq> {..<length ns}"
    "\<And>u. u \<in> set (concat Gs) \<Longrightarrow> successors ns u \<subseteq> hd_set ns b \<union> set (concat Gs)"
    "\<And>Q. closed_from ns (hd_set ns b) h Q \<Longrightarrow> set (concat Gs) \<subseteq> Q"
    "h \<in> hd_set ns b \<Longrightarrow> [h] \<in> set Gs"
proof -
  obtain c b1 Gs where w: "walk_scc (length ns + 1) ns entry par dep h 0 (clear_set b) = Inr (c, b1)" "idle ns b1"
    "hd_set ns b1 = hd_set ns b"
    "ltree b1 = add_kids ns entry par dep (map (\<lambda>G. (group_leaf ns (hd_set ns b) G, G)) Gs) (ltree b)"
    "distinct (concat Gs)" "[] \<notin> set Gs" "h \<in> set (concat Gs)" "set (concat Gs) \<subseteq> {..<length ns}"
    "\<And>u. u \<in> set (concat Gs) \<Longrightarrow> successors ns u \<subseteq> hd_set ns b \<union> set (concat Gs)"
    "\<And>Q. closed_from ns (hd_set ns b) h Q \<Longrightarrow> set (concat Gs) \<subseteq> Q"
    "h \<in> hd_set ns b \<Longrightarrow> [h] \<in> set Gs"
    by (rule walk_top [OF nb ar i h par, of dep]) (rule that)
  let ?ks = "map (\<lambda>G. (group_leaf ns (hd_set ns b) G, G)) Gs"
  let ?kids = "map (child_node ns entry par dep) ?ks"
  have tree: "at (ltree b) par = Inr (ltree b ! par)" "at (ltree b1) par = Inr (ltree b1 ! par)"
    "drop (length (lf_children (ltree b ! par))) (lf_children (ltree b1 ! par)) = [length (ltree b)..<length (ltree b) + length ?ks]"
    using par add_kids_simps [OF par] by (simp_all add: at_def w(4))
  have kids: "map_res (at (ltree b1)) [length (ltree b)..<length (ltree b) + length ?ks] = Inr ?kids"
    unfolding w(4) add_kids_def using map_res_at_children [of "list_update _ _ _" ?kids] by simp
  let ?hs = "concat (map lcf_nodes ?kids)"
  have hs: "set ?hs = all_heads ns entry ?ks" by (auto simp: all_heads_def child_node_def)
  have in_hs: "set ?hs \<subseteq> {..<length ns}" using w(8) unfolding hs by (auto simp: all_heads_def group_heads_def)
  have i1: "wstate ns b1" "lstack b1 = []" using w(2) by (auto simp: idle_def)
  obtain b2 where b2: "set_states ns ?hs (\<lambda>s. s\<lparr>is_head := True\<rparr>) b1 = Inr b2" "lstack b2 = lstack b1" "ltree b2 = ltree b1"
    "length (states b2) = length ns"
    "\<And>m. m < length ns \<Longrightarrow> st ns b2 m = (if m \<in> set ?hs then (st ns b1 m)\<lparr>is_head := True\<rparr> else st ns b1 m)"
    by (rule set_states_ok [OF nb wstateD(1) [OF i1(1)] in_hs, of "\<lambda>s. s\<lparr>is_head := True\<rparr>"]) auto
  have idle: "idle ns b2"
    using i1 b2(2,4,5) by (auto simp: idle_def wstate_def)
  have hd2: "hd_set ns b2 = hd_set ns b \<union> all_heads ns entry ?ks"
    using b2(5) in_hs w(3) unfolding hs by (auto simp: hd_set_def split: if_splits)
  have run: "walk_head ns entry par dep h b = Inr b2"
    unfolding walk_head_def by (simp only: w(1) tree kids b2(1) bind_res_simps prod.case)
  show thesis
    by (rule that [OF run idle refl hd2 _ w(5-)]) (use b2(3) w(4) in auto)
qed

subsection \<open>The body of a loop\<close>

text \<open>A part \<open>P\<close> of the graph that is entered at the heads \<open>Hd\<close> only, and left through known heads \<open>H\<close>.\<close>

definition body_of :: "CFNode list \<Rightarrow> nat \<Rightarrow> nat set \<Rightarrow> nat list \<Rightarrow> nat set \<Rightarrow> bool" where
  "body_of ns entry P Hd H \<longleftrightarrow> P \<subseteq> {..<length ns} \<and> set Hd \<subseteq> P \<and> distinct Hd \<and> (entry \<in> P \<longrightarrow> entry \<in> set Hd)
     \<and> (\<forall>u < length ns. u \<notin> P \<longrightarrow> successors ns u \<inter> P \<subseteq> set Hd) \<and> H \<inter> P \<subseteq> set Hd
     \<and> (\<forall>u \<in> P. successors ns u \<subseteq> P \<union> H) \<and> (set Hd \<subseteq> H \<or> (\<exists>h. Hd = [h]))"

lemma body_ofD:
  assumes "body_of ns entry P Hd H"
  shows "P \<subseteq> {..<length ns}" "set Hd \<subseteq> P" "distinct Hd" "entry \<in> P \<Longrightarrow> entry \<in> set Hd"
    "u < length ns \<Longrightarrow> u \<notin> P \<Longrightarrow> successors ns u \<inter> P \<subseteq> set Hd" "H \<inter> P \<subseteq> set Hd"
    "u \<in> P \<Longrightarrow> successors ns u \<subseteq> P \<union> H" "set Hd \<subseteq> H \<or> (\<exists>h. Hd = [h])"
  using assms unfolding body_of_def by blast+

definition kid_nodes :: "(bool \<times> nat list) list \<Rightarrow> nat list" where
  "kid_nodes ks = concat (map snd ks)"

text \<open>After the walks from the heads \<open>hs\<close> of a body, from a state \<open>b\<close> to \<open>b'\<close>.\<close>

definition splits ::
  "CFNode list \<Rightarrow> nat \<Rightarrow> nat \<Rightarrow> nat \<Rightarrow> nat set \<Rightarrow> LoopTreeBuilder \<Rightarrow> nat list \<Rightarrow> (bool \<times> nat list) list \<Rightarrow> LoopTreeBuilder \<Rightarrow> bool" where
  "splits ns entry par dep P b hs ks b' \<longleftrightarrow> idle ns b' \<and> hd_set ns b' = hd_set ns b \<union> all_heads ns entry ks
     \<and> ltree b' = add_kids ns entry par dep ks (ltree b)
     \<and> distinct (kid_nodes ks) \<and> [] \<notin> snd ` set ks \<and> set (kid_nodes ks) \<subseteq> P
     \<and> (\<forall>u \<in> set (kid_nodes ks). successors ns u \<subseteq> hd_set ns b \<union> set (kid_nodes ks))
     \<and> set hs \<subseteq> set (kid_nodes ks) \<and> set (kid_nodes ks) \<inter> hd_set ns b \<subseteq> set hs
     \<and> (\<forall>k \<in> set ks. fst k \<longrightarrow> (\<exists>v. snd k = [v])) \<and> (\<forall>h \<in> set hs. h \<in> hd_set ns b \<longrightarrow> (True, [h]) \<in> set ks)"

lemma splitsD:
  assumes "splits ns entry par dep P b hs ks b'"
  shows "idle ns b'" "hd_set ns b' = hd_set ns b \<union> all_heads ns entry ks" "ltree b' = add_kids ns entry par dep ks (ltree b)"
    "distinct (kid_nodes ks)" "[] \<notin> snd ` set ks" "set (kid_nodes ks) \<subseteq> P"
    "u \<in> set (kid_nodes ks) \<Longrightarrow> successors ns u \<subseteq> hd_set ns b \<union> set (kid_nodes ks)"
    "set hs \<subseteq> set (kid_nodes ks)" "set (kid_nodes ks) \<inter> hd_set ns b \<subseteq> set hs"
    "k \<in> set ks \<Longrightarrow> fst k \<Longrightarrow> \<exists>v. snd k = [v]" "h \<in> set hs \<Longrightarrow> h \<in> hd_set ns b \<Longrightarrow> (True, [h]) \<in> set ks"
  using assms unfolding splits_def by blast+

lemma all_heads_nodes: "all_heads ns entry ks \<subseteq> set (kid_nodes ks)"
  by (auto simp: all_heads_def kid_nodes_def group_heads_def)

lemma entered_at_head:
  assumes l: "linked ns" and u: "u < length ns" and v: "v \<in> successors ns u" and k: "k \<in> set ks" "v \<in> set (snd k)" "u \<notin> set (snd k)"
  shows "v \<in> all_heads ns entry ks"
proof -
  have "v < length ns" using linked_inside [OF l] u v by (auto simp: edges_inside_def)
  then have "\<exists>e \<in> set (pred_edges (ns ! v)). esrc e \<notin> set (snd k)"
    using successors_pred [OF l u] v k(3) by auto
  then show ?thesis using k(1,2) by (auto simp: all_heads_def group_heads_def)
qed

lemma splits_start:
  assumes "idle ns b"
  shows "splits ns entry par dep P b [] [] b"
  using assms by (simp add: splits_def kid_nodes_def all_heads_def add_kids_def)

lemma splits_step:
  assumes nb: "indexed ns" and ar: "all_reached ns entry" and bd: "body_of ns entry P Hd (hd_set ns b)"
    and par: "par < length (ltree b)" and s: "splits ns entry par dep P b hs ks b1" and h: "h \<in> P" "h \<notin> set (kid_nodes ks)"
  obtains ks' b' where "walk_head ns entry par dep h b1 = Inr b'" "splits ns entry par dep P b (hs @ [h]) ks' b'"
proof -
  note sD = splitsD [OF s] and bD = body_ofD [OF bd]
  have l: "linked ns" using indexedD(1) [OF nb] .
  have hn: "h < length ns" using h(1) bD(1) by blast
  have par1: "par < length (ltree b1)" using par sD(3) add_kids_simps(1) [OF par] by simp
  let ?H = "hd_set ns b1" and ?V = "set (kid_nodes ks)"
  obtain b' Gs ks2 where w: "walk_head ns entry par dep h b1 = Inr b'" "idle ns b'"
    "ks2 = map (\<lambda>G. (group_leaf ns ?H G, G)) Gs"
    "hd_set ns b' = ?H \<union> all_heads ns entry ks2" "ltree b' = add_kids ns entry par dep ks2 (ltree b1)"
    "distinct (concat Gs)" "[] \<notin> set Gs" "h \<in> set (concat Gs)" "set (concat Gs) \<subseteq> {..<length ns}"
    "\<And>u. u \<in> set (concat Gs) \<Longrightarrow> successors ns u \<subseteq> ?H \<union> set (concat Gs)"
    "\<And>Q. closed_from ns ?H h Q \<Longrightarrow> set (concat Gs) \<subseteq> Q" "h \<in> ?H \<Longrightarrow> [h] \<in> set Gs"
    by (rule walk_head_spec [OF nb ar sD(1) hn par1, of dep]) (rule that)
  have W: "kid_nodes ks2 = concat Gs" unfolding w(3) kid_nodes_def by (simp add: comp_def)
  let ?W = "set (concat Gs)"
  have both: "set (kid_nodes (ks @ ks2)) = ?V \<union> ?W" "kid_nodes (ks @ ks2) = kid_nodes ks @ concat Gs"
    using W by (auto simp: kid_nodes_def)
  have "closed_from ns ?H h P" unfolding closed_from_def using h(1) bD(7) sD(2) by blast
  then have WP: "?W \<subseteq> P" by (rule w(11))
  have "closed_from ns ?H h ({..<length ns} - ?V)"
    unfolding closed_from_def
  proof (intro conjI ballI subsetI)
    show "h \<in> {..<length ns} - ?V" using hn h(2) by simp
    show "v \<in> {..<length ns} - ?V" if u: "u \<in> {..<length ns} - ?V" and v: "v \<in> successors ns u - ?H" for u v
    proof -
      have "v < length ns" using linked_inside [OF l] u v by (auto simp: edges_inside_def)
      moreover have "v \<notin> ?V"
      proof
        assume "v \<in> ?V"
        then obtain k where k: "k \<in> set ks" "v \<in> set (snd k)" by (auto simp: kid_nodes_def)
        moreover from this u have "u \<notin> set (snd k)" by (auto simp: kid_nodes_def)
        ultimately have "v \<in> all_heads ns entry ks" using u v by (intro entered_at_head [OF l]) auto
        then show False using v sD(2) by blast
      qed
      ultimately show ?thesis by simp
    qed
  qed
  then have WV: "?W \<inter> ?V = {}" using w(11) by blast
  have "closed_from ns ?H h (insert h (- ?H))" unfolding closed_from_def by blast
  then have WH: "?W \<inter> ?H \<subseteq> {h}" using w(11) by blast
  have heads: "all_heads ns entry ks \<subseteq> ?V" by (rule all_heads_nodes)
  have "splits ns entry par dep P b (hs @ [h]) (ks @ ks2) b'"
    unfolding splits_def
  proof (intro conjI)
    show "idle ns b'" by (rule w(2))
    show "hd_set ns b' = hd_set ns b \<union> all_heads ns entry (ks @ ks2)" using w(4) sD(2) by (auto simp: all_heads_def)
    show "ltree b' = add_kids ns entry par dep (ks @ ks2) (ltree b)" using w(5) sD(3) add_kids_append [OF par] by simp
    show "distinct (kid_nodes (ks @ ks2))" using both(2) sD(4) w(6) WV by auto
    show "[] \<notin> snd ` set (ks @ ks2)" using sD(5) w(3,7) by auto
    show "set (kid_nodes (ks @ ks2)) \<subseteq> P" using both(1) sD(6) WP by blast
    show "\<forall>u \<in> set (kid_nodes (ks @ ks2)). successors ns u \<subseteq> hd_set ns b \<union> set (kid_nodes (ks @ ks2))"
      unfolding both(1) using sD(7) w(10) sD(2) heads by blast
    show "set (hs @ [h]) \<subseteq> set (kid_nodes (ks @ ks2))" using both(1) sD(8) w(8) by auto
    show "set (kid_nodes (ks @ ks2)) \<inter> hd_set ns b \<subseteq> set (hs @ [h])" using both(1) sD(2,9) WH by auto
    show "\<forall>k \<in> set (ks @ ks2). fst k \<longrightarrow> (\<exists>v. snd k = [v])" using sD(10) w(3) by (auto simp: group_leaf_def)
    show "\<forall>h' \<in> set (hs @ [h]). h' \<in> hd_set ns b \<longrightarrow> (True, [h']) \<in> set (ks @ ks2)"
    proof (intro ballI impI)
      fix h' assume "h' \<in> set (hs @ [h])" and h': "h' \<in> hd_set ns b"
      then consider "h' \<in> set hs" | "h' = h" by auto
      then show "(True, [h']) \<in> set (ks @ ks2)"
      proof cases
        case 1
        with sD(11) h' show ?thesis by auto
      next
        case 2
        then have "[h] \<in> set Gs" "group_leaf ns ?H [h]" using w(12) h' sD(2) by (auto simp: group_leaf_def)
        then show ?thesis using 2 w(3) by force
      qed
    qed
  qed
  with w(1) show thesis by (rule that)
qed

text \<open>All heads of the body.\<close>

lemma splits_all:
  assumes nb: "indexed ns" and ar: "all_reached ns entry" and bd: "body_of ns entry P Hd (hd_set ns b)"
    and par: "par < length (ltree b)" and i: "idle ns b"
  obtains ks b' where "fold_res (walk_head ns entry par dep) Hd b = Inr b'" "splits ns entry par dep P b Hd ks b'"
proof -
  note bD = body_ofD [OF bd]
  have "\<exists>ks' b'. fold_res (walk_head ns entry par dep) hs' b1 = Inr b' \<and> splits ns entry par dep P b (hs @ hs') ks' b'"
    if "splits ns entry par dep P b hs ks b1" "Hd = hs @ hs'" "hs = [] \<Longrightarrow> ks = []" for hs hs' ks b1
    using that
  proof (induction hs' arbitrary: hs ks b1)
    case (Cons h hs')
    note sD = splitsD [OF Cons.prems(1)]
    have "h \<in> P" using bD(2) Cons.prems(2) by auto
    moreover have "h \<notin> set (kid_nodes ks)"
    proof (cases "set Hd \<subseteq> hd_set ns b")
      case True
      then show ?thesis using sD(9) bD(3) Cons.prems(2) by auto
    next
      case False
      with bD(8) Cons.prems(2) have "hs = []" by (auto simp: append_eq_Cons_conv)
      with Cons.prems(3) show ?thesis by (simp add: kid_nodes_def)
    qed
    ultimately obtain ks' b' where "walk_head ns entry par dep h b1 = Inr b'" "splits ns entry par dep P b (hs @ [h]) ks' b'"
      by (rule splits_step [OF nb ar bd par Cons.prems(1)])
    with Cons.IH [of "hs @ [h]" ks' b'] Cons.prems(2) show ?case by auto
  qed auto
  from this [OF splits_start [OF i], of Hd] show thesis using that by auto
qed

text \<open>The walks cover the body, because its nodes are reached from the entry.\<close>

lemma splits_cover:
  assumes nb: "indexed ns" and ar: "all_reached ns entry" and bd: "body_of ns entry P Hd (hd_set ns b)"
    and s: "splits ns entry par dep P b Hd ks b'"
  shows "set (kid_nodes ks) = P"
proof -
  note sD = splitsD [OF s] and bD = body_ofD [OF bd]
  have "v \<in> P \<longrightarrow> v \<in> set (kid_nodes ks)" if "reaches ns entry v" for v
    using that
  proof (induction rule: reaches.induct)
    case here
    then show ?case using bD(4) sD(8) by blast
  next
    case (further u v)
    have u: "u < length ns"
      using reaches_inside [OF further.hyps(1) linked_inside [OF indexedD(1) [OF nb]]] ar by (simp add: all_reached_def)
    show ?case
    proof
      assume v: "v \<in> P"
      consider "v \<in> set Hd" | "u \<in> P" "v \<notin> set Hd" using bD(5) [OF u] further.hyps(2) v by blast
      then show "v \<in> set (kid_nodes ks)"
      proof cases
        case 1
        then show ?thesis using sD(8) by blast
      next
        case 2
        then have "v \<notin> hd_set ns b" using bD(6) v by blast
        then show ?thesis using sD(7) [of u] further 2(1) by blast
      qed
    qed
  qed
  then show ?thesis using ar bD(1) sD(6) unfolding all_reached_def by blast
qed

text \<open>A child that is not a leaf is itself such a body, with fewer nodes that are not known as heads.\<close>

lemma concat_distinct_unique:
  assumes "distinct (concat (map snd ks))" and "k \<in> set ks" "l \<in> set ks" and "x \<in> set (snd k)" "x \<in> set (snd l)"
  shows "k = l"
  using assms by (induction ks) auto

lemma kid_body:
  assumes nb: "indexed ns" and ar: "all_reached ns entry" and bd: "body_of ns entry P Hd (hd_set ns b)"
    and s: "splits ns entry par dep P b Hd ks b'" and k: "k \<in> set ks" "\<not> fst k"
    and H: "hd_set ns b' \<subseteq> H" "H \<inter> set (snd k) \<subseteq> hd_set ns b'"
  shows "body_of ns entry (set (snd k)) (group_heads ns entry (snd k)) H"
    and "card (set (snd k) - H) < card (P - hd_set ns b)"
proof -
  note sD = splitsD [OF s] and bD = body_ofD [OF bd]
  have cover: "set (kid_nodes ks) = P" by (rule splits_cover [OF nb ar bd s])
  let ?G = "snd k" and ?Hd = "group_heads ns entry (snd k)"
  have l: "linked ns" using indexedD(1) [OF nb] .
  have GP: "set ?G \<subseteq> P" using k(1) cover by (auto simp: kid_nodes_def)
  have fresh: "x \<notin> hd_set ns b" if "x \<in> set ?G" for x
  proof
    assume x: "x \<in> hd_set ns b"
    then have "(True, [x]) \<in> set ks" using bD(6) GP that sD(11) by blast
    then have "k = (True, [x])" using concat_distinct_unique [of ks k "(True, [x])" x] sD(4) k(1) that by (auto simp: kid_nodes_def)
    with k(2) show False by simp
  qed
  have own: "x \<in> set ?Hd" if x: "x \<in> set ?G" "x \<in> all_heads ns entry ks" for x
  proof -
    from x(2) obtain k' where k': "k' \<in> set ks" "x \<in> set (group_heads ns entry (snd k'))" by (auto simp: all_heads_def)
    then have "x \<in> set (snd k')" by (auto simp: group_heads_def)
    then have "k' = k" using concat_distinct_unique [of ks k k' x] sD(4) k(1) k'(1) x(1) by (auto simp: kid_nodes_def)
    with k'(2) show ?thesis by simp
  qed
  have sub: "set ?Hd \<subseteq> set ?G" by (auto simp: group_heads_def)
  have in_H: "all_heads ns entry ks \<subseteq> H" using sD(2) H(1) by blast
  have Hd_H: "set ?Hd \<subseteq> H" using in_H k(1) by (auto simp: all_heads_def)
  show "body_of ns entry (set ?G) ?Hd H"
    unfolding body_of_def
  proof (intro conjI allI impI ballI)
    show "set ?G \<subseteq> {..<length ns}" using GP bD(1) by blast
    show "set ?Hd \<subseteq> set ?G" by (rule sub)
    have "distinct ?G" using sD(4) k(1) by (simp add: kid_nodes_def distinct_concat_iff)
    then show "distinct ?Hd" by (simp add: group_heads_def)
    show "entry \<in> set ?Hd" if "entry \<in> set ?G" using that by (auto simp: group_heads_def)
    show "successors ns u \<inter> set ?G \<subseteq> set ?Hd" if "u < length ns" "u \<notin> set ?G" for u
      using entered_at_head [OF l that(1) _ k(1) _ that(2)] own by blast
    show "H \<inter> set ?G \<subseteq> set ?Hd" using H(2) sD(2) fresh own by blast
    show "successors ns u \<subseteq> set ?G \<union> H" if u: "u \<in> set ?G" for u
    proof
      fix v assume v: "v \<in> successors ns u"
      show "v \<in> set ?G \<union> H"
      proof (cases "v \<in> P")
        case False
        then have "v \<in> hd_set ns b" using bD(7) [of u] u GP v by blast
        then show ?thesis using sD(2) H(1) by blast
      next
        case True
        then obtain k' where k': "k' \<in> set ks" "v \<in> set (snd k')" using cover by (auto simp: kid_nodes_def)
        show ?thesis
        proof (cases "u \<in> set (snd k')")
          case True
          then have "k' = k" using concat_distinct_unique [of ks k k' u] sD(4) k(1) k'(1) u by (auto simp: kid_nodes_def)
          with k'(2) show ?thesis by simp
        next
          case False
          have "u < length ns" using u GP bD(1) by blast
          then have "v \<in> all_heads ns entry ks" using False k' v by (intro entered_at_head [OF l])
          then show ?thesis using in_H by blast
        qed
      qed
    qed
    show "set ?Hd \<subseteq> H \<or> (\<exists>h. ?Hd = [h])" using Hd_H by blast
  qed
  have ne: "?G \<noteq> []" using sD(5) k(1) by force
  have "set ?G \<subseteq> {..<length ns}" using GP bD(1) by blast
  from group_heads_ne [OF nb ar ne this] obtain x where x: "x \<in> set ?Hd" by (cases ?Hd) auto
  have "set ?G - H \<subset> P - hd_set ns b"
  proof
    show "set ?G - H \<subseteq> P - hd_set ns b" using GP fresh by blast
    show "set ?G - H \<noteq> P - hd_set ns b" using x sub Hd_H fresh GP by blast
  qed
  then show "card (set ?G - H) < card (P - hd_set ns b)"
    using bD(1) by (intro psubset_card_mono) (auto intro: finite_subset)
qed

subsection \<open>The tree\<close>

text \<open>The part of a tree below node \<open>i\<close>: its positions, and the nodes of the graph with the positions of their leaves.\<close>

inductive spans :: "LTNode list \<Rightarrow> nat \<Rightarrow> nat set \<Rightarrow> (nat \<times> nat) set \<Rightarrow> bool" for tree where
  leaf: "i < length tree \<Longrightarrow> ltype (tree ! i) = LF_LEAF \<Longrightarrow> lcf_nodes (tree ! i) = [v] \<Longrightarrow> spans tree i {i} {(v, i)}"
| head: "i < length tree \<Longrightarrow> ltype (tree ! i) = LF_HEAD
    \<Longrightarrow> list_all2 (\<lambda>c x. spans tree c (fst x) (snd x) \<and> i < c) (lf_children (tree ! i)) xs
    \<Longrightarrow> spans tree i (insert i (\<Union>(fst ` set xs))) (\<Union>(snd ` set xs))"

lemma spans_frame:
  assumes "spans tree i I R" and "\<And>j. j \<in> I \<Longrightarrow> j < length tree' \<and> tree' ! j = tree ! j"
  shows "spans tree' i I R"
  using assms
proof (induction rule: spans.induct)
  case (leaf i v)
  then show ?case by (auto intro!: spans.leaf)
next
  case (head i xs)
  have i: "i < length tree'" "tree' ! i = tree ! i" using head.prems by auto
  have "list_all2 (\<lambda>c x. spans tree' c (fst x) (snd x) \<and> i < c) (lf_children (tree ! i)) xs"
    using head.IH
  proof (rule list.rel_mono_strong)
    show "spans tree' c (fst x) (snd x) \<and> i < c"
      if "x \<in> set xs" "(spans tree c (fst x) (snd x) \<and> ((\<forall>j. j \<in> fst x \<longrightarrow> j < length tree' \<and> tree' ! j = tree ! j)
          \<longrightarrow> spans tree' c (fst x) (snd x))) \<and> i < c" for c x
      using that head.prems by blast
  qed
  then show ?case using i head.hyps(2) spans.head [of i tree'] by simp
qed

definition rises :: "LTNode list \<Rightarrow> bool" where
  "rises tree \<longleftrightarrow> (\<forall>i < length tree. case lparent (tree ! i) of None \<Rightarrow> True | Some p \<Rightarrow> p < i)"

lemma rises_add_kids:
  assumes "rises tree" and "par < length tree"
  shows "rises (add_kids ns entry par dep ks tree)"
  using assms by (auto simp: rises_def add_kids_def nth_append nth_list_update child_node_def split: option.splits)

subsection \<open>The recursion\<close>

text \<open>What \<^verbatim>\<open>recurse\<close> does to a body whose node is new: it builds its tree and knows more heads, all in the body.\<close>

definition rec_post ::
  "CFNode list \<Rightarrow> nat \<Rightarrow> nat \<Rightarrow> nat set \<Rightarrow> LoopTreeBuilder \<Rightarrow> LoopTreeBuilder \<Rightarrow> (nat \<times> nat) set \<Rightarrow> bool" where
  "rec_post ns entry par P b b' R \<longleftrightarrow> idle ns b' \<and> hd_set ns b \<subseteq> hd_set ns b' \<and> hd_set ns b' \<subseteq> hd_set ns b \<union> P \<and> rises (ltree b')
     \<and> length (ltree b) \<le> length (ltree b') \<and> (\<forall>i < length (ltree b). i \<noteq> par \<longrightarrow> ltree b' ! i = ltree b ! i)
     \<and> spans (ltree b') par (insert par {length (ltree b)..<length (ltree b')}) R \<and> Domain R = P \<and> single_valued R"

definition rec_pre :: "CFNode list \<Rightarrow> nat \<Rightarrow> nat \<Rightarrow> nat set \<Rightarrow> nat list \<Rightarrow> LoopTreeBuilder \<Rightarrow> nat \<Rightarrow> bool" where
  "rec_pre ns entry par P Hd b fuel \<longleftrightarrow> body_of ns entry P Hd (hd_set ns b) \<and> idle ns b \<and> rises (ltree b) \<and> par < length (ltree b)
     \<and> ltype (ltree b ! par) = LF_HEAD \<and> lf_children (ltree b ! par) = [] \<and> card (P - hd_set ns b) \<le> fuel"

definition recurses_well :: "CFNode list \<Rightarrow> nat \<Rightarrow> nat \<Rightarrow> bool" where
  "recurses_well ns entry fuel \<longleftrightarrow> (\<forall>par P Hd b dep. rec_pre ns entry par P Hd b fuel \<longrightarrow>
     (\<exists>b' R. recurse (Suc fuel) ns entry par Hd dep b = Inr b' \<and> rec_post ns entry par P b b' R))"

text \<open>After the recursion into the first children: \<open>b1\<close> is the state before, in which the children are the last nodes.\<close>

definition kids_done ::
  "CFNode list \<Rightarrow> LoopTreeBuilder \<Rightarrow> nat \<Rightarrow> (bool \<times> nat list) list \<Rightarrow> (nat set \<times> (nat \<times> nat) set) list \<Rightarrow> LoopTreeBuilder \<Rightarrow> bool" where
  "kids_done ns b1 first ks xs b2 \<longleftrightarrow> idle ns b2 \<and> hd_set ns b1 \<subseteq> hd_set ns b2 \<and> hd_set ns b2 \<subseteq> hd_set ns b1 \<union> set (kid_nodes ks)
     \<and> rises (ltree b2) \<and> length (ltree b1) \<le> length (ltree b2)
     \<and> (\<forall>i < length (ltree b1). i < first \<or> first + length ks \<le> i \<longrightarrow> ltree b2 ! i = ltree b1 ! i)
     \<and> list_all2 (\<lambda>c x. spans (ltree b2) c (fst x) (snd x)) [first..<first + length ks] xs
     \<and> list_all2 (\<lambda>k x. Domain (snd x) = set (snd k) \<and> single_valued (snd x)) ks xs
     \<and> \<Union>(fst ` set xs) = {first..<first + length ks} \<union> {length (ltree b1)..<length (ltree b2)}"

lemma kids_doneD:
  assumes "kids_done ns b1 first ks xs b2"
  shows "idle ns b2" "hd_set ns b1 \<subseteq> hd_set ns b2" "hd_set ns b2 \<subseteq> hd_set ns b1 \<union> set (kid_nodes ks)" "rises (ltree b2)"
    "length (ltree b1) \<le> length (ltree b2)"
    "i < length (ltree b1) \<Longrightarrow> i < first \<or> first + length ks \<le> i \<Longrightarrow> ltree b2 ! i = ltree b1 ! i"
    "list_all2 (\<lambda>c x. spans (ltree b2) c (fst x) (snd x)) [first..<first + length ks] xs"
    "list_all2 (\<lambda>k x. Domain (snd x) = set (snd k) \<and> single_valued (snd x)) ks xs"
    "\<Union>(fst ` set xs) = {first..<first + length ks} \<union> {length (ltree b1)..<length (ltree b2)}"
  using assms unfolding kids_done_def by blast+

definition kid_step :: "nat \<Rightarrow> CFNode list \<Rightarrow> nat \<Rightarrow> nat \<Rightarrow> nat \<Rightarrow> LoopTreeBuilder \<Rightarrow> LoopTreeBuilder result" where
  "kid_step fuel ns entry dep i b = bind_res (at (ltree b) i) (\<lambda>n.
     if ltype n = LF_HEAD then recurse fuel ns entry i (lcf_nodes n) (dep + 1) b else Inr b)"

lemma kid_step_spec:
  assumes nb: "indexed ns" and ar: "all_reached ns entry" and bd: "body_of ns entry P Hd (hd_set ns b)"
    and s: "splits ns entry par dep P b Hd (ks1 @ k # ks2) b1" and par: "par < length (ltree b)"
    and fuel: "card (P - hd_set ns b) \<le> fuel" "\<And>f. fuel = Suc f \<Longrightarrow> recurses_well ns entry f"
    and d: "kids_done ns b1 (length (ltree b)) ks1 xs b2"
  obtains b3 x where "kid_step fuel ns entry dep (length (ltree b) + length ks1) b2 = Inr b3"
    "kids_done ns b1 (length (ltree b)) (ks1 @ [k]) (xs @ [x]) b3"
proof -
  note sD = splitsD [OF s] and dD = kids_doneD [OF d]
  let ?L = "length (ltree b)" and ?c = "length (ltree b) + length ks1" and ?T1 = "ltree b1" and ?T2 = "ltree b2"
  have k: "k \<in> set (ks1 @ k # ks2)" by simp
  have T1: "length ?T1 = ?L + length (ks1 @ k # ks2)" "?T1 ! ?c = child_node ns entry par dep k"
    using add_kids_simps(1,4) [OF par] sD(3) by (simp_all add: nth_append)
  have c: "?c < length ?T1" "?c < length ?T2" using T1(1) dD(5) by simp_all
  have T2c: "?T2 ! ?c = child_node ns entry par dep k" using dD(6) [OF c(1)] T1(2) by simp
  have old: "j < length ?T2 \<and> j \<noteq> ?c" if "x' \<in> set xs" "j \<in> fst x'" for x' j
  proof -
    have "j \<in> \<Union>(fst ` set xs)" using that by blast
    then show ?thesis unfolding dD(9) using dD(5) T1(1) by auto
  qed
  show thesis
  proof (cases "fst k")
    case True
    then obtain v where v: "snd k = [v]" using sD(10) [OF k] by blast
    have "v \<in> set (kid_nodes (ks1 @ k # ks2))" using v by (simp add: kid_nodes_def)
    then have "v < length ns" using sD(6) body_ofD(1) [OF bd] by blast
    then have "lcf_nodes (?T2 ! ?c) = [v]" "ltype (?T2 ! ?c) = LF_LEAF"
      using group_heads_single [OF nb ar] True T2c v by (simp_all add: child_node_def)
    then have sp: "spans ?T2 ?c {?c} {(v, ?c)}" using c(2) by (intro spans.leaf)
    have "kids_done ns b1 ?L (ks1 @ [k]) (xs @ [({?c}, {(v, ?c)})]) b2"
      unfolding kids_done_def
    proof (intro conjI)
      show "hd_set ns b2 \<subseteq> hd_set ns b1 \<union> set (kid_nodes (ks1 @ [k]))" using dD(3) by (auto simp: kid_nodes_def)
      show "\<forall>i < length ?T1. i < ?L \<or> ?L + length (ks1 @ [k]) \<le> i \<longrightarrow> ?T2 ! i = ?T1 ! i" using dD(6) by simp
      show "list_all2 (\<lambda>c x. spans ?T2 c (fst x) (snd x)) [?L..<?L + length (ks1 @ [k])] (xs @ [({?c}, {(v, ?c)})])"
        using dD(7) sp by (auto intro: list_all2_appendI)
      show "list_all2 (\<lambda>k x. Domain (snd x) = set (snd k) \<and> single_valued (snd x)) (ks1 @ [k]) (xs @ [({?c}, {(v, ?c)})])"
        using dD(8) v by (intro list_all2_appendI) (simp_all add: single_valued_def)
      show "\<Union>(fst ` set (xs @ [({?c}, {(v, ?c)})])) = {?L..<?L + length (ks1 @ [k])} \<union> {length ?T1..<length ?T2}"
        using dD(9) by auto
    qed (use dD in auto)
    moreover have "kid_step fuel ns entry dep ?c b2 = Inr b2" using c(2) T2c True by (simp add: kid_step_def at_def child_node_def)
    ultimately show thesis using that by blast
  next
    case False
    have disj: "set (kid_nodes ks1) \<inter> set (snd k) = {}" using sD(4) by (auto simp: kid_nodes_def)
    have H: "hd_set ns b2 \<inter> set (snd k) \<subseteq> hd_set ns b1" using dD(3) disj by blast
    note kb = kid_body [OF nb ar bd s k False dD(2) H]
    obtain f where f: "fuel = Suc f" using kb(2) fuel(1) by (cases fuel) auto
    have "rec_pre ns entry ?c (set (snd k)) (group_heads ns entry (snd k)) b2 f"
      unfolding rec_pre_def using kb dD(1,4) c(2) T2c False fuel(1) f by (simp add: child_node_def)
    with fuel(2) [OF f] obtain b3 R where rec: "recurse fuel ns entry ?c (group_heads ns entry (snd k)) (dep + 1) b2 = Inr b3"
      and post: "rec_post ns entry ?c (set (snd k)) b2 b3 R"
      unfolding recurses_well_def f by blast
    have p: "idle ns b3" "hd_set ns b2 \<subseteq> hd_set ns b3" "hd_set ns b3 \<subseteq> hd_set ns b2 \<union> set (snd k)" "rises (ltree b3)"
      "length ?T2 \<le> length (ltree b3)" "\<And>i. i < length ?T2 \<Longrightarrow> i \<noteq> ?c \<Longrightarrow> ltree b3 ! i = ?T2 ! i"
      "spans (ltree b3) ?c (insert ?c {length ?T2..<length (ltree b3)}) R" "Domain R = set (snd k)" "single_valued R"
      using post unfolding rec_post_def by blast+
    let ?x = "(insert ?c {length ?T2..<length (ltree b3)}, R)"
    have "kids_done ns b1 ?L (ks1 @ [k]) (xs @ [?x]) b3"
      unfolding kids_done_def
    proof (intro conjI)
      show "hd_set ns b3 \<subseteq> hd_set ns b1 \<union> set (kid_nodes (ks1 @ [k]))" using dD(3) p(3) by (auto simp: kid_nodes_def)
      show "\<forall>i < length ?T1. i < ?L \<or> ?L + length (ks1 @ [k]) \<le> i \<longrightarrow> ltree b3 ! i = ?T1 ! i" using dD(5,6) p(6) by simp
      have "list_all2 (\<lambda>c x. spans (ltree b3) c (fst x) (snd x)) [?L..<?L + length ks1] xs"
        using dD(7)
      proof (rule list.rel_mono_strong)
        show "spans (ltree b3) c' (fst x) (snd x)" if "x \<in> set xs" "spans ?T2 c' (fst x) (snd x)" for c' x
          using that(2) by (rule spans_frame) (use old [OF that(1)] p(5,6) in fastforce)
      qed
      then show "list_all2 (\<lambda>c x. spans (ltree b3) c (fst x) (snd x)) [?L..<?L + length (ks1 @ [k])] (xs @ [?x])"
        using p(7) by (auto intro: list_all2_appendI)
      show "list_all2 (\<lambda>k x. Domain (snd x) = set (snd k) \<and> single_valued (snd x)) (ks1 @ [k]) (xs @ [?x])"
        using dD(8) p(8,9) by (intro list_all2_appendI) simp_all
      have "{length ?T1..<length ?T2} \<union> {length ?T2..<length (ltree b3)} = {length ?T1..<length (ltree b3)}"
        using dD(5) p(5) by auto
      then show "\<Union>(fst ` set (xs @ [?x])) = {?L..<?L + length (ks1 @ [k])} \<union> {length ?T1..<length (ltree b3)}"
        using dD(9) by auto
    qed (use p dD(2,5) in auto)
    moreover have "kid_step fuel ns entry dep ?c b2 = Inr b3" using c(2) T2c False rec by (simp add: kid_step_def at_def child_node_def)
    ultimately show thesis using that by blast
  qed
qed

lemma kids_spec:
  assumes nb: "indexed ns" and ar: "all_reached ns entry" and bd: "body_of ns entry P Hd (hd_set ns b)"
    and s: "splits ns entry par dep P b Hd ks b1" and par: "par < length (ltree b)"
    and fuel: "card (P - hd_set ns b) \<le> fuel" "\<And>f. fuel = Suc f \<Longrightarrow> recurses_well ns entry f"
  shows "kids_done ns b1 (length (ltree b)) ks1 xs b2 \<Longrightarrow> ks = ks1 @ ks2
    \<Longrightarrow> \<exists>b' xs'. fold_res (kid_step fuel ns entry dep) [length (ltree b) + length ks1..<length (ltree b) + length ks] b2 = Inr b'
          \<and> kids_done ns b1 (length (ltree b)) ks xs' b'"
proof (induction ks2 arbitrary: ks1 xs b2)
  case (Cons k ks2)
  let ?c = "length (ltree b) + length ks1"
  have "splits ns entry par dep P b Hd (ks1 @ k # ks2) b1" using s Cons.prems(2) by simp
  from kid_step_spec [OF nb ar bd this par fuel Cons.prems(1)] obtain b3 x where
    step: "kid_step fuel ns entry dep ?c b2 = Inr b3" and dn: "kids_done ns b1 (length (ltree b)) (ks1 @ [k]) (xs @ [x]) b3" by blast
  have "[?c..<length (ltree b) + length ks] = ?c # [Suc ?c..<length (ltree b) + length ks]"
    using Cons.prems(2) by (intro upt_conv_Cons) simp
  with Cons.IH [OF dn] Cons.prems(2) step show ?case by simp
qed auto

lemma single_valued_Un: "single_valued A \<Longrightarrow> single_valued B \<Longrightarrow> Domain A \<inter> Domain B = {} \<Longrightarrow> single_valued (A \<union> B)"
  unfolding single_valued_def by (metis DomainI UnE disjoint_iff)

lemma spans_union:
  assumes "list_all2 (\<lambda>k x. Domain (snd x) = set (snd k) \<and> single_valued (snd x)) ks xs" and "distinct (concat (map snd ks))"
  shows "Domain (\<Union>(snd ` set xs)) = set (concat (map snd ks)) \<and> single_valued (\<Union>(snd ` set xs))"
  using assms
proof (induction rule: list_all2_induct)
  case (Cons k ks x xs)
  have U: "\<Union>(snd ` set (x # xs)) = snd x \<union> \<Union>(snd ` set xs)" by simp
  have IH: "Domain (\<Union>(snd ` set xs)) = set (concat (map snd ks))" "single_valued (\<Union>(snd ` set xs))" using Cons by simp_all
  have "Domain (snd x) \<inter> Domain (\<Union>(snd ` set xs)) = {}" unfolding IH(1) using Cons by auto
  then have "single_valued (snd x \<union> \<Union>(snd ` set xs))" using Cons IH(2) by (intro single_valued_Un) simp_all
  moreover have "Domain (snd x \<union> \<Union>(snd ` set xs)) = set (concat (map snd (k # ks)))"
    unfolding Domain_Un_eq IH(1) using Cons by simp
  ultimately show ?case unfolding U by blast
qed (simp add: single_valued_def)

lemma recurse_well:
  assumes nb: "indexed ns" and ar: "all_reached ns entry"
  shows "recurses_well ns entry fuel"
proof (induction fuel rule: less_induct)
  case (less fuel)
  have "\<exists>b' R. recurse (Suc fuel) ns entry par Hd dep b = Inr b' \<and> rec_post ns entry par P b b' R"
    if pre: "rec_pre ns entry par P Hd b fuel" for par P Hd b dep
  proof -
    have bd: "body_of ns entry P Hd (hd_set ns b)" and i: "idle ns b" and ri: "rises (ltree b)" and par: "par < length (ltree b)"
      and lh: "ltype (ltree b ! par) = LF_HEAD" "lf_children (ltree b ! par) = []" and card: "card (P - hd_set ns b) \<le> fuel"
      using pre unfolding rec_pre_def by blast+
    obtain ks b1 where walk: "fold_res (walk_head ns entry par dep) Hd b = Inr b1" and s: "splits ns entry par dep P b Hd ks b1"
      by (rule splits_all [OF nb ar bd par i])
    note sD = splitsD [OF s]
    let ?L = "length (ltree b)"
    note T1 = add_kids_simps [OF par, where ns = ns and entry = entry and dep = dep and ks = ks, folded sD(3)]
    have start: "kids_done ns b1 ?L [] [] b1"
      using sD(1) rises_add_kids [OF ri par] T1(1) by (simp add: kids_done_def kid_nodes_def sD(3))
    have "recurses_well ns entry f" if "fuel = Suc f" for f using less that by simp
    from kids_spec [OF nb ar bd s par card this start, of ks] obtain b' xs where
      kids: "fold_res (kid_step fuel ns entry dep) [?L..<?L + length ks] b1 = Inr b'"
      and d: "kids_done ns b1 ?L ks xs b'" by auto
    note dD = kids_doneD [OF d]
    have par': "par < length (ltree b1)" "par < length (ltree b')" "ltree b' ! par = ltree b1 ! par"
      using par T1(1) dD(5,6) by simp_all
    have run: "recurse (Suc fuel) ns entry par Hd dep b = Inr b'"
      using walk kids par par'(1) lh T1(2) unfolding kid_step_def by (simp add: at_def)
    have cover: "set (kid_nodes ks) = P" by (rule splits_cover [OF nb ar bd s])
    have heads: "all_heads ns entry ks \<subseteq> P" using all_heads_nodes cover by blast
    let ?R = "\<Union>(snd ` set xs)"
    have "list_all2 (\<lambda>c x. spans (ltree b') c (fst x) (snd x) \<and> par < c) (lf_children (ltree b' ! par)) xs"
      unfolding par'(3) T1(2)
      using dD(7) par lh(2) by (auto simp: list_all2_conv_all_nth)
    then have "spans (ltree b') par (insert par (\<Union>(fst ` set xs))) ?R"
      using par' lh(1) T1(2) by (intro spans.head) auto
    moreover have "insert par (\<Union>(fst ` set xs)) = insert par {?L..<length (ltree b')}"
      unfolding dD(9) T1(1) using dD(5) T1(1) by auto
    ultimately have spans: "spans (ltree b') par (insert par {?L..<length (ltree b')}) ?R" by simp
    have dom: "Domain ?R = P" and sv: "single_valued ?R"
      using spans_union [OF dD(8)] sD(4) cover by (simp_all only: kid_nodes_def)
    have "rec_post ns entry par P b b' ?R"
      unfolding rec_post_def
    proof (intro conjI)
      show "hd_set ns b \<subseteq> hd_set ns b'" using dD(2) sD(2) by blast
      show "hd_set ns b' \<subseteq> hd_set ns b \<union> P" using dD(3) sD(2) cover heads by blast
      show "length (ltree b) \<le> length (ltree b')" using dD(5) T1(1) by simp
      show "\<forall>i < length (ltree b). i \<noteq> par \<longrightarrow> ltree b' ! i = ltree b ! i"
        using dD(6) T1(1,3) by simp
    qed (use dD(1,4) spans dom sv in auto)
    with run show ?thesis by blast
  qed
  then show ?case unfolding recurses_well_def by blast
qed

end
