(* ===== verification/IrCfgProps.thy ===== *)
theory IrCfgProps
  imports IrCfgBuild
begin

text \<open>
  Properties of control flow graphs: construction ends, nodes and edges are consistent, marking is exact, the numbering is
  a depth-first one, the dominator tree decides domination by paths; and when inverting a graph fails.
\<close>

subsection \<open>The graph of a function\<close>

text \<open>What holds of the graph.\<close>

definition good_cfg :: "CFGBuildConfig \<Rightarrow> abstraction \<Rightarrow> CFG \<Rightarrow> nat list \<Rightarrow> bool" where
  "good_cfg conf entry cfg order \<longleftrightarrow>
     cconfig cfg = conf \<and> wf_cfg entry cfg \<and> rpo_order cfg order \<and> tails_wanted conf (cnodes cfg)
     \<and> (\<forall>n < length (cnodes cfg). reachable (cnodes cfg ! n) \<longleftrightarrow> flows_to (cnodes cfg) (centry cfg) n)
     \<and> (\<forall>x < length (cnodes cfg). \<forall>y. shd_cfg_is_dominated cfg x y = Inr (dom_by (dom_graph (centry cfg) (cnodes cfg)) y x))
     \<and> (\<forall>d < length (cnodes cfg). dominates (cnodes cfg ! d) = filter (\<lambda>i. idom (cnodes cfg ! i) = Some d) order)
     \<and> (\<forall>n < length (cnodes cfg). (\<forall>x \<in> set (pred_edges (cnodes cfg ! n)). etype x \<noteq> StructuredTailEdge) \<longrightarrow>
          structured_idom (cnodes cfg ! n) = None)
     \<and> (\<forall>n < length (cnodes cfg). n \<noteq> centry cfg \<longrightarrow> closest_dominator (dom_graph (centry cfg) (cnodes cfg)) n (idom (cnodes cfg ! n)))"

lemma good_cfgD:
  assumes "good_cfg conf entry cfg order"
  shows "cconfig cfg = conf" "wf_cfg entry cfg" "rpo_order cfg order" "tails_wanted conf (cnodes cfg)"
    "n < length (cnodes cfg) \<Longrightarrow> reachable (cnodes cfg ! n) \<longleftrightarrow> flows_to (cnodes cfg) (centry cfg) n"
    "n < length (cnodes cfg) \<Longrightarrow> shd_cfg_is_dominated cfg n y = Inr (dom_by (dom_graph (centry cfg) (cnodes cfg)) y n)"
    "n < length (cnodes cfg) \<Longrightarrow> dominates (cnodes cfg ! n) = filter (\<lambda>i. idom (cnodes cfg ! i) = Some n) order"
    "n < length (cnodes cfg) \<Longrightarrow> \<forall>x \<in> set (pred_edges (cnodes cfg ! n)). etype x \<noteq> StructuredTailEdge \<Longrightarrow>
       structured_idom (cnodes cfg ! n) = None"
    "n < length (cnodes cfg) \<Longrightarrow> n \<noteq> centry cfg \<Longrightarrow> closest_dominator (dom_graph (centry cfg) (cnodes cfg)) n (idom (cnodes cfg ! n))"
  using assms unfolding good_cfg_def by blast+

lemma new_cfg_cases:
  assumes unflipped: "\<not> flipped conf" and tree: "tree_rises conf" and size: "length (blocks a) < SIZE_MAX"
  shows "terminates (shd_new_cfg a f entry conf)" "shd_new_cfg a f entry conf = Inr cfg \<Longrightarrow> \<exists>order. good_cfg conf entry cfg order"
proof -
  let ?ctx = "\<lparr>cfg_function = f, ctx_entry = entry, cfg_config = conf, selection_construct_tail = None,
                   loop_construct_head = None, loop_construct_tail = None\<rparr>"
  let ?s0 = "\<lparr>bnodes = [], bmap = [], bcontents = [], join_point_values = []\<rparr>"
  have ctx: "cfg_function ?ctx = f" "cfg_config ?ctx = conf" by simp_all
  note g = get_or_enqueue_start [OF tree ctx refl]
  have rest: "\<exists>ns cfg order. mark_reachable (length (bnodes s) + 1) e (bnodes s) = Inr ns
      \<and> bind_res (shd_cfg_compute_rpo \<lparr>cconfig = conf, csize = length (bcontents s), contents = bcontents s, cmap = bmap s,
          centry = e, rpo = [], cnodes = ns\<rparr>) shd_cfg_compute_domtree = Inr cfg \<and> good_cfg conf entry cfg order"
    if "get_or_enqueue (length (blocks a) + 2) a ?ctx ?s0 entry = Inr (e, s)" for e s
  proof -
    have s: "built conf s" "map_of (bmap s) entry = Some e" "\<forall>m < length (bnodes s). reaches (bnodes s) e m"
        "set (bcontents s) = {..<length (bnodes s)}" "distinct (bcontents s)" "length (bnodes s) \<le> SIZE_MAX"
      using g(2) [OF that] size by auto
    show ?thesis by (rule new_cfg_rest [OF s]) (unfold good_cfg_def, blast)
  qed
  show "terminates (shd_new_cfg a f entry conf)"
  proof (cases "get_or_enqueue (length (blocks a) + 2) a ?ctx ?s0 entry")
    case (Inl e)
    then show ?thesis using g(1) [of a entry] by (auto simp: shd_new_cfg_def Let_def)
  next
    case (Inr es)
    then obtain e s where es: "get_or_enqueue (length (blocks a) + 2) a ?ctx ?s0 entry = Inr (e, s)" by (cases es) auto
    then show ?thesis using rest [OF es] unflipped validate_cfg_terminates
      by (auto simp: shd_new_cfg_def Let_def intro!: terminates_bind)
  qed
  show "\<exists>order. good_cfg conf entry cfg order" if "shd_new_cfg a f entry conf = Inr cfg"
  proof -
    from that obtain e s where es: "get_or_enqueue (length (blocks a) + 2) a ?ctx ?s0 entry = Inr (e, s)"
      by (auto simp: shd_new_cfg_def Let_def elim!: bind_res_InrE)
    from rest [OF this] show ?thesis using that es unflipped
      by (auto simp: shd_new_cfg_def Let_def elim!: bind_res_InrE)
  qed
qed

text \<open>An example: a branch to two blocks that meet in a third.\<close>

definition jump_to :: "block_id \<Rightarrow> node" where
  "jump_to b = Node 0 (Jump (Node 0 (AbsMem (AbsFn 1)) None) b []) None"

definition diamond :: arena where
  "diamond =
     \<lparr>config = undefined,
      decls = [(1, Function ''f'' [] [] [] (Some (Node 0 (Branch (Node 0 (AbsMem (AbsFn 1)) None) (Node 0 TrueLit None) (jump_to 2) (jump_to 3)) None)), None)],
      blocks = [(2, \<lparr>bb_params = [], bb_body = Some (jump_to 4)\<rparr>), (3, \<lparr>bb_params = [], bb_body = Some (jump_to 4)\<rparr>),
                (4, \<lparr>bb_params = [], bb_body = Some (Node 0 (Return (Node 0 (AbsMem (AbsBlock 4)) None) []) None)\<rparr>)]\<rparr>"

subsection \<open>Evaluation\<close>

text \<open>Rules by which the simplifier runs the construction: a bind waits for its first operation.\<close>

lemma bind_res_weak_cong: "r = s \<Longrightarrow> bind_res r f = bind_res s f"
  by simp

lemma fold_res_weak_cong: "xs = ys \<Longrightarrow> s = t \<Longrightarrow> fold_res f xs s = fold_res f ys t"
  by simp

lemma map_res_weak_cong: "xs = ys \<Longrightarrow> map_res f xs = map_res f ys"
  by simp

lemmas run_congs = bind_res_weak_cong fold_res_weak_cong map_res_weak_cong

lemma run_enqueue:
  "get_or_enqueue (Suc k) a ctx s absn =
     require (case absn of AbsFn f \<Rightarrow> f = cfg_function ctx | AbsBlock _ \<Rightarrow> True)
       (case map_of (bmap s) absn of
          Some found \<Rightarrow> Inr (found, s)
        | None \<Rightarrow>
            bind_res (process_cf_node a (get_or_enqueue k a) ctx (length (bnodes s)) absn
              (s\<lparr>bnodes := bnodes s @ [new_cfnode (Some absn)], bmap := (absn, length (bnodes s)) # bmap s\<rparr>)) (\<lambda>t.
                 Inr (length (bnodes s), t\<lparr>bcontents := bcontents t @ [length (bnodes s)]\<rparr>)))"
  by (simp only: get_or_enqueue.simps Let_def)

lemmas run_enqueue_numeral = run_enqueue [where k = "pred_numeral k" for k, folded numeral_eq_Suc]

lemma run_numeral:
  "mark_reachable (numeral k) n ns =
     bind_res (at ns n) (\<lambda>cur.
       if reachable cur then Inr ns
       else fold_res (\<lambda>e ns. if etype e = StructuredTailEdge then Inr ns else mark_reachable (pred_numeral k) (edst e) ns)
              (succ_edges cur) (ns[n := cur\<lparr>reachable := True\<rparr>]))"
  "post_order_visit (numeral k) n (i, ns, order) =
       bind_res (at ns n) (\<lambda>cur.
       bind_res (fold_res (post_order_succ (post_order_visit (pred_numeral k))) (tails_last (succ_edges cur))
                  (i, ns[n := cur\<lparr>rpo_index := SIZE_MAX - 1\<rparr>], order)) (\<lambda>(i, ns, order).
         if 0 < i \<and> i \<le> length order
         then Inr (i - 1, ns[n := (ns ! n)\<lparr>rpo_index := i - 1\<rparr>], order[i - 1 := Some n])
         else Inl OutOfBounds))"
  "lca_from (numeral k) ns i j =
     bind_res (at ns i) (\<lambda>ni. bind_res (at ns j) (\<lambda>nj.
       if rpo_index ni = rpo_index nj then Inr i
       else if rpo_index ni < rpo_index nj then bind_res (deref (idom nj)) (\<lambda>j. lca_from (pred_numeral k) ns i j)
       else bind_res (deref (idom ni)) (\<lambda>i. lca_from (pred_numeral k) ns i j)))"
  by (simp_all only: numeral_eq_Suc mark_reachable.simps post_order_visit.simps lca_from.simps Let_def prod.case)

lemmas run_simps = run_enqueue run_enqueue_numeral run_numeral process_cf_node_def get_abstraction_body_def get_decl_def get_block_def
  terminator_edges_def jump_edge_def add_edge_def edge_wanted_def link_edge_def new_cfnode_def add_structural_dominance_def
  default_forward_cfg_build_def shd_new_cfg_def validate_cfg_def count_edges_def shd_cfg_compute_rpo_def tails_last_def
  post_order_succ_def SIZE_MAX_def shd_cfg_compute_domtree_def init_idom_def last_tail_edge_def
  idom_loop.simps idom_sweep_def update_idom_def meet_pred_def record_dominated_def shd_cfg_least_common_ancestor_def

abbreviation diamond_cfg :: "CFG result" where
  "diamond_cfg \<equiv> shd_new_cfg diamond 1 (AbsFn 1) default_forward_cfg_build"

lemma diamond_evaluates:
  "\<exists>cfg. diamond_cfg = Inr cfg \<and> length (cnodes cfg) = 4 \<and> centry cfg = 0 \<and> cconfig cfg = default_forward_cfg_build"
  by (simp add: run_simps diamond_def jump_to_def del: get_or_enqueue.simps cong: run_congs)

lemma diamond_forward: "\<not> flipped default_forward_cfg_build \<and> tree_rises default_forward_cfg_build \<and> length (blocks diamond) < SIZE_MAX"
  by (simp add: default_forward_cfg_build_def tree_rises_def diamond_def SIZE_MAX_def)

lemma diamond_cfg_obtain:
  obtains cfg where "diamond_cfg = Inr cfg" "length (cnodes cfg) = 4" "centry cfg = 0"
    "\<not> flipped default_forward_cfg_build" "tree_rises default_forward_cfg_build" "length (blocks diamond) < SIZE_MAX"
  using diamond_evaluates diamond_forward by blast

subsection \<open>Properties of construction\<close>

text \<open>
  C4: Building the graph of a function, numbering it and computing its dominators ends, whatever the function
  jumps to: it returns a graph or fails an assertion, and no loop or recursion runs on.
\<close>

theorem new_cfg_terminates:
  "\<not> flipped conf \<Longrightarrow> tree_rises conf \<Longrightarrow> length (blocks a) < SIZE_MAX \<Longrightarrow> terminates (shd_new_cfg a f entry conf)"
  by (rule new_cfg_cases(1))

theorem new_cfg_terminates_witness: "terminates diamond_cfg"
  by (rule diamond_cfg_obtain) (rule new_cfg_terminates)

text \<open>
  C6: The graph that is returned is consistent: every edge is listed at both its ends and joins nodes of the graph, the map
  answers exactly the nodes' abstractions, the contents list every node once, and the entry is the node asked for.
\<close>

theorem new_cfg_consistent:
  "\<not> flipped conf \<Longrightarrow> tree_rises conf \<Longrightarrow> length (blocks a) < SIZE_MAX \<Longrightarrow> shd_new_cfg a f entry conf = Inr cfg \<Longrightarrow> wf_cfg entry cfg"
  using new_cfg_cases(2) good_cfgD(2) by blast

theorem new_cfg_consistent_witness: "\<exists>cfg. diamond_cfg = Inr cfg \<and> wf_cfg (AbsFn 1) cfg"
  by (rule diamond_cfg_obtain) (use new_cfg_consistent in blast)

text \<open>
  C8: A node is marked reachable exactly when control can flow to it from the entry, along edges that are not
  structured tails.
\<close>

theorem new_cfg_marks_reachable:
  "\<not> flipped conf \<Longrightarrow> tree_rises conf \<Longrightarrow> length (blocks a) < SIZE_MAX \<Longrightarrow> shd_new_cfg a f entry conf = Inr cfg \<Longrightarrow>
   n < length (cnodes cfg) \<Longrightarrow> reachable (cnodes cfg ! n) \<longleftrightarrow> flows_to (cnodes cfg) (centry cfg) n"
  using new_cfg_cases(2) good_cfgD(5) by blast

theorem new_cfg_marks_reachable_witness:
  "\<exists>cfg. diamond_cfg = Inr cfg \<and> (reachable (cnodes cfg ! 3) \<longleftrightarrow> flows_to (cnodes cfg) (centry cfg) 3)"
proof (rule diamond_cfg_obtain)
  fix cfg assume d: "diamond_cfg = Inr cfg" "length (cnodes cfg) = 4" "\<not> flipped default_forward_cfg_build"
    "tree_rises default_forward_cfg_build" "length (blocks diamond) < SIZE_MAX"
  show ?thesis using new_cfg_marks_reachable [OF d(3-5,1), of 3] d(1,2) by auto
qed

text \<open>
  C7: The reverse post-order lists every node once, the entry first; a node's index is its place in the list, and every
  other node has a predecessor with a smaller index.
\<close>

theorem new_cfg_rpo:
  "\<not> flipped conf \<Longrightarrow> tree_rises conf \<Longrightarrow> length (blocks a) < SIZE_MAX \<Longrightarrow> shd_new_cfg a f entry conf = Inr cfg \<Longrightarrow>
   \<exists>order. rpo_order cfg order"
  using new_cfg_cases(2) good_cfgD(3) by blast

theorem new_cfg_rpo_witness: "\<exists>cfg order. diamond_cfg = Inr cfg \<and> rpo_order cfg order"
  by (rule diamond_cfg_obtain) (use new_cfg_rpo in blast)

subsection \<open>Domination\<close>

text \<open>On every path from the entry to a node.\<close>

definition on_all_paths :: "(nat \<Rightarrow> nat \<Rightarrow> bool) \<Rightarrow> nat \<Rightarrow> nat \<Rightarrow> nat \<Rightarrow> bool" where
  "on_all_paths E e n x \<longleftrightarrow> (\<forall>ps. path_to E e n ps \<longrightarrow> x \<in> set ps)"

definition edge_from :: "CFNode list \<Rightarrow> nat \<Rightarrow> nat \<Rightarrow> bool" where
  "edge_from ns m n \<longleftrightarrow> m < length ns \<and> n \<in> successors ns m"

lemma preds_enters:
  assumes "wf_cfg entry cfg" "n < length (cnodes cfg)"
  shows "enters (cnodes cfg) m n \<longleftrightarrow> m \<in> preds (dom_graph (centry cfg) (cnodes cfg)) n"
proof -
  have l: "linked (cnodes cfg)" using assms(1) by (simp add: wf_cfg_def)
  have "m < length (cnodes cfg) \<and> n \<in> successors (cnodes cfg) m \<longleftrightarrow> m \<in> esrc ` set (pred_edges (cnodes cfg ! n))"
  proof
    assume m: "m < length (cnodes cfg) \<and> n \<in> successors (cnodes cfg) m"
    then obtain x where "x \<in> set (succ_edges (cnodes cfg ! m))" "edst x = n" by (auto simp: successors_def)
    then show "m \<in> esrc ` set (pred_edges (cnodes cfg ! n))" using linkedD(1,3) [OF l, of m x] m by force
  next
    assume "m \<in> esrc ` set (pred_edges (cnodes cfg ! n))"
    then obtain x where x: "x \<in> set (pred_edges (cnodes cfg ! n))" "esrc x = m" by blast
    then show "m < length (cnodes cfg) \<and> n \<in> successors (cnodes cfg) m"
      using linkedD(4-6) [OF l assms(2) x(1)] by (auto simp: successors_def)
  qed
  then show ?thesis using assms(2) by (auto simp: enters_def dom_graph_def)
qed

lemma dominated_paths:
  assumes "good_cfg conf entry cfg order" "n < length (cnodes cfg)"
  shows "shd_cfg_is_dominated cfg n x = Inr (on_all_paths (enters (cnodes cfg)) (centry cfg) n x)"
proof -
  note wf = good_cfgD(2) [OF assms(1)]
  have "centry cfg < length (cnodes cfg)" using wf by (simp add: wf_cfg_def)
  then have "avoids (dom_graph (centry cfg) (cnodes cfg)) x n \<longleftrightarrow> (\<exists>ps. path_to (enters (cnodes cfg)) (centry cfg) n ps \<and> x \<notin> set ps)"
    by (intro avoids_path preds_enters [OF wf]) (simp_all add: enters_def)
  then show ?thesis using good_cfgD(6) [OF assms] by (auto simp: dom_by_def on_all_paths_def)
qed

lemma no_tails_enters:
  assumes g: "good_cfg conf entry cfg order" and "\<not> include_structured_tails conf"
  shows "enters (cnodes cfg) = edge_from (cnodes cfg)"
proof (intro ext)
  fix m n
  have l: "linked (cnodes cfg)" using good_cfgD(2) [OF g] by (simp add: wf_cfg_def)
  have "structured_idom (cnodes cfg ! n) = None" if "n < length (cnodes cfg)"
    using good_cfgD(4,8) [OF g] that assms(2) by (auto simp: tails_wanted_def)
  moreover have "n < length (cnodes cfg)" if "m < length (cnodes cfg)" "n \<in> successors (cnodes cfg) m"
    using linkedD(2) [OF l that(1)] that(2) by (auto simp: successors_def)
  ultimately show "enters (cnodes cfg) m n = edge_from (cnodes cfg) m n" by (auto simp: enters_def edge_from_def)
qed



text \<open>
  In a graph built without structured tails the paths are those along all the edges of the graph.
\<close>

theorem new_cfg_plain_dominance:
  "\<not> flipped conf \<Longrightarrow> tree_rises conf \<Longrightarrow> length (blocks a) < SIZE_MAX \<Longrightarrow> shd_new_cfg a f entry conf = Inr cfg \<Longrightarrow>
   \<not> include_structured_tails conf \<Longrightarrow> n < length (cnodes cfg) \<Longrightarrow>
   shd_cfg_is_dominated cfg n x = Inr (on_all_paths (edge_from (cnodes cfg)) (centry cfg) n x)"
  by (drule (3) new_cfg_cases(2)) (auto simp: dominated_paths no_tails_enters)

definition plain_cfg_build :: CFGBuildConfig where
  "plain_cfg_build = default_forward_cfg_build\<lparr>include_structured_tails := False\<rparr>"

lemma diamond_plain: "\<exists>cfg. shd_new_cfg diamond 1 (AbsFn 1) plain_cfg_build = Inr cfg \<and> length (cnodes cfg) = 4"
  by (simp add: run_simps diamond_def jump_to_def plain_cfg_build_def del: get_or_enqueue.simps cong: run_congs)

theorem new_cfg_plain_dominance_witness:
  "\<exists>cfg. shd_new_cfg diamond 1 (AbsFn 1) plain_cfg_build = Inr cfg
     \<and> shd_cfg_is_dominated cfg 2 1 = Inr (on_all_paths (edge_from (cnodes cfg)) (centry cfg) 2 1)"
proof -
  obtain cfg where c: "shd_new_cfg diamond 1 (AbsFn 1) plain_cfg_build = Inr cfg" "length (cnodes cfg) = 4"
    using diamond_plain by blast
  have p: "\<not> flipped plain_cfg_build" "tree_rises plain_cfg_build" "length (blocks diamond) < SIZE_MAX" "\<not> include_structured_tails plain_cfg_build"
    using diamond_forward by (simp_all add: plain_cfg_build_def tree_rises_def default_forward_cfg_build_def)
  show ?thesis using new_cfg_plain_dominance [OF p(1-3) c(1) p(4), of 2 1] c by auto
qed



subsection \<open>Errors\<close>

text \<open>
  C9: The numbering fails its assertion exactly when some node cannot be reached from the entry; otherwise it returns
  a numbering. A graph that is inverted loses the nodes that reach no exit.
\<close>

theorem compute_rpo_reachable:
  "unnumbered cfg \<Longrightarrow> is_ok (shd_cfg_compute_rpo cfg) \<longleftrightarrow> list_all (reaches (cnodes cfg) (centry cfg)) [0..<length (cnodes cfg)]"
  using compute_rpo_spec [of cfg] by (auto simp: list_all_iff split: if_splits)

definition lone_cfg :: CFG where
  "lone_cfg = \<lparr>cconfig = plain_cfg_build, csize = 1, contents = [0], cmap = [], centry = 0, rpo = [], cnodes = [new_cfnode None]\<rparr>"

theorem compute_rpo_reachable_witness:
  "is_ok (shd_cfg_compute_rpo lone_cfg) \<longleftrightarrow> list_all (reaches (cnodes lone_cfg) (centry lone_cfg)) [0..<length (cnodes lone_cfg)]"
  by (rule compute_rpo_reachable) (simp add: unnumbered_def lone_cfg_def SIZE_MAX_def new_cfnode_def edges_inside_def successors_def)

text \<open>A function that branches to a block that returns and to one that jumps to itself.\<close>

definition spinning :: arena where
  "spinning = diamond\<lparr>blocks := [(2, \<lparr>bb_params = [], bb_body = Some (jump_to 2)\<rparr>),
     (3, \<lparr>bb_params = [], bb_body = Some (Node 0 (Return (Node 0 (AbsMem (AbsBlock 3)) None) []) None)\<rparr>)]\<rparr>"


end
