(* ===== verification/IrLoopProps.thy ===== *)
theory IrLoopProps
  imports IrLoopBuild IrCfgProps
begin

text \<open>
  Properties of loop trees: on the graph of a function the tree is built, every node of the graph has exactly one leaf,
  which the map finds, and graphs can be built that are restricted to a loop of the tree.
\<close>

subsection \<open>The map\<close>

lemma build_map_spans:
  assumes "spans tree i I R" and "length tree - i \<le> fuel" and "Domain R \<subseteq> {..<length ns}"
  shows "\<exists>l. build_map_recursive fuel ns tree i m = Inr (l @ m) \<and> set l = (\<lambda>(v, j). (cnode (ns ! v), j)) ` R"
  using assms
proof (induction arbitrary: fuel m rule: spans.induct)
  case (leaf i v)
  then obtain f where "fuel = Suc f" by (cases fuel) auto
  with leaf show ?case by (intro exI [of _ "[(cnode (ns ! v), i)]"]) (simp add: at_def)
next
  case (head i xs)
  then obtain f where f: "fuel = Suc f" by (cases fuel) auto
  have "\<exists>l. fold_res (build_map_recursive f ns tree) cs m = Inr (l @ m) \<and> set l = (\<lambda>(v, j). (cnode (ns ! v), j)) ` \<Union>(snd ` set xs)"
    if "list_all2 (\<lambda>c x. (spans tree c (fst x) (snd x) \<and> (\<forall>fuel. length tree - c \<le> fuel \<longrightarrow> Domain (snd x) \<subseteq> {..<length ns} \<longrightarrow>
          (\<forall>m. \<exists>l. build_map_recursive fuel ns tree c m = Inr (l @ m) \<and> set l = (\<lambda>(v, j). (cnode (ns ! v), j)) ` snd x))) \<and> i < c) cs xs"
      "Domain (\<Union>(snd ` set xs)) \<subseteq> {..<length ns}" for cs xs
    using that
  proof (induction arbitrary: m rule: list_all2_induct)
    case Nil
    then show ?case by simp
  next
    case (Cons c cs x xs)
    have "length tree - c \<le> f" using Cons.hyps(1) head.prems(1) f by auto
    moreover have "Domain (snd x) \<subseteq> {..<length ns}" using Cons.prems by auto
    ultimately obtain l1 where l1: "build_map_recursive f ns tree c m = Inr (l1 @ m)" "set l1 = (\<lambda>(v, j). (cnode (ns ! v), j)) ` snd x"
      using Cons.hyps(1) by blast
    have "Domain (\<Union>(snd ` set xs)) \<subseteq> {..<length ns}" using Cons.prems by (simp add: Domain_Un_eq)
    from Cons.IH [OF this, of "l1 @ m"] obtain l2 where
      l2: "fold_res (build_map_recursive f ns tree) cs (l1 @ m) = Inr (l2 @ l1 @ m)"
      "set l2 = (\<lambda>(v, j). (cnode (ns ! v), j)) ` \<Union>(snd ` set xs)" by blast
    have "set (l2 @ l1) = (\<lambda>(v, j). (cnode (ns ! v), j)) ` \<Union>(snd ` set (x # xs))" using l1(2) l2(2) by auto
    then show ?case using l1(1) l2(1) by (intro exI [of _ "l2 @ l1"]) simp
  qed
  from this [OF head.IH head.prems(2)] head.hyps f show ?case by (simp add: at_def)
qed

lemma map_of_single: "(k, j) \<in> set l \<Longrightarrow> (\<And>j'. (k, j') \<in> set l \<Longrightarrow> j' = j) \<Longrightarrow> map_of l k = Some j"
  by (metis map_of_SomeD map_of_eq_None_iff not_None_eq fst_conv image_eqI)

text \<open>The leaves of a tree.\<close>

definition leaves_of :: "LTNode list \<Rightarrow> nat \<Rightarrow> nat set" where
  "leaves_of tree v = {j. j < length tree \<and> ltype (tree ! j) = LF_LEAF \<and> lcf_nodes (tree ! j) = [v]}"

lemma spans_inside: "spans tree i I R \<Longrightarrow> I \<subseteq> {..<length tree}"
proof (induction rule: spans.induct)
  case (head i xs)
  have "\<Union>(fst ` set xs) \<subseteq> {..<length tree}"
    using head.IH by (induction rule: list_all2_induct) auto
  with head.hyps(1) show ?case by simp
qed simp

lemma spans_leaves:
  assumes "spans tree i I R"
  shows "(v, j) \<in> R \<longleftrightarrow> j \<in> I \<and> j \<in> leaves_of tree v"
  using assms
proof (induction arbitrary: v j rule: spans.induct)
  case (leaf i w)
  then show ?case by (auto simp: leaves_of_def)
next
  case (head i xs)
  have "(v, j) \<in> \<Union>(snd ` set xs) \<longleftrightarrow> j \<in> \<Union>(fst ` set xs) \<and> j \<in> leaves_of tree v"
    using head.IH by (induction rule: list_all2_induct) auto
  then show ?case using head.hyps(2) by (auto simp: leaves_of_def)
qed

subsection \<open>The loop tree of a function\<close>

lemma rpo_numbered:
  assumes w: "wf_cfg entry cfg" and r: "rpo_order cfg order"
  shows "indexed (cnodes cfg)" and "all_reached (cnodes cfg) (centry cfg)"
proof -
  let ?ns = "cnodes cfg"
  have od: "distinct order" "set order = {..<length ?ns}" "\<And>k. k < length order \<Longrightarrow> rpo_index (?ns ! (order ! k)) = k"
    "\<And>n. n < length ?ns \<Longrightarrow> n \<noteq> centry cfg \<Longrightarrow> \<exists>p < length ?ns. n \<in> successors ?ns p \<and> rpo_index (?ns ! p) < rpo_index (?ns ! n)"
    using r unfolding rpo_order_def by blast+
  have w': "linked ?ns" "centry cfg < length ?ns" using w by (auto simp: wf_cfg_def)
  have len: "length order = length ?ns" using od(1,2) by (metis card_lessThan distinct_card)
  have at: "\<exists>k < length order. n = order ! k \<and> rpo_index (?ns ! n) = k" if "n < length ?ns" for n
    using that od(2,3) by (metis in_set_conv_nth lessThan_iff)
  show "indexed ?ns"
    unfolding indexed_def inj_on_def using w'(1) at len by (metis lessThan_iff)
  have "reaches ?ns (centry cfg) n" if "n < length ?ns" for n
    using that
  proof (induction "rpo_index (?ns ! n)" arbitrary: n rule: less_induct)
    case less
    show ?case
    proof (cases "n = centry cfg")
      case False
      with od(4) less show ?thesis by (blast intro: reaches.further)
    qed (simp add: reaches.here)
  qed
  then show "all_reached ?ns (centry cfg)" using w'(2) by (simp add: all_reached_def)
qed

lemma new_loop_tree_spec:
  assumes w: "wf_cfg entry cfg" and r: "rpo_order cfg order"
  obtains t R where "shd_new_loop_tree cfg = Inr t" "rises (lnodes t)" "spans (lnodes t) 0 {..<length (lnodes t)} R"
    "Domain R = {..<length (cnodes cfg)}" "single_valued R"
    "\<And>v i. (v, i) \<in> R \<Longrightarrow> map_of (lmap t) (cnode (cnodes cfg ! v)) = Some i"
proof -
  let ?ns = "cnodes cfg"
  note nb = rpo_numbered(1) [OF w r] and ar = rpo_numbered(2) [OF w r]
  have sz: "csize cfg = length ?ns" and e: "centry cfg < length ?ns"
    and inj: "\<And>v u. v < length ?ns \<Longrightarrow> u < length ?ns \<Longrightarrow> cnode (?ns ! v) = cnode (?ns ! u) \<Longrightarrow> v = u"
  proof -
    show "csize cfg = length ?ns" "centry cfg < length ?ns" using w by (auto simp: wf_cfg_def)
    show "v = u" if v: "v < length ?ns" "u < length ?ns" "cnode (?ns ! v) = cnode (?ns ! u)" for v u
    proof -
      have "cnode (?ns ! v) \<noteq> None" using w v(1) unfolding wf_cfg_def by blast
      then obtain absn where a: "cnode (?ns ! v) = Some absn" by blast
      have m: "\<And>n. map_of (cmap cfg) absn = Some n \<longleftrightarrow> n < length ?ns \<and> cnode (?ns ! n) = Some absn"
        using w unfolding wf_cfg_def by blast
      have "map_of (cmap cfg) absn = Some v" "map_of (cmap cfg) absn = Some u" using m a v by simp_all
      then show ?thesis by simp
    qed
  qed
  let ?st = "\<lparr>in_scc = False, on_stack = False, is_head = False, in_set = False, dfs = SIZE_MAX, low_link = SIZE_MAX\<rparr>"
  let ?root = "\<lparr>ltype = LF_HEAD, lparent = None, lcf_nodes = [], ldepth = 0, lf_children = []\<rparr>"
  let ?b = "\<lparr>states = replicate (csize cfg) ?st, lstack = [], ltree = [?root]\<rparr>"
  have st: "st ?ns ?b n = ?st" if "n < length ?ns" for n using indexedD(2) [OF nb that] sz by (simp add: st_def)
  have idle: "idle ?ns ?b" using st sz by (auto simp: idle_def wstate_def)
  have hd0: "hd_set ?ns ?b = {}" using st by (auto simp: hd_set_def)
  have "body_of ?ns (centry cfg) {..<length ?ns} [centry cfg] {}"
    using e linked_inside [OF indexedD(1) [OF nb]] by (auto simp: body_of_def edges_inside_def)
  then have "rec_pre ?ns (centry cfg) 0 {..<length ?ns} [centry cfg] ?b (length ?ns)"
    using idle by (simp add: rec_pre_def hd0 rises_def)
  with recurse_well [OF nb ar, of "length ?ns"] obtain b' R where
    rec: "recurse (Suc (length ?ns)) ?ns (centry cfg) 0 [centry cfg] 1 ?b = Inr b'"
    and post: "rec_post ?ns (centry cfg) 0 {..<length ?ns} ?b b' R"
    unfolding recurses_well_def by blast
  have p: "rises (ltree b')" "1 \<le> length (ltree b')" "spans (ltree b') 0 (insert 0 {1..<length (ltree b')}) R"
    "Domain R = {..<length ?ns}" "single_valued R"
    using post unfolding rec_post_def by auto
  have all: "insert 0 {1..<length (ltree b')} = {..<length (ltree b')}" using p(2) by auto
  obtain m where m: "build_map_recursive (length (ltree b')) ?ns (ltree b') 0 [] = Inr m"
    "set m = (\<lambda>(v, j). (cnode (?ns ! v), j)) ` R"
    using build_map_spans [OF p(3), of "length (ltree b')" ?ns "[]"] p(4) by auto
  have look: "map_of m (cnode (?ns ! v)) = Some i" if "(v, i) \<in> R" for v i
  proof (rule map_of_single)
    show "(cnode (?ns ! v), i) \<in> set m" using that m(2) by force
    show "j = i" if "(cnode (?ns ! v), j) \<in> set m" for j
    proof -
      from that m(2) obtain u where "(u, j) \<in> R" "cnode (?ns ! u) = cnode (?ns ! v)" by auto
      then have "u = v" using inj [of u v] p(4) \<open>(v, i) \<in> R\<close> by blast
      then show ?thesis using p(5) \<open>(u, j) \<in> R\<close> \<open>(v, i) \<in> R\<close> by (auto dest: single_valuedD)
    qed
  qed
  show thesis
  proof
    show "shd_new_loop_tree cfg = Inr \<lparr>lnodes = ltree b', lmap = m, lcfg = ?ns\<rparr>"
      using rec m(1) by (simp add: shd_new_loop_tree_def Let_def new_lf_node_def)
  qed (use p look all in auto)
qed

text \<open>An example: a function that branches to a block that returns and to one that jumps to itself.\<close>

abbreviation spinning_cfg :: "CFG result" where
  "spinning_cfg \<equiv> shd_new_cfg spinning 1 (AbsFn 1) (flipped_cfg_build\<lparr>flipped := False\<rparr>)"

lemma spinning_evaluates:
  "\<exists>cfg. spinning_cfg = Inr cfg \<and> 1 < length (cnodes cfg) \<and> cnode (cnodes cfg ! 1) = Some (AbsBlock 2)"
  by (simp add: run_simps flipped_cfg_build_def spinning_def diamond_def jump_to_def del: get_or_enqueue.simps cong: run_congs)

lemma spinning_forward:
  "\<not> flipped (flipped_cfg_build\<lparr>flipped := False\<rparr>)" "tree_rises (flipped_cfg_build\<lparr>flipped := False\<rparr>)" "length (blocks spinning) < SIZE_MAX"
  by (simp_all add: flipped_cfg_build_def tree_rises_def spinning_def SIZE_MAX_def)

text \<open>
  C11: On the graph of a function the loop tree is built, every node of the graph has exactly one leaf in it, and the
  lookup finds that leaf.
\<close>

theorem loop_tree_leaves:
  assumes "\<not> flipped conf" "tree_rises conf" "length (blocks a) < SIZE_MAX" "shd_new_cfg a f entry conf = Inr cfg"
  shows "\<exists>t. shd_new_loop_tree cfg = Inr t
      \<and> (\<forall>v absn. v < length (cnodes cfg) \<and> cnode (cnodes cfg ! v) = Some absn \<longrightarrow>
           (\<exists>i. shd_loop_tree_lookup t absn = Inr i \<and> leaves_of (lnodes t) v = {i}))"
proof -
  from new_cfg_cases(2) [OF assms] obtain order where g: "good_cfg conf entry cfg order" by blast
  obtain t R where t: "shd_new_loop_tree cfg = Inr t" "spans (lnodes t) 0 {..<length (lnodes t)} R"
    "Domain R = {..<length (cnodes cfg)}" "single_valued R"
    "\<And>v i. (v, i) \<in> R \<Longrightarrow> map_of (lmap t) (cnode (cnodes cfg ! v)) = Some i"
    by (rule new_loop_tree_spec [OF good_cfgD(2,3) [OF g]]) (rule that)
  have "\<exists>i. shd_loop_tree_lookup t absn = Inr i \<and> leaves_of (lnodes t) v = {i}"
    if "v < length (cnodes cfg)" "cnode (cnodes cfg ! v) = Some absn" for v absn
  proof -
    from that(1) t(3) obtain i where i: "(v, i) \<in> R" by blast
    have "leaves_of (lnodes t) v = {i}"
      using spans_leaves [OF t(2)] i single_valuedD [OF t(4)] by (auto simp: leaves_of_def)
    then show ?thesis using t(5) [OF i] that(2) by (simp add: shd_loop_tree_lookup_def)
  qed
  with t(1) show ?thesis by blast
qed

lemma loop_tree_leaves_witness:
  "\<exists>cfg t i. spinning_cfg = Inr cfg \<and> shd_new_loop_tree cfg = Inr t \<and> shd_loop_tree_lookup t (AbsBlock 2) = Inr i
     \<and> leaves_of (lnodes t) 1 = {i}"
proof -
  from spinning_evaluates obtain cfg where c: "spinning_cfg = Inr cfg" "1 < length (cnodes cfg)" "cnode (cnodes cfg ! 1) = Some (AbsBlock 2)"
    by auto
  from loop_tree_leaves [OF spinning_forward c(1)] c show ?thesis by blast
qed



end
