(* ===== verification/SlimToken.thy ===== *)
theory SlimToken
  imports Prelude
begin

text \<open>
  The tokenizer of the Slim front end: \<^verbatim>\<open>src/frontend/slim/token.c\<close>. The source is a string without
  zero characters; reading at its length yields the terminator, reading behind it is out of bounds. Positions are offsets
  into the source.
\<close>

subsection \<open>Tokens\<close>

text \<open>The enumeration \<^verbatim>\<open>TokenTag\<close>, its words and its symbols as enumerations of their own.\<close>

datatype (plugins only: code size) WordTag =
    uniform_tok | varying_tok | struct_tok | union_tok | array_tok | private_tok | shared_tok | subgroup_tok |
    global_tok | input_tok | output_tok | extern_tok | generic_tok | logical_tok | var_tok | val_tok | ptr_tok |
    ref_tok | type_tok | fn_tok | cont_tok | lambda_tok | i8_tok | i16_tok | i32_tok | i64_tok | u8_tok |
    u16_tok | u32_tok | u64_tok | f16_tok | f32_tok | f64_tok | mask_t_tok | composite_tok | pack_tok |
    const_tok | bool_tok | true_tok | false_tok | if_tok | else_tok | control_tok | merge_selection_tok |
    loop_tok | continue_tok | break_tok | jump_tok | branch_tok | switch_tok | case_tok | default_tok | join_tok |
    call_tok | tailcall_tok | return_tok | unreachable_tok

datatype (plugins only: code size) SymbolTag =
    infix_rshift_logical_tok | infix_rshift_arithm_tok | infix_lshift_tok | infix_eq_tok | infix_neq_tok |
    infix_geq_tok | infix_leq_tok | infix_gt_tok | infix_ls_tok | infix_and_tok | infix_xor_tok | infix_or_tok |
    unary_excl_tok | plus_tok | minus_tok | star_tok | fslash_tok | percent_tok | lpar_tok | rpar_tok |
    lbracket_tok | rbracket_tok | lsbracket_tok | rsbracket_tok | at_tok | pound_tok | dot_tok | semi_tok |
    colon_tok | comma_tok | equal_tok

datatype TokenTag = EOF_tok | identifier_tok | dec_lit_tok | hex_lit_tok | string_lit_tok | Word WordTag | Symbol SymbolTag

text \<open>The list \<^verbatim>\<open>TOKENS\<close>: every token with its spelling, if it has one, in the order of the enumeration.\<close>

definition TOKENS :: "(TokenTag \<times> string option) list" where
  "TOKENS =
     [
      (EOF_tok, None), (identifier_tok, None), (dec_lit_tok, None), (hex_lit_tok, None), (string_lit_tok, None),
      (Word uniform_tok, Some ''uniform''), (Word varying_tok, Some ''varying''),
      (Word struct_tok, Some ''struct''), (Word union_tok, Some ''union''), (Word array_tok, Some ''array''),
      (Word private_tok, Some ''private''), (Word shared_tok, Some ''shared''),
      (Word subgroup_tok, Some ''subgroup''), (Word global_tok, Some ''global''),
      (Word input_tok, Some ''input''), (Word output_tok, Some ''output''), (Word extern_tok, Some ''extern''),
      (Word generic_tok, Some ''generic''), (Word logical_tok, Some ''logical''), (Word var_tok, Some ''var''),
      (Word val_tok, Some ''val''), (Word ptr_tok, Some ''ptr''), (Word ref_tok, Some ''ref''),
      (Word type_tok, Some ''type''), (Word fn_tok, Some ''fn''), (Word cont_tok, Some ''cont''),
      (Word lambda_tok, Some ''lambda''), (Word i8_tok, Some ''i8''), (Word i16_tok, Some ''i16''),
      (Word i32_tok, Some ''i32''), (Word i64_tok, Some ''i64''), (Word u8_tok, Some ''u8''),
      (Word u16_tok, Some ''u16''), (Word u32_tok, Some ''u32''), (Word u64_tok, Some ''u64''),
      (Word f16_tok, Some ''f16''), (Word f32_tok, Some ''f32''), (Word f64_tok, Some ''f64''),
      (Word mask_t_tok, Some ''mask_t''), (Word composite_tok, Some ''composite''),
      (Word pack_tok, Some ''pack''), (Word const_tok, Some ''const''), (Word bool_tok, Some ''bool''),
      (Word true_tok, Some ''true''), (Word false_tok, Some ''false''), (Word if_tok, Some ''if''),
      (Word else_tok, Some ''else''), (Word control_tok, Some ''control''),
      (Word merge_selection_tok, Some ''merge_selection''), (Word loop_tok, Some ''loop''),
      (Word continue_tok, Some ''continue''), (Word break_tok, Some ''break''), (Word jump_tok, Some ''jump''),
      (Word branch_tok, Some ''branch''), (Word switch_tok, Some ''switch''), (Word case_tok, Some ''case''),
      (Word default_tok, Some ''default''), (Word join_tok, Some ''join''), (Word call_tok, Some ''call''),
      (Word tailcall_tok, Some ''tailcall''), (Word return_tok, Some ''return''),
      (Word unreachable_tok, Some ''unreachable''), (Symbol infix_rshift_logical_tok, Some ''>>>''),
      (Symbol infix_rshift_arithm_tok, Some ''>>''), (Symbol infix_lshift_tok, Some ''<<''),
      (Symbol infix_eq_tok, Some ''==''), (Symbol infix_neq_tok, Some ''!=''),
      (Symbol infix_geq_tok, Some ''>=''), (Symbol infix_leq_tok, Some ''<=''), (Symbol infix_gt_tok, Some ''>''),
      (Symbol infix_ls_tok, Some ''<''), (Symbol infix_and_tok, Some ''&''), (Symbol infix_xor_tok, Some ''^''),
      (Symbol infix_or_tok, Some ''|''), (Symbol unary_excl_tok, Some ''!''), (Symbol plus_tok, Some ''+''),
      (Symbol minus_tok, Some ''-''), (Symbol star_tok, Some ''*''), (Symbol fslash_tok, Some ''/''),
      (Symbol percent_tok, Some ''%''), (Symbol lpar_tok, Some ''(''), (Symbol rpar_tok, Some '')''),
      (Symbol lbracket_tok, Some ''{''), (Symbol rbracket_tok, Some ''}''), (Symbol lsbracket_tok, Some ''[''),
      (Symbol rsbracket_tok, Some '']''), (Symbol at_tok, Some ''@''), (Symbol pound_tok, Some ''#''),
      (Symbol dot_tok, Some ''.''), (Symbol semi_tok, Some '';''), (Symbol colon_tok, Some '':''),
      (Symbol comma_tok, Some '',''), (Symbol equal_tok, Some ''='')]"

record Token =
  tag :: TokenTag
  tstart :: nat
  tend :: nat

record Tokenizer =
  source :: string
  pos :: nat
  line :: nat
  last_line_pos :: nat
  current :: Token

record Loc =
  loc_line :: nat
  loc_column :: nat

definition source_size :: "Tokenizer \<Rightarrow> nat" where
  "source_size t = length (source t)"

definition NUL :: char where
  "NUL = CHR 0x00"

definition char_at :: "string \<Rightarrow> nat \<Rightarrow> char result" where
  "char_at s i = (if i < length s then Inr (s ! i) else if i = length s then Inr NUL else Inl OutOfBounds)"

definition in_bounds :: "Tokenizer \<Rightarrow> nat \<Rightarrow> bool" where
  "in_bounds t offset_to_slice \<longleftrightarrow> pos t + offset_to_slice \<le> source_size t"

subsection \<open>Characters\<close>

definition code :: "char \<Rightarrow> nat" where
  "code c = of_char c"

definition is_alpha :: "char \<Rightarrow> bool" where
  "is_alpha c \<longleftrightarrow> code (CHR ''A'') \<le> code c \<and> code c \<le> code (CHR ''Z'') \<or> code (CHR ''a'') \<le> code c \<and> code c \<le> code (CHR ''z'')"

definition is_digit :: "char \<Rightarrow> bool" where
  "is_digit c \<longleftrightarrow> code (CHR ''0'') \<le> code c \<and> code c \<le> code (CHR ''9'')"

abbreviation newline :: char where
  "newline \<equiv> CHR 0x0A"

abbreviation quote :: char where
  "quote \<equiv> CHR 0x22"

definition whitespace :: "char list" where
  "whitespace = [CHR '' '', CHR 0x09, CHR 0x0D]"

definition is_whitespace :: "char \<Rightarrow> bool" where
  "is_whitespace c \<longleftrightarrow> c \<in> set whitespace"

definition can_start_identifier :: "char \<Rightarrow> bool" where
  "can_start_identifier c \<longleftrightarrow> is_alpha c \<or> c = CHR ''_''"

definition can_make_up_identifier :: "char \<Rightarrow> bool" where
  "can_make_up_identifier c \<longleftrightarrow> can_start_identifier c \<or> is_digit c"

subsection \<open>White space and comments\<close>

text \<open>The two inner loops: to the end of the line, and behind the end of the comment.\<close>

function to_newline :: "string \<Rightarrow> nat \<Rightarrow> nat" where
  "to_newline s i = (if i < length s then (if s ! i = newline then i else to_newline s (i + 1)) else i)"
  by auto
termination by (relation "measure (\<lambda>(s, i). length s - i)") auto

function to_comment_end :: "string \<Rightarrow> nat \<Rightarrow> nat" where
  "to_comment_end s i =
     (if i < length s
      then (if s ! i = CHR ''/'' \<and> s ! (i - 1) = CHR ''*'' then i + 1 else to_comment_end s (i + 1))
      else i)"
  by auto
termination by (relation "measure (\<lambda>(s, i). length s - i)") auto

declare to_newline.simps [simp del] to_comment_end.simps [simp del]

lemma to_newline_le: "i \<le> to_newline s i \<and> (i \<le> length s \<longrightarrow> to_newline s i \<le> length s)"
proof (induction s i rule: to_newline.induct)
  case (1 s i)
  then show ?case by (auto simp: to_newline.simps [of s i])
qed

lemma to_comment_end_le: "i \<le> to_comment_end s i \<and> (i \<le> length s \<longrightarrow> to_comment_end s i \<le> length s)"
proof (induction s i rule: to_comment_end.induct)
  case (1 s i)
  then show ?case by (auto simp: to_comment_end.simps [of s i])
qed

function eat_whitespace_and_comments :: "Tokenizer \<Rightarrow> Tokenizer" where
  "eat_whitespace_and_comments t =
     (let s = source t; p = pos t in
      if p < length s
      then if s ! p = newline
           then eat_whitespace_and_comments (t\<lparr>line := line t + 1, pos := p + 1, last_line_pos := p + 1\<rparr>)
           else if is_whitespace (s ! p) then eat_whitespace_and_comments (t\<lparr>pos := p + 1\<rparr>)
           else if p + 2 \<le> length s \<and> s ! p = CHR ''/'' \<and> s ! (p + 1) = CHR ''/''
           then eat_whitespace_and_comments (t\<lparr>pos := to_newline s p\<rparr>)
           else if p + 4 \<le> length s \<and> s ! p = CHR ''/'' \<and> s ! (p + 1) = CHR ''*''
           then eat_whitespace_and_comments (t\<lparr>pos := to_comment_end s (p + 3)\<rparr>)
           else t
      else t)"
  by auto

lemma slash_not_newline: "s ! p = CHR ''/'' \<Longrightarrow> p < length s \<Longrightarrow> p < to_newline s p"
  using to_newline_le [of "p + 1" s] by (simp add: to_newline.simps [of s p])

termination eat_whitespace_and_comments
proof (relation "measure (\<lambda>t. length (source t) - pos t)")
  fix t :: Tokenizer and s p
  assume a: "s = source t" "p = pos t" "p < length s"
  show "(t\<lparr>pos := to_newline s p\<rparr>, t) \<in> measure (\<lambda>t. length (source t) - pos t)"
    if "p + 2 \<le> length s \<and> s ! p = CHR ''/'' \<and> s ! (p + 1) = CHR ''/''"
    using slash_not_newline [of s p] a that by (simp add: diff_less_mono2)
  show "(t\<lparr>pos := to_comment_end s (p + 3)\<rparr>, t) \<in> measure (\<lambda>t. length (source t) - pos t)"
    if "p + 4 \<le> length s \<and> s ! p = CHR ''/'' \<and> s ! (p + 1) = CHR ''*''"
    using to_comment_end_le [of "p + 3" s] a that by (simp add: diff_less_mono2)
qed auto

declare eat_whitespace_and_comments.simps [simp del]

subsection \<open>The next token\<close>

text \<open>The loops over a class of characters: from the offset \<open>k\<close> of the slice, as long as the class has the next character.\<close>

function scan :: "(char \<Rightarrow> bool) \<Rightarrow> Tokenizer \<Rightarrow> nat \<Rightarrow> nat result" where
  "scan P t k =
     (if in_bounds t k
      then bind_res (char_at (source t) (pos t + k)) (\<lambda>c. if P c then scan P t (k + 1) else Inr k)
      else Inr k)"
  by auto
termination
  by (relation "measure (\<lambda>(P, t, k). Suc (length (source t)) - (pos t + k))") (auto simp: in_bounds_def source_size_def)

declare scan.simps [simp del]

text \<open>The token whose spelling the slice starts with; of an identifier the whole text.\<close>

fun match_token :: "Tokenizer \<Rightarrow> bool \<Rightarrow> nat \<Rightarrow> (TokenTag \<times> string option) list \<Rightarrow> (TokenTag \<times> nat) option" where
  "match_token t can_be_identifier token_size [] = None"
| "match_token t can_be_identifier token_size ((i, None) # toks) = match_token t can_be_identifier token_size toks"
| "match_token t can_be_identifier token_size ((i, Some s) # toks) =
     (if s \<noteq> [] \<and> in_bounds t (length s) \<and> take (length s) (drop (pos t) (source t)) = s
         \<and> (\<not> can_be_identifier \<or> length s = token_size)
      then Some (i, length s)
      else match_token t can_be_identifier token_size toks)"

text \<open>One optional character, and the length of a number.\<close>

definition optional :: "Tokenizer \<Rightarrow> char list \<Rightarrow> nat \<Rightarrow> nat result" where
  "optional t cs k = bind_res (char_at (source t) (pos t + k)) (\<lambda>c. Inr (if c \<in> set cs then k + 1 else k))"

definition number_size :: "Tokenizer \<Rightarrow> nat \<Rightarrow> nat result" where
  "number_size t k =
     bind_res (scan is_digit t k) (\<lambda>k.
     bind_res (optional t [CHR ''.''] k) (\<lambda>k.
     bind_res (scan is_digit t k) (\<lambda>k.
     bind_res (char_at (source t) (pos t + k)) (\<lambda>e.
     bind_res (if e = CHR ''e''
               then bind_res (optional t [CHR ''-'', CHR ''+''] (k + 1)) (scan is_digit t)
               else Inr k) (\<lambda>k.
     optional t [CHR ''f''] k)))))"

definition finish_token :: "Tokenizer \<Rightarrow> TokenTag \<Rightarrow> nat \<Rightarrow> (Token \<times> Tokenizer) result" where
  "finish_token t i token_size =
     (let token = \<lparr>tag = i, tstart = pos t, tend = pos t + token_size\<rparr>
      in Inr (token, t\<lparr>pos := pos t + token_size, current := token\<rparr>))"

definition text_token :: "Tokenizer \<Rightarrow> bool \<Rightarrow> nat \<Rightarrow> (Token \<times> Tokenizer) result" where
  "text_token t can_be_identifier token_size =
     (case match_token t can_be_identifier token_size TOKENS of
        Some (i, tok_size) \<Rightarrow> finish_token t i tok_size
      | None \<Rightarrow>
          if can_be_identifier then finish_token t identifier_tok token_size
          else Inl (ShdError ''We do not know how to tokenize''))"

definition string_token :: "Tokenizer \<Rightarrow> (Token \<times> Tokenizer) result" where
  "string_token t =
     bind_res (scan (\<lambda>c. c \<noteq> quote) t 1) (\<lambda>k.
     bind_res (char_at (source t) (pos t + k)) (\<lambda>c.
       if c = quote
       then (let token = \<lparr>tag = string_lit_tok, tstart = pos t + 1, tend = pos t + k\<rparr>
             in Inr (token, t\<lparr>pos := pos t + k + 1, current := token\<rparr>))
       else text_token t False (k - 1)))"

definition shd_next_token :: "Tokenizer \<Rightarrow> (Token \<times> Tokenizer) result" where
  "shd_next_token t =
     (let t = eat_whitespace_and_comments t in
      if pos t = source_size t
      then (let token = \<lparr>tag = EOF_tok, tstart = 0, tend = 0\<rparr> in Inr (token, t\<lparr>current := token\<rparr>))
      else require (in_bounds t 1)
        (bind_res (char_at (source t) (pos t)) (\<lambda>c.
         if can_start_identifier c
         then bind_res (scan can_make_up_identifier t 0) (text_token t True)
         else if is_digit c
         then bind_res (char_at (source t) (pos t + 1)) (\<lambda>c2.
              bind_res (number_size t (if c = CHR ''0'' \<and> c2 = CHR ''x'' then 2 else 0))
                (finish_token t (if c = CHR ''0'' \<and> c2 = CHR ''x'' then hex_lit_tok else dec_lit_tok)))
         else if c = quote then string_token t
         else text_token t False 0)))"

definition shd_new_tokenizer :: "string \<Rightarrow> Tokenizer result" where
  "shd_new_tokenizer s =
     bind_res (shd_next_token \<lparr>source = s, pos = 0, line = 1, last_line_pos = 0, current = \<lparr>tag = EOF_tok, tstart = 0, tend = 0\<rparr>\<rparr>)
       (\<lambda>(_, t). Inr t)"

definition shd_current_loc :: "Tokenizer \<Rightarrow> Loc" where
  "shd_current_loc t = \<lparr>loc_line = line t, loc_column = pos t - last_line_pos t\<rparr>"

definition shd_curr_token :: "Tokenizer \<Rightarrow> Token" where
  "shd_curr_token t = current t"

end
