(* ===== verification/SlimTokenProps.thy ===== *)
theory SlimTokenProps
  imports SlimToken "HOL-Library.Sublist"
begin

text \<open>
  Properties of the tokenizer: every token but the last advances, lies in the source and is spelled as its tag says; text
  printed from tokens reads back as the same tokens; and where the code reads behind the source.
\<close>

subsection \<open>White space\<close>

lemma eat_spec: "pos t \<le> source_size t \<Longrightarrow> source (eat_whitespace_and_comments t) = source t \<and> current (eat_whitespace_and_comments t) = current t
    \<and> pos t \<le> pos (eat_whitespace_and_comments t) \<and> pos (eat_whitespace_and_comments t) \<le> source_size t"
proof (induction t rule: eat_whitespace_and_comments.induct)
  case (1 t)
  let ?s = "source t" and ?p = "pos t"
  note IH = 1(1-4) [OF refl refl]
  note le = to_newline_le [of ?p ?s] to_comment_end_le [of "?p + 3" ?s]
  have step: "eat_whitespace_and_comments t = (if ?p < length ?s
      then if ?s ! ?p = newline
           then eat_whitespace_and_comments (t\<lparr>line := line t + 1, pos := ?p + 1, last_line_pos := ?p + 1\<rparr>)
           else if is_whitespace (?s ! ?p) then eat_whitespace_and_comments (t\<lparr>pos := ?p + 1\<rparr>)
           else if ?p + 2 \<le> length ?s \<and> ?s ! ?p = CHR ''/'' \<and> ?s ! (?p + 1) = CHR ''/''
           then eat_whitespace_and_comments (t\<lparr>pos := to_newline ?s ?p\<rparr>)
           else if ?p + 4 \<le> length ?s \<and> ?s ! ?p = CHR ''/'' \<and> ?s ! (?p + 1) = CHR ''*''
           then eat_whitespace_and_comments (t\<lparr>pos := to_comment_end ?s (?p + 3)\<rparr>)
           else t
      else t)" by (subst eat_whitespace_and_comments.simps) (simp only: Let_def)
  show ?case
  proof (cases "?p < length ?s")
    case in_source: True
    consider "?s ! ?p = newline" | "?s ! ?p \<noteq> newline" "is_whitespace (?s ! ?p)"
      | "?s ! ?p \<noteq> newline" "\<not> is_whitespace (?s ! ?p)" "?p + 2 \<le> length ?s \<and> ?s ! ?p = CHR ''/'' \<and> ?s ! (?p + 1) = CHR ''/''"
      | "?s ! ?p \<noteq> newline" "\<not> is_whitespace (?s ! ?p)" "\<not> (?p + 2 \<le> length ?s \<and> ?s ! ?p = CHR ''/'' \<and> ?s ! (?p + 1) = CHR ''/'')"
        "?p + 4 \<le> length ?s \<and> ?s ! ?p = CHR ''/'' \<and> ?s ! (?p + 1) = CHR ''*''"
      | "eat_whitespace_and_comments t = t"
      unfolding step by argo
    then show ?thesis
    proof cases
      case 1
      then show ?thesis using IH(1) [OF in_source] in_source step by (simp add: source_size_def)
    next
      case 2
      then show ?thesis using IH(2) [OF in_source] in_source step by (simp add: source_size_def)
    next
      case 3
      then show ?thesis using IH(3) [OF in_source] in_source step le by (simp add: source_size_def)
    next
      case 4
      then show ?thesis using IH(4) [OF in_source] in_source step le by (simp add: source_size_def)
    qed (use 1 in simp)
  qed (use 1 step in simp)
qed

subsection \<open>Scanning\<close>

lemma char_at_less [simp]: "i < length s \<Longrightarrow> char_at s i = Inr (s ! i)" "char_at s (length s) = Inr NUL"
  by (simp_all add: char_at_def)

lemma NUL_class [simp]: "\<not> is_digit NUL" "\<not> can_make_up_identifier NUL" "\<not> can_start_identifier NUL" "NUL \<noteq> quote"
  by (simp_all add: is_digit_def can_make_up_identifier_def can_start_identifier_def is_alpha_def code_def NUL_def)

lemma scan_spec:
  "pos t + k \<le> source_size t \<Longrightarrow>
   scan P t k = Inr (k + length (takeWhile P (drop (pos t + k) (source t)))
     + (if pos t + k + length (takeWhile P (drop (pos t + k) (source t))) = source_size t \<and> P NUL then 1 else 0))"
proof (induction P t k rule: scan.induct)
  case (1 P t k)
  let ?s = "source t" and ?i = "pos t + k"
  have inb: "in_bounds t k" using 1(2) by (simp add: in_bounds_def)
  show ?case
  proof (cases "?i < length ?s")
    case True
    then have d: "drop ?i ?s = ?s ! ?i # drop (pos t + (k + 1)) ?s" using Cons_nth_drop_Suc [of ?i ?s] by simp
    show ?thesis
    proof (cases "P (?s ! ?i)")
      case P: True
      have "scan P t (k + 1) = Inr (k + 1 + length (takeWhile P (drop (pos t + (k + 1)) ?s))
         + (if pos t + (k + 1) + length (takeWhile P (drop (pos t + (k + 1)) ?s)) = source_size t \<and> P NUL then 1 else 0))"
        by (rule 1(1) [OF inb]) (use True P in \<open>simp_all add: source_size_def\<close>)
      then show ?thesis using inb True P d by (simp add: scan.simps [of P t k])
    next
      case False
      then show ?thesis using inb True d by (simp add: scan.simps [of P t k] source_size_def)
    qed
  next
    case False
    then have i: "?i = length ?s" using 1(2) by (simp add: source_size_def)
    have "scan P t (k + 1) = Inr (k + 1)" using i by (simp add: scan.simps [of P t "Suc k"] in_bounds_def source_size_def)
    then show ?thesis using inb i by (simp add: scan.simps [of P t k] source_size_def)
  qed
qed

lemma scan_class:
  assumes "pos t + k \<le> source_size t" "\<not> P NUL"
  shows "scan P t k = Inr (k + length (takeWhile P (drop (pos t + k) (source t))))"
  using scan_spec [OF assms(1), of P] assms(2) by simp

lemma takeWhile_room: "i \<le> length s \<Longrightarrow> i + length (takeWhile P (drop i s)) \<le> length s"
  using length_takeWhile_le [of P "drop i s"] by simp

subsection \<open>Numbers\<close>

text \<open>A step over characters of the source: the offset grows and stays inside.\<close>

definition moves :: "Tokenizer \<Rightarrow> nat \<Rightarrow> nat result \<Rightarrow> bool" where
  "moves t k r \<longleftrightarrow> (\<exists>k'. r = Inr k' \<and> k \<le> k' \<and> pos t + k' \<le> source_size t)"

lemma moves_bind: "moves t k r \<Longrightarrow> (\<And>k'. k \<le> k' \<Longrightarrow> pos t + k' \<le> source_size t \<Longrightarrow> moves t k' (f k')) \<Longrightarrow> moves t k (bind_res r f)"
  unfolding moves_def by force

lemma moves_refl: "pos t + k \<le> source_size t \<Longrightarrow> moves t k (Inr k)"
  by (simp add: moves_def)

lemma moves_scan: "pos t + k \<le> source_size t \<Longrightarrow> \<not> P NUL \<Longrightarrow> moves t k (scan P t k)"
  using takeWhile_room [of "pos t + k" "source t" P] by (simp add: moves_def scan_class source_size_def)

lemma char_at_inside: "i \<le> length s \<Longrightarrow> char_at s i = Inr (if i < length s then s ! i else NUL)"
  by (simp add: char_at_def)

lemma moves_optional: "pos t + k \<le> source_size t \<Longrightarrow> NUL \<notin> set cs \<Longrightarrow> moves t k (optional t cs k)"
  by (auto simp: moves_def optional_def char_at_inside source_size_def)

lemma number_size_moves:
  assumes "pos t + k \<le> source_size t"
  shows "moves t k (number_size t k)"
proof -
  have f: "NUL \<notin> set [CHR ''f'']" "NUL \<notin> set [CHR ''-'', CHR ''+'']" "NUL \<notin> set [CHR ''.'']" "NUL \<noteq> CHR ''e''"
    by (simp_all add: NUL_def)
  have e: "moves t k (bind_res (char_at (source t) (pos t + k)) (\<lambda>e. bind_res
      (if e = CHR ''e'' then bind_res (optional t [CHR ''-'', CHR ''+''] (k + 1)) (scan is_digit t) else Inr k) (optional t [CHR ''f''])))"
    if k: "pos t + k \<le> source_size t" for k
  proof -
    have "moves t k (if c = CHR ''e'' then bind_res (optional t [CHR ''-'', CHR ''+''] (k + 1)) (scan is_digit t) else Inr k)"
      if c: "char_at (source t) (pos t + k) = Inr c" for c
    proof (cases "c = CHR ''e''")
      case True
      then have "pos t + (k + 1) \<le> source_size t" using c k f(4) by (auto simp: char_at_inside source_size_def split: if_splits)
      then have "moves t (k + 1) (bind_res (optional t [CHR ''-'', CHR ''+''] (k + 1)) (scan is_digit t))"
        by (intro moves_bind moves_optional moves_scan f NUL_class)
      then show ?thesis using True by (auto simp: moves_def)
    qed (use k moves_refl in simp)
    then have "moves t k (bind_res (if c = CHR ''e'' then bind_res (optional t [CHR ''-'', CHR ''+''] (k + 1)) (scan is_digit t) else Inr k) (optional t [CHR ''f'']))"
      if "char_at (source t) (pos t + k) = Inr c" for c
      using that by (intro moves_bind moves_optional f) auto
    then show ?thesis using k by (simp add: char_at_inside source_size_def)
  qed
  show ?thesis unfolding number_size_def
    by (intro moves_bind moves_scan moves_optional e f assms NUL_class)
qed

lemma number_size_digit:
  assumes "pos t < length (source t)" "is_digit (source t ! pos t)" "number_size t 0 = Inr n"
  shows "0 < n"
proof -
  have "scan is_digit t 0 = scan is_digit t 1"
    using assms(1,2) by (simp add: scan.simps [of is_digit t 0] in_bounds_def source_size_def)
  then have "number_size t 1 = Inr n" using assms(3) by (simp add: number_size_def)
  then show ?thesis using number_size_moves [of t 1] assms(1) by (auto simp: moves_def source_size_def)
qed

subsection \<open>Spellings\<close>

definition spelling :: "TokenTag \<Rightarrow> string option" where
  "spelling i = (case map_of TOKENS i of Some (Some s) \<Rightarrow> Some s | _ \<Rightarrow> None)"

definition token_text :: "string \<Rightarrow> Token \<Rightarrow> string" where
  "token_text s k = take (tend k - tstart k) (drop (tstart k) s)"

fun well_spelled :: "TokenTag \<Rightarrow> string \<Rightarrow> bool" where
  "well_spelled EOF_tok s = (s = [])"
| "well_spelled identifier_tok s = (s \<noteq> [] \<and> can_start_identifier (hd s) \<and> list_all can_make_up_identifier s \<and> Some s \<notin> snd ` set TOKENS)"
| "well_spelled dec_lit_tok s = (s \<noteq> [] \<and> is_digit (hd s))"
| "well_spelled hex_lit_tok s = (take 2 s = ''0x'')"
| "well_spelled string_lit_tok s = (quote \<notin> set s)"
| "well_spelled i s = (spelling i = Some s)"

fun spelled_tag :: "TokenTag \<Rightarrow> bool" where
  "spelled_tag (Word w) = True"
| "spelled_tag (Symbol y) = True"
| "spelled_tag _ = False"

text \<open>What holds of the table: every word and symbol has one spelling; words are identifiers by their characters, symbols
  start with a character that starts nothing else, and no symbol comes before a longer one that starts with it.\<close>

definition table_entry :: "TokenTag \<times> string option \<Rightarrow> bool" where
  "table_entry e = (case e of
     (i, None) \<Rightarrow> \<not> spelled_tag i
   | (i, Some s) \<Rightarrow> s \<noteq> [] \<and> spelled_tag i \<and> NUL \<notin> set s
       \<and> (case i of Word _ \<Rightarrow> can_start_identifier (hd s) \<and> list_all can_make_up_identifier s
          | _ \<Rightarrow> \<not> can_make_up_identifier (hd s) \<and> hd s \<noteq> quote \<and> \<not> is_whitespace (hd s) \<and> hd s \<noteq> newline
                 \<and> CHR '' '' \<notin> set s \<and> take 2 s \<noteq> ''//'' \<and> take 2 s \<noteq> ''/*''))"

lemma table_distinct: "distinct (map snd (filter (\<lambda>e. snd e \<noteq> None) TOKENS))"
  by (simp add: TOKENS_def)

lemma table_tags: "distinct (map fst TOKENS)"
  by (simp add: TOKENS_def)

lemma table_entries: "list_all table_entry TOKENS"
  by (simp add: table_entry_def TOKENS_def NUL_def can_start_identifier_def can_make_up_identifier_def is_alpha_def is_digit_def
      is_whitespace_def whitespace_def code_def)

lemma TOKENS_spelling: "(i, Some s) \<in> set TOKENS \<Longrightarrow> spelling i = Some s"
  using map_of_is_SomeI [OF table_tags] by (simp add: spelling_def)

fun longest_first :: "string list \<Rightarrow> bool" where
  "longest_first [] = True"
| "longest_first (s # ss) = (list_all (\<lambda>t. take (length s) t \<noteq> s) ss \<and> longest_first ss)"

lemma table_longest_first:
  "longest_first (map (the \<circ> snd) (filter (\<lambda>e. case fst e of Symbol _ \<Rightarrow> True | _ \<Rightarrow> False) TOKENS))"
  by (simp add: TOKENS_def)

subsection \<open>One token\<close>

text \<open>What one call establishes.\<close>

definition read_ok :: "Tokenizer \<Rightarrow> Token \<Rightarrow> Tokenizer \<Rightarrow> bool" where
  "read_ok t k t' \<longleftrightarrow> source t' = source t \<and> current t' = k \<and> pos t' \<le> source_size t \<and> well_spelled (tag k) (token_text (source t) k)
     \<and> (if tag k = EOF_tok then pos t' = source_size t else pos t \<le> tstart k \<and> tstart k \<le> tend k \<and> tend k \<le> pos t' \<and> pos t < pos t')"

lemma match_token_Some:
  "match_token t b n toks = Some (i, m) \<Longrightarrow>
   \<exists>s. (i, Some s) \<in> set toks \<and> m = length s \<and> s \<noteq> [] \<and> in_bounds t m \<and> take m (drop (pos t) (source t)) = s \<and> (b \<longrightarrow> m = n)"
proof (induction t b n toks rule: match_token.induct)
  case (3 t b n j s toks)
  let ?hit = "s \<noteq> [] \<and> in_bounds t (length s) \<and> take (length s) (drop (pos t) (source t)) = s \<and> (\<not> b \<or> length s = n)"
  show ?case
  proof (cases ?hit)
    case True
    then have "i = j" "m = length s" using 3(2) by simp_all
    then show ?thesis using True by (intro exI [of _ s]) simp
  next
    case False
    then have "match_token t b n toks = Some (i, m)" using 3(2) by (simp split: if_splits)
    then show ?thesis using 3(1) [OF False] by (metis list.set_intros(2))
  qed
qed simp_all

lemma match_token_None:
  "match_token t b n toks = None \<Longrightarrow> (i, Some s) \<in> set toks \<Longrightarrow> s \<noteq> [] \<Longrightarrow> in_bounds t (length s) \<Longrightarrow>
   take (length s) (drop (pos t) (source t)) = s \<Longrightarrow> b \<and> length s \<noteq> n"
  by (induction t b n toks rule: match_token.induct) (auto split: if_splits)

lemma finish_token_ok:
  assumes "finish_token t i n = Inr (k, t')" "0 < n" "in_bounds t n" "well_spelled i (take n (drop (pos t) (source t)))" "i \<noteq> EOF_tok"
  shows "read_ok t k t'"
proof -
  have "k = \<lparr>tag = i, tstart = pos t, tend = pos t + n\<rparr>" "t' = t\<lparr>pos := pos t + n, current := k\<rparr>"
    using assms(1) by (auto simp: finish_token_def Let_def)
  then show ?thesis using assms(2-5) by (simp add: read_ok_def token_text_def in_bounds_def del: well_spelled.simps)
qed

lemma text_token_ok:
  assumes "text_token t b n = Inr (k, t')"
    and ident: "b \<Longrightarrow> 0 < n \<and> in_bounds t n \<and> can_start_identifier (hd (take n (drop (pos t) (source t))))
      \<and> list_all can_make_up_identifier (take n (drop (pos t) (source t)))"
  shows "read_ok t k t'"
proof (cases "match_token t b n TOKENS")
  case None
  then have b: "b" and k: "finish_token t identifier_tok n = Inr (k, t')" using assms(1) by (auto simp: text_token_def split: if_splits)
  let ?s = "take n (drop (pos t) (source t))"
  have "pos t + n \<le> length (source t)" using ident [OF b] by (simp add: in_bounds_def source_size_def)
  then have len: "length ?s = n" by simp
  have "(i, Some ?s) \<notin> set TOKENS" for i
  proof
    assume i: "(i, Some ?s) \<in> set TOKENS"
    have "?s \<noteq> []" using ident [OF b] len by force
    then show False using match_token_None [OF None i] ident [OF b] len by simp
  qed
  then have "Some ?s \<notin> snd ` set TOKENS" by force
  then have "well_spelled identifier_tok ?s" using ident [OF b] len by auto
  then show ?thesis using finish_token_ok [OF k] ident [OF b] by simp
next
  case (Some im)
  then obtain i m s where s: "match_token t b n TOKENS = Some (i, m)" "(i, Some s) \<in> set TOKENS" "m = length s" "s \<noteq> []" "in_bounds t m"
      "take m (drop (pos t) (source t)) = s"
    using match_token_Some by (cases im) metis
  have "spelled_tag i" using table_entries s(2) by (auto simp: list_all_iff table_entry_def dest: bspec)
  then have "well_spelled i s" "i \<noteq> EOF_tok" using TOKENS_spelling [OF s(2)] by (cases i; simp)+
  moreover have "finish_token t i m = Inr (k, t')" using assms(1) s(1) by (simp add: text_token_def)
  ultimately show ?thesis using finish_token_ok s(3-6) by simp
qed

lemma scan_quote:
  assumes "pos t + 1 \<le> source_size t"
  shows "string_token t = (let n = length (takeWhile (\<lambda>c. c \<noteq> quote) (drop (pos t + 1) (source t))) in
     if pos t + 1 + n < source_size t
     then (let k = \<lparr>tag = string_lit_tok, tstart = pos t + 1, tend = pos t + 1 + n\<rparr> in Inr (k, t\<lparr>pos := pos t + n + 2, current := k\<rparr>))
     else Inl OutOfBounds)"
proof -
  let ?n = "length (takeWhile (\<lambda>c. c \<noteq> quote) (drop (pos t + 1) (source t)))"
  have le: "pos t + 1 + ?n \<le> source_size t" using takeWhile_room [of "pos t + 1" "source t"] assms by (simp add: source_size_def)
  show ?thesis
  proof (cases "pos t + 1 + ?n = source_size t")
    case True
    then have "scan (\<lambda>c. c \<noteq> quote) t 1 = Inr (?n + 2)" using scan_spec [OF assms, of "\<lambda>c. c \<noteq> quote"] by simp
    then show ?thesis using True by (simp add: string_token_def Let_def char_at_def source_size_def)
  next
    case False
    then have n: "pos t + 1 + ?n < source_size t" using le by simp
    then have "scan (\<lambda>c. c \<noteq> quote) t 1 = Inr (?n + 1)" using scan_spec [OF assms, of "\<lambda>c. c \<noteq> quote"] by simp
    moreover have "source t ! (pos t + 1 + ?n) = quote"
      using nth_length_takeWhile [of "\<lambda>c. c \<noteq> quote" "drop (pos t + 1) (source t)"] n by (simp add: source_size_def)
    ultimately show ?thesis using n by (simp add: string_token_def Let_def char_at_def source_size_def add_ac)
  qed
qed

lemma hd_drop: "p < length s \<Longrightarrow> 0 < n \<Longrightarrow> hd (take n (drop p s)) = s ! p"
  by (simp add: hd_drop_conv_nth)

lemma next_token_ok:
  assumes inside: "pos t \<le> source_size t" and k: "shd_next_token t = Inr (k, t')"
  shows "read_ok t k t'"
proof -
  let ?t = "eat_whitespace_and_comments t"
  have e: "source ?t = source t" "pos t \<le> pos ?t" "pos ?t \<le> source_size t" using eat_spec [OF inside] by simp_all
  have size: "source_size ?t = source_size t" using e(1) by (simp add: source_size_def)
  have lift: "read_ok t k t'" if "read_ok ?t k t'"
    using that e by (auto simp: read_ok_def source_size_def split: if_splits)
  show ?thesis
  proof (cases "pos ?t = source_size t")
    case True
    then have eq: "k = \<lparr>tag = EOF_tok, tstart = 0, tend = 0\<rparr>" "t' = ?t\<lparr>current := k\<rparr>"
      using k size by (auto simp: shd_next_token_def Let_def)
    show ?thesis using True e(1) by (simp add: read_ok_def eq token_text_def)
  next
    case False
    let ?c = "source t ! pos ?t"
    have less: "pos ?t < length (source t)" using False e(3) by (simp add: source_size_def)
    have run: "shd_next_token t =
        (if can_start_identifier ?c then bind_res (scan can_make_up_identifier ?t 0) (text_token ?t True)
         else if is_digit ?c
         then bind_res (char_at (source t) (pos ?t + 1)) (\<lambda>c2.
              bind_res (number_size ?t (if ?c = CHR ''0'' \<and> c2 = CHR ''x'' then 2 else 0))
                (finish_token ?t (if ?c = CHR ''0'' \<and> c2 = CHR ''x'' then hex_lit_tok else dec_lit_tok)))
         else if ?c = quote then string_token ?t else text_token ?t False 0)"
      using less e(1) False size by (simp add: shd_next_token_def Let_def in_bounds_def source_size_def)
    consider (word) "can_start_identifier ?c" | (number) "\<not> can_start_identifier ?c" "is_digit ?c"
      | (string) "\<not> can_start_identifier ?c" "\<not> is_digit ?c" "?c = quote" | (symbol) "\<not> can_start_identifier ?c" "\<not> is_digit ?c" "?c \<noteq> quote" by blast
    then have "read_ok ?t k t'"
    proof cases
      case word
      let ?w = "takeWhile can_make_up_identifier (drop (pos ?t) (source t))"
      have "scan can_make_up_identifier ?t 0 = Inr (length ?w)"
        using scan_class [of ?t 0 can_make_up_identifier] e less by (simp add: source_size_def)
      then have "text_token ?t True (length ?w) = Inr (k, t')" using k run word by simp
      moreover have w: "take (length ?w) (drop (pos ?t) (source t)) = ?w" by (rule takeWhile_eq_take [symmetric])
      have "?c \<in> set [?c]" by simp
      have "drop (pos ?t) (source t) = ?c # drop (Suc (pos ?t)) (source t)" using less by (simp add: Cons_nth_drop_Suc)
      then have "?w \<noteq> []" "hd ?w = ?c" using word by (simp_all add: can_make_up_identifier_def)
      moreover have "list_all can_make_up_identifier ?w" by (auto simp: list_all_iff dest: set_takeWhileD)
      moreover have "in_bounds ?t (length ?w)" using takeWhile_room [of "pos ?t" "source t"] less e by (simp add: in_bounds_def source_size_def)
      ultimately show ?thesis using word w e(1) by (intro text_token_ok [of ?t True "length ?w"]) simp_all
    next
      case number
      obtain c2 where c2: "char_at (source t) (pos ?t + 1) = Inr c2" using less by (cases "pos ?t + 1 = length (source t)") (auto simp: char_at_def)
      let ?hex = "?c = CHR ''0'' \<and> c2 = CHR ''x''"
      have start: "pos ?t + (if ?hex then 2 else 0) \<le> source_size ?t"
        using c2 less e(1) by (auto simp: char_at_def NUL_def source_size_def split: if_splits)
      obtain n where n: "number_size ?t (if ?hex then 2 else 0) = Inr n" "(if ?hex then 2 else 0) \<le> n" "pos ?t + n \<le> source_size ?t"
        using number_size_moves [OF start] by (auto simp: moves_def)
      have f: "finish_token ?t (if ?hex then hex_lit_tok else dec_lit_tok) n = Inr (k, t')" using k run number c2 n(1) by simp
      have pos_n: "0 < n" using number_size_digit [of ?t n] n(1,2) number(2) less e(1) by (cases ?hex) auto
      moreover have "well_spelled (if ?hex then hex_lit_tok else dec_lit_tok) (take n (drop (pos ?t) (source ?t)))"
      proof (cases ?hex)
        case True
        then have "pos ?t + 1 < length (source t)" "source t ! (pos ?t + 1) = CHR ''x''"
          using c2 less by (auto simp: char_at_def NUL_def split: if_splits)
        moreover from this have "drop (pos ?t) (source t) = ?c # CHR ''x'' # drop (pos ?t + 2) (source t)"
          using less by (simp add: Cons_nth_drop_Suc [symmetric])
        ultimately show ?thesis using True n(2) e(1) by (simp add: min_def)
      next
        case False
        show ?thesis unfolding if_not_P [OF False] using pos_n less e(1) number(2) hd_drop [OF less pos_n] by simp
      qed
      ultimately show ?thesis using finish_token_ok [OF f] n(3) by (auto simp: in_bounds_def)
    next
      case string
      then have "string_token ?t = Inr (k, t')" using k run by simp
      let ?n = "length (takeWhile (\<lambda>c. c \<noteq> quote) (drop (pos ?t + 1) (source t)))"
      have "pos ?t + 1 \<le> source_size ?t" using less e(1) by (simp add: source_size_def)
      note q = scan_quote [OF this]
      have n: "pos ?t + 1 + ?n < source_size ?t" "k = \<lparr>tag = string_lit_tok, tstart = pos ?t + 1, tend = pos ?t + 1 + ?n\<rparr>"
          "t' = ?t\<lparr>pos := pos ?t + ?n + 2, current := k\<rparr>"
        using \<open>string_token ?t = Inr (k, t')\<close> q e(1) by (auto simp: Let_def split: if_splits)
      have "take ?n (drop (pos ?t + 1) (source t)) = takeWhile (\<lambda>c. c \<noteq> quote) (drop (pos ?t + 1) (source t))"
        by (rule takeWhile_eq_take [symmetric])
      then have "quote \<notin> set (take ?n (drop (pos ?t + 1) (source t)))" using set_takeWhileD by fastforce
      then show ?thesis using n e(1) by (simp add: read_ok_def token_text_def)
    next
      case symbol
      then show ?thesis using k run text_token_ok [of ?t False 0] by simp
    qed
    then show ?thesis by (rule lift)
  qed
qed

text \<open>The only errors: no token matches, or a string that is not closed, whose search reads behind the terminator.\<close>

lemma next_token_terminates:
  assumes "pos t \<le> source_size t"
  shows "terminates (shd_next_token t)"
proof -
  let ?t = "eat_whitespace_and_comments t"
  have e: "source ?t = source t" "pos ?t \<le> source_size t" using eat_spec [OF assms] by simp_all
  have s: "terminates (text_token t b n)" for t b n
    by (auto simp: text_token_def finish_token_def Let_def split: option.split)
  show ?thesis
  proof (cases "pos ?t = source_size t")
    case True
    then show ?thesis using e(1) by (simp add: shd_next_token_def Let_def source_size_def)
  next
    case False
    then have less: "pos ?t < length (source t)" using e(2) by (simp add: source_size_def)
    have str: "terminates (string_token ?t)" using scan_quote [of ?t] less e(1) by (simp add: source_size_def Let_def)
    have ch: "terminates (char_at x i)" for x i by (simp add: char_at_def)
    have num: "terminates (number_size ?t (if c = CHR ''0'' \<and> c2 = CHR ''x'' then 2 else 0))"
      if "char_at (source t) (pos ?t + 1) = Inr c2" for c c2
    proof -
      have "pos ?t + (if c = CHR ''0'' \<and> c2 = CHR ''x'' then 2 else 0) \<le> source_size ?t"
        using that less e(1) by (auto simp: char_at_def NUL_def source_size_def split: if_splits)
      from number_size_moves [OF this] show ?thesis by (auto simp: moves_def)
    qed
    have "terminates (scan can_make_up_identifier ?t 0)" using scan_class [of ?t 0 can_make_up_identifier] less e by (simp add: source_size_def)
    moreover have "terminates (bind_res (char_at (source t) (pos ?t + 1)) (\<lambda>c2.
              bind_res (number_size ?t (if c = CHR ''0'' \<and> c2 = CHR ''x'' then 2 else 0))
                (finish_token ?t (if c = CHR ''0'' \<and> c2 = CHR ''x'' then hex_lit_tok else dec_lit_tok))))" for c
      by (intro terminates_bind ch num) (simp_all add: finish_token_def Let_def)
    ultimately show ?thesis
      using less e(1) str s unfolding shd_next_token_def Let_def
      by (auto intro!: terminates_bind)
  qed
qed

subsection \<open>All tokens\<close>

text \<open>The tokens up to the end of the source, as a parser reads them; every call but the last advances.\<close>

fun all_tokens :: "nat \<Rightarrow> Tokenizer \<Rightarrow> Token list result" where
  "all_tokens 0 t = Inl OutOfFuel"
| "all_tokens (Suc fuel) t =
     (if tag (shd_curr_token t) = EOF_tok then Inr []
      else bind_res (shd_next_token t) (\<lambda>(_, t'). bind_res (all_tokens fuel t') (\<lambda>ks. Inr (shd_curr_token t # ks))))"

definition tokenize :: "string \<Rightarrow> Token list result" where
  "tokenize s = bind_res (shd_new_tokenizer s) (all_tokens (length s + 1))"

lemma all_tokens_terminates:
  "pos t \<le> source_size t \<Longrightarrow> source_size t - pos t + (if tag (current t) = EOF_tok then 1 else 2) \<le> fuel \<Longrightarrow> terminates (all_tokens fuel t)"
proof (induction fuel arbitrary: t)
  case (Suc fuel)
  show ?case
  proof (cases "tag (current t) = EOF_tok")
    case True
    then show ?thesis by (simp add: shd_curr_token_def)
  next
    case False
    have "terminates (all_tokens fuel t')" if k: "shd_next_token t = Inr (k, t')" for k t'
    proof -
      have "read_ok t k t'" by (rule next_token_ok [OF Suc.prems(1) k])
      then show ?thesis using Suc.prems False
        by (intro Suc.IH) (auto simp: read_ok_def source_size_def split: if_splits)
    qed
    then show ?thesis using next_token_terminates [OF Suc.prems(1)] False
      by (auto simp: shd_curr_token_def intro!: terminates_bind)
  qed
qed (simp split: if_splits)

lemma new_tokenizer_ok:
  assumes "shd_new_tokenizer s = Inr t"
  shows "\<exists>k t0. pos t0 = 0 \<and> source t0 = s \<and> shd_next_token t0 = Inr (k, t) \<and> read_ok t0 k t"
proof -
  let ?t0 = "\<lparr>source = s, pos = 0, line = 1, last_line_pos = 0, current = \<lparr>tag = EOF_tok, tstart = 0, tend = 0\<rparr>\<rparr>"
  obtain k where k: "shd_next_token ?t0 = Inr (k, t)" using assms by (auto simp: shd_new_tokenizer_def elim!: bind_res_InrE)
  then have "read_ok ?t0 k t" by (intro next_token_ok) simp_all
  with k show ?thesis by (intro exI [of _ k] exI [of _ ?t0]) simp
qed

lemma tokenize_terminates: "terminates (tokenize s)"
proof -
  have "terminates (shd_new_tokenizer s)"
    unfolding shd_new_tokenizer_def by (intro terminates_bind next_token_terminates) auto
  moreover have "terminates (all_tokens (length s + 1) t)" if t: "shd_new_tokenizer s = Inr t" for t
    using new_tokenizer_ok [OF t] by (intro all_tokens_terminates) (auto simp: read_ok_def source_size_def)
  ultimately show ?thesis unfolding tokenize_def by (rule terminates_bind)
qed

text \<open>The tokens are in order, do not overlap and are spelled as their tags say.\<close>

fun tokens_from :: "string \<Rightarrow> nat \<Rightarrow> Token list \<Rightarrow> bool" where
  "tokens_from s p [] = True"
| "tokens_from s p (k # ks) = (p \<le> tstart k \<and> tstart k \<le> tend k \<and> tend k \<le> length s \<and> tag k \<noteq> EOF_tok
     \<and> well_spelled (tag k) (token_text s k) \<and> tokens_from s (tend k) ks)"

lemma tokens_from_mono: "tokens_from s p ks \<Longrightarrow> q \<le> p \<Longrightarrow> tokens_from s q ks"
  by (cases ks) auto

lemma all_tokens_from:
  "all_tokens fuel t = Inr ks \<Longrightarrow> read_ok t0 (current t) t \<Longrightarrow> source t = s \<Longrightarrow>
   tokens_from s (if tag (current t) = EOF_tok then pos t else tstart (current t)) ks"
proof (induction fuel arbitrary: t t0 ks)
  case (Suc fuel)
  show ?case
  proof (cases "tag (current t) = EOF_tok")
    case True
    then show ?thesis using Suc.prems(1) by (auto simp: shd_curr_token_def)
  next
    case False
    then obtain k t' ks' where k: "shd_next_token t = Inr (k, t')" "all_tokens fuel t' = Inr ks'" "ks = current t # ks'"
      using Suc.prems(1) by (auto simp: shd_curr_token_def elim!: bind_res_InrE)
    have t: "pos t \<le> source_size t" "tend (current t) \<le> pos t" using Suc.prems(2) False by (auto simp: read_ok_def source_size_def)
    have r: "read_ok t k t'" by (rule next_token_ok [OF t(1) k(1)])
    then have c: "current t' = k" "source t' = s" using Suc.prems(3) by (simp_all add: read_ok_def)
    have "read_ok t (current t') t'" using r c(1) by simp
    from Suc.IH [OF k(2) this c(2)] have "tokens_from s (if tag k = EOF_tok then pos t' else tstart k) ks'" unfolding c(1) .
    moreover have "tend (current t) \<le> (if tag k = EOF_tok then pos t' else tstart k)"
      using r t by (auto simp: read_ok_def split: if_splits)
    ultimately have "tokens_from s (tend (current t)) ks'" by (rule tokens_from_mono)
    then show ?thesis using Suc.prems(2,3) False k(3) by (auto simp: read_ok_def source_size_def)
  qed
qed simp

text \<open>
  C14: Tokenizing any source ends, with tokens or an error. The tokens lie in the source in order, do not overlap, and each is
  spelled as its tag says: words and symbols as in the table, identifiers of identifier characters and not a word.
\<close>

theorem tokenize_sound:
  "terminates (tokenize s) \<and> (case tokenize s of Inr ks \<Rightarrow> tokens_from s 0 ks | Inl _ \<Rightarrow> True)"
proof (intro conjI tokenize_terminates)
  show "case tokenize s of Inr ks \<Rightarrow> tokens_from s 0 ks | Inl _ \<Rightarrow> True"
  proof (cases "tokenize s")
    case (Inr ks)
    then obtain t where t: "shd_new_tokenizer s = Inr t" "all_tokens (length s + 1) t = Inr ks"
      by (auto simp: tokenize_def elim!: bind_res_InrE)
    obtain k t0 where "source t0 = s" "read_ok t0 k t" using new_tokenizer_ok [OF t(1)] by blast
    moreover from this have "current t = k" "source t = s" by (simp_all add: read_ok_def)
    ultimately have "tokens_from s (if tag (current t) = EOF_tok then pos t else tstart (current t)) ks"
      using all_tokens_from [OF t(2)] by simp
    then show ?thesis using Inr tokens_from_mono by simp
  qed simp
qed

subsection \<open>Reading printed tokens\<close>

text \<open>Tokens as they are printed, each followed by a space.\<close>

type_synonym lexeme = "TokenTag \<times> string"

fun printable :: "lexeme \<Rightarrow> bool" where
  "printable (EOF_tok, s) = False"
| "printable (dec_lit_tok, s) = (s \<noteq> [] \<and> list_all is_digit s)"
| "printable (hex_lit_tok, s) = (take 2 s = ''0x'' \<and> list_all is_digit (drop 2 s))"
| "printable (i, s) = well_spelled i s"

fun printed :: "lexeme \<Rightarrow> string" where
  "printed (string_lit_tok, s) = quote # s @ [quote]"
| "printed (i, s) = s"

definition print_tokens :: "lexeme list \<Rightarrow> string" where
  "print_tokens ls = concat (map (\<lambda>l. printed l @ '' '') ls)"

definition lexeme_of :: "string \<Rightarrow> Token \<Rightarrow> lexeme" where
  "lexeme_of s k = (tag k, token_text s k)"

lemma at_drop:
  assumes "drop p xs = ys" "ys \<noteq> []"
  shows "length xs = p + length ys" "k < length ys \<Longrightarrow> xs ! (p + k) = ys ! k"
  using assms by (auto simp: nth_drop)

lemma space_class [simp]: "\<not> is_digit (CHR '' '')" "\<not> can_make_up_identifier (CHR '' '')" "\<not> can_start_identifier (CHR '' '')" "is_whitespace (CHR '' '')"
  by (simp_all add: is_digit_def can_make_up_identifier_def can_start_identifier_def is_alpha_def is_whitespace_def whitespace_def code_def)

lemma eat_stays:
  assumes "drop (pos t) (source t) = c # rest" "c \<noteq> newline" "\<not> is_whitespace c" "c = CHR ''/'' \<Longrightarrow> rest \<noteq> [] \<and> hd rest \<noteq> CHR ''/'' \<and> hd rest \<noteq> CHR ''*''"
  shows "eat_whitespace_and_comments t = t"
proof -
  note a = at_drop [OF assms(1)]
  have "source t ! pos t = c" "pos t < length (source t)" using a(1) a(2) [of 0] by simp_all
  moreover have "source t ! (pos t + 1) = hd rest" if "rest \<noteq> []" using a(2) [of 1] that by (simp add: hd_conv_nth)
  ultimately show ?thesis using assms(2-4) by (subst eat_whitespace_and_comments.simps) (auto simp: Let_def)
qed

lemma eat_space:
  assumes "drop (pos t) (source t) = CHR '' '' # rest"
  shows "eat_whitespace_and_comments t = eat_whitespace_and_comments (t\<lparr>pos := pos t + 1\<rparr>)"
proof -
  note a = at_drop [OF assms(1)]
  have "source t ! pos t = CHR '' ''" "pos t < length (source t)" using a(1) a(2) [of 0] by simp_all
  then show ?thesis by (subst eat_whitespace_and_comments.simps) (simp add: Let_def)
qed

text \<open>The first entry that matches.\<close>

lemma match_token_first:
  "match_token t b n toks = Some (i, m) \<Longrightarrow>
   \<exists>us s vs. toks = us @ (i, Some s) # vs \<and> m = length s \<and> match_token t b n us = None"
proof (induction t b n toks rule: match_token.induct)
  case (2 t b n j toks)
  then obtain us s vs where "toks = us @ (i, Some s) # vs" "m = length s" "match_token t b n us = None" by auto
  then show ?case by (intro exI [of _ "(j, None) # us"]) auto
next
  case (3 t b n j s toks)
  let ?hit = "s \<noteq> [] \<and> in_bounds t (length s) \<and> take (length s) (drop (pos t) (source t)) = s \<and> (\<not> b \<or> length s = n)"
  show ?case
  proof (cases ?hit)
    case True
    then have "i = j" "m = length s" using 3(2) by simp_all
    then show ?thesis by (intro exI [of _ "[]"] exI [of _ s] exI [of _ toks]) simp
  next
    case False
    then obtain us s' vs where "toks = us @ (i, Some s') # vs" "m = length s'" "match_token t b n us = None" using 3 by (auto split: if_splits)
    then show ?thesis using False by (intro exI [of _ "(j, Some s) # us"]) auto
  qed
qed simp

lemma longest_first_later: "longest_first (us @ s # vs) \<Longrightarrow> r \<in> set vs \<Longrightarrow> take (length s) r \<noteq> s"
  by (induction us) (auto simp: list_all_iff)

lemma spelling_unique: "(i, Some s) \<in> set TOKENS \<Longrightarrow> (j, Some s) \<in> set TOKENS \<Longrightarrow> i = j"
proof -
  assume a: "(i, Some s) \<in> set TOKENS" "(j, Some s) \<in> set TOKENS"
  then have "(i, Some s) \<in> set (filter (\<lambda>e. snd e \<noteq> None) TOKENS)" "(j, Some s) \<in> set (filter (\<lambda>e. snd e \<noteq> None) TOKENS)" by simp_all
  then show ?thesis using table_distinct by (metis (no_types, lifting) distinct_map inj_on_eq_iff snd_conv prod.inject)
qed

lemma spelling_table: "spelling i = Some s \<Longrightarrow> (i, Some s) \<in> set TOKENS"
  by (auto simp: spelling_def split: option.splits dest: map_of_SomeD)

lemma entry: "(i, Some s) \<in> set TOKENS \<Longrightarrow> table_entry (i, Some s)"
  using table_entries by (auto simp: list_all_iff)

lemma symbol_entry:
  "(Symbol y, Some s) \<in> set TOKENS \<Longrightarrow> s \<noteq> [] \<and> \<not> can_make_up_identifier (hd s) \<and> hd s \<noteq> quote \<and> \<not> is_whitespace (hd s) \<and> hd s \<noteq> newline
     \<and> CHR '' '' \<notin> set s \<and> take 2 s \<noteq> ''//'' \<and> take 2 s \<noteq> ''/*''"
  by (drule entry) (simp add: table_entry_def)

lemma word_entry: "(Word w, Some s) \<in> set TOKENS \<Longrightarrow> s \<noteq> [] \<and> can_start_identifier (hd s) \<and> list_all can_make_up_identifier s"
  by (drule entry) (simp add: table_entry_def)

text \<open>One printed token in front of a space; the position is at its first character.\<close>

definition reads :: "Tokenizer \<Rightarrow> lexeme \<Rightarrow> bool" where
  "reads t l \<longleftrightarrow> (\<exists>k t'. shd_next_token t = Inr (k, t') \<and> source t' = source t \<and> current t' = k \<and> pos t' = pos t + length (printed l)
     \<and> lexeme_of (source t) k = l)"

lemma finish_reads:
  assumes "shd_next_token t = finish_token t i (length s)" "take (length s) (drop (pos t) (source t)) = s" "printed (i, s) = s"
  shows "reads t (i, s)"
  using assms by (simp add: reads_def finish_token_def Let_def lexeme_of_def token_text_def)

lemma text_step:
  assumes "drop (pos t) (source t) = c # rest" "eat_whitespace_and_comments t = t" "\<not> can_start_identifier c" "\<not> is_digit c" "c \<noteq> quote"
  shows "shd_next_token t = text_token t False 0"
proof -
  note a = at_drop [OF assms(1)]
  have "source t ! pos t = c" "pos t < length (source t)" using a(1) a(2) [of 0] by simp_all
  then show ?thesis using assms by (simp add: shd_next_token_def Let_def in_bounds_def source_size_def)
qed

lemma word_step:
  assumes d: "drop (pos t) (source t) = s @ CHR '' '' # rest" and e: "eat_whitespace_and_comments t = t"
    and s: "s \<noteq> []" "can_start_identifier (hd s)" "list_all can_make_up_identifier s"
  shows "shd_next_token t = text_token t True (length s)"
proof -
  have ne: "s @ CHR '' '' # rest \<noteq> []" by simp
  note a = at_drop [OF d ne]
  have "source t ! pos t = hd s" "pos t < length (source t)" using a(1) a(2) [of 0] s(1) by (simp_all add: nth_append hd_conv_nth)
  moreover have "takeWhile can_make_up_identifier (drop (pos t) (source t)) = s"
    using d s(3) by (simp add: takeWhile_append list_all_iff)
  then have "scan can_make_up_identifier t 0 = Inr (length s)"
    using scan_class [of t 0 can_make_up_identifier] a(1) by (simp add: source_size_def)
  ultimately show ?thesis using e s(2) by (simp add: shd_next_token_def Let_def in_bounds_def source_size_def)
qed

lemma reads_identifier:
  assumes d: "drop (pos t) (source t) = s @ CHR '' '' # rest" and e: "eat_whitespace_and_comments t = t" and s: "well_spelled identifier_tok s"
  shows "reads t (identifier_tok, s)"
proof -
  have take: "take (length s) (drop (pos t) (source t)) = s" using d by simp
  have "match_token t True (length s) TOKENS = None"
  proof (cases "match_token t True (length s) TOKENS")
    case (Some im)
    then obtain i m where "match_token t True (length s) TOKENS = Some (i, m)" by (cases im) auto
    from match_token_Some [OF this] have "\<exists>i. (i, Some s) \<in> set TOKENS" using take by auto
    then show ?thesis using s by force
  qed
  then have "shd_next_token t = finish_token t identifier_tok (length s)"
    using word_step [OF d e] s by (simp add: text_token_def)
  then show ?thesis using finish_reads take by simp
qed

lemma reads_word:
  assumes d: "drop (pos t) (source t) = s @ CHR '' '' # rest" and e: "eat_whitespace_and_comments t = t" and s: "(Word w, Some s) \<in> set TOKENS"
  shows "reads t (Word w, s)"
proof -
  note en = word_entry [OF s]
  have take: "take (length s) (drop (pos t) (source t)) = s" and inb: "in_bounds t (length s)"
    using d at_drop(1) [OF d] by (simp_all add: in_bounds_def source_size_def)
  obtain i m where m: "match_token t True (length s) TOKENS = Some (i, m)"
    using match_token_None [OF _ s, of t True "length s"] en take inb by (cases "match_token t True (length s) TOKENS") auto
  from match_token_Some [OF this] have "(i, Some s) \<in> set TOKENS" "m = length s" using take by auto
  then have "match_token t True (length s) TOKENS = Some (Word w, length s)" using m spelling_unique [OF _ s] by blast
  then have "shd_next_token t = finish_token t (Word w) (length s)"
    using word_step [OF d e] en by (simp add: text_token_def)
  then show ?thesis using finish_reads take by simp
qed

lemma reads_symbol:
  assumes d: "drop (pos t) (source t) = s @ CHR '' '' # rest" and e: "eat_whitespace_and_comments t = t" and s: "(Symbol y, Some s) \<in> set TOKENS"
  shows "reads t (Symbol y, s)"
proof -
  note en = symbol_entry [OF s]
  have take: "take (length s) (drop (pos t) (source t)) = s" and inb: "in_bounds t (length s)"
    using d at_drop(1) [OF d] by (simp_all add: in_bounds_def source_size_def)
  obtain c cs where c: "s = c # cs" using en by (cases s) auto
  obtain i m where m: "match_token t False 0 TOKENS = Some (i, m)"
    using match_token_None [OF _ s, of t False 0] en take inb by (cases "match_token t False 0 TOKENS") auto
  obtain us s' vs where first: "TOKENS = us @ (i, Some s') # vs" "m = length s'" "match_token t False 0 us = None"
    using match_token_first [OF m] by blast
  have i: "(i, Some s') \<in> set TOKENS" unfolding first(1) by simp
  obtain s2 where "(i, Some s2) \<in> set TOKENS" "m = length s2" "s2 \<noteq> []" "take m (drop (pos t) (source t)) = s2"
    using match_token_Some [OF m] by blast
  moreover from this have "s2 = s'" using TOKENS_spelling i by (metis option.inject)
  ultimately have hit: "s' \<noteq> []" "take (length s') (drop (pos t) (source t)) = s'" by simp_all
  then have hd: "hd s' = c" using d c by (cases s') auto
  obtain y' where y': "i = Symbol y'"
    using entry [OF i] hd en c by (cases i) (auto simp: table_entry_def can_make_up_identifier_def)
  have "CHR '' '' \<notin> set s'" using symbol_entry i y' by blast
  moreover have "CHR '' '' \<in> set s'" if "length s < length s'"
  proof -
    have "s' = s @ take (length s' - length s) (CHR '' '' # rest)" using hit(2) d that by simp
    moreover have "CHR '' '' \<in> set (take (length s' - length s) (CHR '' '' # rest))" using that by (cases "length s' - length s") auto
    ultimately show ?thesis by (metis Un_iff set_append)
  qed
  ultimately have short: "length s' \<le> length s" by (meson not_le)
  have "s' = s"
  proof (rule ccontr)
    assume ne: "s' \<noteq> s"
    have "(Symbol y, Some s) \<notin> set us"
      using match_token_None [OF first(3), of "Symbol y" s] en take inb by auto
    moreover have "(Symbol y, Some s) \<in> set (us @ (i, Some s') # vs)" using s unfolding first(1) .
    ultimately have "(Symbol y, Some s) \<in> set vs" using ne by auto
    then have "s \<in> set (map (the \<circ> snd) (filter (\<lambda>e. case fst e of Symbol _ \<Rightarrow> True | _ \<Rightarrow> False) vs))" by force
    moreover have "longest_first (map (the \<circ> snd) (filter (\<lambda>e. case fst e of Symbol _ \<Rightarrow> True | _ \<Rightarrow> False) us) @ s'
        # map (the \<circ> snd) (filter (\<lambda>e. case fst e of Symbol _ \<Rightarrow> True | _ \<Rightarrow> False) vs))"
      using table_longest_first unfolding first(1) y' by simp
    ultimately have "take (length s') s \<noteq> s'" by (rule longest_first_later [rotated])
    then show False using hit(2) d short by simp
  qed
  then have "match_token t False 0 TOKENS = Some (Symbol y, length s)" using m first(2) spelling_unique [OF i] s by blast
  then have "shd_next_token t = finish_token t (Symbol y) (length s)"
    using text_step [of t c "cs @ CHR '' '' # rest"] d e c en by (auto simp: text_token_def can_make_up_identifier_def)
  then show ?thesis using finish_reads take by simp
qed

lemma reads_string:
  assumes d: "drop (pos t) (source t) = quote # s @ quote # CHR '' '' # rest" and e: "eat_whitespace_and_comments t = t" and s: "quote \<notin> set s"
  shows "reads t (string_lit_tok, s)"
proof -
  note a = at_drop [OF d]
  have d': "drop (pos t + 1) (source t) = s @ quote # CHR '' '' # rest" using d by (metis drop_Suc list.sel(3) drop_drop tl_drop Suc_eq_plus1)
  then have w: "takeWhile (\<lambda>c. c \<noteq> quote) (drop (pos t + 1) (source t)) = s" using s by (auto simp: takeWhile_append)
  have "source t ! pos t = quote" "pos t < length (source t)" using a(1) a(2) [of 0] by simp_all
  then have "shd_next_token t = string_token t"
    using e by (simp add: shd_next_token_def Let_def in_bounds_def source_size_def can_start_identifier_def is_alpha_def is_digit_def code_def)
  also have "\<dots> = (let k = \<lparr>tag = string_lit_tok, tstart = pos t + 1, tend = pos t + 1 + length s\<rparr> in Inr (k, t\<lparr>pos := pos t + length s + 2, current := k\<rparr>))"
    using scan_quote [of t] w a(1) by (simp add: source_size_def Let_def)
  finally show ?thesis using d' by (simp add: reads_def Let_def lexeme_of_def token_text_def)
qed

lemma number_ends:
  assumes d: "drop (pos t) (source t) = u @ s @ CHR '' '' # rest" and s: "list_all is_digit s"
  shows "number_size t (length u) = Inr (length u + length s)"
proof -
  have ne: "u @ s @ CHR '' '' # rest \<noteq> []" by simp
  note a = at_drop [OF d ne]
  have "drop (length u) (drop (pos t) (source t)) = s @ CHR '' '' # rest" using d by simp
  then have du: "drop (pos t + length u) (source t) = s @ CHR '' '' # rest" by (simp add: add.commute)
  have "drop (length u + length s) (drop (pos t) (source t)) = CHR '' '' # rest" using d by simp
  then have ds: "drop (pos t + (length u + length s)) (source t) = CHR '' '' # rest" by (simp add: add_ac)
  have w: "takeWhile is_digit (s @ CHR '' '' # rest) = s" using s by (auto simp: takeWhile_append list_all_iff)
  have sz: "pos t + (length u + length s) < source_size t" using a(1) by (simp add: source_size_def)
  have 1: "scan is_digit t (length u) = Inr (length u + length s)" using scan_class [of t "length u" is_digit] sz du w by simp
  have 2: "scan is_digit t (length u + length s) = Inr (length u + length s)"
    using scan_class [of t "length u + length s" is_digit] sz ds by simp
  have c: "char_at (source t) (pos t + (length u + length s)) = Inr (CHR '' '')"
    using at_drop(2) [OF ds, of 0] sz by (simp add: char_at_def source_size_def)
  show ?thesis by (simp add: number_size_def 1 2 c optional_def)
qed

lemma reads_dec:
  assumes d: "drop (pos t) (source t) = s @ CHR '' '' # rest" and e: "eat_whitespace_and_comments t = t" and s: "s \<noteq> []" "list_all is_digit s"
  shows "reads t (dec_lit_tok, s)"
proof -
  have ne: "s @ CHR '' '' # rest \<noteq> []" by simp
  note a = at_drop [OF d ne]
  obtain c cs where c: "s = c # cs" "is_digit c" using s by (cases s) auto
  have at: "source t ! pos t = c" "pos t < length (source t)" using a(1) a(2) [of 0] c(1) by simp_all
  obtain c2 where c2: "source t ! (pos t + 1) = c2" "c2 \<noteq> CHR ''x''"
  proof (cases cs)
    case Nil
    then show ?thesis using that a(2) [of 1] c(1) by simp
  next
    case (Cons x xs)
    then have "is_digit x" using s(2) c(1) by simp
    then have "x \<noteq> CHR ''x''" by (auto simp: is_digit_def code_def)
    then show ?thesis using that [of x] a(2) [of 1] c(1) Cons by simp
  qed
  have "\<not> can_start_identifier c" using c(2) by (auto simp: is_digit_def can_start_identifier_def is_alpha_def code_def)
  moreover have "number_size t 0 = Inr (length s)" using number_ends [of t "[]" s rest] d s(2) by simp
  moreover have "char_at (source t) (pos t + 1) = Inr c2" using c2(1) a(1) c(1) by (simp add: char_at_def)
  ultimately have "shd_next_token t = finish_token t dec_lit_tok (length s)"
    using e at c(2) c2(2) by (simp add: shd_next_token_def Let_def in_bounds_def source_size_def)
  then show ?thesis using finish_reads d by simp
qed

lemma reads_hex:
  assumes d: "drop (pos t) (source t) = s @ CHR '' '' # rest" and e: "eat_whitespace_and_comments t = t" and s: "take 2 s = ''0x''" "list_all is_digit (drop 2 s)"
  shows "reads t (hex_lit_tok, s)"
proof -
  obtain u where u: "s = ''0x'' @ u" "list_all is_digit u" using s append_take_drop_id [of 2 s] by metis
  have d': "drop (pos t) (source t) = ''0x'' @ u @ CHR '' '' # rest" using d u(1) by simp
  then have ne: "drop (pos t) (source t) = CHR ''0'' # CHR ''x'' # u @ CHR '' '' # rest" by simp
  note a = at_drop [OF ne]
  have at: "source t ! pos t = CHR ''0''" "source t ! (pos t + 1) = CHR ''x''" "pos t + 1 < length (source t)"
    using a(1) a(2) [of 0] a(2) [of 1] by simp_all
  have "number_size t 2 = Inr (length s)" using number_ends [OF d' u(2)] u(1) by (simp add: numeral_2_eq_2)
  then have "shd_next_token t = finish_token t hex_lit_tok (length s)"
    using e at by (simp add: shd_next_token_def Let_def in_bounds_def source_size_def is_digit_def can_start_identifier_def is_alpha_def code_def char_at_def)
  then show ?thesis using finish_reads d by simp
qed

text \<open>A lexeme starts with a character that is not skipped.\<close>

lemma printed_start:
  assumes "printable l" "drop (pos t) (source t) = printed l @ CHR '' '' # rest"
  shows "eat_whitespace_and_comments t = t"
proof -
  have digit: "is_digit c \<Longrightarrow> c \<noteq> newline \<and> \<not> is_whitespace c \<and> c \<noteq> CHR ''/''" for c
    by (auto simp: is_digit_def is_whitespace_def whitespace_def code_def)
  have ident: "can_start_identifier c \<Longrightarrow> c \<noteq> newline \<and> \<not> is_whitespace c \<and> c \<noteq> CHR ''/''" for c
    by (auto simp: can_start_identifier_def is_alpha_def is_whitespace_def whitespace_def code_def)
  obtain i s where l: "l = (i, s)" by (cases l)
  have "\<exists>c cs. printed l @ CHR '' '' # rest = c # cs \<and> c \<noteq> newline \<and> \<not> is_whitespace c
      \<and> (c = CHR ''/'' \<longrightarrow> cs \<noteq> [] \<and> hd cs \<noteq> CHR ''/'' \<and> hd cs \<noteq> CHR ''*'')"
  proof (cases i)
    case hex_lit_tok
    then obtain u where "s = ''0x'' @ u" using assms(1) l append_take_drop_id [of 2 s] by (metis printable.simps(3))
    then show ?thesis using hex_lit_tok l by (simp add: is_whitespace_def whitespace_def)
  next
    case string_lit_tok
    then show ?thesis using l by (simp add: is_whitespace_def whitespace_def)
  next
    case (Word w)
    then have "(i, Some s) \<in> set TOKENS" using assms(1) l spelling_table by simp
    then show ?thesis using Word l word_entry [of w s] ident by (cases s) auto
  next
    case (Symbol y)
    then have "(i, Some s) \<in> set TOKENS" using assms(1) l spelling_table by simp
    then have "s \<noteq> []" "hd s \<noteq> newline" "\<not> is_whitespace (hd s)" "take 2 s \<noteq> ''//''" "take 2 s \<noteq> ''/*''" using symbol_entry [of y s] Symbol by simp_all
    then show ?thesis using Symbol l by (cases s; cases "tl s") auto
  qed (use assms(1) l digit ident in \<open>cases s; auto\<close>)+
  then show ?thesis using eat_stays assms(2) by metis
qed

lemma reads_printed:
  assumes l: "printable l" and d: "drop (pos t) (source t) = printed l @ CHR '' '' # rest"
  shows "reads t l"
proof -
  note e = printed_start [OF l d]
  obtain i s where lex: "l = (i, s)" by (cases l)
  show ?thesis
    using l d e unfolding lex
    by (cases i) (auto intro: reads_identifier reads_dec reads_hex reads_string reads_word reads_symbol spelling_table simp del: well_spelled.simps(2) simp: append_assoc)
qed

lemma next_token_space: "drop (pos t) (source t) = CHR '' '' # rest \<Longrightarrow> shd_next_token t = shd_next_token (t\<lparr>pos := pos t + 1\<rparr>)"
  by (simp only: shd_next_token_def eat_space)

lemma next_printed:
  assumes "printable l" "drop (pos t) (source t) = gap @ printed l @ CHR '' '' # rest" "gap = [] \<or> gap = '' ''"
  shows "\<exists>k t'. shd_next_token t = Inr (k, t') \<and> current t' = k \<and> source t' = source t \<and> lexeme_of (source t) k = l
    \<and> drop (pos t') (source t) = CHR '' '' # rest"
proof -
  let ?t = "t\<lparr>pos := pos t + length gap\<rparr>"
  have "drop (length gap) (drop (pos t) (source t)) = printed l @ CHR '' '' # rest" using assms(2) by simp
  then have d: "drop (pos ?t) (source ?t) = printed l @ CHR '' '' # rest" by (simp add: add.commute)
  have "shd_next_token t = shd_next_token ?t" using assms(2,3) next_token_space by auto
  moreover have "drop (length (printed l)) (drop (pos ?t) (source ?t)) = CHR '' '' # rest" using d by simp
  then have "drop (pos ?t + length (printed l)) (source t) = CHR '' '' # rest" by (simp add: add_ac)
  ultimately show ?thesis using reads_printed [OF assms(1) d] by (auto simp: reads_def)
qed

lemma next_at_end:
  assumes "drop (pos t) (source t) = gap" "gap = [] \<or> gap = '' ''" "pos t \<le> source_size t"
  shows "\<exists>k t'. shd_next_token t = Inr (k, t') \<and> current t' = k \<and> tag k = EOF_tok"
proof -
  let ?t = "t\<lparr>pos := source_size t\<rparr>"
  have "eat_whitespace_and_comments ?t = ?t" by (subst eat_whitespace_and_comments.simps) (simp add: Let_def source_size_def)
  then have "shd_next_token ?t = (let k = \<lparr>tag = EOF_tok, tstart = 0, tend = 0\<rparr> in Inr (k, ?t\<lparr>current := k\<rparr>))"
    by (simp add: shd_next_token_def Let_def source_size_def)
  moreover have "shd_next_token t = shd_next_token ?t"
  proof (cases "gap = []")
    case True
    then have "t = ?t" using assms(1,3) by (simp add: source_size_def)
    then show ?thesis by simp
  next
    case False
    then have "drop (pos t) (source t) = CHR '' '' # []" using assms by auto
    moreover from at_drop(1) [OF this] have "source_size t = pos t + 1" by (simp add: source_size_def)
    ultimately show ?thesis using next_token_space by simp
  qed
  ultimately show ?thesis by (simp add: Let_def)
qed

lemma all_tokens_printed:
  "list_all printable ls \<Longrightarrow> printable l \<Longrightarrow> lexeme_of (source t) (current t) = l \<Longrightarrow> drop (pos t) (source t) = '' '' @ print_tokens ls \<Longrightarrow>
   length ls + 2 \<le> fuel \<Longrightarrow> \<exists>ks. all_tokens fuel t = Inr ks \<and> map (lexeme_of (source t)) ks = l # ls"
proof (induction ls arbitrary: fuel l t)
  case Nil
  have "pos t \<le> source_size t" using at_drop(1) [OF Nil(4)] by (simp add: source_size_def print_tokens_def)
  then obtain k t' where k: "shd_next_token t = Inr (k, t')" "current t' = k" "tag k = EOF_tok"
    using next_at_end [of t "'' ''"] Nil(4) by (auto simp: print_tokens_def)
  obtain f where f: "fuel = Suc (Suc f)" using Nil(5) by (metis add_2_eq_Suc' le_Suc_ex list.size(3) add_0 add.commute)
  have "tag (current t) \<noteq> EOF_tok" using Nil(2,3) by (auto simp: lexeme_of_def)
  then show ?case using k Nil(3) f by (simp add: shd_curr_token_def)
next
  case (Cons x ls)
  have "drop (pos t) (source t) = '' '' @ printed x @ CHR '' '' # print_tokens ls" using Cons.prems(4) by (simp add: print_tokens_def)
  then obtain k t' where k: "shd_next_token t = Inr (k, t')" "current t' = k" "source t' = source t" "lexeme_of (source t) k = x"
      "drop (pos t') (source t) = CHR '' '' # print_tokens ls"
    using next_printed [of x t "'' ''"] Cons.prems(1) by auto
  obtain f where f: "fuel = Suc f" "length ls + 2 \<le> f" using Cons.prems(5) by (cases fuel) auto
  obtain ks where "all_tokens f t' = Inr ks" "map (lexeme_of (source t')) ks = x # ls"
    using Cons.IH [of x t' f] k f(2) Cons.prems(1) by auto
  moreover have "tag (current t) \<noteq> EOF_tok" using Cons.prems(2,3) by (auto simp: lexeme_of_def)
  ultimately show ?case using k Cons.prems(3) f(1) by (simp add: shd_curr_token_def)
qed

lemma print_tokens_length: "length ls \<le> length (print_tokens ls)"
  by (induction ls) (auto simp: print_tokens_def)

text \<open>
  C13: Printing tokens and tokenizing the text gives the tokens back, tags and spellings: words, symbols (the longest that
  matches), identifiers, numbers and string literals, separated by spaces.
\<close>

theorem tokenize_roundtrip:
  assumes "list_all printable ls"
  shows "\<exists>ks. tokenize (print_tokens ls) = Inr ks \<and> map (lexeme_of (print_tokens ls)) ks = ls"
proof (cases ls)
  case Nil
  have "eat_whitespace_and_comments \<lparr>source = [], pos = 0, line = 1, last_line_pos = 0, current = \<lparr>tag = EOF_tok, tstart = 0, tend = 0\<rparr>\<rparr>
      = \<lparr>source = [], pos = 0, line = 1, last_line_pos = 0, current = \<lparr>tag = EOF_tok, tstart = 0, tend = 0\<rparr>\<rparr>"
    by (subst eat_whitespace_and_comments.simps) (simp add: Let_def)
  then show ?thesis
    by (simp add: Nil print_tokens_def tokenize_def shd_new_tokenizer_def shd_next_token_def source_size_def shd_curr_token_def Let_def)
next
  case (Cons l ls')
  let ?s = "print_tokens ls"
  let ?t = "\<lparr>source = ?s, pos = 0, line = 1, last_line_pos = 0, current = \<lparr>tag = EOF_tok, tstart = 0, tend = 0\<rparr>\<rparr>"
  have "drop (pos ?t) (source ?t) = [] @ printed l @ CHR '' '' # print_tokens ls'" using Cons by (simp add: print_tokens_def)
  then obtain k t' where k: "shd_next_token ?t = Inr (k, t')" "current t' = k" "source t' = ?s" "lexeme_of ?s k = l"
      "drop (pos t') ?s = CHR '' '' # print_tokens ls'"
    using next_printed [of l ?t "[]"] assms Cons by auto
  have "length ls' + 2 \<le> length ?s + 1"
    using print_tokens_length [of ls] Cons by simp
  then obtain ks where "all_tokens (length ?s + 1) t' = Inr ks" "map (lexeme_of ?s) ks = l # ls'"
    using all_tokens_printed [of ls' l t' "length ?s + 1"] assms Cons k by auto
  then show ?thesis using k(1) Cons by (simp add: tokenize_def shd_new_tokenizer_def)
qed

theorem tokenize_roundtrip_witness:
  "\<exists>ks. tokenize (print_tokens [(Word fn_tok, ''fn''), (identifier_tok, ''fnord''), (Symbol infix_rshift_arithm_tok, ''>>''), (dec_lit_tok, ''42'')]) = Inr ks
     \<and> map (lexeme_of (print_tokens [(Word fn_tok, ''fn''), (identifier_tok, ''fnord''), (Symbol infix_rshift_arithm_tok, ''>>''), (dec_lit_tok, ''42'')])) ks
       = [(Word fn_tok, ''fn''), (identifier_tok, ''fnord''), (Symbol infix_rshift_arithm_tok, ''>>''), (dec_lit_tok, ''42'')]"
  by (rule tokenize_roundtrip)
    (simp add: spelling_def TOKENS_def can_start_identifier_def can_make_up_identifier_def is_alpha_def is_digit_def code_def)

text \<open>
  C15: A string literal that is not closed makes the tokenizer read behind the terminator of the source.
\<close>

theorem unclosed_string_reads_behind:
  assumes "quote \<notin> set s"
  shows "tokenize (quote # s) = Inl OutOfBounds"
proof -
  let ?t = "\<lparr>source = quote # s, pos = 0, line = 1, last_line_pos = 0, current = \<lparr>tag = EOF_tok, tstart = 0, tend = 0\<rparr>\<rparr>"
  have eat: "eat_whitespace_and_comments ?t = ?t"
    by (rule eat_stays [of _ quote s]) (simp_all add: is_whitespace_def whitespace_def)
  have w: "takeWhile (\<lambda>c. c \<noteq> quote) s = s" using assms by (auto simp: takeWhile_eq_all_conv)
  have "string_token ?t = Inl OutOfBounds" using scan_quote [of ?t] by (simp add: source_size_def Let_def w)
  with eat show ?thesis
    by (simp add: tokenize_def shd_new_tokenizer_def shd_next_token_def Let_def in_bounds_def source_size_def
        can_start_identifier_def is_alpha_def is_digit_def code_def)
qed

theorem unclosed_string_reads_behind_witness: "tokenize (quote # ''abc'') = Inl OutOfBounds"
  by (rule unclosed_string_reads_behind) simp

text \<open>A hexadecimal literal ends in front of its first letter.\<close>

lemma hex_literal_split:
  "tokenize ''0xFF'' = Inr [\<lparr>tag = hex_lit_tok, tstart = 0, tend = 2\<rparr>, \<lparr>tag = identifier_tok, tstart = 2, tend = 4\<rparr>]"
  by code_simp

end
