(* ===== verification/SwitchTree.thy ===== *)
theory SwitchTree
  imports Prelude
begin

text \<open>
  The balanced search tree that \<^verbatim>\<open>src/shady/passes/lower_switch_btree.c\<close> builds from the cases of a match: an
  Andersson tree whose nodes carry a key, a case and a level. Subtrees are never shared, so rotating pointers in place is
  building a new tree. Keys are the 64-bit values of the literals.
\<close>

datatype 'l TreeNode =
    Null
  | TreeNode "'l TreeNode" nat u64 'l "'l TreeNode"

text \<open>Lookup, defined on trees that are not \<^verbatim>\<open>NULL\<close>.\<close>

fun tree_find :: "'l TreeNode \<Rightarrow> u64 \<Rightarrow> 'l option result" where
  "tree_find Null v = Inl NullDeref"
| "tree_find (TreeNode l d key lam r) v =
     (if key = v then Inr (Some lam)
      else if v < key \<and> l \<noteq> Null then tree_find l v
      else if key < v \<and> r \<noteq> Null then tree_find r v
      else Inr None)"

text \<open>A left child of the same level becomes the root; a root with two right descendants of its level is split.\<close>

fun tree_skew :: "'l TreeNode \<Rightarrow> 'l TreeNode result" where
  "tree_skew Null = Inl NullDeref"
| "tree_skew (TreeNode Null d key lam r) = Inr (TreeNode Null d key lam r)"
| "tree_skew (TreeNode (TreeNode a ld lkey llam b) d key lam r) =
     (if ld = d then Inr (TreeNode a ld lkey llam (TreeNode b d key lam r))
      else Inr (TreeNode (TreeNode a ld lkey llam b) d key lam r))"

fun tree_split :: "'l TreeNode \<Rightarrow> 'l TreeNode result" where
  "tree_split Null = Inl NullDeref"
| "tree_split (TreeNode l d key lam (TreeNode a rd rkey rlam (TreeNode b xd xkey xlam c))) =
     (if d = xd then Inr (TreeNode (TreeNode l d key lam a) (rd + 1) rkey rlam (TreeNode b xd xkey xlam c))
      else Inr (TreeNode l d key lam (TreeNode a rd rkey rlam (TreeNode b xd xkey xlam c))))"
| "tree_split t = Inr t"

text \<open>A key that is already there fails an assertion.\<close>

fun tree_insert :: "'l TreeNode \<Rightarrow> 'l TreeNode \<Rightarrow> 'l TreeNode result" where
  "tree_insert t Null = Inl NullDeref"
| "tree_insert Null (TreeNode a d key lam b) = Inr (TreeNode a 1 key lam b)"
| "tree_insert (TreeNode l d key lam r) (TreeNode xa xd xkey xlam xb) =
     (let x = TreeNode xa xd xkey xlam xb in
      bind_res
        (if xkey < key then bind_res (tree_insert l x) (\<lambda>l. Inr (TreeNode l d key lam r))
         else if key < xkey then bind_res (tree_insert r x) (\<lambda>r. Inr (TreeNode l d key lam r))
         else Inl AssertFailed)
        (\<lambda>t. bind_res (tree_skew t) tree_split))"

text \<open>The loop of \<^verbatim>\<open>process\<close>: fresh nodes are zeroed, so they have no children and level 0.\<close>

definition switch_tree :: "u64 list \<Rightarrow> 'l list \<Rightarrow> 'l TreeNode result" where
  "switch_tree literals cases =
     fold_res (\<lambda>i root. if i < length cases then tree_insert root (TreeNode Null 0 (literals ! i) (cases ! i) Null)
                        else Inl OutOfBounds)
       [0..<length literals] Null"

subsection \<open>The entries in order\<close>

fun entries :: "'l TreeNode \<Rightarrow> (u64 \<times> 'l) list" where
  "entries Null = []"
| "entries (TreeNode l d key lam r) = entries l @ (key, lam) # entries r"

abbreviation search_tree :: "'l TreeNode \<Rightarrow> bool" where
  "search_tree t \<equiv> sorted_wrt (<) (map fst (entries t))"

lemma tree_find_map_of:
  assumes "search_tree t" and "t \<noteq> Null"
  shows "tree_find t v = Inr (map_of (entries t) v)"
  using assms
proof (induction t)
  case (TreeNode l d key lam r)
  have l: "map_of (entries l) v = None" if "\<not> v < key"
    using TreeNode.prems that by (fastforce simp: sorted_wrt_append map_of_eq_None_iff)
  have r: "map_of (entries r) v = None" if "\<not> key < v"
    using TreeNode.prems that by (fastforce simp: sorted_wrt_append map_of_eq_None_iff)
  show ?case
    using TreeNode l r by (auto simp: sorted_wrt_append map_add_def split: option.splits)
qed simp

lemma entries_tree_skew: "tree_skew t = Inr t' \<Longrightarrow> entries t' = entries t"
  by (cases t rule: tree_skew.cases) (auto split: if_splits)

lemma entries_tree_split: "tree_split t = Inr t' \<Longrightarrow> entries t' = entries t"
  by (cases t rule: tree_split.cases) (auto split: if_splits)

lemma balance_ok: "\<exists>t'. bind_res (tree_skew (TreeNode l d key lam r)) tree_split = Inr t'"
proof -
  have "\<exists>a e k m b. tree_skew (TreeNode l d key lam r) = Inr (TreeNode a e k m b)"
    by (cases l) auto
  moreover have "\<exists>t'. tree_split (TreeNode a d k m b) = Inr t'" for a b :: "'a TreeNode" and d k m
    by (cases "TreeNode a d k m b" rule: tree_split.cases) auto
  ultimately show ?thesis by (elim exE) simp
qed

lemma balance_entries: "bind_res (tree_skew t) tree_split = Inr t' \<Longrightarrow> entries t' = entries t"
  by (auto simp: bind_res_Inr_iff entries_tree_skew entries_tree_split)

lemma balance_set:
  obtains t' where "bind_res (tree_skew (TreeNode l d key lam r)) tree_split = Inr t'"
    and "entries t' = entries l @ (key, lam) # entries r"
  using balance_ok [of l d key lam r] balance_entries by force

text \<open>A new key is inserted in its place; a known one is refused.\<close>

lemma tree_insert_new:
  assumes "search_tree t" and "k \<notin> fst ` set (entries t)"
  shows "\<exists>t'. tree_insert t (TreeNode Null d k a Null) = Inr t' \<and> search_tree t'
           \<and> set (entries t') = insert (k, a) (set (entries t))"
  using assms
proof (induction t)
  case (TreeNode l e key lam r)
  consider "k < key" | "key < k" using TreeNode.prems(2) by fastforce
  then show ?case
  proof cases
    case 1
    with TreeNode obtain l' where l': "tree_insert l (TreeNode Null d k a Null) = Inr l'" "search_tree l'"
      "set (entries l') = insert (k, a) (set (entries l))" by (auto simp: sorted_wrt_append)
    obtain t' where "bind_res (tree_skew (TreeNode l' e key lam r)) tree_split = Inr t'"
      "entries t' = entries l' @ (key, lam) # entries r" by (rule balance_set)
    with l' 1 TreeNode.prems show ?thesis by (auto simp: sorted_wrt_append Let_def)
  next
    case 2
    with TreeNode obtain r' where r': "tree_insert r (TreeNode Null d k a Null) = Inr r'" "search_tree r'"
      "set (entries r') = insert (k, a) (set (entries r))" by (auto simp: sorted_wrt_append)
    obtain t' where "bind_res (tree_skew (TreeNode l e key lam r')) tree_split = Inr t'"
      "entries t' = entries l @ (key, lam) # entries r'" by (rule balance_set)
    with r' 2 TreeNode.prems show ?thesis by (auto simp: sorted_wrt_append Let_def)
  qed
qed simp

lemma tree_insert_known:
  assumes "search_tree t" and "k \<in> fst ` set (entries t)"
  shows "tree_insert t (TreeNode Null d k a Null) = Inl AssertFailed"
  using assms
proof (induction t)
  case (TreeNode l e key lam r)
  have "k \<in> fst ` set (entries l)" if "k < key" using TreeNode.prems that by (force simp: sorted_wrt_append)
  moreover have "k \<in> fst ` set (entries r)" if "key < k" using TreeNode.prems that by (force simp: sorted_wrt_append)
  ultimately show ?case using TreeNode by (auto simp: sorted_wrt_append Let_def)
qed simp

subsection \<open>Balance\<close>

text \<open>The level of a node is one more than that of its left child, and of its right child or right grandchild.\<close>

fun level :: "'l TreeNode \<Rightarrow> nat" where
  "level Null = 0"
| "level (TreeNode l d key lam r) = d"

fun right_child :: "'l TreeNode \<Rightarrow> 'l TreeNode" where
  "right_child Null = Null"
| "right_child (TreeNode l d key lam r) = r"

fun left_child :: "'l TreeNode \<Rightarrow> 'l TreeNode" where
  "left_child Null = Null"
| "left_child (TreeNode l d key lam r) = l"

fun levelled :: "'l TreeNode \<Rightarrow> bool" where
  "levelled Null = True"
| "levelled (TreeNode l d key lam r) \<longleftrightarrow> levelled l \<and> levelled r \<and> d = level l + 1
     \<and> (d = level r + 1 \<or> d = level r \<and> d = level (right_child r) + 1)"

fun nodes :: "'l TreeNode \<Rightarrow> nat" where
  "nodes Null = 0"
| "nodes (TreeNode l d key lam r) = nodes l + nodes r + 1"

fun height :: "'l TreeNode \<Rightarrow> nat" where
  "height Null = 0"
| "height (TreeNode l d key lam r) = max (height l) (height r) + 1"

lemma nodes_entries: "nodes t = length (entries t)"
  by (induction t) auto

lemma level_nodes: "levelled t \<Longrightarrow> 2 ^ level t \<le> nodes t + 1"
proof (induction t)
  case (TreeNode l d key lam r)
  then have l: "2 ^ level l \<le> nodes l + 1" and r: "2 ^ level r \<le> nodes r + 1" by auto
  have "level l \<le> level r" using TreeNode.prems by auto
  then have "(2::nat) ^ level l \<le> 2 ^ level r" by simp
  with r have "2 ^ level l \<le> nodes r + 1" by (rule order_trans [rotated])
  with l TreeNode.prems show ?case by simp
qed simp

lemma level_height: "levelled t \<Longrightarrow> height t \<le> 2 * level t \<and> (level (right_child t) < level t \<longrightarrow> height t < 2 * level t)"
proof (induction t)
  case (TreeNode l d key lam r)
  then show ?case by (cases r) auto
qed simp

text \<open>What inserting below a node does to its level.\<close>

definition grown :: "'l TreeNode \<Rightarrow> 'l TreeNode \<Rightarrow> bool" where
  "grown t t' \<longleftrightarrow> levelled t'
     \<and> (level t' = level t \<or> level t' = level t + 1 \<and> level (left_child t') = level t \<and> level (right_child t') = level t)
     \<and> (level (right_child t) < level t \<longrightarrow> level t' = level t)"

lemma level_right_child: "levelled t \<Longrightarrow> level (right_child t) \<le> level t"
  by (cases t) auto

text \<open>Rotations at a node whose left or right subtree has grown.\<close>

lemma no_skew: "level l \<noteq> d \<or> l = Null \<Longrightarrow> tree_skew (TreeNode l d key lam r) = Inr (TreeNode l d key lam r)"
  by (cases l) auto

lemma no_split:
  "level (right_child r) \<noteq> d \<or> right_child r = Null \<Longrightarrow> tree_split (TreeNode l d key lam r) = Inr (TreeNode l d key lam r)"
  by (cases "TreeNode l d key lam r" rule: tree_split.cases) auto

lemma balance_grown_left:
  assumes t: "levelled (TreeNode l d key lam r)" and g: "grown l l'"
    and b: "bind_res (tree_skew (TreeNode l' d key lam r)) tree_split = Inr t'"
  shows "grown (TreeNode l d key lam r) t'"
proof (cases "level l' = level l")
  case True
  then have "level l' \<noteq> d" using t by simp
  moreover have "level (right_child r) \<noteq> d" using t level_right_child [of r] by simp linarith
  ultimately have "t' = TreeNode l' d key lam r" using b by (simp add: no_skew no_split)
  with t g True show ?thesis by (auto simp: grown_def)
next
  case False
  with g have up: "level l' = level l + 1" "level (left_child l') = level l" "level (right_child l') = level l"
    by (simp_all add: grown_def)
  from up(1) t obtain a lk lm c where l': "l' = TreeNode a d lk lm c" by (cases l') simp_all
  from up(2,3) t have ac: "level a + 1 = d" "level c + 1 = d" by (simp_all add: l')
  show ?thesis
  proof (cases "level r = d")
    case True
    with t obtain x rk rm y where r: "r = TreeNode x d rk rm y" by (cases r) auto
    then have "t' = TreeNode (TreeNode a d lk lm c) (d + 1) key lam r" using b l' by simp
    with t g l' ac r show ?thesis by (auto simp: grown_def)
  next
    case False
    then have "t' = TreeNode a d lk lm (TreeNode c d key lam r)" using b l' by (cases r) auto
    with t g l' ac False show ?thesis by (auto simp: grown_def)
  qed
qed

lemma balance_grown_right:
  assumes t: "levelled (TreeNode l d key lam r)" and g: "grown r r'"
    and b: "bind_res (tree_skew (TreeNode l d key lam r')) tree_split = Inr t'"
  shows "grown (TreeNode l d key lam r) t'"
proof -
  have skew: "tree_skew (TreeNode l d key lam r') = Inr (TreeNode l d key lam r')"
    using t by (simp add: no_skew)
  show ?thesis
  proof (cases "level (right_child r') = d \<and> right_child r' \<noteq> Null")
    case True
    then obtain x rd rk rm c where r': "r' = TreeNode x rd rk rm c" by (cases r') auto
    with True obtain y ck cm z where c: "c = TreeNode y d ck cm z" by (cases c) auto
    have "rd = d" using t g r' c by (auto simp: grown_def)
    moreover have "t' = TreeNode (TreeNode l d key lam x) (rd + 1) rk rm c" using b skew r' c by simp
    ultimately show ?thesis using t g r' c by (auto simp: grown_def)
  next
    case False
    then have "t' = TreeNode l d key lam r'" using b skew no_split [of r' d] by auto
    with t g False show ?thesis by (cases r') (auto simp: grown_def)
  qed
qed

lemma tree_insert_grown:
  assumes "levelled t" and "tree_insert t (TreeNode Null d k a Null) = Inr t'"
  shows "grown t t'"
  using assms
proof (induction t arbitrary: t')
  case Null
  then show ?case by (auto simp: grown_def)
next
  case (TreeNode l e key lam r)
  have lr: "levelled l" "levelled r" using TreeNode.prems(1) by auto
  from TreeNode.prems(2) consider
    l' where "tree_insert l (TreeNode Null d k a Null) = Inr l'" "bind_res (tree_skew (TreeNode l' e key lam r)) tree_split = Inr t'"
  | r' where "tree_insert r (TreeNode Null d k a Null) = Inr r'" "bind_res (tree_skew (TreeNode l e key lam r')) tree_split = Inr t'"
    by (auto simp: Let_def elim!: bind_res_InrE split: if_splits)
  then show ?case
    by cases (blast intro: balance_grown_left balance_grown_right TreeNode.IH TreeNode.prems lr)+
qed

subsection \<open>The tree of a match\<close>

text \<open>The tree of the first cases: it holds them, in order and balanced.\<close>

definition tree_of :: "(u64 \<times> 'l) list \<Rightarrow> 'l TreeNode \<Rightarrow> bool" where
  "tree_of kvs t \<longleftrightarrow> search_tree t \<and> levelled t \<and> set (entries t) = set kvs \<and> distinct (map fst kvs)"

lemma tree_of_lookup:
  assumes "tree_of kvs t" and "kvs \<noteq> []"
  shows "tree_find t v = Inr (map_of kvs v)"
proof -
  have "distinct (map fst (entries t))"
    using assms(1) by (auto simp: tree_of_def strict_sorted_iff)
  moreover have "t \<noteq> Null" using assms by (auto simp: tree_of_def)
  moreover have "map_of (entries t) = map_of kvs"
    using calculation(1) assms(1) by (intro map_of_inject_set [THEN iffD2]) (auto simp: tree_of_def)
  ultimately show ?thesis using tree_find_map_of [of t v] assms(1) by (simp add: tree_of_def)
qed

lemma tree_of_height:
  assumes "tree_of kvs t"
  shows "2 ^ (height t div 2) \<le> length kvs + 1"
proof -
  have t: "search_tree t" "levelled t" "set (entries t) = set kvs" "distinct (map fst kvs)"
    using assms by (auto simp: tree_of_def)
  have "distinct (entries t)" using t(1) by (auto simp: strict_sorted_iff distinct_map)
  then have "length (entries t) = length kvs"
    using t(3,4) by (metis distinct_card distinct_map)
  then have "2 ^ level t \<le> length kvs + 1" using level_nodes [OF t(2)] by (simp add: nodes_entries)
  moreover have "height t div 2 \<le> level t" using level_height [OF t(2)] by linarith
  then have "(2::nat) ^ (height t div 2) \<le> 2 ^ level t" by simp
  ultimately show ?thesis by linarith
qed

lemma tree_of_insert:
  assumes "tree_of kvs t"
  shows "if k \<in> fst ` set kvs then tree_insert t (TreeNode Null 0 k a Null) = Inl AssertFailed
         else \<exists>t'. tree_insert t (TreeNode Null 0 k a Null) = Inr t' \<and> tree_of (kvs @ [(k, a)]) t'"
proof (cases "k \<in> fst ` set kvs")
  case True
  with assms tree_insert_known [of t k 0 a] show ?thesis by (simp add: tree_of_def)
next
  case False
  with assms obtain t' where t': "tree_insert t (TreeNode Null 0 k a Null) = Inr t'" "search_tree t'"
    "set (entries t') = insert (k, a) (set kvs)"
    using tree_insert_new [of t k 0 a] by (auto simp: tree_of_def)
  moreover have "levelled t'" using tree_insert_grown [OF _ t'(1)] assms by (simp add: tree_of_def grown_def)
  ultimately show ?thesis using False assms by (simp add: tree_of_def)
qed

lemma switch_tree_zip:
  assumes "length literals = length cases"
  shows "switch_tree literals cases
       = fold_res (\<lambda>(k, a) root. tree_insert root (TreeNode Null 0 k a Null)) (zip literals cases) Null"
proof -
  let ?f = "\<lambda>(k, a) root. tree_insert root (TreeNode Null 0 k a Null)"
  have zip: "zip literals cases = map (\<lambda>i. (literals ! i, cases ! i)) [0..<length literals]"
    using assms by (intro nth_equalityI) auto
  have "fold_res ?f (map (\<lambda>i. (literals ! i, cases ! i)) is) t
      = fold_res (\<lambda>i root. if i < length cases then tree_insert root (TreeNode Null 0 (literals ! i) (cases ! i) Null)
                        else Inl OutOfBounds) is t" if "set is \<subseteq> {..<length cases}" for "is" t
    using that by (induction "is" arbitrary: t) (auto intro!: arg_cong [where f = "bind_res _"])
  note step = this
  have "set [0..<length cases] \<subseteq> {..<length cases}" by auto
  then show ?thesis using assms zip step [of "[0..<length cases]" Null] by (simp only: switch_tree_def)
qed

lemma tree_of_fold:
  assumes "tree_of kvs t"
  shows "case fold_res (\<lambda>(k, a) root. tree_insert root (TreeNode Null 0 k a Null)) xs t of
           Inr t' \<Rightarrow> tree_of (kvs @ xs) t'
         | Inl e \<Rightarrow> e = AssertFailed \<and> \<not> distinct (map fst (kvs @ xs))"
  using assms
proof (induction xs arbitrary: kvs t)
  case (Cons x xs)
  obtain k a where x: "x = (k, a)" by force
  show ?case
  proof (cases "k \<in> fst ` set kvs")
    case True
    then show ?thesis using tree_of_insert [OF Cons.prems, of k a] by (auto simp: x)
  next
    case False
    then obtain t' where "tree_insert t (TreeNode Null 0 k a Null) = Inr t'" "tree_of (kvs @ [(k, a)]) t'"
      using tree_of_insert [OF Cons.prems, of k a] by auto
    with Cons.IH [of "kvs @ [(k, a)]" t'] show ?thesis by (simp add: x split: sum.splits)
  qed
qed simp

text \<open>
  C17: The tree built from the cases of a match answers every lookup with the case of that literal, its height is at most
  twice the logarithm of their number, and building fails, with an assertion, exactly when a literal occurs twice.
\<close>

theorem switch_tree_refines_map:
  assumes "length literals = length cases" and "literals \<noteq> []"
  shows "case switch_tree literals cases of
           Inr t \<Rightarrow> distinct literals \<and> (\<forall>v. tree_find t v = Inr (map_of (zip literals cases) v))
                    \<and> 2 ^ (height t div 2) \<le> length literals + 1
         | Inl e \<Rightarrow> e = AssertFailed \<and> \<not> distinct literals"
proof -
  have "tree_of [] Null" by (simp add: tree_of_def)
  note fold = tree_of_fold [OF this, of "zip literals cases"]
  show ?thesis
  proof (cases "switch_tree literals cases")
    case (Inl e)
    with fold assms show ?thesis by (simp add: switch_tree_zip)
  next
    case (Inr t)
    with fold assms have t: "tree_of (zip literals cases) t" by (simp add: switch_tree_zip)
    moreover have "zip literals cases \<noteq> []" using assms by (cases literals; cases cases) auto
    ultimately show ?thesis
      using Inr assms tree_of_lookup [of "zip literals cases" t] tree_of_height [OF t] by (simp add: tree_of_def)
  qed
qed

lemma switch_tree_refines_map_witness:
  "\<exists>t. switch_tree [7, 1, 4, 9, 2] ''abcde'' = Inr t \<and> tree_find t 4 = Inr (Some CHR ''c'') \<and> tree_find t 3 = Inr None
     \<and> switch_tree [7, 1, 7 :: u64] ''abc'' = Inl AssertFailed"
  using switch_tree_refines_map [of "[7, 1, 4, 9, 2]" "''abcde''"] switch_tree_refines_map [of "[7, 1, 7]" "''abc''"]
  by (auto split: sum.splits)

end
