(* ===== verification/DriverCli.thy ===== *)
theory DriverCli
  imports TextC IrGrammar
begin

text \<open>
  The command line of the compiler: \<^verbatim>\<open>src/driver/cli.c\<close> with the configurations of \<^verbatim>\<open>src/shady/config.c\<close>. The vector of
  arguments is a list of optional strings, \<open>None\<close> for \<^verbatim>\<open>NULL\<close>; it is longer than the count of arguments, because the
  host ends it with \<^verbatim>\<open>NULL\<close> and because packing leaves behind what it does not overwrite. Messages are not modelled,
  an exit with a code is an error that names it.
\<close>

subsection \<open>Configurations\<close>

datatype CodegenTarget = TgtAuto | TgtC | TgtSPV | TgtGLSL | TgtISPC

datatype SourceLanguage = SrcShadyIR | SrcSlim | SrcSPIRV | SrcLLVM

datatype LogLevel = ERROR | WARN | INFO | DEBUG | DEBUGV | DEBUGVV

datatype ExecutionModel = EmNone | EmCompute | EmFragment | EmVertex

datatype CDialect = CDialect_C11 | CDialect_GLSL | CDialect_ISPC | CDialect_CUDA

record CEmitterConfig =
  dialect :: CDialect
  explicitly_sized_types :: bool
  allow_compound_literals :: bool
  decay_unsized_arrays :: bool
  glsl_version :: int

record PointerModel =
  ptr_size :: IntSizes
  word_size :: IntSizes

record TargetConfig =
  memory :: PointerModel

record InputCf =
  restructure_with_heuristics :: bool
  add_scope_annotations :: bool
  has_scope_annotations :: bool

record Lower =
  emulate_generic_ptrs :: bool
  emulate_physical_memory :: bool
  emulate_subgroup_ops :: bool
  emulate_subgroup_ops_extended_types :: bool
  int64 :: bool
  decay_ptrs :: bool

record Hacks =
  spv_shuffle_instead_of_broadcast_first :: bool
  force_join_point_lifting :: bool

record Optimisations =
  after_every_pass :: bool
  delete_unused_instructions :: bool
  inline_everything :: bool

record PrintfTrace =
  memory_accesses :: bool
  stack_accesses :: bool
  god_function :: bool
  stack_size :: bool
  subgroup_ops :: bool

record Logging =
  print_generated :: bool
  print_builtin :: bool
  print_internal :: bool

record Specialization =
  entry_point :: "string option"
  execution_model :: ExecutionModel
  subgroup_size :: u32

record CompilerConfig =
  dynamic_scheduling :: bool
  per_thread_stack_size :: u32
  target_spirv_version :: "u8 \<times> u8"
  input_cf :: InputCf
  lower :: Lower
  hacks :: Hacks
  optimisations :: Optimisations
  printf_trace :: PrintfTrace
  max_top_iterations :: int
  logging :: Logging
  specialization :: Specialization
  target_config :: TargetConfig

record DriverConfig =
  compiler_config :: CompilerConfig
  c_emitter_config :: CEmitterConfig
  input_filenames :: "string list"
  codegen_target :: CodegenTarget
  output_filename :: "string option"
  shd_output_filename :: "string option"
  cfg_output_filename :: "string option"
  loop_tree_output_filename :: "string option"

definition shd_default_target_config :: TargetConfig where
  "shd_default_target_config = \<lparr>memory = \<lparr>ptr_size = IntTy64, word_size = IntTy32\<rparr>\<rparr>"

text \<open>Members that the code does not name are zero.\<close>

definition shd_default_compiler_config :: CompilerConfig where
  "shd_default_compiler_config =
     \<lparr>dynamic_scheduling = True, per_thread_stack_size = 4 * 1024, target_spirv_version = (1, 4),
      input_cf = \<lparr>restructure_with_heuristics = False, add_scope_annotations = False, has_scope_annotations = False\<rparr>,
      lower = \<lparr>emulate_generic_ptrs = True, emulate_physical_memory = True, emulate_subgroup_ops = False,
               emulate_subgroup_ops_extended_types = False, int64 = False, decay_ptrs = False\<rparr>,
      hacks = \<lparr>spv_shuffle_instead_of_broadcast_first = False, force_join_point_lifting = False\<rparr>,
      optimisations = \<lparr>after_every_pass = True, delete_unused_instructions = True, inline_everything = False\<rparr>,
      printf_trace = \<lparr>memory_accesses = False, stack_accesses = False, god_function = False, stack_size = False,
                      subgroup_ops = False\<rparr>,
      max_top_iterations = 0,
      logging = \<lparr>print_generated = False, print_builtin = True, print_internal = False\<rparr>,
      specialization = \<lparr>entry_point = None, execution_model = EmNone, subgroup_size = 8\<rparr>,
      target_config = shd_default_target_config\<rparr>"

definition shd_default_c_emitter_config :: CEmitterConfig where
  "shd_default_c_emitter_config =
     \<lparr>dialect = CDialect_C11, explicitly_sized_types = False, allow_compound_literals = False, decay_unsized_arrays = False,
      glsl_version = 420\<rparr>"

definition shd_default_driver_config :: DriverConfig where
  "shd_default_driver_config =
     \<lparr>compiler_config = shd_default_compiler_config, c_emitter_config = shd_default_c_emitter_config, input_filenames = [],
      codegen_target = TgtAuto, output_filename = None, shd_output_filename = None, cfg_output_filename = None,
      loop_tree_output_filename = None\<rparr>"

text \<open>Guesses from the names of files.\<close>

definition shd_guess_target :: "string \<Rightarrow> CodegenTarget result" where
  "shd_guess_target filename =
     (if shd_string_ends_with filename ''.c'' then Inr TgtC
      else if shd_string_ends_with filename ''glsl'' then Inr TgtGLSL
      else if shd_string_ends_with filename ''spirv'' \<or> shd_string_ends_with filename ''spv'' then Inr TgtSPV
      else if shd_string_ends_with filename ''ispc'' then Inr TgtISPC
      else Inl (ShdError ''InvalidTarget''))"

definition shd_driver_guess_source_language :: "string \<Rightarrow> SourceLanguage" where
  "shd_driver_guess_source_language filename =
     (if shd_string_ends_with filename ''.ll'' \<or> shd_string_ends_with filename ''.bc'' then SrcLLVM
      else if shd_string_ends_with filename ''.spv'' then SrcSPIRV
      else if shd_string_ends_with filename ''.slim'' then SrcSlim
      else if shd_string_ends_with filename ''.slim'' then SrcShadyIR
      else SrcSlim)"

subsection \<open>Arguments\<close>

type_synonym argv = "string option list"

definition argument :: "argv \<Rightarrow> nat \<Rightarrow> string option result" where
  "argument argv i = (if i < length argv then Inr (argv ! i) else Inl OutOfBounds)"

definition nonnull :: "string option \<Rightarrow> (string \<Rightarrow> 'b result) \<Rightarrow> 'b result" where
  "nonnull s f = (case s of None \<Rightarrow> Inl NullDeref | Some s \<Rightarrow> f s)"

definition shd_pack_remaining_args :: "nat \<times> argv \<Rightarrow> nat \<times> argv" where
  "shd_pack_remaining_args a =
     (case a of (argc, argv) \<Rightarrow>
        let nargv = filter (\<lambda>s. s \<noteq> None) (take argc argv)
        in (length nargv, nargv @ drop (length nargv) argv))"

text \<open>
  The loops over the arguments: a step answers the position it has come to, because options take the next argument as
  their value. \<open>missing\<close> is the error for a value that is behind the arguments; two options do not check that.
\<close>

type_synonym 'c arg_step = "nat \<Rightarrow> nat \<Rightarrow> argv \<times> 'c \<Rightarrow> (nat \<times> argv \<times> 'c) result"

primrec args_loop :: "nat \<Rightarrow> 'c arg_step \<Rightarrow> nat \<Rightarrow> nat \<Rightarrow> argv \<times> 'c \<Rightarrow> (argv \<times> 'c) result" where
  "args_loop 0 step argc i s = (if i < argc then Inl OutOfFuel else Inr s)"
| "args_loop (Suc fuel) step argc i s =
     (if i < argc then bind_res (step argc i s) (\<lambda>(i, s). args_loop fuel step argc (i + 1) s) else Inr s)"

definition take_value ::
  "error option \<Rightarrow> (string option \<Rightarrow> 'c \<Rightarrow> 'c result) \<Rightarrow> 'c arg_step" where
  "take_value missing store argc i s =
     (case s of (argv, c) \<Rightarrow>
        let argv = argv[i := None]; i = i + 1
        in if i = argc \<and> missing \<noteq> None then Inl (the missing)
           else bind_res (argument argv i) (\<lambda>v. bind_res (store v c) (\<lambda>c. Inr (i, argv[i := None], c))))"

text \<open>\<^verbatim>\<open>atoi\<close>, on texts whose number fits an \<^verbatim>\<open>int\<close>.\<close>

definition is_space :: "char \<Rightarrow> bool" where
  "is_space c \<longleftrightarrow> of_char c \<in> {9 .. 13 :: nat} \<or> c = CHR '' ''"

definition digit_value :: "char \<Rightarrow> nat" where
  "digit_value c = of_char c - 48"

definition is_digit_char :: "char \<Rightarrow> bool" where
  "is_digit_char c \<longleftrightarrow> 48 \<le> (of_char c :: nat) \<and> (of_char c :: nat) \<le> 57"

definition digits_value :: "string \<Rightarrow> nat" where
  "digits_value s = foldl (\<lambda>n c. 10 * n + digit_value c) 0 (takeWhile is_digit_char s)"

definition atoi :: "string \<Rightarrow> int" where
  "atoi s =
     (case dropWhile is_space s of
        [] \<Rightarrow> 0
      | c # cs \<Rightarrow>
          if c = CHR ''-'' then - int (digits_value cs)
          else if c = CHR ''+'' then int (digits_value cs)
          else int (digits_value (c # cs)))"

subsection \<open>The options of the driver\<close>

definition target_names :: "(string \<times> CodegenTarget) list" where
  "target_names = [(''c'', TgtC), (''spirv'', TgtSPV), (''glsl'', TgtGLSL), (''ispc'', TgtISPC)]"

definition driver_arg :: "DriverConfig arg_step" where
  "driver_arg argc i s =
     bind_res (argument (fst s) i) (\<lambda>a. nonnull a (\<lambda>a.
       if a = ''--output'' \<or> a = ''-o''
       then take_value (Some (ShdError ''MissingOutputArg'')) (\<lambda>v c. Inr (c\<lparr>output_filename := v\<rparr>)) argc i s
       else if a = ''--dump-cfg''
       then take_value (Some (ShdError ''MissingDumpCfgArg'')) (\<lambda>v c. Inr (c\<lparr>cfg_output_filename := v\<rparr>)) argc i s
       else if a = ''--dump-loop-tree''
       then take_value (Some (ShdError ''MissingDumpCfgArg'')) (\<lambda>v c. Inr (c\<lparr>loop_tree_output_filename := v\<rparr>)) argc i s
       else if a = ''--dump-ir''
       then take_value (Some (ShdError ''MissingDumpIrArg'')) (\<lambda>v c. Inr (c\<lparr>shd_output_filename := v\<rparr>)) argc i s
       else if a = ''--glsl-version''
       then take_value None
              (\<lambda>v c. nonnull v (\<lambda>v. Inr (c\<lparr>c_emitter_config := c_emitter_config c\<lparr>glsl_version := atoi v\<rparr>\<rparr>))) argc i s
       else if a = ''--target''
       then take_value (Some (ShdError ''InvalidTarget''))
              (\<lambda>v c. nonnull v (\<lambda>v. case map_of target_names v of
                 Some t \<Rightarrow> Inr (c\<lparr>codegen_target := t\<rparr>)
               | None \<Rightarrow> Inl (ShdError ''InvalidTarget''))) argc i s
       else Inr (i, s)))"

definition parse_pass :: "'c arg_step \<Rightarrow> nat \<times> argv \<times> 'c \<Rightarrow> (nat \<times> argv \<times> 'c) result" where
  "parse_pass step s =
     (case s of (argc, argv, c) \<Rightarrow>
        bind_res (args_loop argc step argc 1 (argv, c)) (\<lambda>(argv, c).
          case shd_pack_remaining_args (argc, argv) of (argc, argv) \<Rightarrow> Inr (argc, argv, c)))"

definition shd_parse_driver_args :: "nat \<times> argv \<times> DriverConfig \<Rightarrow> (nat \<times> argv \<times> DriverConfig) result" where
  "shd_parse_driver_args = parse_pass driver_arg"

subsection \<open>The options every tool has\<close>

definition log_level_names :: "(string \<times> LogLevel) list" where
  "log_level_names =
     [(''debugvv'', DEBUGVV), (''debugv'', DEBUGV), (''debug'', DEBUG), (''info'', INFO), (''warn'', WARN), (''error'', ERROR)]"

definition common_arg :: "LogLevel arg_step" where
  "common_arg argc i s =
     bind_res (argument (fst s) i) (\<lambda>a.
       case a of
         None \<Rightarrow> Inr (i, s)
       | Some a \<Rightarrow>
           if a = ''--log-level''
           then take_value (Some (ShdError ''IncorrectLogLevel''))
                  (\<lambda>v c. nonnull v (\<lambda>v. case map_of log_level_names v of
                     Some l \<Rightarrow> Inr l
                   | None \<Rightarrow> Inl (ShdError ''IncorrectLogLevel''))) argc i s
           else Inr (i, s))"

definition shd_parse_common_args :: "nat \<times> argv \<times> LogLevel \<Rightarrow> (nat \<times> argv \<times> LogLevel) result" where
  "shd_parse_common_args = parse_pass common_arg"

subsection \<open>The options of the compiler\<close>

definition COMPILER_CONFIG_TOGGLE_OPTIONS :: "((bool \<Rightarrow> CompilerConfig \<Rightarrow> CompilerConfig) \<times> string) list" where
  "COMPILER_CONFIG_TOGGLE_OPTIONS =
    [(\<lambda>b c. c\<lparr>lower := lower c\<lparr>emulate_physical_memory := b\<rparr>\<rparr>, ''emulate-physical-memory''),
     (\<lambda>b c. c\<lparr>lower := lower c\<lparr>emulate_generic_ptrs := b\<rparr>\<rparr>, ''emulate-generic-pointers''),
     (\<lambda>b c. c\<lparr>dynamic_scheduling := b\<rparr>, ''dynamic-scheduling''),
     (\<lambda>b c. c\<lparr>hacks := hacks c\<lparr>force_join_point_lifting := b\<rparr>\<rparr>, ''lift-join-points''),
     (\<lambda>b c. c\<lparr>logging := logging c\<lparr>print_internal := b\<rparr>\<rparr>, ''print-internal''),
     (\<lambda>b c. c\<lparr>logging := logging c\<lparr>print_generated := b\<rparr>\<rparr>, ''print-builtin''),
     (\<lambda>b c. c\<lparr>logging := logging c\<lparr>print_generated := b\<rparr>\<rparr>, ''print-generated''),
     (\<lambda>b c. c\<lparr>optimisations := optimisations c\<lparr>inline_everything := b\<rparr>\<rparr>, ''inline-everything''),
     (\<lambda>b c. c\<lparr>input_cf := input_cf c\<lparr>restructure_with_heuristics := b\<rparr>\<rparr>, ''restructure-everything''),
     (\<lambda>b c. c\<lparr>input_cf := input_cf c\<lparr>add_scope_annotations := b\<rparr>\<rparr>, ''add-scope-annotations''),
     (\<lambda>b c. c\<lparr>input_cf := input_cf c\<lparr>has_scope_annotations := b\<rparr>\<rparr>, ''has-scope-annotations'')]"

definition parse_toggle :: "string \<Rightarrow> (CompilerConfig \<Rightarrow> CompilerConfig) option" where
  "parse_toggle a =
     map_option (\<lambda>(f, name). f (a \<noteq> ''--no-'' @ name))
       (List.find (\<lambda>(f, name). a = ''--no-'' @ name \<or> a = ''--'' @ name) COMPILER_CONFIG_TOGGLE_OPTIONS)"

definition int_size_names :: "(string \<times> IntSizes) list" where
  "int_size_names = [(''8'', IntTy8), (''16'', IntTy16), (''32'', IntTy32), (''64'', IntTy64)]"

definition parse_int_size :: "string option \<Rightarrow> IntSizes result" where
  "parse_int_size v = nonnull v (\<lambda>v. case map_of int_size_names v of
     Some s \<Rightarrow> Inr s | None \<Rightarrow> Inl (ShdError ''Valid pointer sizes are 8, 16, 32 or 64.''))"

definition execution_model_names :: "(string \<times> ExecutionModel) list" where
  "execution_model_names = [(''Compute'', EmCompute), (''Fragment'', EmFragment), (''Vertex'', EmVertex)]"

definition set_execution_model :: "ExecutionModel \<Rightarrow> CompilerConfig \<Rightarrow> CompilerConfig" where
  "set_execution_model em c =
     (let c = (if em \<in> {EmFragment, EmVertex} then c\<lparr>dynamic_scheduling := False\<rparr> else c)
      in c\<lparr>specialization := specialization c\<lparr>execution_model := em\<rparr>\<rparr>)"

definition config_value :: "string \<Rightarrow> (error option \<times> (string option \<Rightarrow> CompilerConfig \<Rightarrow> CompilerConfig result)) option" where
  "config_value a =
     (if a = ''--entry-point''
      then Some (Some (ShdError ''Missing entry point name''),
                 \<lambda>v c. Inr (c\<lparr>specialization := specialization c\<lparr>entry_point := v\<rparr>\<rparr>))
      else if a = ''--subgroup-size''
      then Some (Some (ShdError ''Missing subgroup size''),
                 \<lambda>v c. nonnull v (\<lambda>v. Inr (c\<lparr>specialization := specialization c\<lparr>subgroup_size := of_int (atoi v)\<rparr>\<rparr>)))
      else if a = ''--stack-size''
      then Some (Some (ShdError ''Missing stack size''),
                 \<lambda>v c. nonnull v (\<lambda>v. Inr (c\<lparr>per_thread_stack_size := of_int (atoi v)\<rparr>)))
      else if a = ''--execution-model''
      then Some (Some (ShdError ''Missing execution model name''),
                 \<lambda>v c. nonnull v (\<lambda>v. case map_of execution_model_names v of
                    Some em \<Rightarrow> Inr (set_execution_model em c)
                  | None \<Rightarrow> Inl (ShdError ''Unknown execution model'')))
      else if a = ''--word-size''
      then Some (None, \<lambda>v c. bind_res (parse_int_size v) (\<lambda>s.
                    Inr (c\<lparr>target_config := target_config c\<lparr>memory := (memory (target_config c))\<lparr>word_size := s\<rparr>\<rparr>\<rparr>)))
      else if a = ''--pointer-size''
      then Some (None, \<lambda>v c. bind_res (parse_int_size v) (\<lambda>s.
                    Inr (c\<lparr>target_config := target_config c\<lparr>memory := (memory (target_config c))\<lparr>ptr_size := s\<rparr>\<rparr>\<rparr>)))
      else None)"

definition config_arg :: "CompilerConfig arg_step" where
  "config_arg argc i s =
     bind_res (argument (fst s) i) (\<lambda>a.
       case a of
         None \<Rightarrow> Inr (i, s)
       | Some a \<Rightarrow>
           (case parse_toggle a of
              Some f \<Rightarrow> Inr (i, (fst s)[i := None], f (snd s))
            | None \<Rightarrow>
                (case config_value a of
                   Some (missing, store) \<Rightarrow> take_value missing store argc i s
                 | None \<Rightarrow> Inr (i, s))))"

definition shd_parse_compiler_config_args :: "nat \<times> argv \<times> CompilerConfig \<Rightarrow> (nat \<times> argv \<times> CompilerConfig) result" where
  "shd_parse_compiler_config_args = parse_pass config_arg"

subsection \<open>Input files, and the whole command line\<close>

definition input_arg :: "string list arg_step" where
  "input_arg argc i s =
     bind_res (argument (fst s) i) (\<lambda>a.
       case a of
         None \<Rightarrow> Inr (i, s)
       | Some a \<Rightarrow> Inr (i, (fst s)[i := None], snd s @ [a]))"

definition shd_driver_parse_input_files :: "nat \<times> argv \<times> string list \<Rightarrow> (nat \<times> argv \<times> string list) result" where
  "shd_driver_parse_input_files s =
     bind_res (parse_pass input_arg s) (\<lambda>(argc, argv, files). require (argc = 1) (Inr (argc, argv, files)))"

text \<open>The first lines of \<^verbatim>\<open>main\<close> in \<^verbatim>\<open>src/driver/slim.c\<close>; the log level is global, \<open>INFO\<close> at the start.\<close>

definition parse_command_line :: "nat \<Rightarrow> argv \<Rightarrow> (DriverConfig \<times> LogLevel) result" where
  "parse_command_line argc argv =
     bind_res (shd_parse_driver_args (argc, argv, shd_default_driver_config)) (\<lambda>(argc, argv, args).
     bind_res (shd_parse_common_args (argc, argv, INFO)) (\<lambda>(argc, argv, level).
     bind_res (shd_parse_compiler_config_args (argc, argv, compiler_config args)) (\<lambda>(argc, argv, cc).
     bind_res (shd_driver_parse_input_files (argc, argv, input_filenames args)) (\<lambda>(_, _, files).
       Inr (args\<lparr>compiler_config := cc, input_filenames := files\<rparr>, level)))))"

end
