(* ===== verification/DriverProps.thy ===== *)
theory DriverProps
  imports DriverCli
begin

text \<open>
  The command line reads back: any sequence of options and files, in any order, is parsed as these options and files,
  although four passes look at it one after the other. The locale states what one pass owes to the others.
\<close>

subsection \<open>Items of a command line\<close>

datatype item =
    Output string | DumpCfg string | DumpLoopTree string | DumpIr string | GlslVersion nat | Target "string \<times> CodegenTarget"
  | Level "string \<times> LogLevel"
  | Toggle bool "(bool \<Rightarrow> CompilerConfig \<Rightarrow> CompilerConfig) \<times> string"
  | EntryPoint string | SubgroupSize nat | StackSize nat | ExecModel "string \<times> ExecutionModel"
  | WordSize "string \<times> IntSizes" | PointerSize "string \<times> IntSizes"
  | Input string

text \<open>Decimal numbers, as printed.\<close>

fun decimal :: "nat \<Rightarrow> string" where
  "decimal n = (if n < 10 then [char_of (n + 48)] else decimal (n div 10) @ [char_of (n mod 10 + 48)])"

declare decimal.simps [simp del]

fun render :: "item \<Rightarrow> string list" where
  "render (Output f) = [''--output'', f]"
| "render (DumpCfg f) = [''--dump-cfg'', f]"
| "render (DumpLoopTree f) = [''--dump-loop-tree'', f]"
| "render (DumpIr f) = [''--dump-ir'', f]"
| "render (GlslVersion n) = [''--glsl-version'', decimal n]"
| "render (Target t) = [''--target'', fst t]"
| "render (Level l) = [''--log-level'', fst l]"
| "render (Toggle b t) = [(if b then ''--'' else ''--no-'') @ snd t]"
| "render (EntryPoint f) = [''--entry-point'', f]"
| "render (SubgroupSize n) = [''--subgroup-size'', decimal n]"
| "render (StackSize n) = [''--stack-size'', decimal n]"
| "render (ExecModel m) = [''--execution-model'', fst m]"
| "render (WordSize s) = [''--word-size'', fst s]"
| "render (PointerSize s) = [''--pointer-size'', fst s]"
| "render (Input f) = [f]"

text \<open>Names do not look like options; what is chosen from a table is in the table.\<close>

definition plain :: "string \<Rightarrow> bool" where
  "plain s \<longleftrightarrow> (case s of [] \<Rightarrow> True | c # _ \<Rightarrow> c \<noteq> CHR ''-'')"

fun valid_item :: "item \<Rightarrow> bool" where
  "valid_item (Target t) \<longleftrightarrow> t \<in> set target_names"
| "valid_item (Level l) \<longleftrightarrow> l \<in> set log_level_names"
| "valid_item (Toggle b t) \<longleftrightarrow> t \<in> set COMPILER_CONFIG_TOGGLE_OPTIONS"
| "valid_item (ExecModel m) \<longleftrightarrow> m \<in> set execution_model_names"
| "valid_item (WordSize s) \<longleftrightarrow> s \<in> set int_size_names"
| "valid_item (PointerSize s) \<longleftrightarrow> s \<in> set int_size_names"
| "valid_item (Output f) \<longleftrightarrow> plain f"
| "valid_item (DumpCfg f) \<longleftrightarrow> plain f"
| "valid_item (DumpLoopTree f) \<longleftrightarrow> plain f"
| "valid_item (DumpIr f) \<longleftrightarrow> plain f"
| "valid_item (EntryPoint f) \<longleftrightarrow> plain f"
| "valid_item (Input f) \<longleftrightarrow> plain f"
| "valid_item _ \<longleftrightarrow> True"

text \<open>What an item means to each pass, and whose it is.\<close>

fun driver_item :: "item \<Rightarrow> (DriverConfig \<Rightarrow> DriverConfig) option" where
  "driver_item (Output f) = Some (\<lambda>c. c\<lparr>output_filename := Some f\<rparr>)"
| "driver_item (DumpCfg f) = Some (\<lambda>c. c\<lparr>cfg_output_filename := Some f\<rparr>)"
| "driver_item (DumpLoopTree f) = Some (\<lambda>c. c\<lparr>loop_tree_output_filename := Some f\<rparr>)"
| "driver_item (DumpIr f) = Some (\<lambda>c. c\<lparr>shd_output_filename := Some f\<rparr>)"
| "driver_item (GlslVersion n) = Some (\<lambda>c. c\<lparr>c_emitter_config := c_emitter_config c\<lparr>glsl_version := int n\<rparr>\<rparr>)"
| "driver_item (Target t) = Some (\<lambda>c. c\<lparr>codegen_target := snd t\<rparr>)"
| "driver_item _ = None"

fun common_item :: "item \<Rightarrow> (LogLevel \<Rightarrow> LogLevel) option" where
  "common_item (Level l) = Some (\<lambda>_. snd l)"
| "common_item _ = None"

fun config_item :: "item \<Rightarrow> (CompilerConfig \<Rightarrow> CompilerConfig) option" where
  "config_item (Toggle b t) = Some (fst t b)"
| "config_item (EntryPoint f) = Some (\<lambda>c. c\<lparr>specialization := specialization c\<lparr>entry_point := Some f\<rparr>\<rparr>)"
| "config_item (SubgroupSize n) = Some (\<lambda>c. c\<lparr>specialization := specialization c\<lparr>subgroup_size := of_nat n\<rparr>\<rparr>)"
| "config_item (StackSize n) = Some (\<lambda>c. c\<lparr>per_thread_stack_size := of_nat n\<rparr>)"
| "config_item (ExecModel m) = Some (set_execution_model (snd m))"
| "config_item (WordSize s) =
     Some (\<lambda>c. c\<lparr>target_config := target_config c\<lparr>memory := (memory (target_config c))\<lparr>word_size := snd s\<rparr>\<rparr>\<rparr>)"
| "config_item (PointerSize s) =
     Some (\<lambda>c. c\<lparr>target_config := target_config c\<lparr>memory := (memory (target_config c))\<lparr>ptr_size := snd s\<rparr>\<rparr>\<rparr>)"
| "config_item _ = None"

fun input_item :: "item \<Rightarrow> (string list \<Rightarrow> string list) option" where
  "input_item (Input f) = Some (\<lambda>fs. fs @ [f])"
| "input_item _ = None"

definition apply_items :: "(item \<Rightarrow> ('c \<Rightarrow> 'c) option) \<Rightarrow> item list \<Rightarrow> 'c \<Rightarrow> 'c" where
  "apply_items meaning = fold (\<lambda>it c. case meaning it of Some f \<Rightarrow> f c | None \<Rightarrow> c)"

definition others :: "(item \<Rightarrow> ('c \<Rightarrow> 'c) option) \<Rightarrow> item list \<Rightarrow> item list" where
  "others meaning = filter (\<lambda>it. meaning it = None)"

definition rendered :: "item list \<Rightarrow> argv" where
  "rendered its = map Some (concat (map render its))"

subsection \<open>Numbers\<close>

lemma digit_char: "d < 10 \<Longrightarrow> is_digit_char (char_of (d + 48)) \<and> digit_value (char_of (d + 48)) = d"
  by (simp add: is_digit_char_def digit_value_def)

lemma decimal_digits: "\<forall>c \<in> set (decimal n). is_digit_char c"
proof (induction n rule: decimal.induct)
  case (1 n)
  then show ?case by (subst decimal.simps) (auto simp: digit_char)
qed

lemma decimal_value: "foldl (\<lambda>n c. 10 * n + digit_value c) 0 (decimal n) = n"
proof (induction n rule: decimal.induct)
  case (1 n)
  then show ?case by (subst decimal.simps) (auto simp: digit_char)
qed

lemma decimal_not_Nil: "decimal n \<noteq> []"
  by (subst decimal.simps) simp

lemma digit_not_special: "is_digit_char c \<Longrightarrow> \<not> is_space c \<and> c \<noteq> CHR ''-'' \<and> c \<noteq> CHR ''+''"
  by (auto simp: is_digit_char_def is_space_def)

lemma atoi_decimal: "atoi (decimal n) = int n"
proof -
  obtain c cs where d: "decimal n = c # cs" using decimal_not_Nil by (cases "decimal n") auto
  then have "is_digit_char c" using decimal_digits [of n] by simp
  moreover have "digits_value (decimal n) = n"
    using decimal_digits [of n] decimal_value [of n] by (simp add: digits_value_def takeWhile_eq_all_conv [THEN iffD2])
  ultimately show ?thesis using digit_not_special [of c] by (simp add: atoi_def d)
qed

lemma plain_decimal: "plain (decimal n)"
  using decimal_not_Nil [of n] decimal_digits [of n] digit_not_special
  by (cases "decimal n") (auto simp: plain_def)

subsection \<open>What a pass does\<close>

text \<open>
  A pass removes the items it understands and leaves the others where they are: the first law is about its own items at
  any place of the vector, the second about every argument of the items of others.
\<close>

locale arg_pass =
  fixes step :: "'c arg_step" and meaning :: "item \<Rightarrow> ('c \<Rightarrow> 'c) option" and scope :: "item \<Rightarrow> bool"
  assumes own_step: "scope it \<Longrightarrow> meaning it = Some f \<Longrightarrow> length pre + length (render it) \<le> argc
      \<Longrightarrow> step argc (length pre) (pre @ map Some (render it) @ post, c)
        = Inr (length pre + length (render it) - 1, pre @ replicate (length (render it)) None @ post, f c)"
    and skip_step: "scope it \<Longrightarrow> meaning it = None \<Longrightarrow> a \<in> set (render it) \<Longrightarrow> i < length argv \<Longrightarrow> argv ! i = Some a
      \<Longrightarrow> step argc i (argv, c) = Inr (i, argv, c)"
begin

definition left_over :: "item list \<Rightarrow> argv" where
  "left_over its = concat (map (\<lambda>it. if meaning it = None then map Some (render it)
                                     else replicate (length (render it)) None) its)"

lemma skip_loop:
  assumes "scope it" and "meaning it = None" and "set as \<subseteq> set (render it)" and "length pre + length as \<le> argc"
    and "argc \<le> length pre + length as + fuel"
  shows "args_loop (length as + fuel) step argc (length pre) (pre @ map Some as @ post, c)
       = args_loop fuel step argc (length pre + length as) (pre @ map Some as @ post, c)"
  using assms(3-)
proof (induction as arbitrary: pre)
  case (Cons a as)
  have "step argc (length pre) (pre @ Some a # map Some as @ post, c) = Inr (length pre, pre @ Some a # map Some as @ post, c)"
    using skip_step [OF assms(1,2), of a "length pre" "pre @ Some a # map Some as @ post"] Cons.prems by simp
  with Cons.IH [of "pre @ [Some a]"] Cons.prems show ?case by simp
qed simp

lemma loop_items:
  assumes "\<forall>it \<in> set its. scope it" and "argc = length pre + length (rendered its)" and "length (rendered its) \<le> fuel"
  shows "args_loop fuel step argc (length pre) (pre @ rendered its @ post, c)
       = Inr (pre @ left_over its @ post, apply_items meaning its c)"
  using assms
proof (induction its arbitrary: pre c fuel)
  case Nil
  then show ?case by (cases fuel) (auto simp: rendered_def left_over_def apply_items_def)
next
  case (Cons it its)
  obtain rest where fuel: "fuel = length (render it) + rest" "length (rendered its) \<le> rest"
    using Cons.prems(3) by (auto simp: rendered_def intro: that [of "fuel - length (render it)"])
  have r: "rendered (it # its) = map Some (render it) @ rendered its" by (simp add: rendered_def)
  have ne: "render it \<noteq> []" by (cases it) auto
  show ?case
  proof (cases "meaning it")
    case None
    have "args_loop fuel step argc (length pre) (pre @ map Some (render it) @ rendered its @ post, c)
        = args_loop rest step argc (length (pre @ map Some (render it)))
            ((pre @ map Some (render it)) @ rendered its @ post, c)"
      using skip_loop [OF _ None, of "render it" pre argc rest "rendered its @ post" c] Cons.prems fuel by (simp add: r)
    also have "\<dots> = Inr ((pre @ map Some (render it)) @ left_over its @ post, apply_items meaning its c)"
      using Cons.prems fuel by (intro Cons.IH) (auto simp: r)
    finally show ?thesis by (simp add: r left_over_def apply_items_def None)
  next
    case (Some f)
    obtain n where n: "length (render it) = Suc n" using ne by (cases "render it") auto
    have "step argc (length pre) (pre @ map Some (render it) @ rendered its @ post, c)
        = Inr (length pre + n, pre @ replicate (Suc n) None @ rendered its @ post, f c)"
      using own_step [OF _ Some, of pre argc "rendered its @ post" c] Cons.prems by (simp add: r n)
    then have "args_loop fuel step argc (length pre) (pre @ map Some (render it) @ rendered its @ post, c)
        = args_loop (n + rest) step argc (length (pre @ replicate (Suc n) None))
            ((pre @ replicate (Suc n) None) @ rendered its @ post, f c)"
      using Cons.prems(2) by (simp add: fuel n r)
    also have "\<dots> = Inr ((pre @ replicate (Suc n) None) @ left_over its @ post, apply_items meaning its (f c))"
      using Cons.prems fuel n by (intro Cons.IH) (auto simp: r)
    finally show ?thesis by (simp add: r left_over_def apply_items_def Some n)
  qed
qed

lemma filter_left_over: "filter (\<lambda>s. s \<noteq> None) (left_over its) = rendered (others meaning its)"
proof -
  have "filter (\<lambda>s. s \<noteq> None) (map Some xs) = map Some xs" for xs :: "string list" by (induction xs) auto
  then show ?thesis by (induction its) (auto simp: left_over_def rendered_def others_def)
qed

lemma length_left_over: "length (left_over its) = length (rendered its)"
  by (induction its) (auto simp: left_over_def rendered_def)

text \<open>A pass over a command line leaves the command line without its items.\<close>

lemma pass_items:
  assumes "\<forall>it \<in> set its. scope it"
  shows "\<exists>stale'. parse_pass step (Suc (length (rendered its)), Some prog # rendered its @ stale, c)
           = Inr (Suc (length (rendered (others meaning its))), Some prog # rendered (others meaning its) @ stale',
                  apply_items meaning its c)"
proof -
  have "args_loop (Suc (length (rendered its))) step (Suc (length (rendered its))) 1 (Some prog # rendered its @ stale, c)
      = Inr (Some prog # left_over its @ stale, apply_items meaning its c)"
    using loop_items [OF assms, of "Suc (length (rendered its))" "[Some prog]" "Suc (length (rendered its))" stale c] by simp
  then show ?thesis
    by (simp add: parse_pass_def shd_pack_remaining_args_def Let_def filter_left_over length_left_over
        del: args_loop.simps not_None_eq)
qed

end

subsection \<open>The four passes\<close>

lemma plain_simps [simp]: "plain (c # s) \<longleftrightarrow> c \<noteq> CHR ''-''"
  by (simp add: plain_def)

lemma lookup_names: "x \<in> set (target_names) \<Longrightarrow> map_of target_names (fst x) = Some (snd x)"
  "y \<in> set log_level_names \<Longrightarrow> map_of log_level_names (fst y) = Some (snd y)"
  "z \<in> set execution_model_names \<Longrightarrow> map_of execution_model_names (fst z) = Some (snd z)"
  "w \<in> set int_size_names \<Longrightarrow> map_of int_size_names (fst w) = Some (snd w)"
  by (auto simp: target_names_def log_level_names_def execution_model_names_def int_size_names_def)

lemma take_value_here:
  assumes "store (Some v) c = Inr c'" and "length pre + 2 \<le> argc"
  shows "take_value missing store argc (length pre) (pre @ Some a # Some v # post, c)
       = Inr (Suc (length pre), pre @ None # None # post, c')"
  using assms by (simp add: take_value_def argument_def Let_def nth_append list_update_append)

lemma argument_here: "argument (pre @ a # post) (length pre) = Inr a"
  by (simp add: argument_def)

text \<open>Every argument of an item is its option or does not look like one.\<close>

lemma valid_plain:
  assumes "valid_item it"
  shows "list_all plain (tl (render it)) \<and> (input_item it \<noteq> None \<longrightarrow> list_all plain (render it))"
proof -
  have "plain (fst x)" if "x \<in> set target_names" for x using that by (auto simp: target_names_def)
  moreover have "plain (fst x)" if "x \<in> set log_level_names" for x using that by (auto simp: log_level_names_def)
  moreover have "plain (fst x)" if "x \<in> set execution_model_names" for x using that by (auto simp: execution_model_names_def)
  moreover have "plain (fst x)" if "x \<in> set int_size_names" for x using that by (auto simp: int_size_names_def)
  ultimately show ?thesis using assms plain_decimal by (cases it) simp_all
qed

lemma render_cases:
  assumes "valid_item it" and "a \<in> set (render it)"
  obtains "plain a" | "input_item it = None" "a = hd (render it)"
  using valid_plain [OF assms(1)] assms(2) by (cases "render it") (auto simp: list_all_iff)

text \<open>The names of the switches.\<close>

lemma toggle_names:
  "map snd COMPILER_CONFIG_TOGGLE_OPTIONS =
     [''emulate-physical-memory'', ''emulate-generic-pointers'', ''dynamic-scheduling'', ''lift-join-points'',
      ''print-internal'', ''print-builtin'', ''print-generated'', ''inline-everything'', ''restructure-everything'',
      ''add-scope-annotations'', ''has-scope-annotations'']"
  by (simp add: COMPILER_CONFIG_TOGGLE_OPTIONS_def)

definition toggle_texts :: "string list" where
  "toggle_texts = map ((@) ''--no-'') (map snd COMPILER_CONFIG_TOGGLE_OPTIONS)
     @ map ((@) ''--'') (map snd COMPILER_CONFIG_TOGGLE_OPTIONS)"

lemma toggle_text: "valid_item (Toggle b t) \<Longrightarrow> hd (render (Toggle b t)) \<in> set toggle_texts"
  by (auto simp: toggle_texts_def)

lemma no_toggle: "a \<notin> set toggle_texts \<Longrightarrow> parse_toggle a = None"
  by (force simp: parse_toggle_def find_None_iff toggle_texts_def)

lemma toggle_options:
  "list_all (\<lambda>a. a \<notin> set toggle_texts) [''--output'', ''-o'', ''--dump-cfg'', ''--dump-loop-tree'', ''--dump-ir'', ''--glsl-version'', ''--target'',
    ''--log-level'', ''--entry-point'', ''--subgroup-size'', ''--stack-size'', ''--execution-model'', ''--word-size'',
    ''--pointer-size'']"
  unfolding toggle_texts_def toggle_names by code_simp

lemma plain_toggle: "plain a \<Longrightarrow> a \<notin> set toggle_texts"
  by (auto simp: toggle_texts_def)

lemma distinct_toggles: "distinct toggle_texts"
  unfolding toggle_texts_def toggle_names by code_simp

lemma find_unique:
  assumes "x \<in> set xs" and "P x" and "\<And>y. y \<in> set xs \<Longrightarrow> P y \<Longrightarrow> y = x"
  shows "List.find P xs = Some x"
proof (cases "List.find P xs")
  case None
  then show ?thesis using assms(1,2) by (auto simp: find_None_iff)
next
  case (Some y)
  then have "y \<in> set xs" "P y" by (auto simp: find_Some_iff)
  then show ?thesis using assms(3) Some by simp
qed

lemma disjoint_map_append: "distinct (map f xs @ map g xs) \<Longrightarrow> x \<in> set xs \<Longrightarrow> y \<in> set xs \<Longrightarrow> f x \<noteq> g y"
  by (metis disjoint_iff distinct_append image_eqI set_map)

lemma find_toggle:
  assumes "distinct (map snd ts)" and "\<And>u v. u \<in> set ts \<Longrightarrow> v \<in> set ts \<Longrightarrow> p @ snd u \<noteq> q @ snd v"
    and "t \<in> set ts" and "a = p @ snd t \<or> a = q @ snd t"
  shows "List.find (\<lambda>(f, name). a = p @ name \<or> a = q @ name) ts = Some t"
proof (rule find_unique)
  show "t \<in> set ts" "case t of (f, name) \<Rightarrow> a = p @ name \<or> a = q @ name" using assms(3,4) by (auto split: prod.splits)
  show "u = t" if "u \<in> set ts" "case u of (f, name) \<Rightarrow> a = p @ name \<or> a = q @ name" for u
  proof -
    have "snd u = snd t" using that assms(2) [of t u] assms(2) [of u t] assms(3,4) by (cases u) auto
    then show ?thesis using assms(1,3) that(1) by (simp add: distinct_map inj_on_def)
  qed
qed

lemma toggle_known:
  assumes t: "t \<in> set COMPILER_CONFIG_TOGGLE_OPTIONS"
  shows "parse_toggle ((if b then ''--'' else ''--no-'') @ snd t) = Some (fst t b)"
proof -
  let ?T = "COMPILER_CONFIG_TOGGLE_OPTIONS" and ?a = "(if b then ''--'' else ''--no-'') @ snd t"
  have d1: "distinct (map snd ?T)" unfolding toggle_names by code_simp
  have d2: "''--no-'' @ snd u \<noteq> ''--'' @ snd v" if "u \<in> set ?T" "v \<in> set ?T" for u v
  proof -
    have "snd u \<in> set (map snd ?T)" "snd v \<in> set (map snd ?T)" using that by (simp_all only: set_map imageI)
    from disjoint_map_append [OF distinct_toggles [unfolded toggle_texts_def] this] show ?thesis .
  qed
  have "List.find (\<lambda>(f, name). ?a = ''--no-'' @ name \<or> ?a = ''--'' @ name) ?T = Some t"
    using d1 d2 t by (rule find_toggle) auto
  moreover have "?a \<noteq> ''--no-'' @ snd t \<longleftrightarrow> b"
    using d2 [OF t t, THEN not_sym] by (cases b) (simp_all only: if_True if_False simp_thms)
  ultimately show ?thesis by (simp only: parse_toggle_def split_def option.map fst_conv snd_conv)
qed

interpretation driver: arg_pass driver_arg driver_item valid_item
proof
  show "driver_arg argc (length pre) (pre @ map Some (render it) @ post, c)
      = Inr (length pre + length (render it) - 1, pre @ replicate (length (render it)) None @ post, f c)"
    if "valid_item it" "driver_item it = Some f" "length pre + length (render it) \<le> argc" for it f pre argc post c
    using that
    by (cases it) (auto simp: driver_arg_def argument_here nonnull_def take_value_here atoi_decimal lookup_names numeral_2_eq_2)
  show "driver_arg argc i (argv, c) = Inr (i, argv, c)"
    if "valid_item it" "driver_item it = None" "a \<in> set (render it)" "i < length argv" "argv ! i = Some a" for it a i argv argc c
  proof -
    let ?names = "[''--output'', ''-o'', ''--dump-cfg'', ''--dump-loop-tree'', ''--dump-ir'', ''--glsl-version'', ''--target'']"
    from that(1,3) have "a \<notin> set ?names"
    proof (cases rule: render_cases)
      case 1
      then show ?thesis by auto
    next
      case 2
      show ?thesis
      proof (cases "\<exists>b t. it = Toggle b t")
        case True
        with 2 that(1) toggle_text have "a \<in> set toggle_texts" by (auto simp del: render.simps)
        then show ?thesis using toggle_options by auto
      next
        case False
        with 2 that(2) show ?thesis by (cases it) simp_all
      qed
    qed
    then show ?thesis using that(4,5) by (simp add: driver_arg_def argument_def nonnull_def)
  qed
qed

interpretation common: arg_pass common_arg common_item valid_item
proof
  show "common_arg argc (length pre) (pre @ map Some (render it) @ post, c)
      = Inr (length pre + length (render it) - 1, pre @ replicate (length (render it)) None @ post, f c)"
    if "valid_item it" "common_item it = Some f" "length pre + length (render it) \<le> argc" for it f pre argc post c
  proof -
    from that(2) obtain l where "it = Level l" by (cases it) simp_all
    with that show ?thesis
      by (auto simp: common_arg_def argument_here nonnull_def take_value_here lookup_names numeral_2_eq_2)
  qed
  show "common_arg argc i (argv, c) = Inr (i, argv, c)"
    if "valid_item it" "common_item it = None" "a \<in> set (render it)" "i < length argv" "argv ! i = Some a" for it a i argv argc c
  proof -
    from that(1,3) have "a \<noteq> ''--log-level''"
    proof (cases rule: render_cases)
      case 1
      then show ?thesis by auto
    next
      case 2
      show ?thesis
      proof (cases "\<exists>b t. it = Toggle b t")
        case True
        with 2 that(1) toggle_text have "a \<in> set toggle_texts" by (auto simp del: render.simps)
        then show ?thesis using toggle_options by auto
      next
        case False
        with 2 that(2) show ?thesis by (cases it) simp_all
      qed
    qed
    then show ?thesis using that(4,5) by (simp add: common_arg_def argument_def)
  qed
qed

lemma not_toggles:
  "parse_toggle ''--entry-point'' = None" "parse_toggle ''--subgroup-size'' = None" "parse_toggle ''--stack-size'' = None"
  "parse_toggle ''--execution-model'' = None" "parse_toggle ''--word-size'' = None" "parse_toggle ''--pointer-size'' = None"
  "parse_toggle ''--output'' = None" "parse_toggle ''--dump-cfg'' = None" "parse_toggle ''--dump-loop-tree'' = None"
  "parse_toggle ''--dump-ir'' = None" "parse_toggle ''--glsl-version'' = None" "parse_toggle ''--target'' = None"
  "parse_toggle ''--log-level'' = None"
  using toggle_options by (simp_all only: list.pred_inject no_toggle simp_thms)

lemma other_options:
  "config_value ''--output'' = None" "config_value ''--dump-cfg'' = None" "config_value ''--dump-loop-tree'' = None"
  "config_value ''--dump-ir'' = None" "config_value ''--glsl-version'' = None" "config_value ''--target'' = None"
  "config_value ''--log-level'' = None"
  by (simp_all add: config_value_def)

lemma plain_no_value: "plain a \<Longrightarrow> config_value a = None"
  by (cases a) (simp_all add: config_value_def)

lemmas config_values = config_value_def [of "''--entry-point''", simplified] config_value_def [of "''--subgroup-size''", simplified]
  config_value_def [of "''--stack-size''", simplified] config_value_def [of "''--execution-model''", simplified]
  config_value_def [of "''--word-size''", simplified] config_value_def [of "''--pointer-size''", simplified]

lemma config_arg_value:
  assumes "parse_toggle a = None" and "config_value a = Some (missing, store)"
    and "store (Some v) c = Inr c'" and "length pre + 2 \<le> argc"
  shows "config_arg argc (length pre) (pre @ Some a # Some v # post, c) = Inr (Suc (length pre), pre @ None # None # post, c')"
  using assms by (simp add: config_arg_def argument_here take_value_here)

interpretation compiler: arg_pass config_arg config_item valid_item
proof
  show "config_arg argc (length pre) (pre @ map Some (render it) @ post, c)
      = Inr (length pre + length (render it) - 1, pre @ replicate (length (render it)) None @ post, f c)"
    if "valid_item it" "config_item it = Some f" "length pre + length (render it) \<le> argc" for it f pre argc post c
  proof (cases it)
    case (Toggle b t)
    moreover from this that(1) have "parse_toggle ((if b then ''--'' else ''--no-'') @ snd t) = Some (fst t b)"
      by (intro toggle_known) simp
    ultimately show ?thesis using that by (simp add: config_arg_def argument_here)
  next
    case EntryPoint
    with that show ?thesis using config_arg_value [OF not_toggles(1) config_values(1)] by auto
  next
    case SubgroupSize
    with that show ?thesis using config_arg_value [OF not_toggles(2) config_values(2)] by (auto simp: nonnull_def atoi_decimal)
  next
    case StackSize
    with that show ?thesis using config_arg_value [OF not_toggles(3) config_values(3)] by (auto simp: nonnull_def atoi_decimal)
  next
    case ExecModel
    with that show ?thesis using config_arg_value [OF not_toggles(4) config_values(4)] by (auto simp: nonnull_def lookup_names)
  next
    case WordSize
    with that show ?thesis
      using config_arg_value [OF not_toggles(5) config_values(5)] by (auto simp: nonnull_def parse_int_size_def lookup_names)
  next
    case PointerSize
    with that show ?thesis
      using config_arg_value [OF not_toggles(6) config_values(6)] by (auto simp: nonnull_def parse_int_size_def lookup_names)
  qed (use that(2) in simp_all)
  show "config_arg argc i (argv, c) = Inr (i, argv, c)"
    if "valid_item it" "config_item it = None" "a \<in> set (render it)" "i < length argv" "argv ! i = Some a" for it a i argv argc c
  proof -
    from that(1,3) have "parse_toggle a = None \<and> config_value a = None"
    proof (cases rule: render_cases)
      case 1
      then show ?thesis using plain_toggle no_toggle plain_no_value by blast
    next
      case 2
      with that(2) show ?thesis by (cases it) (simp_all add: not_toggles other_options)
    qed
    then show ?thesis using that(4,5) by (simp add: config_arg_def argument_def)
  qed
qed

interpretation inputs: arg_pass input_arg input_item "\<lambda>it. input_item it \<noteq> None"
proof
  show "input_arg argc (length pre) (pre @ map Some (render it) @ post, c)
      = Inr (length pre + length (render it) - 1, pre @ replicate (length (render it)) None @ post, f c)"
    if "input_item it \<noteq> None" "input_item it = Some f" "length pre + length (render it) \<le> argc" for it f pre argc post c
    using that by (cases it) (auto simp: input_arg_def argument_here)
qed simp

subsection \<open>The command line\<close>

lemma valid_others: "\<forall>it \<in> set its. valid_item it \<Longrightarrow> \<forall>it \<in> set (others meaning its). valid_item it"
  by (simp add: others_def)

lemma apply_others:
  assumes "\<And>it. meaning it \<noteq> None \<Longrightarrow> other it = None"
  shows "apply_items meaning (others other its) = apply_items meaning its"
proof
  show "apply_items meaning (others other its) c = apply_items meaning its c" for c
  proof (induction its arbitrary: c)
    case (Cons it its)
    show ?case using assms [of it] Cons.IH by (cases "meaning it") (simp_all add: apply_items_def others_def)
  qed (simp add: apply_items_def others_def)
qed

lemma last_others:
  assumes "its' = others config_item (others common_item (others driver_item its))"
  shows "\<forall>it \<in> set its'. input_item it \<noteq> None" and "others input_item its' = []"
proof -
  have "input_item it \<noteq> None" if "driver_item it = None" "common_item it = None" "config_item it = None" for it
    using that by (cases it) auto
  then show "\<forall>it \<in> set its'. input_item it \<noteq> None" "others input_item its' = []"
    by (auto simp: assms others_def filter_empty_conv)
qed



text \<open>
  Two options do not check that their value is there. At the end of the command line that is the final \<^verbatim>\<open>NULL\<close>, which
  is compared with a text, or what packing has left behind: here a file name is also taken as the word size.
\<close>

lemma word_size_without_value:
  "parse_command_line 3 (map Some [''slim'', ''a.slim'', ''--word-size''] @ [None]) = Inl NullDeref"
  "(case parse_command_line 6 (map Some [''slim'', ''a.slim'', ''--log-level'', ''info'', ''8'', ''--word-size''] @ [None]) of
      Inl _ \<Rightarrow> False
    | Inr (c, _) \<Rightarrow> word_size (memory (target_config (compiler_config c))) = IntTy8 \<and> input_filenames c = [''a.slim'', ''8''])"
  by code_simp+

end
