(* ===== verification/Spec2Isabelle.thy ===== *)
theory Spec2Isabelle
  imports ListC DictDrift SpirvProps ArenaC TextC IrIntern IrLayout IrFoldProps IrLoopProps SlimTokenProps SwitchTree DriverProps
begin

text \<open>
  A model of the core of the Shady compiler, an optimising compiler for shading languages written in C, with the
  theorems that make its parts correct. Paths below are under \<^verbatim>\<open>src/\<close> of the repository.

  \<^bold>\<open>How the program is put together.\<close> Front ends (Slim, SPIR-V, LLVM) build nodes of an intermediate representation in
  an arena that interns them (\<^verbatim>\<open>shady/ir.c\<close>, \<^verbatim>\<open>shady/ir/\<close>). The creation of a node checks its type
  (\<^verbatim>\<open>shady/check.c\<close>) and folds it (\<^verbatim>\<open>shady/fold.c\<close>). Passes rewrite modules and ask analyses
  (\<^verbatim>\<open>shady/analysis/\<close>) for control flow graphs, dominators and loops. Back ends write SPIR-V words
  (\<^verbatim>\<open>backend/spirv/\<close>) or C. All of it rests on the containers of \<^verbatim>\<open>common/\<close>: growable arrays, hash tables,
  region arenas, growing buffers, printers.

  \<^bold>\<open>Conventions.\<close> Theory \<open>Prelude\<close> holds the result type of fallible operations: \<open>Inl\<close> is an assertion that fails,
  an access outside of an allocation, an error the code reports, or spent fuel; \<open>Inr\<close> is a result. Definitions keep
  the names of the C functions. Records are the structs, pointers to shared objects are positions in lists, \<open>size_t\<close> is
  a natural number where no overflow is possible or a word of 64 bits where one is. Sums, shifts and masks of machine
  integers are those of words.

  \<^bold>\<open>Containers.\<close> \<open>ListC\<close> models \<^verbatim>\<open>common/list.c\<close>: the count, the allocated space and the cells of an array; the
  locale \<open>vector_impl\<close> states what clients rely on and is interpreted on the model. Appending any sequence keeps it;
  removal from a full array reads behind the allocation. \<open>DictC\<close> models \<^verbatim>\<open>common/dict.c\<close>: buckets with tombstones,
  linear probing, growth. \<open>DictProofs\<close>, \<open>DictMap\<close>, \<open>DictProps\<close> show that a table is a finite map: the locale
  \<open>hash_key\<close> has the laws of a hash and a comparison, \<open>map_client\<close> those of the map, the first gives the second, and
  it is interpreted on the functions the code passes (pointers, strings, 32-bit words). \<open>DictDrift\<close> holds a history
  after which the tombstone counter is wrong. \<open>ArenaC\<close> models \<^verbatim>\<open>common/arena.c\<close> (regions never overlap),
  \<open>GrowyC\<close> \<^verbatim>\<open>common/growy.c\<close> and \<^verbatim>\<open>common/printer.c\<close> (appending, indentation), \<open>TextC\<close> the escapes and paths
  of \<^verbatim>\<open>common/util.c\<close>, \<open>IrIntern\<close> the interning of \<^verbatim>\<open>shady/ir.c\<close>.

  \<^bold>\<open>SPIR-V builder.\<close> \<open>SpirvWords\<close>, \<open>SpirvBuilder\<close> model every operation of \<^verbatim>\<open>backend/spirv/spirv_builder.c\<close>. The
  numbers of opcodes come from a header that is not part of the repository and are a parameter of the model.
  \<open>SpirvModule\<close> states which instruction each call stands for, \<open>SpirvClient\<close> whole interleaved histories of calls over
  one module and any number of functions, with a recorder of instructions as the specification; \<open>SpirvProps\<close> shows that
  the words of the finished module read back as the recorded instructions in the order of the layout, that ids are
  fresh, that bytes are in order on each host, and that the 16-bit word count is not guarded.

  \<^bold>\<open>Nodes, types, checks, folding.\<close> \<open>IrGrammar\<close> has the node types of \<^verbatim>\<open>shady/grammar.json\<close> the other parts use;
  \<open>IrType\<close> the type system and literals (\<^verbatim>\<open>shady/ir/type.c\<close>, \<^verbatim>\<open>int.c\<close>, \<^verbatim>\<open>float.c\<close>, \<^verbatim>\<open>composite.c\<close>,
  \<^verbatim>\<open>shady/analysis/literal.c\<close>); \<open>IrBuiltin\<close> annotations and built-in variables; \<open>IrCheck\<close> the typing rules of
  \<^verbatim>\<open>shady/check.c\<close>; \<open>IrLayout\<close> sizes and offsets (\<^verbatim>\<open>shady/ir/memory_layout.c\<close>); \<open>IrFold\<close> the creation of nodes
  with constant folding. \<open>IrTypeProps\<close>, \<open>IrCheckProps\<close>, \<open>IrCheckSound\<close>, \<open>IrFoldProps\<close> show that subtyping is a
  preorder, what accepted nodes satisfy, that uniformity is sound, that folding keeps values (and where it does not),
  that fields of a record are aligned and disjoint.

  \<^bold>\<open>Control flow.\<close> \<open>IrCfg\<close> models \<^verbatim>\<open>shady/analysis/cfg.c\<close>: construction, validation, inversion, numbering,
  dominators. \<open>FlowGraph\<close> is the theory of dominators the model is compared with, \<open>IrCfgBuild\<close> shows that construction
  ends and its edges are consistent, \<open>IrCfgRpo\<close> that the numbering is a depth-first one, \<open>IrCfgDom\<close> that the dominator
  tree is that of the graph, \<open>IrCfgProps\<close> puts them together for the graph of a function. \<open>IrLoop\<close> models
  \<^verbatim>\<open>shady/analysis/looptree.c\<close>, the tree of the loops of a graph: \<open>IrLoopWalk\<close> shows what one walk over the strongly
  connected components adds to the tree, \<open>IrLoopBuild\<close> what the nested walks add, \<open>IrLoopProps\<close> that every node has
  one leaf, which the lookup finds, and what becomes of graphs restricted to a loop of the tree. \<open>SwitchTree\<close> models
  the search tree of \<^verbatim>\<open>shady/passes/lower_switch_btree.c\<close>: it is a map of the cases of logarithmic height.

  \<^bold>\<open>Slim front end.\<close> \<open>SlimToken\<close> models the tokenizer, \<open>frontend/slim/token.c\<close>; \<open>SlimTokenProps\<close> shows that it
  ends, what its tokens are, that printed tokens read back, and that an unclosed string is read past its end.

  \<^bold>\<open>Driver.\<close> \<open>DriverCli\<close> models the passes over the command line in \<^verbatim>\<open>driver/cli.c\<close>, in the order in which
  \<^verbatim>\<open>main\<close> of \<^verbatim>\<open>driver/slim.c\<close> makes them, and the default configurations. In \<open>DriverProps\<close> the locale \<open>arg_pass\<close> states
  what one pass does with the arguments it knows and those it leaves; it is interpreted on the four passes, and a command
  line printed from options reads back as the configuration they describe.

  \<^bold>\<open>Fuel.\<close> Loops over arrays are recursions on the array. The walks over graphs have fuel: the walk that builds a graph
  can enter every abstraction once, marking and numbering can descend once per node, and the dominator loop can move
  every node up its chain of possible parents; a walk of the loop tree enters every node of the graph once, nested walks
  have fewer nodes that are not known as heads, and the map of the leaves descends in the tree (\<open>loop_tree_leaves\<close>); theorems \<open>new_cfg_terminates\<close> and \<open>compute_rpo_reachable\<close> show that the
  chosen bounds suffice. The probe loop of the hash table has the size of the table as fuel (\<open>dict_insert_total\<close>), the
  growth of a buffer doubles at most 64 times (\<open>growy_append_all\<close>), the scanner advances in a source of finite length
  (\<open>tokenize_sound\<close>), a pass over the arguments advances at every step, the typing and folding of nodes have the depth of the expression as theirs.

  \<^bold>\<open>Not modelled.\<close> Input and output, memory exhaustion, formatting by the C library, freeing of memory where it has no
  effect on results; the generated tables of nodes apart from what \<open>IrGrammar\<close> states of them; the passes, the emission
  of SPIR-V and C from nodes, the LLVM and SPIR-V front ends, the printer of nodes, the parser and the binder of Slim,
  and the run-time libraries for Vulkan and CUDA, which drive interfaces that are not part of the repository.
\<close>

end
